(* ===== verification/Ocelotl_Prelude.thy ===== *)
theory Ocelotl_Prelude imports Main "HOL-Library.Word"
begin

text \<open>
  What every component of the development shares: the result of a fallible Rust function
  (\<open>outcome\<close>: a value, a returned error, or a panic), its sequencing (\<open>and_then\<close>, the
  \<open>?\<close> operator), loops that stop at the first failure (\<open>try_map\<close>, \<open>try_fold\<close>), 64-bit
  \<open>usize\<close> and \<open>u64\<close> arithmetic on natural numbers with the overflow written out,
  slices of vectors, and the collections \<open>res_simps\<close>, \<open>width_simps\<close> and \<open>slice_simps\<close>
  that the component proofs rewrite with.
\<close>

named_theorems res_simps
named_theorems width_simps
named_theorems slice_simps

section \<open>Results\<close>

text \<open>
  \<open>Ok\<close> and \<open>Err\<close> are the constructors of Rust's \<open>Result\<close>; \<open>Panic\<close> is an unwinding
  abort (an index out of range, a failed \<open>expect\<close>, an arithmetic overflow).
\<close>

datatype ('a, 'e) outcome = Ok 'a | Err 'e | Panic

fun and_then :: "('a, 'e) outcome \<Rightarrow> ('a \<Rightarrow> ('b, 'e) outcome) \<Rightarrow> ('b, 'e) outcome" where
  "and_then (Ok x) f = f x"
| "and_then (Err e) f = Err e"
| "and_then Panic f = Panic"

definition ok_or :: "'a option \<Rightarrow> 'e \<Rightarrow> ('a, 'e) outcome" where
  "ok_or v e = (case v of None \<Rightarrow> Err e | Some x \<Rightarrow> Ok x)"

definition or_panic :: "'a option \<Rightarrow> ('a, 'e) outcome" where
  "or_panic v = (case v of None \<Rightarrow> Panic | Some x \<Rightarrow> Ok x)"

fun is_ok :: "('a, 'e) outcome \<Rightarrow> bool" where
  "is_ok (Ok x) = True"
| "is_ok (Err e) = False"
| "is_ok Panic = False"

text \<open>
  A method on \<open>&mut self\<close> that can fail after it has changed the object: the object after the
  call, beside the result.
\<close>

fun and_then_st ::
    "'s \<times> ('a, 'e) outcome \<Rightarrow> ('s \<Rightarrow> 'a \<Rightarrow> 's \<times> ('b, 'e) outcome) \<Rightarrow> 's \<times> ('b, 'e) outcome" where
  "and_then_st (s, Ok x) f = f s x"
| "and_then_st (s, Err e) f = (s, Err e)"
| "and_then_st (s, Panic) f = (s, Panic)"

lemma and_then_st_Ok_iff [res_simps]:
  "and_then_st r f = (t, Ok y) \<longleftrightarrow> (\<exists>s x. r = (s, Ok x) \<and> f s x = (t, Ok y))"
  by (cases "(r, f)" rule: and_then_st.cases) auto

lemma and_then_Ok_iff [res_simps]:
  "and_then r f = Ok y \<longleftrightarrow> (\<exists>x. r = Ok x \<and> f x = Ok y)"
  by (cases r) auto

lemma and_then_Err_iff [res_simps]:
  "and_then r f = Err e \<longleftrightarrow> r = Err e \<or> (\<exists>x. r = Ok x \<and> f x = Err e)"
  by (cases r) auto

lemma and_then_Panic_iff [res_simps]:
  "and_then r f = Panic \<longleftrightarrow> r = Panic \<or> (\<exists>x. r = Ok x \<and> f x = Panic)"
  by (cases r) auto

lemma ok_or_Ok_iff [simp]: "ok_or v e = Ok x \<longleftrightarrow> v = Some x"
  by (auto simp: ok_or_def split: option.splits)

lemma ok_or_Err_iff [simp]: "ok_or v e = Err e' \<longleftrightarrow> v = None \<and> e' = e"
  by (auto simp: ok_or_def split: option.splits)

lemma ok_or_Panic_iff [simp]: "ok_or v e \<noteq> Panic"
  by (auto simp: ok_or_def split: option.splits)

lemma ok_or_simps [simp]: "ok_or None e = Err e" "ok_or (Some x) e = Ok x"
  by (simp_all add: ok_or_def)

lemma or_panic_simps [simp]: "or_panic None = Panic" "or_panic (Some x) = Ok x"
  by (simp_all add: or_panic_def)

lemma or_panic_iff [simp]:
  "or_panic v = Ok x \<longleftrightarrow> v = Some x" "or_panic v \<noteq> Err e" "or_panic v = Panic \<longleftrightarrow> v = None"
  by (auto simp: or_panic_def split: option.splits)

lemma is_ok_iff: "is_ok r \<longleftrightarrow> (\<exists>x. r = Ok x)"
  by (cases r) auto

lemma if_Err_Ok_iff [res_simps]:
  "(if b then Err e else r) = Ok y \<longleftrightarrow> \<not> b \<and> r = Ok y"
  "(if b then Err e else r) = Panic \<longleftrightarrow> \<not> b \<and> r = Panic"
  "(if b then Panic else r) = Ok y \<longleftrightarrow> \<not> b \<and> r = Ok y"
  "(if b then Panic else r) = Err e' \<longleftrightarrow> \<not> b \<and> r = Err e'"
  by auto

section \<open>Loops that stop at the first failure\<close>

fun try_map :: "('a \<Rightarrow> ('b, 'e) outcome) \<Rightarrow> 'a list \<Rightarrow> ('b list, 'e) outcome" where
  "try_map f [] = Ok []"
| "try_map f (x # xs) = and_then (f x) (\<lambda>y. and_then (try_map f xs) (\<lambda>ys. Ok (y # ys)))"

fun try_fold :: "('s \<Rightarrow> 'a \<Rightarrow> ('s, 'e) outcome) \<Rightarrow> 's \<Rightarrow> 'a list \<Rightarrow> ('s, 'e) outcome" where
  "try_fold f s [] = Ok s"
| "try_fold f s (x # xs) = and_then (f s x) (\<lambda>s'. try_fold f s' xs)"

lemma try_map_Ok_iff: "try_map f xs = Ok ys \<longleftrightarrow> list_all2 (\<lambda>x y. f x = Ok y) xs ys"
  by (induction xs arbitrary: ys) (auto simp: res_simps list_all2_Cons1)

lemma try_map_all_Ok: "(\<And>x. x \<in> set xs \<Longrightarrow> f x = Ok (g x)) \<Longrightarrow> try_map f xs = Ok (map g xs)"
  by (induction xs) auto

lemma try_map_no_Panic: "(\<And>x. x \<in> set xs \<Longrightarrow> f x \<noteq> Panic) \<Longrightarrow> try_map f xs \<noteq> Panic"
  by (induction xs) (auto simp: res_simps)

lemma try_map_length: "try_map f xs = Ok ys \<Longrightarrow> length ys = length xs"
  by (auto simp: try_map_Ok_iff dest: list_all2_lengthD)

lemma try_fold_append:
  "try_fold f s (xs @ ys) = and_then (try_fold f s xs) (\<lambda>s'. try_fold f s' ys)"
proof (induction xs arbitrary: s)
  case (Cons x xs)
  then show ?case by (cases "f s x") auto
qed simp

lemma try_fold_invariant:
  assumes "try_fold f s xs = Ok t" and "P s"
    and "\<And>s x t. P s \<Longrightarrow> x \<in> set xs \<Longrightarrow> f s x = Ok t \<Longrightarrow> P t"
  shows "P t"
  using assms
proof (induction xs arbitrary: s)
  case (Cons x xs)
  from Cons.prems(1) obtain s' where "f s x = Ok s'" and "try_fold f s' xs = Ok t"
    by (auto simp: res_simps)
  moreover from this(1) Cons.prems(2,3) have "P s'" by (meson list.set_intros(1))
  ultimately show ?case using Cons.IH Cons.prems(3) by (meson list.set_intros(2))
qed simp

section \<open>64-bit unsigned arithmetic on natural numbers\<close>

text \<open>
  \<open>usize\<close> (on the 64-bit targets the program runs on) and \<open>u64\<close> hold the numbers up to
  \<open>max64\<close>. Both are natural numbers here; every operation that can leave the range says
  what the source does then: \<open>checked_add\<close> and \<open>checked_mul\<close> give \<open>None\<close>, the plain
  \<open>+\<close> and \<open>-\<close> of the source panic (\<open>plus_u64\<close>, \<open>minus_u64\<close>).
\<close>

type_synonym usize = nat
type_synonym u64 = nat

definition max64 :: nat where
  "max64 = 2 ^ 64 - 1"

definition checked_add :: "nat \<Rightarrow> nat \<Rightarrow> nat option" where
  "checked_add a b = (if a + b \<le> max64 then Some (a + b) else None)"

definition checked_mul :: "nat \<Rightarrow> nat \<Rightarrow> nat option" where
  "checked_mul a b = (if a * b \<le> max64 then Some (a * b) else None)"

definition checked_sub :: "nat \<Rightarrow> nat \<Rightarrow> nat option" where
  "checked_sub a b = (if b \<le> a then Some (a - b) else None)"

definition plus_u64 :: "nat \<Rightarrow> nat \<Rightarrow> (nat, 'e) outcome" where
  "plus_u64 a b = (if a + b \<le> max64 then Ok (a + b) else Panic)"

definition minus_u64 :: "nat \<Rightarrow> nat \<Rightarrow> (nat, 'e) outcome" where
  "minus_u64 a b = (if b \<le> a then Ok (a - b) else Panic)"

definition times_u64 :: "nat \<Rightarrow> nat \<Rightarrow> (nat, 'e) outcome" where
  "times_u64 a b = (if a * b \<le> max64 then Ok (a * b) else Panic)"

text \<open>\<open>dims.iter().copied().try_fold(1usize, usize::checked_mul)\<close>\<close>

fun try_product :: "nat \<Rightarrow> nat list \<Rightarrow> nat option" where
  "try_product acc [] = Some acc"
| "try_product acc (d # ds) =
     (case checked_mul acc d of None \<Rightarrow> None | Some acc' \<Rightarrow> try_product acc' ds)"

lemma max64_pos [simp]: "0 < max64" "max64 \<noteq> 0" "Suc 0 \<le> max64"
  by (simp_all add: max64_def)

lemma checked_add_Some_iff [simp, width_simps]:
  "checked_add a b = Some c \<longleftrightarrow> c = a + b \<and> a + b \<le> max64"
  by (auto simp: checked_add_def)

lemma checked_add_None_iff [simp, width_simps]: "checked_add a b = None \<longleftrightarrow> max64 < a + b"
  by (auto simp: checked_add_def)

lemma checked_mul_Some_iff [simp, width_simps]:
  "checked_mul a b = Some c \<longleftrightarrow> c = a * b \<and> a * b \<le> max64"
  by (auto simp: checked_mul_def)

lemma checked_mul_None_iff [simp, width_simps]: "checked_mul a b = None \<longleftrightarrow> max64 < a * b"
  by (auto simp: checked_mul_def)

lemma checked_sub_Some_iff [simp, width_simps]:
  "checked_sub a b = Some c \<longleftrightarrow> c = a - b \<and> b \<le> a"
  by (auto simp: checked_sub_def)

lemma checked_sub_None_iff [simp, width_simps]: "checked_sub a b = None \<longleftrightarrow> a < b"
  by (auto simp: checked_sub_def)

lemma plus_u64_iff [simp, width_simps]:
  "plus_u64 a b = Ok c \<longleftrightarrow> c = a + b \<and> a + b \<le> max64"
  "plus_u64 a b \<noteq> Err e" "plus_u64 a b = Panic \<longleftrightarrow> max64 < a + b"
  by (auto simp: plus_u64_def)

lemma minus_u64_iff [simp, width_simps]:
  "minus_u64 a b = Ok c \<longleftrightarrow> c = a - b \<and> b \<le> a"
  "minus_u64 a b \<noteq> Err e" "minus_u64 a b = Panic \<longleftrightarrow> a < b"
  by (auto simp: minus_u64_def)

lemma times_u64_iff [simp, width_simps]:
  "times_u64 a b = Ok c \<longleftrightarrow> c = a * b \<and> a * b \<le> max64"
  "times_u64 a b \<noteq> Err e" "times_u64 a b = Panic \<longleftrightarrow> max64 < a * b"
  by (auto simp: times_u64_def)

lemma try_product_SomeD:
  "try_product acc ds = Some p \<Longrightarrow> p = acc * prod_list ds \<and> (ds \<noteq> [] \<longrightarrow> p \<le> max64)"
proof (induction ds arbitrary: acc)
  case (Cons d ds)
  then have "try_product (acc * d) ds = Some p" and "acc * d \<le> max64"
    by (auto split: option.splits)
  with Cons.IH [of "acc * d"] show ?case by (cases "ds = []") (auto simp: mult.assoc)
qed simp

lemma try_product_Some_iff:
  assumes "0 < acc" and "\<forall>d \<in> set ds. 0 < d" and "ds \<noteq> []"
  shows "try_product acc ds = Some p \<longleftrightarrow> p = acc * prod_list ds \<and> p \<le> max64"
  using assms
proof (induction ds arbitrary: acc)
  case (Cons d ds)
  have pos: "0 < prod_list ds"
    using Cons.prems(2) by (auto simp: prod_list_zero_iff intro!: gr0I)
  show ?case
  proof (cases "acc * d \<le> max64")
    case True
    with Cons.prems have "try_product acc (d # ds) = try_product (acc * d) ds"
      by (simp add: checked_mul_def)
    with True Cons.prems Cons.IH [of "acc * d"] show ?thesis
      by (cases "ds = []") (auto simp: mult.assoc)
  next
    case False
    have "acc * d * 1 \<le> acc * d * prod_list ds" using pos by (intro mult_le_mono) auto
    with False have "max64 < acc * d * prod_list ds" by linarith
    with False show ?thesis by (auto simp: checked_mul_def mult.assoc)
  qed
qed simp

section \<open>Slices of vectors\<close>

text \<open>
  \<open>&xs[a..b]\<close> panics unless \<open>a \<le> b \<le> xs.len()\<close>; \<open>dst[a..b].copy_from_slice(src)\<close>
  panics in the same cases and when the lengths differ.
\<close>

definition slice :: "'a list \<Rightarrow> nat \<Rightarrow> nat \<Rightarrow> ('a list, 'e) outcome" where
  "slice xs a b = (if a \<le> b \<and> b \<le> length xs then Ok (take (b - a) (drop a xs)) else Panic)"

definition copy_into :: "'a list \<Rightarrow> nat \<Rightarrow> nat \<Rightarrow> 'a list \<Rightarrow> ('a list, 'e) outcome" where
  "copy_into dst a b src =
     (if a \<le> b \<and> b \<le> length dst \<and> length src = b - a
      then Ok (take a dst @ src @ drop b dst) else Panic)"

lemma slice_iff [slice_simps]:
  "slice xs a b = Ok ys \<longleftrightarrow> a \<le> b \<and> b \<le> length xs \<and> ys = take (b - a) (drop a xs)"
  "slice xs a b \<noteq> Err e" "slice xs a b = Panic \<longleftrightarrow> \<not> (a \<le> b \<and> b \<le> length xs)"
  by (auto simp: slice_def)

lemma copy_into_iff [slice_simps]:
  "copy_into dst a b src = Ok ys \<longleftrightarrow>
     a \<le> b \<and> b \<le> length dst \<and> length src = b - a \<and> ys = take a dst @ src @ drop b dst"
  "copy_into dst a b src \<noteq> Err e"
  "copy_into dst a b src = Panic \<longleftrightarrow> \<not> (a \<le> b \<and> b \<le> length dst \<and> length src = b - a)"
  by (auto simp: copy_into_def)

lemma length_overwrite:
  "a + length src \<le> length dst \<Longrightarrow>
     length (take a dst @ src @ drop (a + length src) dst) = length dst"
  by simp

lemma overwrite_same:
  "a + length src \<le> length dst \<Longrightarrow>
     take (length src) (drop a (take a dst @ src @ drop (a + length src) dst)) = src"
  by simp

text \<open>A window that does not meet the written range reads the old contents.\<close>

lemma overwrite_disjoint:
  assumes "a + length src \<le> length dst" and "b + w \<le> a \<or> a + length src \<le> b"
    and "b + w \<le> length dst"
  shows "take w (drop b (take a dst @ src @ drop (a + length src) dst)) = take w (drop b dst)"
proof (rule nth_equalityI)
  show "length (take w (drop b (take a dst @ src @ drop (a + length src) dst))) =
      length (take w (drop b dst))"
    using assms by (simp only: length_take length_drop length_overwrite)
  fix i
  assume "i < length (take w (drop b (take a dst @ src @ drop (a + length src) dst)))"
  then have "i < w" by (simp only: length_take)
  with assms show "take w (drop b (take a dst @ src @ drop (a + length src) dst)) ! i =
      take w (drop b dst) ! i"
    by (auto simp: nth_append)
qed

end
