(* ===== verification/Core_Types.thy ===== *)
theory Core_Types imports Ocelotl_Prelude
begin

text \<open>
  \<open>ocelotl-core\<close> (src/crates/core/src/lib.rs, limits.rs): the error categories every crate
  returns, the token identifier, device and dtype enums, and the resource ceilings for
  requests and artifacts with their validation. An error value keeps the variant and its
  machine-readable payload: the field of a model or request error, the feature of an
  unsupported one, the backend of a kernel one. The free-text message is kept where it is
  the only payload, as the format string of the source with its placeholders unexpanded.
\<close>

section \<open>Errors and domain types\<close>

datatype ocelotl_error =
    InvalidModel "string option"
  | InvalidRequest string
  | Unsupported string
  | TokenizerError string
  | KernelError string string
  | RuntimeError string
  | IoError

type_synonym 'a res = "('a, ocelotl_error) outcome"

text \<open>\<open>TokenId(pub u32)\<close>\<close>

type_synonym token_id = "32 word"

datatype device = Cpu | Gpu usize

datatype dtype = F32 | F16 | BF16 | Q4 | Q8

definition runtime_err :: "string \<Rightarrow> 'a res" where
  "runtime_err message = Err (RuntimeError message)"

definition invalid_request :: "string \<Rightarrow> 'a res" where
  "invalid_request field = Err (InvalidRequest field)"

definition invalid_model :: "string \<Rightarrow> 'a res" where
  "invalid_model field = Err (InvalidModel (Some field))"

lemmas err_defs = runtime_err_def invalid_request_def invalid_model_def

lemma err_not_Ok [simp]:
  "runtime_err m \<noteq> Ok x" "invalid_request f \<noteq> Ok x" "invalid_model f \<noteq> Ok x"
  "runtime_err m \<noteq> Panic" "invalid_request f \<noteq> Panic" "invalid_model f \<noteq> Panic"
  by (simp_all add: err_defs)

lemma if_err_iff [res_simps]:
  "(if b then runtime_err m else r) = Ok y \<longleftrightarrow> \<not> b \<and> r = Ok y"
  "(if b then invalid_request f else r) = Ok y \<longleftrightarrow> \<not> b \<and> r = Ok y"
  "(if b then invalid_model f else r) = Ok y \<longleftrightarrow> \<not> b \<and> r = Ok y"
  "(if b then runtime_err m else r) = Panic \<longleftrightarrow> \<not> b \<and> r = Panic"
  "(if b then invalid_request f else r) = Panic \<longleftrightarrow> \<not> b \<and> r = Panic"
  "(if b then invalid_model f else r) = Panic \<longleftrightarrow> \<not> b \<and> r = Panic"
  by auto

section \<open>Request limits\<close>

record request_limits =
  rl_max_prompt_tokens :: usize
  rl_max_new_tokens :: usize
  rl_max_context_tokens :: usize
  rl_max_audio_samples :: usize

definition default_request_limits :: request_limits where
  "default_request_limits =
     \<lparr>rl_max_prompt_tokens = 131072, rl_max_new_tokens = 4096,
      rl_max_context_tokens = 131072, rl_max_audio_samples = 30 * 16000\<rparr>"

definition request_limits_validate :: "request_limits \<Rightarrow> unit res" where
  "request_limits_validate l =
     (if rl_max_prompt_tokens l = 0 \<or> rl_max_new_tokens l = 0 \<or>
         rl_max_context_tokens l = 0 \<or> rl_max_audio_samples l = 0
      then invalid_request ''request_limits''
      else if rl_max_context_tokens l < rl_max_prompt_tokens l
      then invalid_request ''request_limits.max_prompt_tokens''
      else if rl_max_context_tokens l < rl_max_new_tokens l
      then invalid_request ''request_limits.max_new_tokens''
      else Ok ())"

definition validate_generation :: "request_limits \<Rightarrow> usize \<Rightarrow> usize \<Rightarrow> usize res" where
  "validate_generation l prompt_tokens max_new_tokens =
     and_then (request_limits_validate l) (\<lambda>_.
     and_then (ok_or (checked_add prompt_tokens max_new_tokens)
                (InvalidRequest ''context_tokens'')) (\<lambda>context_tokens.
       if rl_max_prompt_tokens l < prompt_tokens then invalid_request ''prompt_tokens''
       else if rl_max_new_tokens l < max_new_tokens then invalid_request ''max_new_tokens''
       else if rl_max_context_tokens l < context_tokens then invalid_request ''context_tokens''
       else Ok context_tokens))"

definition validate_audio_samples :: "request_limits \<Rightarrow> usize \<Rightarrow> unit res" where
  "validate_audio_samples l audio_samples =
     and_then (request_limits_validate l) (\<lambda>_.
       if rl_max_audio_samples l < audio_samples then invalid_request ''audio_samples''
       else Ok ())"

text \<open>What a consistent policy is, as one predicate.\<close>

definition consistent_limits :: "request_limits \<Rightarrow> bool" where
  "consistent_limits l \<longleftrightarrow>
     0 < rl_max_prompt_tokens l \<and> 0 < rl_max_new_tokens l \<and> 0 < rl_max_audio_samples l \<and>
     rl_max_prompt_tokens l \<le> rl_max_context_tokens l \<and>
     rl_max_new_tokens l \<le> rl_max_context_tokens l"

lemma request_limits_validate_Ok_iff [simp]:
  "request_limits_validate l = Ok u \<longleftrightarrow> consistent_limits l"
  by (auto simp: request_limits_validate_def consistent_limits_def res_simps)

lemma request_limits_validate_no_Panic [simp]: "request_limits_validate l \<noteq> Panic"
  by (simp add: request_limits_validate_def)

lemma default_request_limits_consistent [simp]: "consistent_limits default_request_limits"
  by (simp add: consistent_limits_def default_request_limits_def)

text \<open>
  C19. A request passes \<open>validate_generation\<close> exactly when the policy is consistent, the
  prompt and the output are within their own ceilings and their sum is within the context
  ceiling and the 64-bit range; the value returned is that sum, and no input panics.
\<close>

theorem validate_generation_exact:
  "(validate_generation l p m = Ok n \<longleftrightarrow>
      consistent_limits l \<and> p \<le> rl_max_prompt_tokens l \<and> m \<le> rl_max_new_tokens l \<and>
      p + m \<le> rl_max_context_tokens l \<and> p + m \<le> max64 \<and> n = p + m)
   \<and> validate_generation l p m \<noteq> Panic"
  by (auto simp: validate_generation_def res_simps)

lemma validate_generation_OkD:
  "validate_generation l p m = Ok n \<Longrightarrow>
     n = p + m \<and> p + m \<le> max64 \<and> p + m \<le> rl_max_context_tokens l"
  by (auto simp: validate_generation_def res_simps)

lemma validate_generation_no_Panic [simp]: "validate_generation l p m \<noteq> Panic"
  by (auto simp: validate_generation_def res_simps)

lemma validate_audio_samples_Ok_iff [simp]:
  "validate_audio_samples l n = Ok u \<longleftrightarrow> consistent_limits l \<and> n \<le> rl_max_audio_samples l"
  by (auto simp: validate_audio_samples_def res_simps)

lemma validate_audio_samples_no_Panic [simp]: "validate_audio_samples l n \<noteq> Panic"
  by (auto simp: validate_audio_samples_def res_simps)

section \<open>Artifact limits\<close>

record artifact_limits =
  al_max_file_bytes :: u64
  al_max_header_bytes :: u64
  al_max_metadata_entries :: u64
  al_max_tensors :: u64
  al_max_metadata_string_bytes :: u64
  al_max_key_bytes :: u64
  al_max_tensor_name_bytes :: u64
  al_max_array_elements :: u64
  al_max_array_depth :: usize
  al_max_tensor_dimensions :: nat

definition default_artifact_limits :: artifact_limits where
  "default_artifact_limits =
     \<lparr>al_max_file_bytes = 32 * 1024 * 1024 * 1024,
      al_max_header_bytes = 512 * 1024 * 1024,
      al_max_metadata_entries = 65536,
      al_max_tensors = 131072,
      al_max_metadata_string_bytes = 16 * 1024 * 1024,
      al_max_key_bytes = 65535,
      al_max_tensor_name_bytes = 65535,
      al_max_array_elements = 1000000,
      al_max_array_depth = 4,
      al_max_tensor_dimensions = 8\<rparr>"

definition artifact_limits_validate :: "artifact_limits \<Rightarrow> unit res" where
  "artifact_limits_validate l =
     (if al_max_file_bytes l = 0 \<or> al_max_header_bytes l = 0 \<or>
         al_max_metadata_entries l = 0 \<or> al_max_tensors l = 0 \<or>
         al_max_metadata_string_bytes l = 0 \<or> al_max_key_bytes l = 0 \<or>
         al_max_tensor_name_bytes l = 0 \<or> al_max_array_elements l = 0 \<or>
         al_max_array_depth l = 0 \<or> al_max_tensor_dimensions l = 0
      then invalid_request ''artifact_limits''
      else if al_max_file_bytes l < al_max_header_bytes l
      then invalid_request ''artifact_limits.max_header_bytes''
      else if al_max_metadata_string_bytes l < al_max_key_bytes l \<or>
              al_max_metadata_string_bytes l < al_max_tensor_name_bytes l
      then invalid_request ''artifact_limits.max_metadata_string_bytes''
      else Ok ())"

definition validate_file_bytes :: "artifact_limits \<Rightarrow> u64 \<Rightarrow> unit res" where
  "validate_file_bytes l file_bytes =
     and_then (artifact_limits_validate l) (\<lambda>_.
       if al_max_file_bytes l < file_bytes then invalid_model ''file_size'' else Ok ())"

definition validate_gguf_counts :: "artifact_limits \<Rightarrow> u64 \<Rightarrow> u64 \<Rightarrow> unit res" where
  "validate_gguf_counts l tensor_count metadata_count =
     and_then (artifact_limits_validate l) (\<lambda>_.
       if al_max_tensors l < tensor_count then invalid_model ''tensor_count''
       else if al_max_metadata_entries l < metadata_count then invalid_model ''metadata_kv_count''
       else Ok ())"

definition consistent_artifact_limits :: "artifact_limits \<Rightarrow> bool" where
  "consistent_artifact_limits l \<longleftrightarrow>
     0 < al_max_header_bytes l \<and> al_max_header_bytes l \<le> al_max_file_bytes l \<and>
     0 < al_max_metadata_entries l \<and> 0 < al_max_tensors l \<and>
     0 < al_max_key_bytes l \<and> al_max_key_bytes l \<le> al_max_metadata_string_bytes l \<and>
     0 < al_max_tensor_name_bytes l \<and>
     al_max_tensor_name_bytes l \<le> al_max_metadata_string_bytes l \<and>
     0 < al_max_array_elements l \<and> 0 < al_max_array_depth l \<and> 0 < al_max_tensor_dimensions l"

lemma artifact_limits_validate_Ok_iff [simp]:
  "artifact_limits_validate l = Ok u \<longleftrightarrow> consistent_artifact_limits l"
  by (auto simp: artifact_limits_validate_def consistent_artifact_limits_def res_simps)

lemma artifact_limits_validate_no_Panic [simp]: "artifact_limits_validate l \<noteq> Panic"
  by (simp add: artifact_limits_validate_def)

lemma default_artifact_limits_consistent [simp]:
  "consistent_artifact_limits default_artifact_limits"
  by (simp add: consistent_artifact_limits_def default_artifact_limits_def)

lemma validate_file_bytes_Ok_iff [simp]:
  "validate_file_bytes l n = Ok u \<longleftrightarrow> consistent_artifact_limits l \<and> n \<le> al_max_file_bytes l"
  by (auto simp: validate_file_bytes_def res_simps)

lemma validate_file_bytes_no_Panic [simp]: "validate_file_bytes l n \<noteq> Panic"
  by (auto simp: validate_file_bytes_def res_simps)

lemma validate_gguf_counts_Ok_iff [simp]:
  "validate_gguf_counts l t m = Ok u \<longleftrightarrow>
     consistent_artifact_limits l \<and> t \<le> al_max_tensors l \<and> m \<le> al_max_metadata_entries l"
  by (auto simp: validate_gguf_counts_def res_simps)

lemma validate_gguf_counts_no_Panic [simp]: "validate_gguf_counts l t m \<noteq> Panic"
  by (auto simp: validate_gguf_counts_def res_simps)

end
