(* ===== verification/Kv_Layout.thy ===== *)
theory Kv_Layout imports Core_Types
begin

text \<open>
  The KV-cache geometry of \<open>ocelotl-core\<close> (src/crates/core/src/lib.rs): the contiguous
  layout \<open>KvCacheLayout\<close> with its checked size and offset computations, and the paged
  layout \<open>PagedKvCacheLayout\<close> with page arithmetic and page-table validation. The lemmas
  show when the checked products succeed, that offsets of distinct rows are disjoint and in
  bounds, and that a validated page table is a duplicate-free list of physical pages.
\<close>

section \<open>Checked products\<close>

definition checked_product :: "string \<Rightarrow> nat list \<Rightarrow> usize res" where
  "checked_product label dims =
     ok_or (try_product 1 dims) (RuntimeError (label @ '' overflowed usize for dims {dims:?}''))"

lemma checked_product_Ok_iff: "checked_product label dims = Ok p \<longleftrightarrow> try_product 1 dims = Some p"
  by (simp add: checked_product_def)

lemma checked_product_no_Panic [simp]: "checked_product label dims \<noteq> Panic"
  by (simp add: checked_product_def)

lemma checked_product_OkD:
  "checked_product label dims = Ok p \<Longrightarrow> p = prod_list dims \<and> (dims \<noteq> [] \<longrightarrow> p \<le> max64)"
  by (auto simp: checked_product_Ok_iff dest: try_product_SomeD)

section \<open>The contiguous layout\<close>

record kv_cache_layout =
  kl_num_layers :: usize
  kl_num_key_value_heads :: usize
  kl_capacity_tokens :: usize
  kl_head_dim :: usize
  kl_dtype :: dtype
  kl_device :: device

definition kv_cache_layout_new ::
    "usize \<Rightarrow> usize \<Rightarrow> usize \<Rightarrow> usize \<Rightarrow> dtype \<Rightarrow> device \<Rightarrow> kv_cache_layout res" where
  "kv_cache_layout_new num_layers num_key_value_heads capacity_tokens head_dim dtype device =
     (if num_layers = 0 then runtime_err ''kv cache num_layers must be > 0''
      else if num_key_value_heads = 0
      then runtime_err ''kv cache num_key_value_heads must be > 0''
      else if capacity_tokens = 0 then runtime_err ''kv cache capacity_tokens must be > 0''
      else if head_dim = 0 then runtime_err ''kv cache head_dim must be > 0''
      else Ok \<lparr>kl_num_layers = num_layers, kl_num_key_value_heads = num_key_value_heads,
               kl_capacity_tokens = capacity_tokens, kl_head_dim = head_dim,
               kl_dtype = dtype, kl_device = device\<rparr>)"

definition values_per_position :: "kv_cache_layout \<Rightarrow> usize res" where
  "values_per_position l =
     checked_product ''kv cache values_per_position'' [kl_num_key_value_heads l, kl_head_dim l]"

definition values_per_layer_tensor :: "kv_cache_layout \<Rightarrow> usize res" where
  "values_per_layer_tensor l =
     checked_product ''kv cache values_per_layer_tensor''
       [kl_capacity_tokens l, kl_num_key_value_heads l, kl_head_dim l]"

definition values_per_all_key_tensors :: "kv_cache_layout \<Rightarrow> usize res" where
  "values_per_all_key_tensors l =
     checked_product ''kv cache values_per_all_key_tensors''
       [kl_num_layers l, kl_capacity_tokens l, kl_num_key_value_heads l, kl_head_dim l]"

definition total_values :: "kv_cache_layout \<Rightarrow> usize res" where
  "total_values l =
     and_then (values_per_all_key_tensors l) (\<lambda>v.
       checked_product ''kv cache total_values'' [2, v])"

fun bytes_per_dtype :: "dtype \<Rightarrow> usize" where
  "bytes_per_dtype F32 = 4"
| "bytes_per_dtype F16 = 2"
| "bytes_per_dtype BF16 = 2"
| "bytes_per_dtype Q4 = 1"
| "bytes_per_dtype Q8 = 1"

definition bytes_per_value :: "kv_cache_layout \<Rightarrow> usize" where
  "bytes_per_value l = bytes_per_dtype (kl_dtype l)"

definition total_bytes :: "kv_cache_layout \<Rightarrow> usize res" where
  "total_bytes l =
     and_then (total_values l) (\<lambda>v.
       checked_product ''kv cache total_bytes'' [v, bytes_per_value l])"

definition layer_position_offset :: "kv_cache_layout \<Rightarrow> usize \<Rightarrow> usize \<Rightarrow> usize res" where
  "layer_position_offset l layer position =
     (if kl_num_layers l \<le> layer
      then runtime_err ''kv cache layer {layer} out of range for {} layers''
      else if kl_capacity_tokens l \<le> position
      then runtime_err ''kv cache position {position} out of range for capacity {}''
      else
        and_then (values_per_layer_tensor l) (\<lambda>per_layer.
        and_then (checked_product ''kv cache layer offset'' [layer, per_layer]) (\<lambda>layer_base.
        and_then (values_per_position l) (\<lambda>per_position.
        and_then (checked_product ''kv cache position offset'' [position, per_position])
          (\<lambda>position_base.
        ok_or (checked_add layer_base position_base)
          (RuntimeError ''kv cache layer position offset overflowed usize''))))))"

text \<open>The width of one row: the values of one position in one layer.\<close>

definition row_width :: "kv_cache_layout \<Rightarrow> nat" where
  "row_width l = kl_num_key_value_heads l * kl_head_dim l"

lemma values_per_position_OkD: "values_per_position l = Ok w \<Longrightarrow> w = row_width l"
  by (auto simp: values_per_position_def row_width_def dest: checked_product_OkD)

lemma values_per_position_no_Panic [simp]: "values_per_position l \<noteq> Panic"
  by (simp add: values_per_position_def)

lemma values_per_all_key_tensors_no_Panic [simp]: "values_per_all_key_tensors l \<noteq> Panic"
  by (simp add: values_per_all_key_tensors_def)

lemma layer_position_offset_no_Panic [simp]: "layer_position_offset l layer position \<noteq> Panic"
  by (auto simp: layer_position_offset_def res_simps values_per_layer_tensor_def)

text \<open>
  A layout whose key tensors have a size at all has, for a valid layer and position, every
  smaller size too: the partial products are bounded by the whole one.
\<close>

lemma try_product_Cons_pos:
  assumes "try_product 1 (a # ds) = Some p" and "0 < a"
  shows "try_product 1 ds = Some (prod_list ds)"
proof -
  have gen: "try_product (a * c) ds = Some q \<Longrightarrow> try_product c ds = Some (c * prod_list ds)"
    for c q
  proof (induction ds arbitrary: c)
    case (Cons d ds)
    then have *: "try_product (a * (c * d)) ds = Some q" and le: "a * (c * d) \<le> max64"
      by (auto simp: mult.assoc split: option.splits)
    have "1 * (c * d) \<le> a * (c * d)" using \<open>0 < a\<close> by (intro mult_le_mono) auto
    with le have "c * d \<le> max64" by linarith
    with * show ?case using Cons.IH [of "c * d"] by (simp add: checked_mul_def mult.assoc)
  qed simp
  from assms(1) have "try_product (a * 1) ds = Some p" by (auto split: option.splits)
  from gen [OF this] show ?thesis by simp
qed

lemma key_tensors_imp_layer:
  assumes "values_per_all_key_tensors l = Ok n" and "0 < kl_num_layers l"
  shows "values_per_layer_tensor l = Ok (kl_capacity_tokens l * row_width l)"
  using assms try_product_Cons_pos
  by (fastforce simp: values_per_all_key_tensors_def values_per_layer_tensor_def
      checked_product_Ok_iff row_width_def)

lemma key_tensors_imp_position:
  assumes "values_per_all_key_tensors l = Ok n"
    and "0 < kl_num_layers l" and "0 < kl_capacity_tokens l"
  shows "values_per_position l = Ok (row_width l)"
proof -
  have "try_product 1 [kl_capacity_tokens l, kl_num_key_value_heads l, kl_head_dim l] =
      Some (kl_capacity_tokens l * row_width l)"
    using key_tensors_imp_layer [OF assms(1,2)]
    by (simp add: values_per_layer_tensor_def checked_product_Ok_iff)
  from try_product_Cons_pos [OF this assms(3)] show ?thesis
    by (simp add: values_per_position_def checked_product_Ok_iff row_width_def)
qed

section \<open>Rows of a flat buffer\<close>

text \<open>
  Both caches store their rows in one flat vector: row \<open>r\<close> of width \<open>w\<close> occupies
  \<open>[r * w, r * w + w)\<close>. The row of layer \<open>l\<close>, position \<open>p\<close> is \<open>l * stride + p\<close>.
\<close>

definition row_at :: "nat \<Rightarrow> 'a list \<Rightarrow> nat \<Rightarrow> 'a list" where
  "row_at w xs r = take w (drop (r * w) xs)"

lemma row_bound:
  assumes "(l::nat) < layers" and "p < stride"
  shows "(l * stride + p) * w + w \<le> layers * stride * w"
proof -
  have "l * stride + p + 1 \<le> (l + 1) * stride" using assms(2) by simp
  also have "\<dots> \<le> layers * stride" using assms(1) by (intro mult_le_mono) auto
  finally have "(l * stride + p + 1) * w \<le> layers * stride * w" by (intro mult_le_mono) auto
  then show ?thesis by (simp add: algebra_simps)
qed

lemma row_index_inj:
  assumes "p < stride" and "p' < stride"
  shows "l * stride + p = l' * stride + p' \<longleftrightarrow> l = l' \<and> p = (p'::nat)"
proof
  assume eq: "l * stride + p = l' * stride + p'"
  have "(l * stride + p) div stride = l" "(l' * stride + p') div stride = l'"
    using assms by simp_all
  with eq have "l = l'" by simp
  with eq show "l = l' \<and> p = p'" by simp
qed simp

lemma rows_disjoint:
  assumes "r \<noteq> r'"
  shows "r * w + w \<le> r' * w \<or> r' * w + w \<le> (r * w :: nat)"
proof (cases "r < r'")
  case True
  then have "(r + 1) * w \<le> r' * w" by (intro mult_le_mono) auto
  then show ?thesis by (simp add: algebra_simps)
next
  case False
  with assms have "(r' + 1) * w \<le> r * w" by (intro mult_le_mono) auto
  then show ?thesis by (simp add: algebra_simps)
qed

lemma row_at_overwrite:
  assumes "length row = w" and "r * w + w \<le> length xs" and "r' * w + w \<le> length xs"
  shows "row_at w (take (r * w) xs @ row @ drop (r * w + w) xs) r' =
         (if r' = r then row else row_at w xs r')"
proof (cases "r' = r")
  case True
  with assms show ?thesis using overwrite_same [of "r * w" row xs] by (simp add: row_at_def)
next
  case False
  then have "r' * w + w \<le> r * w \<or> r * w + w \<le> r' * w" using rows_disjoint by blast
  with assms False show ?thesis
    using overwrite_disjoint [of "r * w" row xs "r' * w" w] by (simp add: row_at_def)
qed

lemma length_row_at: "r * w + w \<le> length xs \<Longrightarrow> length (row_at w xs r) = w"
  by (simp add: row_at_def)

lemma layer_position_offset_row:
  assumes "values_per_all_key_tensors l = Ok n"
    and "layer < kl_num_layers l" and "position < kl_capacity_tokens l"
  shows "layer_position_offset l layer position =
           Ok ((layer * kl_capacity_tokens l + position) * row_width l)"
    and "(layer * kl_capacity_tokens l + position) * row_width l + row_width l \<le> n"
proof -
  let ?C = "kl_capacity_tokens l" and ?W = "row_width l"
  from assms(1) have n: "n = kl_num_layers l * ?C * ?W" and "n \<le> max64"
    by (auto simp: values_per_all_key_tensors_def row_width_def algebra_simps
        dest!: checked_product_OkD)
  from row_bound [OF assms(2,3), of ?W]
  show bound: "(layer * ?C + position) * ?W + ?W \<le> n" by (simp add: n)
  with \<open>n \<le> max64\<close> have le: "layer * (?C * ?W) + position * ?W \<le> max64"
    by (simp add: algebra_simps)
  have "layer * (?C * ?W) \<le> max64" "position * ?W \<le> max64" using le by linarith+
  moreover have "layer \<le> max64"
  proof (cases "?C * ?W")
    case 0
    with assms(1-3) show ?thesis
      by (auto simp: values_per_all_key_tensors_def checked_product_Ok_iff split: option.splits)
  next
    case (Suc k)
    have "layer * 1 \<le> layer * (?C * ?W)" using Suc by (intro mult_le_mono) auto
    with \<open>layer * (?C * ?W) \<le> max64\<close> show ?thesis by linarith
  qed
  moreover have "position \<le> max64"
  proof -
    have "kl_num_layers l * ?C \<le> max64"
      using assms(1) by (auto simp: values_per_all_key_tensors_def checked_product_Ok_iff
          split: option.splits)
    moreover have "1 * ?C \<le> kl_num_layers l * ?C" using assms(2) by (intro mult_le_mono) auto
    ultimately show ?thesis using assms(3) by linarith
  qed
  moreover have "values_per_layer_tensor l = Ok (?C * ?W)" "values_per_position l = Ok ?W"
    using key_tensors_imp_layer [OF assms(1)] key_tensors_imp_position [OF assms(1)] assms(2,3)
    by auto
  ultimately show "layer_position_offset l layer position =
      Ok ((layer * ?C + position) * ?W)"
    using assms(2,3) le
    by (simp add: layer_position_offset_def checked_product_def checked_mul_def checked_add_def
        algebra_simps)
qed

section \<open>The paged layout\<close>

record paged_kv_cache_layout =
  pl_base :: kv_cache_layout
  pl_page_size_tokens :: usize
  pl_physical_pages :: usize

definition checked_div :: "nat \<Rightarrow> nat \<Rightarrow> nat option" where
  "checked_div a b = (if b = 0 then None else Some (a div b))"

definition required_pages_for_tokens :: "paged_kv_cache_layout \<Rightarrow> usize \<Rightarrow> usize res" where
  "required_pages_for_tokens l tokens =
     (if tokens = 0 then Ok 0
      else
        and_then (minus_u64 (pl_page_size_tokens l) 1) (\<lambda>last.
        ok_or
          (case checked_add tokens last of None \<Rightarrow> None
           | Some v \<Rightarrow> checked_div v (pl_page_size_tokens l))
          (RuntimeError ''paged kv page count overflowed usize'')))"

definition paged_layout_new ::
    "kv_cache_layout \<Rightarrow> usize \<Rightarrow> usize \<Rightarrow> paged_kv_cache_layout res" where
  "paged_layout_new base page_size_tokens physical_pages =
     (if page_size_tokens = 0 then runtime_err ''paged kv page_size_tokens must be > 0''
      else if physical_pages = 0 then runtime_err ''paged kv physical_pages must be > 0''
      else
        let layout = \<lparr>pl_base = base, pl_page_size_tokens = page_size_tokens,
                      pl_physical_pages = physical_pages\<rparr>
        in and_then (required_pages_for_tokens layout (kl_capacity_tokens base)) (\<lambda>required.
             if physical_pages < required
             then runtime_err ''paged kv capacity requires {required} pages but allocator has {physical_pages}''
             else Ok layout))"

definition logical_page_and_offset :: "paged_kv_cache_layout \<Rightarrow> usize \<Rightarrow> (usize \<times> usize) res" where
  "logical_page_and_offset l position =
     (if kl_capacity_tokens (pl_base l) \<le> position
      then runtime_err ''paged kv position {position} out of range for capacity {}''
      else if pl_page_size_tokens l = 0 then Panic
      else Ok (position div pl_page_size_tokens l, position mod pl_page_size_tokens l))"

definition values_per_page_tensor :: "paged_kv_cache_layout \<Rightarrow> usize res" where
  "values_per_page_tensor l =
     and_then (values_per_position (pl_base l)) (\<lambda>per_position.
       checked_product ''paged kv values_per_page_tensor''
         [pl_page_size_tokens l, per_position])"

text \<open>The loop of \<open>validate_page_table\<close>, with the pages seen so far.\<close>

fun validate_pages :: "usize \<Rightarrow> usize list \<Rightarrow> usize list \<Rightarrow> unit res" where
  "validate_pages physical_pages seen [] = Ok ()"
| "validate_pages physical_pages seen (page # table) =
     (if physical_pages \<le> page
      then runtime_err ''paged kv physical page {page} out of range for {} pages''
      else if List.member seen page
      then runtime_err ''paged kv physical page {page} appears more than once''
      else validate_pages physical_pages (page # seen) table)"

definition validate_page_table :: "paged_kv_cache_layout \<Rightarrow> usize list \<Rightarrow> unit res" where
  "validate_page_table l table =
     and_then (required_pages_for_tokens l (kl_capacity_tokens (pl_base l))) (\<lambda>required.
       if length table < required
       then runtime_err ''paged kv page table has {} pages but capacity requires {required}''
       else validate_pages (pl_physical_pages l) [] table)"

lemma required_pages_Ok_iff:
  assumes "0 < pl_page_size_tokens l"
  shows "required_pages_for_tokens l t = Ok n \<longleftrightarrow>
    n = (t + pl_page_size_tokens l - 1) div pl_page_size_tokens l \<and>
    (t = 0 \<or> t + (pl_page_size_tokens l - 1) \<le> max64)"
  using assms
  by (auto simp: required_pages_for_tokens_def res_simps checked_div_def split: option.splits)

lemma required_pages_no_Panic:
  "0 < pl_page_size_tokens l \<Longrightarrow> required_pages_for_tokens l t \<noteq> Panic"
  by (auto simp: required_pages_for_tokens_def res_simps)

text \<open>Enough pages: the required pages hold the tokens, and one page less does not.\<close>

lemma required_pages_cover:
  assumes "0 < pl_page_size_tokens l" and "required_pages_for_tokens l t = Ok n"
  shows "t \<le> n * pl_page_size_tokens l" and "0 < n \<Longrightarrow> (n - 1) * pl_page_size_tokens l < t"
proof -
  let ?s = "pl_page_size_tokens l"
  have n: "n = (t + ?s - 1) div ?s" using assms required_pages_Ok_iff by blast
  have dm: "n * ?s + (t + ?s - 1) mod ?s = t + ?s - 1" by (simp add: n)
  have "(t + ?s - 1) mod ?s < ?s" using assms(1) by simp
  with dm show "t \<le> n * ?s" using assms(1) by linarith
  assume "0 < n"
  then obtain k where k: "n = Suc k" by (cases n) auto
  from dm have "Suc k * ?s \<le> t + ?s - 1" by (simp add: k)
  then show "(n - 1) * ?s < t" using assms(1) by (simp add: k)
qed

lemma required_pages_mono:
  assumes "0 < pl_page_size_tokens l" and "required_pages_for_tokens l t = Ok n"
    and "required_pages_for_tokens l t' = Ok n'" and "t \<le> t'"
  shows "n \<le> n'"
  using assms by (auto simp: required_pages_Ok_iff intro!: div_le_mono)

lemma required_pages_Ok_mono:
  assumes "0 < pl_page_size_tokens l" and "required_pages_for_tokens l t' = Ok n'" and "t \<le> t'"
  shows "\<exists>n. required_pages_for_tokens l t = Ok n"
  using assms by (auto simp: required_pages_Ok_iff)

lemma validate_pages_Ok_iff:
  "validate_pages pp seen table = Ok u \<longleftrightarrow>
     distinct table \<and> set table \<inter> set seen = {} \<and> (\<forall>p \<in> set table. p < pp)"
  by (induction table arbitrary: seen) (auto simp: res_simps)

lemma validate_pages_no_Panic: "validate_pages pp seen table \<noteq> Panic"
  by (induction table arbitrary: seen) auto

lemma paged_layout_new_Ok_iff:
  "paged_layout_new base ps pp = Ok l \<longleftrightarrow>
     0 < ps \<and> 0 < pp \<and> l = \<lparr>pl_base = base, pl_page_size_tokens = ps, pl_physical_pages = pp\<rparr> \<and>
     (\<exists>n \<le> pp. required_pages_for_tokens l (kl_capacity_tokens base) = Ok n)"
  by (auto simp: paged_layout_new_def Let_def res_simps not_less)

text \<open>
  Page-table validation accepts exactly the duplicate-free tables of physical pages
  that are long enough for the capacity: for a layout with a positive page size, an accepted
  table covers every token position, and validation never panics.
\<close>

theorem validate_page_table_exact:
  assumes "0 < pl_page_size_tokens l"
  shows "(validate_page_table l table = Ok u \<longleftrightarrow>
      distinct table \<and> set table \<subseteq> {..<pl_physical_pages l} \<and>
      kl_capacity_tokens (pl_base l) \<le> length table * pl_page_size_tokens l \<and>
      is_ok (required_pages_for_tokens l (kl_capacity_tokens (pl_base l))))
    \<and> validate_page_table l table \<noteq> Panic"
proof -
  let ?C = "kl_capacity_tokens (pl_base l)" and ?s = "pl_page_size_tokens l"
  have len: "n \<le> length table \<longleftrightarrow> ?C \<le> length table * ?s"
    if n: "required_pages_for_tokens l ?C = Ok n" for n
  proof
    assume "n \<le> length table"
    then have "n * ?s \<le> length table * ?s" by (intro mult_le_mono) auto
    with required_pages_cover(1) [OF assms n] show "?C \<le> length table * ?s" by linarith
  next
    assume C: "?C \<le> length table * ?s"
    show "n \<le> length table"
    proof (rule ccontr)
      assume "\<not> n \<le> length table"
      then have "0 < n" and "length table * ?s \<le> (n - 1) * ?s" by (auto intro!: mult_le_mono)
      with required_pages_cover(2) [OF assms n] C show False by linarith
    qed
  qed
  show ?thesis
  proof (cases "required_pages_for_tokens l ?C")
    case (Ok n)
    with len [OF Ok] show ?thesis
      by (auto simp: validate_page_table_def validate_pages_Ok_iff validate_pages_no_Panic
          res_simps subset_iff not_less)
  qed (use required_pages_no_Panic [OF assms] in \<open>auto simp: validate_page_table_def\<close>)
qed

definition example_base_layout :: kv_cache_layout where
  "example_base_layout =
     \<lparr>kl_num_layers = 2, kl_num_key_value_heads = 1, kl_capacity_tokens = 5, kl_head_dim = 2,
      kl_dtype = F32, kl_device = Cpu\<rparr>"

definition example_paged_layout :: paged_kv_cache_layout where
  "example_paged_layout =
     \<lparr>pl_base = example_base_layout, pl_page_size_tokens = 2, pl_physical_pages = 4\<rparr>"

theorem validate_page_table_exact_witness:
  "validate_page_table example_paged_layout [3, 0, 2] = Ok ()"
proof -
  have "0 < pl_page_size_tokens example_paged_layout" by (simp add: example_paged_layout_def)
  from validate_page_table_exact [OF this, of "[3, 0, 2]" "()"] show ?thesis
    by (simp add: example_paged_layout_def example_base_layout_def is_ok_iff
        required_pages_Ok_iff max64_def)
qed

end
