(* ===== verification/F32_Bits.thy ===== *)
theory F32_Bits imports Complex_Main Core_Types
begin

text \<open>
  The values of Rust's \<open>f32\<close>, kept as their 32 bits, with the comparisons the program makes
  on them. \<open>f32_lt\<close> is the IEEE 754 order as a function of the bits: false whenever an
  operand is a NaN, and equal on the two zeros. The lemmas show that it is the order of the
  numbers the bits denote (\<open>f32_rat\<close>) and a strict weak order away from NaN.
\<close>

unbundle bit_operations_syntax

type_synonym f32 = "32 word"

definition f32_magnitude :: "f32 \<Rightarrow> nat" where
  "f32_magnitude x = unat x mod 2 ^ 31"

definition f32_negative :: "f32 \<Rightarrow> bool" where
  "f32_negative x \<longleftrightarrow> 2 ^ 31 \<le> unat x"

definition f32_is_nan :: "f32 \<Rightarrow> bool" where
  "f32_is_nan x \<longleftrightarrow> 255 * 2 ^ 23 < f32_magnitude x"

definition f32_is_finite :: "f32 \<Rightarrow> bool" where
  "f32_is_finite x \<longleftrightarrow> f32_magnitude x < 255 * 2 ^ 23"

text \<open>The position of a number in the order of all numbers: the magnitude with its sign.\<close>

definition f32_rank :: "f32 \<Rightarrow> int" where
  "f32_rank x = (if f32_negative x then - int (f32_magnitude x) else int (f32_magnitude x))"

definition f32_lt :: "f32 \<Rightarrow> f32 \<Rightarrow> bool" where
  "f32_lt x y \<longleftrightarrow> \<not> f32_is_nan x \<and> \<not> f32_is_nan y \<and> f32_rank x < f32_rank y"

definition f32_gt :: "f32 \<Rightarrow> f32 \<Rightarrow> bool" where
  "f32_gt x y \<longleftrightarrow> f32_lt y x"

definition f32_neg_infinity :: f32 where
  "f32_neg_infinity = 0xFF800000"

definition f32_nan :: f32 where
  "f32_nan = 0x7FC00000"

text \<open>The number a finite value denotes.\<close>

definition f32_rat :: "f32 \<Rightarrow> rat" where
  "f32_rat x =
     (let e = f32_magnitude x div 2 ^ 23; m = f32_magnitude x mod 2 ^ 23;
          v = (if e = 0 then of_nat m * (1 / 2 ^ 149)
               else of_nat ((2 ^ 23 + m) * 2 ^ (e - 1)) * (1 / 2 ^ 149))
      in if f32_negative x then - v else v)"

text \<open>The magnitude of the number, in units of the smallest positive value.\<close>

definition f32_units :: "nat \<Rightarrow> nat" where
  "f32_units g = (if g div 2 ^ 23 = 0 then g mod 2 ^ 23
                  else (2 ^ 23 + g mod 2 ^ 23) * 2 ^ (g div 2 ^ 23 - 1))"

lemma f32_units_Suc: "f32_units g < f32_units (Suc g)"
proof -
  let ?B = "2 ^ 23 :: nat"
  consider (same) "Suc g mod ?B \<noteq> 0" | (next_binade) "Suc g mod ?B = 0" by blast
  then show ?thesis
  proof cases
    case same
    then have "Suc g mod ?B = Suc (g mod ?B)" by (metis mod_Suc)
    moreover from same have "Suc g div ?B = g div ?B" by (metis div_Suc)
    ultimately show ?thesis by (simp add: f32_units_def)
  next
    case next_binade
    then have m: "g mod ?B = ?B - 1" by (simp add: mod_Suc split: if_splits)
    have d: "Suc g div ?B = Suc (g div ?B)" using next_binade by (metis div_Suc)
    show ?thesis
    proof (cases "g div ?B")
      case 0
      then show ?thesis unfolding f32_units_def d m next_binade by simp
    next
      case (Suc k)
      have "(?B + (?B - 1)) * 2 ^ k < ?B * 2 ^ Suc k" by simp
      with Suc show ?thesis unfolding f32_units_def d m next_binade by simp
    qed
  qed
qed

lemma f32_units_less: "f32_units a < f32_units b \<longleftrightarrow> a < b"
  using f32_units_Suc by (metis lift_Suc_mono_less_iff)

lemma f32_rat_units:
  "f32_rat x = (if f32_negative x then - (of_nat (f32_units (f32_magnitude x)) * (1 / 2 ^ 149))
                else of_nat (f32_units (f32_magnitude x)) * (1 / 2 ^ 149))"
  by (simp add: f32_rat_def f32_units_def Let_def)

lemma f32_lt_iff_rat:
  assumes "f32_is_finite x" and "f32_is_finite y"
  shows "f32_lt x y \<longleftrightarrow> f32_rat x < f32_rat y"
proof -
  have nan: "\<not> f32_is_nan x" "\<not> f32_is_nan y"
    using assms by (simp_all add: f32_is_finite_def f32_is_nan_def)
  define a b where "a = f32_units (f32_magnitude x)" and "b = f32_units (f32_magnitude y)"
  have ab: "a < b \<longleftrightarrow> f32_magnitude x < f32_magnitude y"
    "b < a \<longleftrightarrow> f32_magnitude y < f32_magnitude x"
    "a = 0 \<longleftrightarrow> f32_magnitude x = 0" "b = 0 \<longleftrightarrow> f32_magnitude y = 0"
    using f32_units_less f32_units_less [of 0]
    by (auto simp: a_def b_def f32_units_def)
  have r: "f32_rat x = (if f32_negative x then - (rat_of_nat a) else rat_of_nat a) / 2 ^ 149"
    "f32_rat y = (if f32_negative y then - (rat_of_nat b) else rat_of_nat b) / 2 ^ 149"
    by (simp_all add: f32_rat_units a_def b_def)
  have "f32_rat x < f32_rat y \<longleftrightarrow>
      (if f32_negative x then - int a else int a) < (if f32_negative y then - int b else int b)"
    unfolding r by (simp add: divide_less_cancel) linarith
  also have "\<dots> \<longleftrightarrow> f32_rank x < f32_rank y"
    using ab by (auto simp: f32_rank_def)
  finally show ?thesis using nan by (simp add: f32_lt_def)
qed

lemma f32_lt_irrefl [simp]: "\<not> f32_lt x x"
  by (simp add: f32_lt_def)

lemma f32_lt_trans: "f32_lt x y \<Longrightarrow> f32_lt y z \<Longrightarrow> f32_lt x z"
  by (simp add: f32_lt_def)

lemma f32_lt_asym: "f32_lt x y \<Longrightarrow> \<not> f32_lt y x"
  by (simp add: f32_lt_def)

lemma f32_lt_weak: "\<not> f32_is_nan y \<Longrightarrow> f32_lt x z \<Longrightarrow> f32_lt x y \<or> f32_lt y z"
  by (auto simp: f32_lt_def)

lemma f32_lt_nan [simp]: "f32_is_nan x \<Longrightarrow> \<not> f32_lt x y" "f32_is_nan y \<Longrightarrow> \<not> f32_lt x y"
  by (simp_all add: f32_lt_def)

section \<open>Zeroed buffers\<close>

text \<open>
  \<open>vec![0.0; n]\<close>: a vector of more than \<open>isize::MAX\<close> bytes is a capacity-overflow panic.
\<close>

definition zeroed_vec :: "nat \<Rightarrow> (f32 list, 'e) outcome" where
  "zeroed_vec n = (if 4 * n \<le> 2 ^ 63 - 1 then Ok (replicate n 0) else Panic)"

section \<open>The tests made on \<open>f64\<close> parameters\<close>

type_synonym f64 = "64 word"

definition f64_is_nan :: "f64 \<Rightarrow> bool" where
  "f64_is_nan x \<longleftrightarrow> 2047 * 2 ^ 52 < unat x mod 2 ^ 63"

definition f64_is_finite :: "f64 \<Rightarrow> bool" where
  "f64_is_finite x \<longleftrightarrow> unat x mod 2 ^ 63 < 2047 * 2 ^ 52"

text \<open>\<open>x <= 0.0\<close>: a negative number or a zero of either sign; false for a NaN.\<close>

definition f64_le_zero :: "f64 \<Rightarrow> bool" where
  "f64_le_zero x \<longleftrightarrow> \<not> f64_is_nan x \<and> (2 ^ 63 \<le> unat x \<or> unat x mod 2 ^ 63 = 0)"

lemma f64_positive_iff:
  "f64_is_finite x \<and> \<not> f64_le_zero x \<longleftrightarrow> 0 < unat x \<and> unat x < 2047 * 2 ^ 52"
proof (cases "unat x < 2 ^ 63")
  case True
  then show ?thesis by (auto simp: f64_is_finite_def f64_le_zero_def f64_is_nan_def)
next
  case False
  then show ?thesis by (auto simp: f64_is_finite_def f64_le_zero_def f64_is_nan_def)
qed

end
