(* ===== verification/Kv_Store.thy ===== *)
theory Kv_Store imports Kv_Layout F32_Bits
begin

text \<open>
  The contract of \<open>KvCacheStore\<close> (src/crates/core/src/lib.rs).
  The abstract store is a table of rows indexed by layer and position; the locale \<open>kv_store\<close>
  states that every operation of an implementation refines the operation on the table.
  Inside it, every sequence of operations is shown to have the observable results of the
  table, with no panic; \<open>kv_store_pair\<close> compares two implementations with each other.
\<close>

section \<open>The table of rows\<close>

record kv_table =
  kt_layers :: nat
  kt_capacity :: nat
  kt_width :: nat
  kt_len :: nat
  kt_released :: bool
  kt_key :: "nat \<Rightarrow> nat \<Rightarrow> f32 list"
  kt_value :: "nat \<Rightarrow> nat \<Rightarrow> f32 list"

definition table_set_len :: "kv_table \<Rightarrow> nat \<Rightarrow> (kv_table, unit) outcome" where
  "table_set_len t n =
     (if kt_released t \<or> kt_capacity t < n then Err () else Ok (t\<lparr>kt_len := n\<rparr>))"

definition table_write ::
    "kv_table \<Rightarrow> nat \<Rightarrow> nat \<Rightarrow> f32 list \<Rightarrow> f32 list \<Rightarrow> (kv_table, unit) outcome" where
  "table_write t l p k v =
     (if kt_released t \<or> length k \<noteq> kt_width t \<or> length v \<noteq> kt_width t \<or>
         kt_layers t \<le> l \<or> kt_capacity t \<le> p
      then Err ()
      else Ok (t\<lparr>kt_key := (kt_key t)(l := (kt_key t l)(p := k)),
                kt_value := (kt_value t)(l := (kt_value t l)(p := v))\<rparr>))"

definition table_read ::
    "(nat \<Rightarrow> nat \<Rightarrow> f32 list) \<Rightarrow> kv_table \<Rightarrow> nat \<Rightarrow> nat \<Rightarrow> f32 list \<Rightarrow>
     (f32 list, unit) outcome" where
  "table_read rows t l n out =
     (if kt_released t \<or> kt_capacity t < n \<or> length out \<noteq> n * kt_width t \<or>
         (0 < n \<and> kt_layers t \<le> l)
      then Err ()
      else Ok (concat (map (rows l) [0..<n])))"

definition table_read_keys ::
    "kv_table \<Rightarrow> nat \<Rightarrow> nat \<Rightarrow> f32 list \<Rightarrow> (f32 list, unit) outcome" where
  "table_read_keys t = table_read (kt_key t) t"

definition table_read_values ::
    "kv_table \<Rightarrow> nat \<Rightarrow> nat \<Rightarrow> f32 list \<Rightarrow> (f32 list, unit) outcome" where
  "table_read_values t = table_read (kt_value t) t"

definition table_release :: "kv_table \<Rightarrow> kv_table" where
  "table_release t =
     t\<lparr>kt_len := 0, kt_released := True, kt_key := (\<lambda>_ _. []), kt_value := (\<lambda>_ _. [])\<rparr>"

section \<open>Sequences of operations\<close>

datatype kv_op =
    Set_Len nat
  | Write nat nat "f32 list" "f32 list"
  | Read_Keys nat nat "f32 list"
  | Read_Values nat nat "f32 list"
  | Release

text \<open>The operations of one implementation.\<close>

record ('s, 'e) kv_ops =
  op_len :: "'s \<Rightarrow> nat"
  op_set_len :: "'s \<Rightarrow> nat \<Rightarrow> ('s, 'e) outcome"
  op_write :: "'s \<Rightarrow> nat \<Rightarrow> nat \<Rightarrow> f32 list \<Rightarrow> f32 list \<Rightarrow> ('s, 'e) outcome"
  op_read_keys :: "'s \<Rightarrow> nat \<Rightarrow> nat \<Rightarrow> f32 list \<Rightarrow> (f32 list, 'e) outcome"
  op_read_values :: "'s \<Rightarrow> nat \<Rightarrow> nat \<Rightarrow> f32 list \<Rightarrow> (f32 list, 'e) outcome"
  op_release :: "'s \<Rightarrow> 's"

text \<open>
  One operation: the store after it (unchanged by an error) and what the caller sees, with
  the message of an error left out.
\<close>

fun kept :: "'s \<Rightarrow> ('s, 'e) outcome \<Rightarrow> 's \<times> (f32 list, unit) outcome" where
  "kept s (Ok s') = (s', Ok [])"
| "kept s (Err e) = (s, Err ())"
| "kept s Panic = (s, Panic)"

fun kv_step :: "('s, 'e) kv_ops \<Rightarrow> 's \<Rightarrow> kv_op \<Rightarrow> 's \<times> (f32 list, unit) outcome" where
  "kv_step ops s (Set_Len n) = kept s (op_set_len ops s n)"
| "kv_step ops s (Write l p k v) = kept s (op_write ops s l p k v)"
| "kv_step ops s (Read_Keys l n out) =
     (s, map_outcome (\<lambda>out. out) (\<lambda>_. ()) (op_read_keys ops s l n out))"
| "kv_step ops s (Read_Values l n out) =
     (s, map_outcome (\<lambda>out. out) (\<lambda>_. ()) (op_read_values ops s l n out))"
| "kv_step ops s Release = (op_release ops s, Ok [])"

text \<open>The observations of a sequence: the result of each operation and the length after it.\<close>

fun kv_trace ::
    "('s, 'e) kv_ops \<Rightarrow> 's \<Rightarrow> kv_op list \<Rightarrow> ((f32 list, unit) outcome \<times> nat) list" where
  "kv_trace ops s [] = []"
| "kv_trace ops s (x # xs) =
     (let r = kv_step ops s x in (snd r, op_len ops (fst r)) # kv_trace ops (fst r) xs)"

definition table_ops :: "(kv_table, unit) kv_ops" where
  "table_ops =
     \<lparr>op_len = kt_len, op_set_len = table_set_len, op_write = table_write,
      op_read_keys = table_read_keys, op_read_values = table_read_values,
      op_release = table_release\<rparr>"

lemma table_step_no_Panic: "snd (kv_step table_ops t x) \<noteq> Panic"
  by (cases x)
    (simp_all add: table_ops_def table_set_len_def table_write_def table_read_keys_def
      table_read_values_def table_read_def)

lemma table_trace_no_Panic: "Panic \<notin> fst ` set (kv_trace table_ops t xs)"
  using table_step_no_Panic by (induction xs arbitrary: t) (auto simp: Let_def, metis)

section \<open>The contract\<close>

locale kv_store =
  fixes ops :: "('s, 'e) kv_ops"
    and wf :: "'s \<Rightarrow> bool"
    and view :: "'s \<Rightarrow> kv_table"
  assumes len_view: "wf s \<Longrightarrow> op_len ops s = kt_len (view s)"
    and set_len_view:
      "wf s \<Longrightarrow> map_outcome view (\<lambda>_. ()) (op_set_len ops s n) = table_set_len (view s) n"
    and set_len_wf: "wf s \<Longrightarrow> op_set_len ops s n = Ok s' \<Longrightarrow> wf s'"
    and write_view:
      "wf s \<Longrightarrow> map_outcome view (\<lambda>_. ()) (op_write ops s l p k v) = table_write (view s) l p k v"
    and write_wf: "wf s \<Longrightarrow> op_write ops s l p k v = Ok s' \<Longrightarrow> wf s'"
    and read_keys_view:
      "wf s \<Longrightarrow> map_outcome (\<lambda>out. out) (\<lambda>_. ()) (op_read_keys ops s l n out) =
         table_read_keys (view s) l n out"
    and read_values_view:
      "wf s \<Longrightarrow> map_outcome (\<lambda>out. out) (\<lambda>_. ()) (op_read_values ops s l n out) =
         table_read_values (view s) l n out"
    and release_view: "wf s \<Longrightarrow> view (op_release ops s) = table_release (view s)"
    and release_wf: "wf s \<Longrightarrow> wf (op_release ops s)"
begin

lemma kept_view:
  assumes "wf s" and "map_outcome view (\<lambda>_. ()) r = r'"
    and "\<And>s'. r = Ok s' \<Longrightarrow> wf s'"
  shows "wf (fst (kept s r)) \<and> snd (kept s r) = snd (kept (view s) r') \<and>
    view (fst (kept s r)) = fst (kept (view s) r')"
  using assms by (cases r) auto

lemma step_view:
  assumes "wf s"
  shows "wf (fst (kv_step ops s x)) \<and>
    snd (kv_step ops s x) = snd (kv_step table_ops (view s) x) \<and>
    view (fst (kv_step ops s x)) = fst (kv_step table_ops (view s) x)"
proof (cases x)
  case (Set_Len n)
  with kept_view [OF assms set_len_view [OF assms] set_len_wf [OF assms]] show ?thesis
    by (simp add: table_ops_def)
next
  case (Write l p k v)
  with kept_view [OF assms write_view [OF assms] write_wf [OF assms]] show ?thesis
    by (simp add: table_ops_def)
next
  case (Read_Keys l n out)
  with assms read_keys_view [OF assms] show ?thesis
    by (simp add: table_ops_def table_read_keys_def table_read_def)
next
  case (Read_Values l n out)
  with assms read_values_view [OF assms] show ?thesis
    by (simp add: table_ops_def table_read_values_def table_read_def)
next
  case Release
  with assms release_view release_wf show ?thesis by (simp add: table_ops_def)
qed

lemma trace_view: "wf s \<Longrightarrow> kv_trace ops s xs = kv_trace table_ops (view s) xs"
proof (induction xs arbitrary: s)
  case (Cons x xs)
  from step_view [OF Cons.prems, of x] Cons.IH [of "fst (kv_step ops s x)"] show ?case
    using len_view [of "fst (kv_step ops s x)"] by (simp add: Let_def table_ops_def)
qed simp

lemma trace_no_Panic: "wf s \<Longrightarrow> Panic \<notin> fst ` set (kv_trace ops s xs)"
  by (simp add: trace_view table_trace_no_Panic)

end

text \<open>
  Two implementations of the contract: stores with the same view cannot be told apart.
\<close>

locale kv_store_pair =
  a: kv_store ops_a wf_a view_a + b: kv_store ops_b wf_b view_b
  for ops_a :: "('s, 'e) kv_ops" and wf_a view_a
    and ops_b :: "('t, 'f) kv_ops" and wf_b view_b
begin

lemma same_trace:
  "wf_a s \<Longrightarrow> wf_b t \<Longrightarrow> view_a s = view_b t \<Longrightarrow>
     kv_trace ops_a s xs = kv_trace ops_b t xs"
  by (simp add: a.trace_view b.trace_view)

end

end
