(* ===== verification/Kv_Cache.thy ===== *)
theory Kv_Cache imports Kv_Store
begin

text \<open>
  The contiguous KV cache of the runtime (src/crates/runtime/src/kv_cache.rs), operation by
  operation, over flat vectors of \<open>f32\<close>, with the flat-storage lemmas the paged cache shares.
  The cache is an interpretation of the locale \<open>kv_store\<close>: it implements the table of rows.
\<close>

section \<open>Storage\<close>

definition validate_cpu_f32_layout :: "kv_cache_layout \<Rightarrow> unit res" where
  "validate_cpu_f32_layout l =
     (if kl_dtype l \<noteq> F32
      then runtime_err ''runtime KV cache storage currently supports only F32, got {:?}''
      else if kl_device l \<noteq> Cpu
      then runtime_err ''runtime KV cache storage is CPU-resident in M5-M7, got {:?}''
      else Ok ())"

section \<open>The contiguous cache\<close>

record contiguous_kv_cache =
  cc_layout :: kv_cache_layout
  cc_keys :: "f32 list"
  cc_values :: "f32 list"
  cc_len_tokens :: usize
  cc_released :: bool

definition contiguous_new :: "kv_cache_layout \<Rightarrow> contiguous_kv_cache res" where
  "contiguous_new layout =
     and_then (validate_cpu_f32_layout layout) (\<lambda>_.
     and_then (values_per_all_key_tensors layout) (\<lambda>values.
     and_then (zeroed_vec values) (\<lambda>keys.
     and_then (zeroed_vec values) (\<lambda>vals.
       Ok \<lparr>cc_layout = layout, cc_keys = keys, cc_values = vals, cc_len_tokens = 0,
           cc_released = False\<rparr>))))"

definition contiguous_release :: "contiguous_kv_cache \<Rightarrow> contiguous_kv_cache" where
  "contiguous_release c =
     c\<lparr>cc_keys := [], cc_values := [], cc_len_tokens := 0, cc_released := True\<rparr>"

definition contiguous_ensure_active :: "contiguous_kv_cache \<Rightarrow> unit res" where
  "contiguous_ensure_active c =
     (if cc_released c then runtime_err ''contiguous kv cache has been released'' else Ok ())"

definition contiguous_row ::
    "contiguous_kv_cache \<Rightarrow> f32 list \<Rightarrow> usize \<Rightarrow> usize \<Rightarrow> f32 list res" where
  "contiguous_row c store layer position =
     and_then (contiguous_ensure_active c) (\<lambda>_.
     and_then (values_per_position (cc_layout c)) (\<lambda>width.
     and_then (layer_position_offset (cc_layout c) layer position) (\<lambda>start.
     and_then (plus_u64 start width) (\<lambda>stop.
       slice store start stop))))"

definition contiguous_key_at :: "contiguous_kv_cache \<Rightarrow> usize \<Rightarrow> usize \<Rightarrow> f32 list res" where
  "contiguous_key_at c layer position = contiguous_row c (cc_keys c) layer position"

definition contiguous_value_at :: "contiguous_kv_cache \<Rightarrow> usize \<Rightarrow> usize \<Rightarrow> f32 list res" where
  "contiguous_value_at c layer position = contiguous_row c (cc_values c) layer position"

text \<open>
  The methods on \<open>&mut self\<close> return the updated cache. Each of their errors is raised before
  the first assignment, so on an error the caller keeps the cache it had.
\<close>

definition contiguous_set_len :: "contiguous_kv_cache \<Rightarrow> usize \<Rightarrow> contiguous_kv_cache res" where
  "contiguous_set_len c len_tokens =
     and_then (contiguous_ensure_active c) (\<lambda>_.
       if kl_capacity_tokens (cc_layout c) < len_tokens
       then runtime_err ''contiguous kv len {len_tokens} exceeds capacity {}''
       else Ok (c\<lparr>cc_len_tokens := len_tokens\<rparr>))"

definition contiguous_write ::
    "contiguous_kv_cache \<Rightarrow> usize \<Rightarrow> usize \<Rightarrow> f32 list \<Rightarrow> f32 list \<Rightarrow>
     contiguous_kv_cache res" where
  "contiguous_write c layer position key value_row =
     and_then (contiguous_ensure_active c) (\<lambda>_.
     and_then (values_per_position (cc_layout c)) (\<lambda>width.
       if length key \<noteq> width \<or> length value_row \<noteq> width
       then runtime_err ''contiguous kv write expected key/value length {width}, got {}/{}''
       else
         and_then (layer_position_offset (cc_layout c) layer position) (\<lambda>start.
         and_then (plus_u64 start width) (\<lambda>stop.
         and_then (copy_into (cc_keys c) start stop key) (\<lambda>keys.
         and_then (copy_into (cc_values c) start stop value_row) (\<lambda>vals.
           Ok (c\<lparr>cc_keys := keys, cc_values := vals\<rparr>)))))))"

text \<open>
  The copying loops of both caches: row \<open>position\<close> of the store goes to
  \<open>[position * width, position * width + width)\<close> of the output; \<open>offset\<close> is the function
  that finds a row in the store.
\<close>

definition copy_rows ::
    "(usize \<Rightarrow> usize res) \<Rightarrow> f32 list \<Rightarrow> usize \<Rightarrow> usize \<Rightarrow> f32 list \<Rightarrow> f32 list res" where
  "copy_rows offset src width len_tokens out =
     try_fold (\<lambda>out position.
       and_then (offset position) (\<lambda>src_start.
       and_then (times_u64 position width) (\<lambda>dst_start.
       and_then (plus_u64 dst_start width) (\<lambda>dst_stop.
       and_then (plus_u64 src_start width) (\<lambda>src_stop.
       and_then (slice src src_start src_stop) (\<lambda>row.
         copy_into out dst_start dst_stop row)))))) out [0..<len_tokens]"

definition copy_contiguous_layer ::
    "kv_cache_layout \<Rightarrow> f32 list \<Rightarrow> usize \<Rightarrow> usize \<Rightarrow> f32 list \<Rightarrow> f32 list res" where
  "copy_contiguous_layer layout src layer len_tokens out =
     (if kl_capacity_tokens layout < len_tokens
      then runtime_err ''contiguous kv read len {len_tokens} exceeds capacity {}''
      else
        and_then (values_per_position layout) (\<lambda>width.
        and_then (checked_product ''contiguous kv read output'' [len_tokens, width]) (\<lambda>expected.
          if length out \<noteq> expected
          then runtime_err ''contiguous kv read {label} expected output length {expected}, got {}''
          else copy_rows (layer_position_offset layout layer) src width len_tokens out)))"

definition contiguous_read_keys ::
    "contiguous_kv_cache \<Rightarrow> usize \<Rightarrow> usize \<Rightarrow> f32 list \<Rightarrow> f32 list res" where
  "contiguous_read_keys c layer len_tokens out =
     and_then (contiguous_ensure_active c) (\<lambda>_.
       copy_contiguous_layer (cc_layout c) (cc_keys c) layer len_tokens out)"

definition contiguous_read_values ::
    "contiguous_kv_cache \<Rightarrow> usize \<Rightarrow> usize \<Rightarrow> f32 list \<Rightarrow> f32 list res" where
  "contiguous_read_values c layer len_tokens out =
     and_then (contiguous_ensure_active c) (\<lambda>_.
       copy_contiguous_layer (cc_layout c) (cc_values c) layer len_tokens out)"

section \<open>Copying rows\<close>

lemma length_concat_uniform:
  "(\<And>x. x \<in> set xs \<Longrightarrow> length (f x) = w) \<Longrightarrow> length (concat (map f xs)) = length xs * w"
  by (induction xs) auto

lemma copy_rows_Ok:
  assumes "\<forall>p < n. offset p = Ok (row p * w) \<and> row p * w + w \<le> length src"
    and "length src \<le> max64" and "n * w \<le> length out" and "n * w \<le> max64"
  shows "copy_rows offset src w n out =
    Ok (concat (map (\<lambda>p. row_at w src (row p)) [0..<n]) @ drop (n * w) out)"
  using assms
proof (induction n)
  case (Suc n)
  let ?rows = "concat (map (\<lambda>p. row_at w src (row p)) [0..<n])"
  from Suc.prems have IH: "copy_rows offset src w n out = Ok (?rows @ drop (n * w) out)"
    by (intro Suc.IH) auto
  have len: "length ?rows = n * w"
    using Suc.prems(1) by (subst length_concat_uniform [of _ _ w]) (auto simp: length_row_at)
  from Suc.prems have "offset n = Ok (row n * w)" "row n * w + w \<le> length src"
    "row n * w + w \<le> max64" "n * w + w \<le> max64" "n * w + w \<le> length out"
    "w \<le> length src - row n * w" by auto
  then show ?case
    using IH len
    by (simp add: copy_rows_def try_fold_append plus_u64_def times_u64_def slice_def
        copy_into_def row_at_def min_absorb2 add.commute)
qed (simp add: copy_rows_def)

lemma copy_rows_Err:
  "0 < n \<Longrightarrow> offset 0 = Err e \<Longrightarrow> copy_rows offset src w n out = Err e"
  by (simp add: copy_rows_def upt_conv_Cons)

section \<open>Flat storage as a table of rows\<close>

definition positive_layout :: "kv_cache_layout \<Rightarrow> bool" where
  "positive_layout l \<longleftrightarrow>
     0 < kl_num_layers l \<and> 0 < kl_num_key_value_heads l \<and> 0 < kl_capacity_tokens l \<and>
     0 < kl_head_dim l"

lemma kv_cache_layout_new_positive:
  "kv_cache_layout_new n h c d t v = Ok l \<Longrightarrow> positive_layout l"
  by (auto simp: kv_cache_layout_new_def positive_layout_def res_simps)

definition rows_view ::
    "nat \<Rightarrow> nat \<Rightarrow> nat \<Rightarrow> nat \<Rightarrow> f32 list \<Rightarrow> nat \<Rightarrow> nat \<Rightarrow> f32 list" where
  "rows_view layers capacity stride w xs l p =
     (if l < layers \<and> p < capacity then row_at w xs (l * stride + p) else [])"

lemma rows_view_empty [simp]: "rows_view layers capacity stride w [] = (\<lambda>_ _. [])"
  by (simp add: rows_view_def row_at_def fun_eq_iff)

lemma rows_view_zeroed:
  assumes "capacity \<le> stride"
  shows "rows_view layers capacity stride w (replicate (layers * stride * w) 0) =
    (\<lambda>l p. if l < layers \<and> p < capacity then replicate w 0 else [])"
proof (intro ext)
  fix l p
  have "(l * stride + p) * w + w \<le> layers * stride * w" if "l < layers" "p < capacity"
    using that assms by (intro row_bound) auto
  then show "rows_view layers capacity stride w (replicate (layers * stride * w) 0) l p =
      (if l < layers \<and> p < capacity then replicate w 0 else [])"
    by (auto simp: rows_view_def row_at_def min_def)
qed

lemma rows_view_overwrite:
  assumes "length xs = layers * stride * w" and "length row = w"
    and "l < layers" and "p < capacity" and "capacity \<le> stride"
  shows "rows_view layers capacity stride w
           (take ((l * stride + p) * w) xs @ row @ drop ((l * stride + p) * w + w) xs) =
         (rows_view layers capacity stride w xs)
           (l := (rows_view layers capacity stride w xs l)(p := row))"
proof (intro ext)
  fix l' p'
  let ?new = "take ((l * stride + p) * w) xs @ row @ drop ((l * stride + p) * w + w) xs"
  show "rows_view layers capacity stride w ?new l' p' =
    ((rows_view layers capacity stride w xs)
       (l := (rows_view layers capacity stride w xs l)(p := row))) l' p'"
  proof (cases "l' < layers \<and> p' < capacity")
    case True
    with assms have "row_at w ?new (l' * stride + p') =
        (if l' * stride + p' = l * stride + p then row else row_at w xs (l' * stride + p'))"
      by (intro row_at_overwrite) (auto intro!: row_bound)
    moreover have "l' * stride + p' = l * stride + p \<longleftrightarrow> l' = l \<and> p' = p"
      using True assms by (intro row_index_inj) auto
    ultimately show ?thesis using True assms(3,4) by (auto simp: rows_view_def)
  next
    case False
    with assms(3,4) show ?thesis by (auto simp: rows_view_def)
  qed
qed

text \<open>
  Reading and writing through any offset function that places row \<open>(l, p)\<close> at
  \<open>(l * stride + p) * w\<close>, as both caches do.
\<close>

lemma copy_rows_view:
  assumes "\<And>p. p < capacity \<Longrightarrow> offset p = Ok ((l * stride + p) * w)"
    and "length src = layers * stride * w" and "length src \<le> max64"
    and "l < layers" and "capacity \<le> stride" and "n \<le> capacity" and "length out = n * w"
  shows "copy_rows offset src w n out =
    Ok (concat (map (rows_view layers capacity stride w src l) [0..<n]))"
proof -
  have rows: "\<forall>p < n. offset p = Ok ((l * stride + p) * w) \<and>
      (l * stride + p) * w + w \<le> length src"
  proof (intro allI impI)
    fix p assume "p < n"
    with assms have "(l * stride + p) * w + w \<le> layers * stride * w" by (intro row_bound) auto
    with \<open>p < n\<close> assms show "offset p = Ok ((l * stride + p) * w) \<and>
        (l * stride + p) * w + w \<le> length src" by simp
  qed
  have "n * w \<le> max64"
  proof (cases n)
    case (Suc k)
    with rows assms(3) have "(l * stride + k) * w + w \<le> max64" by (metis lessI le_trans)
    moreover have "n * w \<le> (l * stride + k) * w + w" using Suc by (simp add: algebra_simps)
    ultimately show ?thesis by linarith
  qed simp
  moreover have "map (\<lambda>p. row_at w src (l * stride + p)) [0..<n] =
      map (rows_view layers capacity stride w src l) [0..<n]"
    using assms by (simp add: rows_view_def)
  ultimately show ?thesis
    using copy_rows_Ok [of n offset "\<lambda>p. l * stride + p" w src out] rows assms(3,7)
    by (simp del: map_eq_conv)
qed

lemma write_row_Ok:
  assumes "length xs = layers * stride * w" and "length xs \<le> max64"
    and "l < layers" and "p < stride" and "length row = w"
  shows "plus_u64 ((l * stride + p) * w) w = Ok ((l * stride + p) * w + w)"
    and "copy_into xs ((l * stride + p) * w) ((l * stride + p) * w + w) row =
      Ok (take ((l * stride + p) * w) xs @ row @ drop ((l * stride + p) * w + w) xs)"
  using row_bound [OF assms(3,4), of w] assms by (simp_all add: plus_u64_def copy_into_def)

lemma checked_product_rows:
  assumes "length src = layers * stride * w" and "length src \<le> max64"
    and "0 < layers" and "0 < w" and "n \<le> stride"
  shows "checked_product label [n, w] = Ok (n * w)"
proof -
  have "1 * n \<le> layers * stride" using assms(3,5) by (intro mult_le_mono) auto
  then have "n * w \<le> layers * stride * w" by (intro mult_le_mono) auto
  with assms(1,2) have "n * w \<le> max64" by linarith
  have "n * 1 \<le> n * w" using assms(4) by (intro mult_le_mono) auto
  with \<open>n * w \<le> max64\<close> have "n \<le> max64" by linarith
  with \<open>n * w \<le> max64\<close> show ?thesis by (simp add: checked_product_def checked_mul_def)
qed

section \<open>The contiguous cache implements the contract\<close>

definition contiguous_wf :: "contiguous_kv_cache \<Rightarrow> bool" where
  "contiguous_wf c \<longleftrightarrow>
     positive_layout (cc_layout c) \<and>
     (if cc_released c then cc_keys c = [] \<and> cc_values c = [] \<and> cc_len_tokens c = 0
      else
        values_per_all_key_tensors (cc_layout c) = Ok (length (cc_keys c)) \<and>
        length (cc_values c) = length (cc_keys c) \<and>
        cc_len_tokens c \<le> kl_capacity_tokens (cc_layout c))"

definition contiguous_view :: "contiguous_kv_cache \<Rightarrow> kv_table" where
  "contiguous_view c =
     (let l = cc_layout c; n = kl_num_layers l; k = kl_capacity_tokens l; w = row_width l in
      \<lparr>kt_layers = n, kt_capacity = k, kt_width = w, kt_len = cc_len_tokens c,
       kt_released = cc_released c, kt_key = rows_view n k k w (cc_keys c),
       kt_value = rows_view n k k w (cc_values c)\<rparr>)"

definition contiguous_ops :: "(contiguous_kv_cache, ocelotl_error) kv_ops" where
  "contiguous_ops =
     \<lparr>op_len = cc_len_tokens, op_set_len = contiguous_set_len, op_write = contiguous_write,
      op_read_keys = contiguous_read_keys, op_read_values = contiguous_read_values,
      op_release = contiguous_release\<rparr>"

lemma contiguous_active:
  assumes "contiguous_wf c" and "\<not> cc_released c"
  shows "length (cc_keys c) =
      kl_num_layers (cc_layout c) * kl_capacity_tokens (cc_layout c) * row_width (cc_layout c)"
    and "length (cc_values c) = length (cc_keys c)" and "length (cc_keys c) \<le> max64"
    and "values_per_position (cc_layout c) = Ok (row_width (cc_layout c))"
    and "p < kl_capacity_tokens (cc_layout c) \<Longrightarrow> l < kl_num_layers (cc_layout c) \<Longrightarrow>
      layer_position_offset (cc_layout c) l p =
        Ok ((l * kl_capacity_tokens (cc_layout c) + p) * row_width (cc_layout c))"
proof -
  have all: "values_per_all_key_tensors (cc_layout c) = Ok (length (cc_keys c))"
    and pos: "0 < kl_num_layers (cc_layout c)" "0 < kl_capacity_tokens (cc_layout c)"
    using assms by (auto simp: contiguous_wf_def positive_layout_def)
  from all show "length (cc_keys c) =
      kl_num_layers (cc_layout c) * kl_capacity_tokens (cc_layout c) * row_width (cc_layout c)"
    and "length (cc_keys c) \<le> max64"
    by (auto simp: values_per_all_key_tensors_def row_width_def mult.assoc
        dest!: checked_product_OkD)
  show "length (cc_values c) = length (cc_keys c)" using assms by (simp add: contiguous_wf_def)
  show "values_per_position (cc_layout c) = Ok (row_width (cc_layout c))"
    using key_tensors_imp_position all pos by blast
  show "p < kl_capacity_tokens (cc_layout c) \<Longrightarrow> l < kl_num_layers (cc_layout c) \<Longrightarrow>
      layer_position_offset (cc_layout c) l p =
        Ok ((l * kl_capacity_tokens (cc_layout c) + p) * row_width (cc_layout c))"
    using layer_position_offset_row(1) [OF all] by blast
qed

lemma contiguous_write_view:
  assumes "contiguous_wf c"
  shows "map_outcome contiguous_view (\<lambda>_. ()) (contiguous_write c l p k v) =
    table_write (contiguous_view c) l p k v"
    and "contiguous_write c l p k v = Ok c' \<Longrightarrow> contiguous_wf c'"
proof -
  let ?L = "kl_num_layers (cc_layout c)" and ?C = "kl_capacity_tokens (cc_layout c)"
  let ?W = "row_width (cc_layout c)"
  let ?s = "(l * ?C + p) * ?W"
  have "map_outcome contiguous_view (\<lambda>_. ()) (contiguous_write c l p k v) =
      table_write (contiguous_view c) l p k v \<and>
    (contiguous_write c l p k v = Ok c' \<longrightarrow> contiguous_wf c')"
  proof (cases "cc_released c \<or> length k \<noteq> ?W \<or> length v \<noteq> ?W \<or> ?L \<le> l \<or> ?C \<le> p")
    case True
    then show ?thesis
      using contiguous_active(4) [OF assms]
      by (auto simp: contiguous_write_def contiguous_ensure_active_def err_defs
          table_write_def contiguous_view_def Let_def layer_position_offset_def)
  next
    case False
    then have act: "\<not> cc_released c" and lens: "length k = ?W" "length v = ?W"
      and rng: "l < ?L" "p < ?C" by auto
    note A = contiguous_active [OF assms act]
    note P = write_row_Ok [OF A(1,3) rng lens(1)]
    note Q = write_row_Ok [OF A(2) [unfolded A(1)] A(3) [folded A(2)] rng lens(2)]
    define keys vals where "keys = take ?s (cc_keys c) @ k @ drop (?s + ?W) (cc_keys c)"
      and "vals = take ?s (cc_values c) @ v @ drop (?s + ?W) (cc_values c)"
    define c2 where "c2 = c\<lparr>cc_keys := keys, cc_values := vals\<rparr>"
    have w: "contiguous_write c l p k v = Ok c2"
      by (simp add: contiguous_write_def contiguous_ensure_active_def act lens A(4)
          A(5) [OF rng(2,1)] P Q c2_def keys_def vals_def)
    have len: "length keys = length (cc_keys c)" "length vals = length (cc_keys c)"
      using row_bound [OF rng, of ?W] A(1,2) lens by (simp_all add: keys_def vals_def)
    have "contiguous_wf c2"
      using assms act len by (simp add: contiguous_wf_def c2_def)
    moreover have "table_write (contiguous_view c) l p k v = Ok (contiguous_view c2)"
      using rows_view_overwrite [OF A(1) lens(1) rng]
        rows_view_overwrite [OF A(2) [unfolded A(1)] lens(2) rng] False
      by (simp add: table_write_def contiguous_view_def Let_def c2_def keys_def vals_def)
    ultimately show ?thesis by (auto simp: w)
  qed
  then show "map_outcome contiguous_view (\<lambda>_. ()) (contiguous_write c l p k v) =
      table_write (contiguous_view c) l p k v"
    and "contiguous_write c l p k v = Ok c' \<Longrightarrow> contiguous_wf c'" by blast+
qed

lemma copy_contiguous_view:
  assumes "contiguous_wf c" and "\<not> cc_released c" and "length src = length (cc_keys c)"
  shows "map_outcome (\<lambda>out. out) (\<lambda>_. ()) (copy_contiguous_layer (cc_layout c) src l n out) =
    table_read (rows_view (kl_num_layers (cc_layout c)) (kl_capacity_tokens (cc_layout c))
      (kl_capacity_tokens (cc_layout c)) (row_width (cc_layout c)) src) (contiguous_view c) l n out"
proof -
  let ?L = "kl_num_layers (cc_layout c)" and ?C = "kl_capacity_tokens (cc_layout c)"
  let ?W = "row_width (cc_layout c)"
  note A = contiguous_active [OF assms(1,2)]
  have prod: "checked_product label [n, ?W] = Ok (n * ?W)" if "n \<le> ?C" for label
    using checked_product_rows [OF A(1,3) _ _ that] assms(1)
    by (simp add: contiguous_wf_def positive_layout_def row_width_def)
  consider (err) "?C < n \<or> length out \<noteq> n * ?W" | (layer) "n \<le> ?C" "length out = n * ?W" "0 < n" "?L \<le> l"
    | (none) "n = 0" "out = []" "?L \<le> l" | (ok) "n \<le> ?C" "length out = n * ?W" "l < ?L"
    by (cases "n \<le> ?C \<and> length out = n * ?W"; cases "n = 0"; cases "?L \<le> l") (auto simp: not_le)
  then show ?thesis
  proof cases
    case err
    then show ?thesis using A(4) prod assms(2)
      by (cases "?C < n") (auto simp: copy_contiguous_layer_def table_read_def contiguous_view_def
          Let_def err_defs)
  next
    case layer
    then show ?thesis
      using A(4) prod copy_rows_Err [of n "layer_position_offset (cc_layout c) l"]
      by (auto simp: copy_contiguous_layer_def table_read_def contiguous_view_def
          Let_def err_defs layer_position_offset_def)
  next
    case none
    then show ?thesis using A(4) prod assms(2)
      by (simp add: copy_contiguous_layer_def table_read_def contiguous_view_def Let_def copy_rows_def)
  next
    case ok
    have "copy_rows (layer_position_offset (cc_layout c) l) src ?W n out =
        Ok (concat (map (rows_view ?L ?C ?C ?W src l) [0..<n]))"
      using ok A assms(3) by (intro copy_rows_view) auto
    then show ?thesis using ok A(4) prod assms(2)
      by (simp add: copy_contiguous_layer_def table_read_def contiguous_view_def Let_def)
  qed
qed

interpretation contiguous: kv_store contiguous_ops contiguous_wf contiguous_view
proof (unfold_locales, goal_cases)
  case 1 then show ?case by (simp add: contiguous_ops_def contiguous_view_def Let_def)
next
  case 2 then show ?case
    by (auto simp: contiguous_ops_def contiguous_set_len_def contiguous_ensure_active_def
        table_set_len_def contiguous_view_def Let_def err_defs)
next
  case 3 then show ?case
    by (auto simp: contiguous_ops_def contiguous_set_len_def contiguous_ensure_active_def
        contiguous_wf_def res_simps split: if_splits)
next
  case 4 then show ?case by (simp add: contiguous_ops_def contiguous_write_view(1))
next
  case 5 then show ?case by (simp add: contiguous_ops_def contiguous_write_view(2))
next
  case (6 s l n out) then show ?case
    using copy_contiguous_view [of s "cc_keys s" l n out]
    by (cases "cc_released s") (auto simp: contiguous_ops_def contiguous_read_keys_def
        contiguous_ensure_active_def table_read_keys_def table_read_def contiguous_view_def
        Let_def err_defs)
next
  case (7 s l n out) then show ?case
    using copy_contiguous_view [of s "cc_values s" l n out] contiguous_active(2) [of s]
    by (cases "cc_released s") (auto simp: contiguous_ops_def contiguous_read_values_def
        contiguous_ensure_active_def table_read_values_def table_read_def contiguous_view_def
        Let_def err_defs)
next
  case 8 then show ?case
    by (simp add: contiguous_ops_def contiguous_release_def contiguous_view_def table_release_def
        Let_def)
next
  case 9 then show ?case
    by (auto simp: contiguous_ops_def contiguous_release_def contiguous_wf_def)
qed

end
