(* ===== verification/Kv_Paged.thy ===== *)
theory Kv_Paged imports Kv_Cache
begin

text \<open>
  The paged KV cache of the runtime (src/crates/runtime/src/kv_cache.rs). A page table maps
  logical pages to physical page ids; the rows of a cache are stored by logical page in its
  own vectors. The cache is an interpretation of \<open>kv_store\<close>, so it cannot be told apart from
  a contiguous cache of the same layout by any sequence of operations.
\<close>

section \<open>The paged cache\<close>

record paged_kv_cache =
  pc_layout :: paged_kv_cache_layout
  pc_page_table :: "usize list"
  pc_keys :: "f32 list"
  pc_values :: "f32 list"
  pc_len_tokens :: usize
  pc_released :: bool

definition paged_new_with_page_table ::
    "paged_kv_cache_layout \<Rightarrow> usize list \<Rightarrow> paged_kv_cache res" where
  "paged_new_with_page_table layout page_table =
     and_then (validate_cpu_f32_layout (pl_base layout)) (\<lambda>_.
     and_then (validate_page_table layout page_table) (\<lambda>_.
     and_then (values_per_page_tensor layout) (\<lambda>page_values.
     and_then (checked_product ''paged kv tensor values''
                [kl_num_layers (pl_base layout), length page_table, page_values])
       (\<lambda>tensor_values.
     and_then (zeroed_vec tensor_values) (\<lambda>keys.
     and_then (zeroed_vec tensor_values) (\<lambda>vals.
       Ok \<lparr>pc_layout = layout, pc_page_table = page_table, pc_keys = keys, pc_values = vals,
           pc_len_tokens = 0, pc_released = False\<rparr>))))))"

definition physical_page_for_position :: "paged_kv_cache \<Rightarrow> usize \<Rightarrow> usize res" where
  "physical_page_for_position c position =
     and_then (logical_page_and_offset (pc_layout c) position) (\<lambda>(logical, _).
       if logical < length (pc_page_table c) then Ok (pc_page_table c ! logical)
       else runtime_err ''missing page table entry for logical page {logical}'')"

definition paged_release :: "paged_kv_cache \<Rightarrow> paged_kv_cache \<times> usize list" where
  "paged_release c =
     (c\<lparr>pc_page_table := [], pc_keys := [], pc_values := [], pc_len_tokens := 0,
        pc_released := True\<rparr>, pc_page_table c)"

definition paged_ensure_active :: "paged_kv_cache \<Rightarrow> unit res" where
  "paged_ensure_active c =
     (if pc_released c then runtime_err ''paged kv cache has been released'' else Ok ())"

definition storage_offset :: "paged_kv_cache \<Rightarrow> usize \<Rightarrow> usize \<Rightarrow> usize res" where
  "storage_offset c layer position =
     (if kl_num_layers (pl_base (pc_layout c)) \<le> layer
      then runtime_err ''paged kv layer {layer} out of range for {} layers''
      else
        and_then (logical_page_and_offset (pc_layout c) position)
          (\<lambda>(logical_page, offset_in_page).
        if length (pc_page_table c) \<le> logical_page
        then runtime_err ''paged kv logical page {logical_page} missing from page table''
        else
          and_then (values_per_page_tensor (pc_layout c)) (\<lambda>page_values.
          and_then (checked_product ''paged kv layer base''
                     [layer, length (pc_page_table c), page_values]) (\<lambda>layer_base.
          and_then (checked_product ''paged kv page base'' [logical_page, page_values])
            (\<lambda>page_base.
          and_then (values_per_position (pl_base (pc_layout c))) (\<lambda>per_position.
          and_then (checked_product ''paged kv token base'' [offset_in_page, per_position])
            (\<lambda>token_base.
          ok_or
            (case checked_add layer_base page_base of None \<Rightarrow> None
             | Some v \<Rightarrow> checked_add v token_base)
            (RuntimeError ''paged kv storage offset overflowed usize''))))))))"

definition paged_set_len :: "paged_kv_cache \<Rightarrow> usize \<Rightarrow> paged_kv_cache res" where
  "paged_set_len c len_tokens =
     and_then (paged_ensure_active c) (\<lambda>_.
       if kl_capacity_tokens (pl_base (pc_layout c)) < len_tokens
       then runtime_err ''paged kv len {len_tokens} exceeds capacity {}''
       else Ok (c\<lparr>pc_len_tokens := len_tokens\<rparr>))"

definition paged_write ::
    "paged_kv_cache \<Rightarrow> usize \<Rightarrow> usize \<Rightarrow> f32 list \<Rightarrow> f32 list \<Rightarrow> paged_kv_cache res" where
  "paged_write c layer position key value_row =
     and_then (paged_ensure_active c) (\<lambda>_.
     and_then (values_per_position (pl_base (pc_layout c))) (\<lambda>width.
       if length key \<noteq> width \<or> length value_row \<noteq> width
       then runtime_err ''paged kv write expected key/value length {width}, got {}/{}''
       else
         and_then (storage_offset c layer position) (\<lambda>start.
         and_then (plus_u64 start width) (\<lambda>stop.
         and_then (copy_into (pc_keys c) start stop key) (\<lambda>keys.
         and_then (copy_into (pc_values c) start stop value_row) (\<lambda>vals.
           Ok (c\<lparr>pc_keys := keys, pc_values := vals\<rparr>)))))))"

definition copy_paged_layer ::
    "paged_kv_cache \<Rightarrow> f32 list \<Rightarrow> usize \<Rightarrow> usize \<Rightarrow> f32 list \<Rightarrow> f32 list res" where
  "copy_paged_layer c src layer len_tokens out =
     (if kl_capacity_tokens (pl_base (pc_layout c)) < len_tokens
      then runtime_err ''paged kv read len {len_tokens} exceeds capacity {}''
      else
        and_then (values_per_position (pl_base (pc_layout c))) (\<lambda>width.
        and_then (checked_product ''paged kv read output'' [len_tokens, width]) (\<lambda>expected.
          if length out \<noteq> expected
          then runtime_err ''paged kv read {label} expected output length {expected}, got {}''
          else copy_rows (storage_offset c layer) src width len_tokens out)))"

definition paged_read_keys ::
    "paged_kv_cache \<Rightarrow> usize \<Rightarrow> usize \<Rightarrow> f32 list \<Rightarrow> f32 list res" where
  "paged_read_keys c layer len_tokens out =
     and_then (paged_ensure_active c) (\<lambda>_.
       copy_paged_layer c (pc_keys c) layer len_tokens out)"

definition paged_read_values ::
    "paged_kv_cache \<Rightarrow> usize \<Rightarrow> usize \<Rightarrow> f32 list \<Rightarrow> f32 list res" where
  "paged_read_values c layer len_tokens out =
     and_then (paged_ensure_active c) (\<lambda>_.
       copy_paged_layer c (pc_values c) layer len_tokens out)"

section \<open>The paged cache implements the contract\<close>

text \<open>The rows one layer of the store holds: its pages times the page size.\<close>

definition paged_stride :: "paged_kv_cache \<Rightarrow> nat" where
  "paged_stride c = length (pc_page_table c) * pl_page_size_tokens (pc_layout c)"

definition paged_wf :: "paged_kv_cache \<Rightarrow> bool" where
  "paged_wf c \<longleftrightarrow>
     positive_layout (pl_base (pc_layout c)) \<and> 0 < pl_page_size_tokens (pc_layout c) \<and>
     (if pc_released c then pc_keys c = [] \<and> pc_values c = [] \<and> pc_len_tokens c = 0
      else
        kl_capacity_tokens (pl_base (pc_layout c)) \<le> paged_stride c \<and>
        values_per_page_tensor (pc_layout c) =
          Ok (pl_page_size_tokens (pc_layout c) * row_width (pl_base (pc_layout c))) \<and>
        length (pc_keys c) =
          kl_num_layers (pl_base (pc_layout c)) * paged_stride c *
          row_width (pl_base (pc_layout c)) \<and>
        length (pc_keys c) \<le> max64 \<and>
        length (pc_values c) = length (pc_keys c) \<and>
        pc_len_tokens c \<le> kl_capacity_tokens (pl_base (pc_layout c)))"

definition paged_view :: "paged_kv_cache \<Rightarrow> kv_table" where
  "paged_view c =
     (let l = pl_base (pc_layout c); n = kl_num_layers l; k = kl_capacity_tokens l;
          w = row_width l in
      \<lparr>kt_layers = n, kt_capacity = k, kt_width = w, kt_len = pc_len_tokens c,
       kt_released = pc_released c, kt_key = rows_view n k (paged_stride c) w (pc_keys c),
       kt_value = rows_view n k (paged_stride c) w (pc_values c)\<rparr>)"

definition paged_ops :: "(paged_kv_cache, ocelotl_error) kv_ops" where
  "paged_ops =
     \<lparr>op_len = pc_len_tokens, op_set_len = paged_set_len, op_write = paged_write,
      op_read_keys = paged_read_keys, op_read_values = paged_read_values,
      op_release = (\<lambda>c. fst (paged_release c))\<rparr>"

lemma page_index:
  assumes "p < t * (s::nat)"
  shows "p div s < t" "0 < s" "(l * t + p div s) * s + p mod s = l * (t * s) + p"
proof -
  show s: "0 < s" using assms by (cases s) auto
  show "p div s < t" using assms s by (simp add: less_mult_imp_div_less)
  have "(l * t + p div s) * s + p mod s = l * (t * s) + (p div s * s + p mod s)"
    by (simp add: algebra_simps del: div_mult_mod_eq mult_div_mod_eq)
  then show "(l * t + p div s) * s + p mod s = l * (t * s) + p" by simp
qed

lemma checked_product_le:
  assumes "\<forall>d \<in> set ds. 0 < d" and "prod_list (a # ds) \<le> max64"
  shows "checked_product label (a # ds) = Ok (prod_list (a # ds))"
proof (cases "a = 0")
  case True
  then have "try_product 1 (a # ds) = Some 0"
  proof -
    have "try_product 0 xs = Some 0" for xs by (induction xs) (auto simp: checked_mul_def)
    with True show ?thesis by (simp add: checked_mul_def)
  qed
  with True show ?thesis by (simp add: checked_product_def)
next
  case False
  with assms show ?thesis
    by (subst checked_product_Ok_iff, subst try_product_Some_iff) auto
qed

lemma paged_active:
  assumes "paged_wf c" and "\<not> pc_released c"
  shows "length (pc_keys c) = kl_num_layers (pl_base (pc_layout c)) * paged_stride c *
      row_width (pl_base (pc_layout c))"
    and "length (pc_values c) = length (pc_keys c)" and "length (pc_keys c) \<le> max64"
    and "kl_capacity_tokens (pl_base (pc_layout c)) \<le> paged_stride c"
    and "values_per_position (pl_base (pc_layout c)) = Ok (row_width (pl_base (pc_layout c)))"
  using assms
  by (auto simp: paged_wf_def values_per_page_tensor_def res_simps dest: values_per_position_OkD)

lemma storage_offset_row:
  assumes "paged_wf c" and "\<not> pc_released c"
    and "l < kl_num_layers (pl_base (pc_layout c))"
    and "p < kl_capacity_tokens (pl_base (pc_layout c))"
  shows "storage_offset c l p =
    Ok ((l * paged_stride c + p) * row_width (pl_base (pc_layout c)))"
proof -
  let ?T = "length (pc_page_table c)" and ?s = "pl_page_size_tokens (pc_layout c)"
  let ?W = "row_width (pl_base (pc_layout c))"
  note A = paged_active [OF assms(1,2)]
  have p: "p < ?T * ?s" using A(4) assms(4) by (simp add: paged_stride_def)
  note I = page_index(1,2) [OF p] page_index(3) [OF p, of l]
  have W: "0 < ?W" using assms(1) by (simp add: paged_wf_def positive_layout_def row_width_def)
  have T: "0 < ?T" using I(1) by linarith
  have sum: "l * (?T * (?s * ?W)) + p div ?s * (?s * ?W) + p mod ?s * ?W =
      (l * paged_stride c + p) * ?W"
    unfolding paged_stride_def I(3) [symmetric] by (simp only: distrib_right mult.assoc)
  have "(l * paged_stride c + p) * ?W + ?W \<le> length (pc_keys c)"
    unfolding A(1) using assms(3) p by (intro row_bound) (simp_all add: paged_stride_def)
  with sum A(3) have le: "l * (?T * (?s * ?W)) + p div ?s * (?s * ?W) + p mod ?s * ?W \<le> max64"
    by linarith
  have "checked_product label [l, ?T, ?s * ?W] = Ok (l * (?T * (?s * ?W)))"
    "checked_product label [p div ?s, ?s * ?W] = Ok (p div ?s * (?s * ?W))"
    "checked_product label [p mod ?s, ?W] = Ok (p mod ?s * ?W)" for label
    using le T W I(2) by (subst checked_product_le; simp)+
  moreover have "values_per_page_tensor (pc_layout c) = Ok (?s * ?W)"
    using assms(1,2) by (simp add: paged_wf_def)
  ultimately show ?thesis
    using assms(3,4) I(1,2) A(5) le sum
    by (simp add: storage_offset_def logical_page_and_offset_def checked_add_def)
qed

lemma storage_offset_Err:
  assumes "paged_wf c"
    and "kl_num_layers (pl_base (pc_layout c)) \<le> l \<or> kl_capacity_tokens (pl_base (pc_layout c)) \<le> p"
  shows "\<exists>e. storage_offset c l p = Err e"
  using assms(2) by (auto simp: storage_offset_def logical_page_and_offset_def err_defs)

lemma paged_write_view:
  assumes "paged_wf c"
  shows "map_outcome paged_view (\<lambda>_. ()) (paged_write c l p k v) =
    table_write (paged_view c) l p k v"
    and "paged_write c l p k v = Ok c' \<Longrightarrow>
      paged_wf c' \<and> pc_page_table c' = pc_page_table c \<and> pc_layout c' = pc_layout c"
proof -
  let ?L = "kl_num_layers (pl_base (pc_layout c))"
  let ?C = "kl_capacity_tokens (pl_base (pc_layout c))"
  let ?W = "row_width (pl_base (pc_layout c))"
  let ?s = "(l * paged_stride c + p) * ?W"
  have "map_outcome paged_view (\<lambda>_. ()) (paged_write c l p k v) =
      table_write (paged_view c) l p k v \<and>
    (paged_write c l p k v = Ok c' \<longrightarrow>
      paged_wf c' \<and> pc_page_table c' = pc_page_table c \<and> pc_layout c' = pc_layout c)"
  proof (cases "pc_released c \<or> length k \<noteq> ?W \<or> length v \<noteq> ?W \<or> ?L \<le> l \<or> ?C \<le> p")
    case True
    then show ?thesis
      using paged_active(5) [OF assms] storage_offset_Err [OF assms, of l p]
      by (cases "pc_released c") (auto simp: paged_write_def paged_ensure_active_def err_defs
          table_write_def paged_view_def Let_def)
  next
    case False
    then have act: "\<not> pc_released c" and lens: "length k = ?W" "length v = ?W"
      and rng: "l < ?L" "p < ?C" by auto
    note A = paged_active [OF assms act]
    have p: "p < paged_stride c" using rng(2) A(4) by linarith
    note P = write_row_Ok [OF A(1,3) rng(1) p lens(1)]
    note Q = write_row_Ok [OF A(2) [unfolded A(1)] A(3) [folded A(2)] rng(1) p lens(2)]
    define keys vals where "keys = take ?s (pc_keys c) @ k @ drop (?s + ?W) (pc_keys c)"
      and "vals = take ?s (pc_values c) @ v @ drop (?s + ?W) (pc_values c)"
    define c2 where "c2 = c\<lparr>pc_keys := keys, pc_values := vals\<rparr>"
    have st: "paged_stride c2 = paged_stride c" by (simp add: c2_def paged_stride_def)
    have w: "paged_write c l p k v = Ok c2"
      by (simp add: paged_write_def paged_ensure_active_def act lens A(5)
          storage_offset_row [OF assms act rng] P Q c2_def keys_def vals_def)
    have len: "length keys = length (pc_keys c)" "length vals = length (pc_keys c)"
      using row_bound [OF rng(1) p, of ?W] A(1,2) lens by (simp_all add: keys_def vals_def)
    have "paged_wf c2"
      using assms act len unfolding paged_wf_def st by (simp add: c2_def)
    moreover have "table_write (paged_view c) l p k v = Ok (paged_view c2)"
      unfolding paged_view_def st
      using rows_view_overwrite [OF A(1) lens(1) rng A(4)]
        rows_view_overwrite [OF A(2) [unfolded A(1)] lens(2) rng A(4)] False
      by (simp add: table_write_def Let_def c2_def keys_def vals_def)
    moreover have "pc_page_table c2 = pc_page_table c" "pc_layout c2 = pc_layout c"
      by (simp_all add: c2_def)
    ultimately show ?thesis by (auto simp: w)
  qed
  then show "map_outcome paged_view (\<lambda>_. ()) (paged_write c l p k v) =
      table_write (paged_view c) l p k v"
    and "paged_write c l p k v = Ok c' \<Longrightarrow>
      paged_wf c' \<and> pc_page_table c' = pc_page_table c \<and> pc_layout c' = pc_layout c" by blast+
qed

lemma copy_paged_view:
  assumes "paged_wf c" and "\<not> pc_released c" and "length src = length (pc_keys c)"
  shows "map_outcome (\<lambda>out. out) (\<lambda>_. ()) (copy_paged_layer c src l n out) =
    table_read (rows_view (kl_num_layers (pl_base (pc_layout c)))
      (kl_capacity_tokens (pl_base (pc_layout c))) (paged_stride c)
      (row_width (pl_base (pc_layout c))) src) (paged_view c) l n out"
proof -
  let ?L = "kl_num_layers (pl_base (pc_layout c))"
  let ?C = "kl_capacity_tokens (pl_base (pc_layout c))"
  let ?W = "row_width (pl_base (pc_layout c))"
  note A = paged_active [OF assms(1,2)]
  have prod: "checked_product label [n, ?W] = Ok (n * ?W)" if "n \<le> ?C" for label
    using checked_product_rows [OF A(1,3) _ _ le_trans [OF that A(4)]] assms(1)
    by (simp add: paged_wf_def positive_layout_def row_width_def)
  consider (err) "?C < n \<or> length out \<noteq> n * ?W" | (layer) "n \<le> ?C" "length out = n * ?W" "0 < n" "?L \<le> l"
    | (none) "n = 0" "out = []" "?L \<le> l" | (ok) "n \<le> ?C" "length out = n * ?W" "l < ?L"
    by (cases "n \<le> ?C \<and> length out = n * ?W"; cases "n = 0"; cases "?L \<le> l") (auto simp: not_le)
  then show ?thesis
  proof cases
    case err
    then show ?thesis using A(5) prod assms(2)
      by (cases "?C < n") (auto simp: copy_paged_layer_def table_read_def paged_view_def
          Let_def err_defs)
  next
    case layer
    then obtain e where "storage_offset c l 0 = Err e" using storage_offset_Err assms(1) by blast
    with layer show ?thesis
      using A(5) prod copy_rows_Err [of n "storage_offset c l" e]
      by (auto simp: copy_paged_layer_def table_read_def paged_view_def Let_def)
  next
    case none
    then show ?thesis using A(5) prod assms(2)
      by (simp add: copy_paged_layer_def table_read_def paged_view_def Let_def copy_rows_def)
  next
    case ok
    have "copy_rows (storage_offset c l) src ?W n out =
        Ok (concat (map (rows_view ?L ?C (paged_stride c) ?W src l) [0..<n]))"
      using ok A assms storage_offset_row [OF assms(1,2) ok(3)] by (intro copy_rows_view) auto
    then show ?thesis using ok A(5) prod assms(2)
      by (simp add: copy_paged_layer_def table_read_def paged_view_def Let_def)
  qed
qed

interpretation paged: kv_store paged_ops paged_wf paged_view
proof (unfold_locales, goal_cases)
  case 1 then show ?case by (simp add: paged_ops_def paged_view_def Let_def)
next
  case 2 then show ?case
    by (auto simp: paged_ops_def paged_set_len_def paged_ensure_active_def
        table_set_len_def paged_view_def Let_def err_defs paged_stride_def)
next
  case 3 then show ?case
    by (auto simp: paged_ops_def paged_set_len_def paged_ensure_active_def
        paged_wf_def paged_stride_def res_simps split: if_splits)
next
  case 4 then show ?case by (simp add: paged_ops_def paged_write_view(1))
next
  case 5 then show ?case using paged_write_view(2) by (simp add: paged_ops_def)
next
  case (6 s l n out) then show ?case
    using copy_paged_view [of s "pc_keys s" l n out]
    by (cases "pc_released s") (auto simp: paged_ops_def paged_read_keys_def
        paged_ensure_active_def table_read_keys_def table_read_def paged_view_def Let_def err_defs)
next
  case (7 s l n out) then show ?case
    using copy_paged_view [of s "pc_values s" l n out] paged_active(2) [of s]
    by (cases "pc_released s") (auto simp: paged_ops_def paged_read_values_def
        paged_ensure_active_def table_read_values_def table_read_def paged_view_def Let_def err_defs)
next
  case 8 then show ?case
    by (simp add: paged_ops_def paged_release_def paged_view_def table_release_def Let_def)
next
  case 9 then show ?case
    by (auto simp: paged_ops_def paged_release_def paged_wf_def)
qed

interpretation paged_as_contiguous: kv_store_pair
  contiguous_ops contiguous_wf contiguous_view paged_ops paged_wf paged_view
  by unfold_locales

section \<open>New caches\<close>

definition zero_table :: "kv_cache_layout \<Rightarrow> kv_table" where
  "zero_table l =
     (let rows = (\<lambda>i p. if i < kl_num_layers l \<and> p < kl_capacity_tokens l
                        then replicate (row_width l) 0 else []) in
      \<lparr>kt_layers = kl_num_layers l, kt_capacity = kl_capacity_tokens l, kt_width = row_width l,
       kt_len = 0, kt_released = False, kt_key = rows, kt_value = rows\<rparr>)"

lemma zeroed_vec_Ok_iff [simp]: "zeroed_vec n = Ok xs \<longleftrightarrow> 4 * n \<le> 2 ^ 63 - 1 \<and> xs = replicate n 0"
  by (auto simp: zeroed_vec_def)

lemma contiguous_new_OkD:
  assumes "contiguous_new l = Ok c" and "positive_layout l"
  shows "contiguous_wf c \<and> contiguous_view c = zero_table l"
proof -
  obtain n where n: "values_per_all_key_tensors l = Ok n"
    and c: "c = \<lparr>cc_layout = l, cc_keys = replicate n 0, cc_values = replicate n 0,
      cc_len_tokens = 0, cc_released = False\<rparr>"
    using assms(1) by (auto simp: contiguous_new_def res_simps)
  have "n = kl_num_layers l * kl_capacity_tokens l * row_width l"
    using n by (auto simp: values_per_all_key_tensors_def row_width_def mult.assoc
        dest!: checked_product_OkD)
  then show ?thesis
    using n assms(2) by (simp add: c contiguous_wf_def contiguous_view_def zero_table_def Let_def
        rows_view_zeroed)
qed

lemma paged_new_OkD:
  assumes "paged_new_with_page_table l t = Ok c"
    and "positive_layout (pl_base l)" and "0 < pl_page_size_tokens l"
  shows "paged_wf c \<and> paged_view c = zero_table (pl_base l) \<and> pc_page_table c = t \<and>
    pc_layout c = l \<and> \<not> pc_released c"
proof -
  let ?b = "pl_base l" and ?s = "pl_page_size_tokens l"
  obtain pv n where valid: "validate_page_table l t = Ok ()"
    and pv: "values_per_page_tensor l = Ok pv"
    and n: "checked_product ''paged kv tensor values'' [kl_num_layers ?b, length t, pv] = Ok n"
    and c: "c = \<lparr>pc_layout = l, pc_page_table = t, pc_keys = replicate n 0,
      pc_values = replicate n 0, pc_len_tokens = 0, pc_released = False\<rparr>"
    using assms(1) by (auto simp: paged_new_with_page_table_def res_simps)
  have W: "pv = ?s * row_width ?b"
    using pv by (auto simp: values_per_page_tensor_def res_simps
        dest!: checked_product_OkD values_per_position_OkD)
  have stride: "paged_stride c = length t * ?s" by (simp add: c paged_stride_def)
  obtain k where k: "required_pages_for_tokens l (kl_capacity_tokens ?b) = Ok k" "k \<le> length t"
    using valid by (auto simp: validate_page_table_def res_simps not_less)
  have "kl_capacity_tokens ?b \<le> k * ?s" by (rule required_pages_cover(1) [OF assms(3) k(1)])
  also have "\<dots> \<le> paged_stride c" using k(2) stride by simp
  finally have le: "kl_capacity_tokens ?b \<le> paged_stride c" .
  have len: "n = kl_num_layers ?b * paged_stride c * row_width ?b" and "n \<le> max64"
    using n by (auto simp: W stride mult.assoc dest!: checked_product_OkD)
  have fields: "pc_layout c = l" "pc_page_table c = t" "pc_keys c = replicate n 0"
    "pc_values c = replicate n 0" "pc_len_tokens c = 0" "\<not> pc_released c"
    by (simp_all add: c)
  have "paged_wf c"
    using assms(2,3) le len \<open>n \<le> max64\<close> pv by (simp add: paged_wf_def fields W)
  moreover have "paged_view c = zero_table ?b"
    using rows_view_zeroed [OF le, of "kl_num_layers ?b" "row_width ?b"]
    by (simp add: paged_view_def zero_table_def Let_def fields len)
  ultimately show ?thesis by (simp add: fields)
qed

text \<open>
  C8. A paged cache and a contiguous cache created for the same base layout cannot be told
  apart: every sequence of length updates, writes, reads and releases gives the same results
  (values read, success or error, length after each step) on both, whatever the page size and
  the physical pages, and no operation of the sequence panics on either.
\<close>

theorem paged_contiguous_equivalent:
  assumes "contiguous_new (pl_base layout) = Ok c"
    and "paged_new_with_page_table layout page_table = Ok p"
    and "positive_layout (pl_base layout)" and "0 < pl_page_size_tokens layout"
  shows "kv_trace paged_ops p ops = kv_trace contiguous_ops c ops \<and>
    Panic \<notin> fst ` set (kv_trace paged_ops p ops)"
proof -
  have "contiguous_wf c" "paged_wf p" "contiguous_view c = paged_view p"
    using contiguous_new_OkD [OF assms(1,3)] paged_new_OkD [OF assms(2,3,4)] by auto
  with paged_as_contiguous.same_trace paged.trace_no_Panic show ?thesis by metis
qed

definition example_trace :: "kv_op list" where
  "example_trace =
     [Write 1 3 [7, 8] [9, 10], Set_Len 4, Read_Keys 1 4 (replicate 8 0),
      Write 2 0 [1, 1] [1, 1], Release, Read_Keys 0 1 [0, 0]]"

theorem paged_contiguous_equivalent_witness:
  "\<exists>c p. contiguous_new example_base_layout = Ok c \<and>
     paged_new_with_page_table example_paged_layout [3, 0, 2] = Ok p \<and>
     kv_trace paged_ops p example_trace = kv_trace contiguous_ops c example_trace"
proof -
  have c: "\<exists>c. contiguous_new (pl_base example_paged_layout) = Ok c"
    by (simp add: contiguous_new_def validate_cpu_f32_layout_def example_paged_layout_def
        example_base_layout_def values_per_all_key_tensors_def checked_product_def checked_mul_def
        max64_def zeroed_vec_def)
  have p: "\<exists>p. paged_new_with_page_table example_paged_layout [3, 0, 2] = Ok p"
    by (simp add: paged_new_with_page_table_def validate_cpu_f32_layout_def
        example_paged_layout_def example_base_layout_def validate_page_table_def
        required_pages_for_tokens_def checked_div_def checked_add_def minus_u64_def
        values_per_page_tensor_def values_per_position_def
        checked_product_def checked_mul_def max64_def zeroed_vec_def)
  have "positive_layout (pl_base example_paged_layout)" "0 < pl_page_size_tokens example_paged_layout"
    by (simp_all add: positive_layout_def example_paged_layout_def example_base_layout_def)
  moreover obtain c p where "contiguous_new (pl_base example_paged_layout) = Ok c"
    "paged_new_with_page_table example_paged_layout [3, 0, 2] = Ok p"
    using c p by blast
  moreover have "pl_base example_paged_layout = example_base_layout"
    by (simp add: example_paged_layout_def)
  ultimately show ?thesis using paged_contiguous_equivalent by metis
qed

text \<open>
  Where a row is stored does not depend on the physical page ids: two page tables that
  are both accepted for a layout give caches with the same behaviour.
\<close>

theorem page_table_irrelevant:
  assumes "paged_new_with_page_table layout table1 = Ok p1"
    and "paged_new_with_page_table layout table2 = Ok p2"
    and "positive_layout (pl_base layout)" and "0 < pl_page_size_tokens layout"
  shows "kv_trace paged_ops p1 ops = kv_trace paged_ops p2 ops"
  using paged_new_OkD [OF assms(1,3,4)] paged_new_OkD [OF assms(2,3,4)] paged.trace_view by metis

theorem page_table_irrelevant_witness:
  "\<exists>p1 p2. paged_new_with_page_table example_paged_layout [3, 0, 2] = Ok p1 \<and>
     paged_new_with_page_table example_paged_layout [0, 1, 2, 3] = Ok p2 \<and>
     kv_trace paged_ops p1 example_trace = kv_trace paged_ops p2 example_trace"
proof -
  have p: "\<exists>p. paged_new_with_page_table example_paged_layout t = Ok p"
    if "t = [3, 0, 2] \<or> t = [0, 1, 2, 3]" for t
    using that
    by (auto simp: paged_new_with_page_table_def validate_cpu_f32_layout_def
        example_paged_layout_def example_base_layout_def validate_page_table_def
        required_pages_for_tokens_def checked_div_def checked_add_def minus_u64_def
        values_per_page_tensor_def values_per_position_def
        checked_product_def checked_mul_def max64_def zeroed_vec_def)
  have "positive_layout (pl_base example_paged_layout)" "0 < pl_page_size_tokens example_paged_layout"
    by (simp_all add: positive_layout_def example_paged_layout_def example_base_layout_def)
  moreover obtain p1 p2 where "paged_new_with_page_table example_paged_layout [3, 0, 2] = Ok p1"
    "paged_new_with_page_table example_paged_layout [0, 1, 2, 3] = Ok p2"
    using p by blast
  ultimately show ?thesis using page_table_irrelevant by blast
qed

end
