(* ===== verification/Kv_Allocator.thy ===== *)
theory Kv_Allocator imports Kv_Paged "HOL-Library.Multiset"
begin

text \<open>
  The page allocator of the runtime (src/crates/runtime/src/kv_cache.rs): a queue of free
  physical pages from which paged caches are built and to which their pages return. The
  relation \<open>pool_step\<close> is the life of an allocator with the caches it has handed out; the
  invariant shows that every physical page is in exactly one place.
\<close>

section \<open>The allocator\<close>

record paged_allocator =
  pa_layout :: paged_kv_cache_layout
  pa_free_pages :: "usize list"

definition allocator_new :: "paged_kv_cache_layout \<Rightarrow> paged_allocator res" where
  "allocator_new layout =
     and_then (validate_cpu_f32_layout (pl_base layout)) (\<lambda>_.
       Ok \<lparr>pa_layout = layout, pa_free_pages = [0..<pl_physical_pages layout]\<rparr>)"

definition free_page_count :: "paged_allocator \<Rightarrow> usize" where
  "free_page_count a = length (pa_free_pages a)"

text \<open>The loop that pops \<open>required\<close> pages from the front of the queue.\<close>

fun pop_pages :: "nat \<Rightarrow> usize list \<Rightarrow> usize list \<Rightarrow> usize list \<times> usize list res" where
  "pop_pages 0 free table = (free, Ok table)"
| "pop_pages (Suc n) [] table = ([], runtime_err ''paged kv free-page queue underflowed'')"
| "pop_pages (Suc n) (page # free) table = pop_pages n free (table @ [page])"

text \<open>
  \<open>allocate\<close>: the last case is the put-back branch, which returns the popped pages to the
  queue and sorts it when the cache cannot be built.
\<close>

definition allocate :: "paged_allocator \<Rightarrow> usize \<Rightarrow> paged_allocator \<times> paged_kv_cache res" where
  "allocate a capacity_tokens =
     (let layout = pa_layout a in
      if capacity_tokens = 0 \<or> kl_capacity_tokens (pl_base layout) < capacity_tokens
      then (a, runtime_err ''paged kv requested capacity {capacity_tokens} outside allocator capacity {}'')
      else
        and_then_st (a, required_pages_for_tokens layout capacity_tokens) (\<lambda>a required.
          if length (pa_free_pages a) < required
          then (a, runtime_err ''paged kv allocation needs {required} pages but only {} are free'')
          else
            let (free, popped) = pop_pages required (pa_free_pages a) [];
                a = a\<lparr>pa_free_pages := free\<rparr> in
            and_then_st (a, popped) (\<lambda>a table.
            and_then_st
              (a, paged_layout_new ((pl_base layout)\<lparr>kl_capacity_tokens := capacity_tokens\<rparr>)
                    (pl_page_size_tokens layout) (pl_physical_pages layout))
              (\<lambda>a cache_layout.
                case paged_new_with_page_table cache_layout table of
                  Ok cache \<Rightarrow> (a, Ok cache)
                | Err err \<Rightarrow>
                    (a\<lparr>pa_free_pages := sort (pa_free_pages a @ table)\<rparr>, Err err)
                | Panic \<Rightarrow> (a, Panic)))))"

definition allocator_release :: "paged_allocator \<Rightarrow> paged_kv_cache \<Rightarrow> paged_allocator" where
  "allocator_release a cache =
     a\<lparr>pa_free_pages := sort (pa_free_pages a @ snd (paged_release cache))\<rparr>"

section \<open>One allocation\<close>

definition pool_layout :: "paged_kv_cache_layout \<Rightarrow> bool" where
  "pool_layout l \<longleftrightarrow>
     positive_layout (pl_base l) \<and> kl_dtype (pl_base l) = F32 \<and> kl_device (pl_base l) = Cpu \<and>
     0 < pl_page_size_tokens l \<and> 0 < pl_physical_pages l \<and>
     (\<exists>n \<le> pl_physical_pages l.
        required_pages_for_tokens l (kl_capacity_tokens (pl_base l)) = Ok n)"

lemma paged_layout_new_pool_layout:
  assumes "paged_layout_new base ps pp = Ok l" and "positive_layout base"
    and "kl_dtype base = F32" and "kl_device base = Cpu"
  shows "pool_layout l"
  using assms by (auto simp: paged_layout_new_Ok_iff pool_layout_def)

lemma pop_pages_eq:
  "n \<le> length free \<Longrightarrow> pop_pages n free table = (drop n free, Ok (table @ take n free))"
  by (induction n free table rule: pop_pages.induct) auto

text \<open>The vectors of a cache for \<open>capacity\<close> tokens are within the size a vector may have.\<close>

definition allocation_fits :: "paged_kv_cache_layout \<Rightarrow> usize \<Rightarrow> bool" where
  "allocation_fits l capacity \<longleftrightarrow>
     4 * (kl_num_layers (pl_base l) *
       ((capacity + pl_page_size_tokens l - 1) div pl_page_size_tokens l *
       (pl_page_size_tokens l * row_width (pl_base l)))) \<le> 2 ^ 63 - 1"

definition cache_layout_for :: "paged_kv_cache_layout \<Rightarrow> usize \<Rightarrow> paged_kv_cache_layout" where
  "cache_layout_for l capacity =
     l\<lparr>pl_base := (pl_base l)\<lparr>kl_capacity_tokens := capacity\<rparr>\<rparr>"

lemma cache_layout_for_simps [simp]:
  "pl_base (cache_layout_for l c) = (pl_base l)\<lparr>kl_capacity_tokens := c\<rparr>"
  "pl_page_size_tokens (cache_layout_for l c) = pl_page_size_tokens l"
  "pl_physical_pages (cache_layout_for l c) = pl_physical_pages l"
  "required_pages_for_tokens (cache_layout_for l c) t = required_pages_for_tokens l t"
  "row_width (b\<lparr>kl_capacity_tokens := c\<rparr>) = row_width b"
  "values_per_position (b\<lparr>kl_capacity_tokens := c\<rparr>) = values_per_position b"
  by (simp_all add: cache_layout_for_def required_pages_for_tokens_def row_width_def
      values_per_position_def cong: option.case_cong)

lemma pool_layout_required:
  assumes "pool_layout l" and "cap \<le> kl_capacity_tokens (pl_base l)" and "0 < cap"
  obtains n where "required_pages_for_tokens l cap = Ok n"
    and "n = (cap + pl_page_size_tokens l - 1) div pl_page_size_tokens l"
    and "0 < n" and "n \<le> pl_physical_pages l"
proof -
  obtain m where m: "required_pages_for_tokens l (kl_capacity_tokens (pl_base l)) = Ok m"
    "m \<le> pl_physical_pages l" and ps: "0 < pl_page_size_tokens l"
    using assms(1) by (auto simp: pool_layout_def)
  obtain n where n: "required_pages_for_tokens l cap = Ok n"
    using required_pages_Ok_mono [OF ps m(1) assms(2)] by blast
  have "n \<le> m" using required_pages_mono [OF ps n m(1) assms(2)] .
  with m(2) have le: "n \<le> pl_physical_pages l" by linarith
  have pos: "0 < n"
    using required_pages_cover(1) [OF ps n] assms(3) by (cases n) auto
  have eq: "n = (cap + pl_page_size_tokens l - 1) div pl_page_size_tokens l"
    using n ps by (simp add: required_pages_Ok_iff)
  show thesis by (rule that [OF n eq pos le])
qed

definition pages_for :: "paged_kv_cache_layout \<Rightarrow> usize \<Rightarrow> nat" where
  "pages_for l cap = (cap + pl_page_size_tokens l - 1) div pl_page_size_tokens l"

lemma allocate_eq:
  assumes "pool_layout (pa_layout a)" and "0 < cap"
    and "cap \<le> kl_capacity_tokens (pl_base (pa_layout a))"
    and "n = pages_for (pa_layout a) cap"
  shows "allocate a cap =
    (if length (pa_free_pages a) < n
     then (a, runtime_err ''paged kv allocation needs {required} pages but only {} are free'')
     else
       (case paged_new_with_page_table (cache_layout_for (pa_layout a) cap)
               (take n (pa_free_pages a)) of
          Ok c \<Rightarrow> (a\<lparr>pa_free_pages := drop n (pa_free_pages a)\<rparr>, Ok c)
        | Err e \<Rightarrow>
            (a\<lparr>pa_free_pages := sort (drop n (pa_free_pages a) @ take n (pa_free_pages a))\<rparr>, Err e)
        | Panic \<Rightarrow> (a\<lparr>pa_free_pages := drop n (pa_free_pages a)\<rparr>, Panic)))"
proof -
  let ?l = "pa_layout a"
  obtain m where m: "required_pages_for_tokens ?l cap = Ok m" "m = pages_for ?l cap"
    "m \<le> pl_physical_pages ?l"
    using pool_layout_required [OF assms(1,3,2)] by (metis pages_for_def)
  have "paged_layout_new ((pl_base ?l)\<lparr>kl_capacity_tokens := cap\<rparr>) (pl_page_size_tokens ?l)
      (pl_physical_pages ?l) = Ok (cache_layout_for ?l cap)"
  proof -
    have eq: "\<lparr>pl_base = (pl_base ?l)\<lparr>kl_capacity_tokens := cap\<rparr>,
        pl_page_size_tokens = pl_page_size_tokens ?l,
        pl_physical_pages = pl_physical_pages ?l\<rparr> = cache_layout_for ?l cap"
      by (simp add: cache_layout_for_def)
    show ?thesis
      using assms(1) m by (auto simp: paged_layout_new_Ok_iff eq pool_layout_def)
  qed
  with m assms(2-4) show ?thesis
    by (simp add: allocate_def Let_def pop_pages_eq cong: outcome.case_cong)
qed

lemma allocate_out_of_range:
  "cap = 0 \<or> kl_capacity_tokens (pl_base (pa_layout a)) < cap \<Longrightarrow>
     \<exists>e. allocate a cap = (a, Err e)"
  by (auto simp: allocate_def Let_def err_defs)

section \<open>What an allocation returns\<close>

text \<open>The number of \<open>f32\<close> values in each of the two vectors of a cache for \<open>cap\<close> tokens.\<close>

definition cache_values :: "paged_kv_cache_layout \<Rightarrow> usize \<Rightarrow> nat" where
  "cache_values l cap =
     kl_num_layers (pl_base l) * (pages_for l cap * (pl_page_size_tokens l * row_width (pl_base l)))"

text \<open>
  Over a valid page table the constructor of a cache has three outcomes: an error when the number
  of values does not fit \<open>usize\<close>, a panic when a vector of that many values would be larger than
  \<open>isize::MAX\<close> bytes, and otherwise a cache full of zeros.
\<close>

lemma paged_new_outcome:
  assumes "pool_layout l" and "0 < cap" and "cap \<le> kl_capacity_tokens (pl_base l)"
    and "length t = pages_for l cap" and "distinct t" and "set t \<subseteq> {..<pl_physical_pages l}"
  shows "if max64 < cache_values l cap
    then \<exists>e. paged_new_with_page_table (cache_layout_for l cap) t = Err e
    else paged_new_with_page_table (cache_layout_for l cap) t =
      (if 2 ^ 63 - 1 < 4 * cache_values l cap then Panic
       else Ok \<lparr>pc_layout = cache_layout_for l cap, pc_page_table = t,
         pc_keys = replicate (cache_values l cap) 0, pc_values = replicate (cache_values l cap) 0,
         pc_len_tokens = 0, pc_released = False\<rparr>)"
proof -
  let ?W = "row_width (pl_base l)" and ?L = "kl_num_layers (pl_base l)"
  let ?s = "pl_page_size_tokens l" and ?V = "cache_values l cap"
  let ?new = "paged_new_with_page_table (cache_layout_for l cap) t"
  obtain n where n: "required_pages_for_tokens l cap = Ok n" "n = pages_for l cap" "0 < n"
    using pool_layout_required [OF assms(1,3,2)] by (metis pages_for_def)
  have pos: "0 < ?s" "0 < kl_num_key_value_heads (pl_base l)" "0 < kl_head_dim (pl_base l)" "0 < ?L"
    "0 < ?W"
    using assms(1) by (auto simp: pool_layout_def positive_layout_def row_width_def)
  have V: "?V = ?L * (n * (?s * ?W))" by (simp add: cache_values_def n(2))
  have table: "validate_page_table (cache_layout_for l cap) t = Ok ()"
    using n(1,2) assms(4-6) by (auto simp: validate_page_table_def validate_pages_Ok_iff)
  have cpu: "validate_cpu_f32_layout ((pl_base l)\<lparr>kl_capacity_tokens := cap\<rparr>) = Ok ()"
    using assms(1) by (simp add: validate_cpu_f32_layout_def pool_layout_def)
  show ?thesis
  proof (cases "max64 < ?V")
    case True
    have "\<exists>e. ?new = Err e"
    proof (cases "values_per_page_tensor (cache_layout_for l cap)")
      case (Ok v)
      then have v: "v = ?s * ?W"
        by (auto simp: values_per_page_tensor_def res_simps dest!: checked_product_OkD values_per_position_OkD)
      have "checked_product ''paged kv tensor values'' [?L, length t, v] \<noteq> Ok w" for w
        using True by (auto simp: V v n(2) assms(4) mult.assoc dest!: checked_product_OkD)
      then obtain e where "checked_product ''paged kv tensor values'' [?L, length t, v] = Err e"
        by (cases "checked_product ''paged kv tensor values'' [?L, length t, v]") auto
      with Ok show ?thesis using table cpu by (simp add: paged_new_with_page_table_def)
    next
      case (Err e)
      then show ?thesis using table cpu by (simp add: paged_new_with_page_table_def)
    next
      case Panic
      then show ?thesis by (simp add: values_per_page_tensor_def res_simps)
    qed
    with True show ?thesis by simp
  next
    case False
    then have all: "?L * (n * (?s * ?W)) \<le> max64" by (simp add: V)
    have "1 * (1 * (?s * ?W)) \<le> ?L * (n * (?s * ?W))"
      using pos n(3) by (intro mult_le_mono) auto
    with all have sW: "?s * ?W \<le> max64" by linarith
    have "1 * ?W \<le> ?s * ?W" using pos by (intro mult_le_mono) auto
    with sW have W: "?W \<le> max64" by linarith
    have "values_per_position (pl_base l) = Ok ?W"
      unfolding values_per_position_def row_width_def
      using W pos by (subst checked_product_le) (auto simp: row_width_def)
    then have "values_per_page_tensor (cache_layout_for l cap) = Ok (?s * ?W)"
      unfolding values_per_page_tensor_def
      using sW pos by (simp add: checked_product_le)
    moreover have "checked_product ''paged kv tensor values'' [?L, length t, ?s * ?W] = Ok ?V"
      unfolding V using all pos n(2,3) assms(4) by (subst checked_product_le) auto
    ultimately show ?thesis
      using table cpu False by (simp add: paged_new_with_page_table_def zeroed_vec_def)
  qed
qed

lemma paged_new_fits:
  assumes "pool_layout l" and "0 < cap" and "cap \<le> kl_capacity_tokens (pl_base l)"
    and "allocation_fits l cap" and "length t = pages_for l cap"
    and "distinct t" and "set t \<subseteq> {..<pl_physical_pages l}"
  shows "\<exists>c. paged_new_with_page_table (cache_layout_for l cap) t = Ok c"
  using paged_new_outcome [OF assms(1-3,5-7)] assms(4)
  by (auto simp: allocation_fits_def cache_values_def pages_for_def max64_def)

lemma validate_pages_paged_new:
  "paged_new_with_page_table l t = Ok c \<Longrightarrow> pc_page_table c = t \<and> pc_layout c = l \<and> \<not> pc_released c"
  by (auto simp: paged_new_with_page_table_def res_simps)

section \<open>The pool: an allocator and the caches it has handed out\<close>

type_synonym pool = "paged_allocator \<times> paged_kv_cache list"

inductive pool_step :: "pool \<Rightarrow> pool \<Rightarrow> bool" where
  allocated: "allocate a cap = (a', Ok c) \<Longrightarrow> pool_step (a, cs) (a', cs @ [c])"
| refused: "allocate a cap = (a', Err e) \<Longrightarrow> pool_step (a, cs) (a', cs)"
| written: "i < length cs \<Longrightarrow> paged_write (cs ! i) l p k v = Ok c \<Longrightarrow>
    pool_step (a, cs) (a, cs[i := c])"
| resized: "i < length cs \<Longrightarrow> paged_set_len (cs ! i) n = Ok c \<Longrightarrow>
    pool_step (a, cs) (a, cs[i := c])"
| released: "i < length cs \<Longrightarrow>
    pool_step (a, cs) (allocator_release a (cs ! i), take i cs @ drop (Suc i) cs)"

inductive_cases pool_stepE: "pool_step (a, cs) s'"

inductive pool_reachable :: "paged_kv_cache_layout \<Rightarrow> pool \<Rightarrow> bool" for l where
  initial: "allocator_new l = Ok a \<Longrightarrow> pool_reachable l (a, [])"
| step: "pool_reachable l s \<Longrightarrow> pool_step s s' \<Longrightarrow> pool_reachable l s'"

definition pool_pages :: "pool \<Rightarrow> nat multiset" where
  "pool_pages s = mset (pa_free_pages (fst s)) + mset (concat (map pc_page_table (snd s)))"

definition pool_inv :: "paged_kv_cache_layout \<Rightarrow> pool \<Rightarrow> bool" where
  "pool_inv l s \<longleftrightarrow>
     pa_layout (fst s) = l \<and> sorted (pa_free_pages (fst s)) \<and>
     pool_pages s = mset [0..<pl_physical_pages l] \<and>
     (\<forall>c \<in> set (snd s). paged_wf c \<and> \<not> pc_released c)"

lemma pool_inv_pages:
  assumes "pool_inv l (a, cs)"
  shows "distinct (pa_free_pages a)" and "set (pa_free_pages a) \<subseteq> {..<pl_physical_pages l}"
    and "distinct (concat (map pc_page_table cs))"
    and "set (pa_free_pages a) \<inter> set (concat (map pc_page_table cs)) = {}"
proof -
  let ?all = "pa_free_pages a @ concat (map pc_page_table cs)"
  have all: "mset ?all = mset [0..<pl_physical_pages l]"
    using assms by (simp add: pool_inv_def pool_pages_def)
  then have "distinct ?all" using distinct_upt mset_eq_imp_distinct_iff by blast
  moreover have "set ?all = {..<pl_physical_pages l}"
    using mset_eq_setD [OF all] by (simp add: lessThan_atLeast0)
  ultimately show "distinct (pa_free_pages a)" "set (pa_free_pages a) \<subseteq> {..<pl_physical_pages l}"
    "distinct (concat (map pc_page_table cs))"
    "set (pa_free_pages a) \<inter> set (concat (map pc_page_table cs)) = {}"
    by auto
qed

lemma pool_pages_update:
  "i < length cs \<Longrightarrow> pc_page_table c = pc_page_table (cs ! i) \<Longrightarrow>
     pool_pages (a, cs[i := c]) = pool_pages (a, cs)"
  by (simp add: pool_pages_def map_update) (metis list_update_id nth_map)

lemma mset_take_drop: "mset (drop n xs) + mset (take n xs) = mset xs"
  by (metis add.commute append_take_drop_id mset_append)

lemma pool_inv_allocated:
  assumes "pool_layout l" and "pool_inv l (a, cs)" and "allocate a cap = (a', Ok c)"
  shows "pool_inv l (a', cs @ [c])"
proof -
  have a: "pa_layout a = l" "sorted (pa_free_pages a)" using assms(2) by (auto simp: pool_inv_def)
  have "\<not> (cap = 0 \<or> kl_capacity_tokens (pl_base (pa_layout a)) < cap)"
    using assms(3) allocate_out_of_range [of cap a] by (metis Pair_inject outcome.distinct(1))
  then have rng: "0 < cap" "cap \<le> kl_capacity_tokens (pl_base l)" by (auto simp: a(1))
  define n where "n = pages_for l cap"
  have new: "paged_new_with_page_table (cache_layout_for l cap) (take n (pa_free_pages a)) = Ok c"
    and a': "a' = a\<lparr>pa_free_pages := drop n (pa_free_pages a)\<rparr>"
    using assms(3) allocate_eq [of a cap n] assms(1) rng
    by (auto simp: a(1) n_def err_defs split: if_splits outcome.splits)
  have "positive_layout ((pl_base l)\<lparr>kl_capacity_tokens := cap\<rparr>)" "0 < pl_page_size_tokens l"
    using assms(1) rng by (auto simp: pool_layout_def positive_layout_def)
  with paged_new_OkD [OF new] have c: "paged_wf c" "pc_page_table c = take n (pa_free_pages a)"
    "\<not> pc_released c" by auto
  have "pool_pages (a', cs @ [c]) = pool_pages (a, cs)"
    using mset_take_drop [of n "pa_free_pages a"] by (simp add: pool_pages_def a' c(2) ac_simps)
  with assms(2) c a show ?thesis by (auto simp: pool_inv_def a' sorted_wrt_drop)
qed

lemma pool_inv_refused:
  assumes "pool_layout l" and "pool_inv l (a, cs)" and "allocate a cap = (a', Err e)"
  shows "pool_inv l (a', cs)"
proof (cases "0 < cap \<and> cap \<le> kl_capacity_tokens (pl_base l)")
  case False
  then obtain e' where "allocate a cap = (a, Err e')"
    using allocate_out_of_range [of cap a] assms(2) by (auto simp: pool_inv_def not_le)
  with assms show ?thesis by simp
next
  case True
  have a: "pa_layout a = l" using assms(2) by (auto simp: pool_inv_def)
  define n where "n = pages_for l cap"
  have "a' = a \<or> a' = a\<lparr>pa_free_pages :=
      sort (drop n (pa_free_pages a) @ take n (pa_free_pages a))\<rparr>"
    using assms(3) allocate_eq [of a cap n] assms(1) True
    by (auto simp: a(1) n_def err_defs split: if_splits outcome.splits)
  with assms(2) mset_take_drop [of n "pa_free_pages a"] show ?thesis
    by (auto simp: pool_inv_def pool_pages_def)
qed

lemma pool_inv_released:
  assumes "pool_inv l (a, cs)" and "i < length cs"
  shows "pool_inv l (allocator_release a (cs ! i), take i cs @ drop (Suc i) cs)"
proof -
  have split: "cs = take i cs @ cs ! i # drop (Suc i) cs"
    using assms(2) by (rule id_take_nth_drop)
  have "mset (concat (map pc_page_table (xs @ c # ys))) =
      mset (pc_page_table c) + mset (concat (map pc_page_table (xs @ ys)))" for xs ys c
    by simp
  from this [of "take i cs" "cs ! i" "drop (Suc i) cs", folded split]
  have "pool_pages (allocator_release a (cs ! i), take i cs @ drop (Suc i) cs) =
      pool_pages (a, cs)"
    by (simp add: pool_pages_def allocator_release_def paged_release_def)
  moreover have "\<forall>c \<in> set (take i cs @ drop (Suc i) cs). c \<in> set cs"
    by (auto dest: in_set_takeD in_set_dropD)
  ultimately show ?thesis using assms(1)
    by (auto simp: pool_inv_def allocator_release_def)
qed

lemma paged_set_len_OkD:
  assumes "paged_set_len c n = Ok c'" and "paged_wf c"
  shows "paged_wf c' \<and> pc_page_table c' = pc_page_table c \<and> pc_released c' = pc_released c"
  using assms by (auto simp: paged_set_len_def paged_ensure_active_def paged_wf_def
      paged_stride_def res_simps split: if_splits)

lemma paged_write_active: "paged_write c l p k v = Ok c' \<Longrightarrow> pc_released c' = pc_released c"
  by (auto simp: paged_write_def res_simps)

lemma pool_inv_step:
  assumes "pool_layout l" and "pool_inv l s" and "pool_step s s'"
  shows "pool_inv l s'"
  using assms(3,2)
proof cases
  case (written i cs l' p k v c a)
  then have "paged_wf (cs ! i)" "\<not> pc_released (cs ! i)"
    using assms(2) by (auto simp: pool_inv_def)
  with written paged_write_view(2) paged_write_active have
    "paged_wf c" "\<not> pc_released c" "pc_page_table c = pc_page_table (cs ! i)" by metis+
  with written assms(2) show ?thesis
    by (auto simp: pool_inv_def pool_pages_update dest!: set_update_subset_insert [THEN subsetD])
next
  case (resized i cs n c a)
  then have "paged_wf (cs ! i)" "\<not> pc_released (cs ! i)"
    using assms(2) by (auto simp: pool_inv_def)
  with resized paged_set_len_OkD have
    "paged_wf c" "\<not> pc_released c" "pc_page_table c = pc_page_table (cs ! i)" by metis+
  with resized assms(2) show ?thesis
    by (auto simp: pool_inv_def pool_pages_update dest!: set_update_subset_insert [THEN subsetD])
qed (use assms pool_inv_allocated pool_inv_refused pool_inv_released in blast)+

lemma pool_reachable_inv:
  assumes "pool_reachable l s" and "pool_layout l"
  shows "pool_inv l s"
  using assms
proof (induction rule: pool_reachable.induct)
  case (initial a)
  then show ?case by (auto simp: allocator_new_def res_simps pool_inv_def pool_pages_def)
qed (use pool_inv_step in blast)

lemma example_pool_layout: "pool_layout example_paged_layout"
  by (simp add: pool_layout_def positive_layout_def example_paged_layout_def
      example_base_layout_def required_pages_Ok_iff max64_def)

lemma example_pages: "[0..<pl_physical_pages example_paged_layout] = [0, 1, 2, 3]"
  by code_simp

lemma example_pool_reachable:
  "\<exists>a c. pool_reachable example_paged_layout (a, [c]) \<and> pa_free_pages a = [2, 3]"
proof -
  let ?l = example_paged_layout
  let ?a = "\<lparr>pa_layout = ?l, pa_free_pages = [0, 1, 2, 3]\<rparr>"
  have n: "pages_for ?l 3 = 2" and cap: "3 \<le> kl_capacity_tokens (pl_base ?l)" and fits: "allocation_fits ?l 3"
    by (simp_all add: pages_for_def example_paged_layout_def example_base_layout_def
        allocation_fits_def row_width_def)
  have "allocator_new ?l = Ok ?a"
    unfolding allocator_new_def example_pages
    by (simp add: validate_cpu_f32_layout_def example_paged_layout_def example_base_layout_def)
  then have start: "pool_reachable ?l (?a, [])" by (rule pool_reachable.initial)
  have "pl_physical_pages ?l = 4" by (simp add: example_paged_layout_def)
  then obtain c where "paged_new_with_page_table (cache_layout_for ?l 3) [0, 1] = Ok c"
    using paged_new_fits [OF example_pool_layout _ cap fits, of "[0, 1]"] n by auto
  moreover have "pool_layout (pa_layout ?a)" "3 \<le> kl_capacity_tokens (pl_base (pa_layout ?a))"
    "2 = pages_for (pa_layout ?a) 3"
    using example_pool_layout cap n by simp_all
  from allocate_eq [OF this(1) _ this(2,3)]
  have "allocate ?a 3 = (case paged_new_with_page_table (cache_layout_for ?l 3) [0, 1] of
      Ok c \<Rightarrow> (?a\<lparr>pa_free_pages := [2, 3]\<rparr>, Ok c)
    | Err e \<Rightarrow> (?a\<lparr>pa_free_pages := sort ([2, 3] @ [0, 1])\<rparr>, Err e)
    | Panic \<Rightarrow> (?a\<lparr>pa_free_pages := [2, 3]\<rparr>, Panic))"
    by (simp del: sort_key_simps cong: outcome.case_cong)
  ultimately have "allocate ?a 3 = (?a\<lparr>pa_free_pages := [2, 3]\<rparr>, Ok c)" by simp
  then have "pool_step (?a, []) (?a\<lparr>pa_free_pages := [2, 3]\<rparr>, [] @ [c])"
    by (rule pool_step.allocated)
  with start have "pool_reachable ?l (?a\<lparr>pa_free_pages := [2, 3]\<rparr>, [c])"
    by (auto intro: pool_reachable.step)
  moreover have "pa_free_pages (?a\<lparr>pa_free_pages := [2, 3]\<rparr>) = [2, 3]"
    by (simp add: example_pages)
  ultimately show ?thesis by blast
qed

text \<open>
  C3. Pages are conserved: in every state an allocator and its caches reach by allocations
  (granted or refused), writes, length updates and releases, each physical page is either
  free or in the table of exactly one live cache, and the free queue is sorted.
\<close>

theorem page_conservation:
  assumes "pool_reachable l (a, cs)" and "pool_layout l"
  shows "mset (pa_free_pages a) + mset (concat (map pc_page_table cs)) =
      mset [0..<pl_physical_pages l]
    \<and> sorted (pa_free_pages a)
    \<and> distinct (pa_free_pages a @ concat (map pc_page_table cs))"
  using pool_reachable_inv [OF assms] pool_inv_pages [of l a cs]
  by (auto simp: pool_inv_def pool_pages_def)

theorem page_conservation_witness:
  "\<exists>a c. pool_reachable example_paged_layout (a, [c]) \<and>
     mset (pa_free_pages a) + mset (pc_page_table c) = mset [0, 1, 2, 3]"
proof -
  obtain a c where r: "pool_reachable example_paged_layout (a, [c])"
    using example_pool_reachable by blast
  with page_conservation [OF r example_pool_layout] show ?thesis by (auto simp: example_pages)
qed

lemma put_back_sorted: "sorted free \<Longrightarrow> sort (drop n free @ take n free) = (free :: nat list)"
  by (rule properties_for_sort) (use mset_take_drop [of n free] in simp_all)

text \<open>
  C18. In every state that an allocator over a well-formed layout and its caches reach, an
  allocation is granted exactly when its capacity is positive and within the allocator's, enough pages are free, and the two vectors of the cache fit into memory, each of at
  most \<open>isize::MAX\<close> bytes: then it takes the lowest-numbered free pages and the cache is empty and
  zeroed. Every error, be it the capacity, the free pages or a number of values beyond \<open>usize\<close>,
  changes nothing. In the range between, where the number of values is a \<open>usize\<close> but a vector of
  them would be too large, the construction of the cache panics after the pages were popped. When
  every cache has been released all pages are free again.
\<close>

theorem allocation_exact:
  assumes "pool_reachable l (a, cs)" and "pool_layout l"
  shows "(if cap = 0 \<or> kl_capacity_tokens (pl_base l) < cap \<or> free_page_count a < pages_for l cap \<or>
        max64 < cache_values l cap
      then \<exists>e. allocate a cap = (a, Err e)
      else allocate a cap = (a\<lparr>pa_free_pages := drop (pages_for l cap) (pa_free_pages a)\<rparr>,
        if 2 ^ 63 - 1 < 4 * cache_values l cap then Panic
        else Ok \<lparr>pc_layout = cache_layout_for l cap,
          pc_page_table = take (pages_for l cap) (pa_free_pages a),
          pc_keys = replicate (cache_values l cap) 0, pc_values = replicate (cache_values l cap) 0,
          pc_len_tokens = 0, pc_released = False\<rparr>))
    \<and> sorted_wrt (<) (pa_free_pages a)
    \<and> (cs = [] \<longrightarrow> pa_free_pages a = [0..<pl_physical_pages l])"
proof (intro conjI impI)
  let ?n = "pages_for l cap" and ?free = "pa_free_pages a"
  have inv: "pool_inv l (a, cs)" by (rule pool_reachable_inv [OF assms(1,2)])
  then have a: "pa_layout a = l" and sorted: "sorted ?free"
    and pages: "mset ?free + mset (concat (map pc_page_table cs)) = mset [0..<pl_physical_pages l]"
    by (auto simp: pool_inv_def pool_pages_def)
  note P = pool_inv_pages [OF inv]
  show "sorted_wrt (<) ?free" using sorted P(1) by (simp add: strict_sorted_iff)
  show "?free = [0..<pl_physical_pages l]" if "cs = []"
  proof -
    from pages that have "mset ?free = mset [0..<pl_physical_pages l]" by simp
    then have "sort [0..<pl_physical_pages l] = ?free" using sorted by (rule properties_for_sort)
    then show ?thesis by (simp add: sorted_sort_id)
  qed
  show "if cap = 0 \<or> kl_capacity_tokens (pl_base l) < cap \<or> free_page_count a < ?n \<or> max64 < cache_values l cap
      then \<exists>e. allocate a cap = (a, Err e)
      else allocate a cap = (a\<lparr>pa_free_pages := drop ?n ?free\<rparr>,
        if 2 ^ 63 - 1 < 4 * cache_values l cap then Panic
        else Ok \<lparr>pc_layout = cache_layout_for l cap, pc_page_table = take ?n ?free,
          pc_keys = replicate (cache_values l cap) 0, pc_values = replicate (cache_values l cap) 0,
          pc_len_tokens = 0, pc_released = False\<rparr>)"
  proof (cases "cap = 0 \<or> kl_capacity_tokens (pl_base l) < cap")
    case True
    with allocate_out_of_range [of cap a] show ?thesis by (auto simp: a)
  next
    case False
    then have cap: "0 < cap" "cap \<le> kl_capacity_tokens (pl_base l)" by simp_all
    note eq = allocate_eq [of a cap ?n, unfolded a, OF assms(2) cap refl]
    show ?thesis
    proof (cases "length ?free < ?n")
      case True
      then show ?thesis by (simp add: eq err_defs free_page_count_def)
    next
      case enough: False
      have "set (take ?n ?free) \<subseteq> {..<pl_physical_pages l}"
        by (rule order_trans [OF set_take_subset P(2)])
      from paged_new_outcome [OF assms(2) cap _ _ this] enough P(1)
      have new: "if max64 < cache_values l cap
        then \<exists>e. paged_new_with_page_table (cache_layout_for l cap) (take ?n ?free) = Err e
        else paged_new_with_page_table (cache_layout_for l cap) (take ?n ?free) =
          (if 2 ^ 63 - 1 < 4 * cache_values l cap then Panic
           else Ok \<lparr>pc_layout = cache_layout_for l cap, pc_page_table = take ?n ?free,
             pc_keys = replicate (cache_values l cap) 0, pc_values = replicate (cache_values l cap) 0,
             pc_len_tokens = 0, pc_released = False\<rparr>)" by simp
      have restored: "a\<lparr>pa_free_pages := sort (drop ?n ?free @ take ?n ?free)\<rparr> = a"
        using sorted put_back_sorted by simp
      show ?thesis
      proof (cases "max64 < cache_values l cap")
        case True
        with new obtain e where
          "paged_new_with_page_table (cache_layout_for l cap) (take ?n ?free) = Err e" by auto
        with True enough restored show ?thesis by (simp add: eq free_page_count_def)
      next
        case False
        with new enough cap show ?thesis by (simp add: eq free_page_count_def)
      qed
    qed
  qed
qed

theorem allocation_exact_witness:
  "\<exists>a c c'. pool_reachable example_paged_layout (a, [c]) \<and>
     allocate a 4 = (a\<lparr>pa_free_pages := []\<rparr>, Ok c') \<and> pc_page_table c' = [2, 3]"
proof -
  obtain a c where r: "pool_reachable example_paged_layout (a, [c])"
    and free: "pa_free_pages a = [2, 3]"
    using example_pool_reachable by blast
  have n: "pages_for example_paged_layout 4 = 2"
    "4 \<le> kl_capacity_tokens (pl_base example_paged_layout)"
    "4 * cache_values example_paged_layout 4 \<le> 2 ^ 63 - 1" "cache_values example_paged_layout 4 \<le> max64"
    by (simp_all add: pages_for_def cache_values_def example_paged_layout_def example_base_layout_def
        row_width_def max64_def)
  from allocation_exact [OF r example_pool_layout, of 4] n free r show ?thesis
    by (auto simp: free_page_count_def not_less [symmetric])
qed

end
