(* ===== verification/Sampling.thy ===== *)
theory Sampling imports F32_Bits
begin

text \<open>
  Token selection: the runtime's greedy sampler (src/crates/runtime/src/sampling.rs), the
  masked sampler of the Whisper decode loop (src/crates/runtime/src/whisper/transcribe.rs)
  and the argmax of the transducer decode loop (src/crates/models/src/parakeet/decoder.rs).
  Each is one scan with a strict comparison; the lemmas show that each returns the first
  position of the largest admissible logit when no logit is a NaN.
\<close>

section \<open>The first largest position\<close>

definition no_nan :: "f32 list \<Rightarrow> bool" where
  "no_nan xs \<longleftrightarrow> (\<forall>x \<in> set xs. \<not> f32_is_nan x)"

definition is_argmax :: "(nat \<Rightarrow> bool) \<Rightarrow> f32 list \<Rightarrow> nat \<Rightarrow> bool" where
  "is_argmax ok xs i \<longleftrightarrow>
     i < length xs \<and> ok i \<and>
     (\<forall>j < length xs. ok j \<longrightarrow> \<not> f32_lt (xs ! i) (xs ! j)) \<and>
     (\<forall>j < i. ok j \<longrightarrow> f32_lt (xs ! j) (xs ! i))"

lemma is_argmax_unique: "is_argmax ok xs i \<Longrightarrow> is_argmax ok xs j \<Longrightarrow> i = j"
  unfolding is_argmax_def by (metis nat_neq_iff)

lemma is_argmax_single: "ok 0 \<Longrightarrow> is_argmax ok [x] 0"
  by (simp add: is_argmax_def)

lemma less_length_snoc: "j < length (pre @ [x]) \<longleftrightarrow> j < length pre \<or> j = length pre"
  by auto

lemma is_argmax_snoc_skip:
  "is_argmax ok pre i \<Longrightarrow> \<not> ok (length pre) \<Longrightarrow> is_argmax ok (pre @ [x]) i"
  by (auto simp: is_argmax_def nth_append less_Suc_eq)

lemma is_argmax_snoc_keep:
  "is_argmax ok pre i \<Longrightarrow> \<not> f32_lt (pre ! i) x \<Longrightarrow> is_argmax ok (pre @ [x]) i"
  by (auto simp: is_argmax_def nth_append less_Suc_eq)

lemma is_argmax_snoc_new:
  assumes "is_argmax ok pre i" and "f32_lt (pre ! i) x" and "ok (length pre)"
    and "no_nan pre"
  shows "is_argmax ok (pre @ [x]) (length pre)"
proof -
  have "f32_lt (pre ! j) x" if "j < length pre" "ok j" for j
  proof -
    have "\<not> f32_lt (pre ! i) (pre ! j)" "\<not> f32_is_nan (pre ! j)"
      using assms that by (auto simp: is_argmax_def no_nan_def)
    with assms(2) show ?thesis using f32_lt_weak by blast
  qed
  with assms(3) show ?thesis
    by (auto simp: is_argmax_def nth_append less_Suc_eq dest: f32_lt_asym)
qed

lemma is_argmax_first:
  assumes "\<forall>j < length pre. \<not> ok j" and "ok (length pre)"
  shows "is_argmax ok (pre @ [x]) (length pre)"
  using assms by (auto simp: is_argmax_def nth_append less_Suc_eq)

section \<open>The greedy sampler\<close>

fun greedy_scan :: "nat \<Rightarrow> f32 \<Rightarrow> nat \<Rightarrow> f32 list \<Rightarrow> nat" where
  "greedy_scan best_idx best_val idx [] = best_idx"
| "greedy_scan best_idx best_val idx (val # rest) =
     (if f32_gt val best_val then greedy_scan idx val (idx + 1) rest
      else greedy_scan best_idx best_val (idx + 1) rest)"

text \<open>\<open>best_idx as u32\<close> keeps the low 32 bits.\<close>

definition greedy_sample :: "f32 list \<Rightarrow> token_id res" where
  "greedy_sample logits =
     (case logits of
        [] \<Rightarrow> runtime_err ''greedy_sample requires at least one logit''
      | first # rest \<Rightarrow> Ok (word_of_nat (greedy_scan 0 first 1 rest)))"

lemma greedy_scan_argmax:
  assumes "is_argmax (\<lambda>_. True) pre b" and "no_nan (pre @ xs)"
  shows "is_argmax (\<lambda>_. True) (pre @ xs) (greedy_scan b (pre ! b) (length pre) xs)"
  using assms
proof (induction xs arbitrary: pre b)
  case (Cons x xs)
  have nan: "no_nan pre" "no_nan ((pre @ [x]) @ xs)" using Cons.prems(2) by (auto simp: no_nan_def)
  have len: "length pre + 1 = length (pre @ [x])" by simp
  show ?case
  proof (cases "f32_lt (pre ! b) x")
    case True
    have "is_argmax (\<lambda>_. True) (pre @ [x]) (length pre)"
      using is_argmax_snoc_new [OF Cons.prems(1) True] nan by simp
    from Cons.IH [OF this nan(2)] True show ?thesis by (simp add: f32_gt_def)
  next
    case False
    have "b < length pre" using Cons.prems(1) by (simp add: is_argmax_def)
    with Cons.IH [OF is_argmax_snoc_keep [OF Cons.prems(1) False] nan(2)] False show ?thesis
      by (simp add: f32_gt_def nth_append)
  qed
qed simp

text \<open>
  C20. The greedy sampler returns the first position of the largest logit: for a non-empty
  list of at most 2^32 logits without NaN, no logit is larger than the chosen one and every
  earlier one is smaller.
\<close>

theorem greedy_sample_argmax:
  assumes "no_nan logits" and "logits \<noteq> []" and "length logits \<le> 2 ^ 32"
  shows "\<exists>token. greedy_sample logits = Ok token \<and> is_argmax (\<lambda>_. True) logits (unat token)"
proof -
  obtain x xs where logits: "logits = x # xs" using assms(2) by (cases logits) auto
  let ?b = "greedy_scan 0 x 1 xs"
  have "is_argmax (\<lambda>_. True) ([x] @ xs) (greedy_scan 0 ([x] ! 0) (length [x]) xs)"
    using assms(1) logits by (intro greedy_scan_argmax is_argmax_single) auto
  then have arg: "is_argmax (\<lambda>_. True) logits ?b" by (simp add: logits)
  then have "?b < 2 ^ 32" using assms(3) by (simp add: is_argmax_def)
  then have "unat (word_of_nat ?b :: 32 word) = ?b" by (simp add: unat_of_nat)
  with arg show ?thesis by (simp add: greedy_sample_def logits)
qed

theorem greedy_sample_argmax_witness:
  "\<exists>token. greedy_sample [0x3DCCCCCD, 0x3F000000, 0xBF800000, 0x3F000000] = Ok token \<and>
     unat token = 1"
proof -
  let ?l = "[0x3DCCCCCD, 0x3F000000, 0xBF800000, 0x3F000000] :: f32 list"
  have "no_nan ?l" by (simp add: no_nan_def f32_is_nan_def f32_magnitude_def)
  then obtain token where t: "greedy_sample ?l = Ok token" "is_argmax (\<lambda>_. True) ?l (unat token)"
    using greedy_sample_argmax [of ?l] by auto
  moreover have "is_argmax (\<lambda>_. True) ?l 1"
    by (simp add: is_argmax_def All_less_Suc f32_lt_def f32_is_nan_def f32_rank_def
        f32_magnitude_def f32_negative_def)
  ultimately show ?thesis using is_argmax_unique by blast
qed

text \<open>
  C21. A NaN in the first position is always chosen, whatever the other logits are: the scan
  never replaces it, because every comparison with a NaN is false. So a NaN can win even
  when the other logits are numbers.
\<close>

lemma greedy_scan_nan: "f32_is_nan v \<Longrightarrow> greedy_scan b v i xs = b"
  by (induction xs arbitrary: i) (auto simp: f32_gt_def)

theorem greedy_sample_nan_first:
  assumes "f32_is_nan (hd logits)" and "logits \<noteq> []"
  shows "greedy_sample logits = Ok 0"
  using assms by (cases logits) (simp_all add: greedy_sample_def greedy_scan_nan)

theorem greedy_sample_nan_first_witness:
  "greedy_sample [f32_nan, 0x3F800000] = Ok 0"
  by (rule greedy_sample_nan_first) (simp_all add: f32_nan_def f32_is_nan_def f32_magnitude_def)

section \<open>The masked sampler\<close>

fun masked_scan ::
    "(token_id \<Rightarrow> bool) \<Rightarrow> (nat \<times> f32) option \<Rightarrow> nat \<Rightarrow> f32 list \<Rightarrow> (nat \<times> f32) option res" where
  "masked_scan suppressed best idx [] = Ok best"
| "masked_scan suppressed best idx (logit # rest) =
     (if 2 ^ 32 \<le> idx then runtime_err ''logit index {idx} does not fit in TokenId''
      else if suppressed (word_of_nat idx) then masked_scan suppressed best (idx + 1) rest
      else if (case best of None \<Rightarrow> True | Some (_, best_logit) \<Rightarrow> f32_gt logit best_logit)
      then masked_scan suppressed (Some (idx, logit)) (idx + 1) rest
      else masked_scan suppressed best (idx + 1) rest)"

definition masked_greedy_sample :: "(token_id \<Rightarrow> bool) \<Rightarrow> f32 list \<Rightarrow> token_id res" where
  "masked_greedy_sample suppressed logits =
     and_then (masked_scan suppressed None 0 logits) (\<lambda>best.
     and_then (ok_or best (RuntimeError ''Whisper decode mask suppressed every logit''))
       (\<lambda>(idx, _).
       if 2 ^ 32 \<le> idx then runtime_err ''logit index {idx} does not fit in TokenId''
       else Ok (word_of_nat idx)))"

text \<open>What the scan has found after a prefix of the logits.\<close>

definition scan_state :: "(token_id \<Rightarrow> bool) \<Rightarrow> f32 list \<Rightarrow> (nat \<times> f32) option \<Rightarrow> bool" where
  "scan_state suppressed pre best \<longleftrightarrow>
     (case best of
        None \<Rightarrow> \<forall>j < length pre. suppressed (word_of_nat j)
      | Some (i, v) \<Rightarrow> is_argmax (\<lambda>j. \<not> suppressed (word_of_nat j)) pre i \<and> v = pre ! i)"

lemma masked_scan_state:
  assumes "scan_state suppressed pre best" and "no_nan (pre @ xs)"
    and "length (pre @ xs) \<le> 2 ^ 32"
  shows "\<exists>best'. masked_scan suppressed best (length pre) xs = Ok best' \<and>
    scan_state suppressed (pre @ xs) best'"
  using assms
proof (induction xs arbitrary: pre best)
  case (Cons x xs)
  let ?ok = "\<lambda>j. \<not> suppressed (word_of_nat j :: token_id)"
  have nan: "no_nan pre" "no_nan ((pre @ [x]) @ xs)" using Cons.prems(2) by (auto simp: no_nan_def)
  have idx: "length pre < 2 ^ 32" "length ((pre @ [x]) @ xs) \<le> 2 ^ 32" using Cons.prems(3) by auto
  define next_best where "next_best =
    (if ?ok (length pre) \<and> (case best of None \<Rightarrow> True | Some (_, b) \<Rightarrow> f32_gt x b)
     then Some (length pre, x) else best)"
  have "scan_state suppressed (pre @ [x]) next_best"
  proof (cases best)
    case None
    with Cons.prems(1) show ?thesis
      using is_argmax_first [of pre ?ok x]
      by (auto simp: scan_state_def next_best_def less_Suc_eq)
  next
    case (Some b)
    obtain i v where b: "b = (i, v)" by (cases b)
    have arg: "is_argmax ?ok pre i" and v: "v = pre ! i"
      using Cons.prems(1) Some b by (auto simp: scan_state_def)
    have "i < length pre" using arg by (simp add: is_argmax_def)
    then show ?thesis
      using is_argmax_snoc_skip [OF arg, of x] is_argmax_snoc_keep [OF arg, of x]
        is_argmax_snoc_new [OF arg, of x] nan(1)
      by (auto simp: scan_state_def next_best_def Some b v f32_gt_def nth_append)
  qed
  from Cons.IH [OF this nan(2) idx(2)] obtain best' where
    "masked_scan suppressed next_best (length (pre @ [x])) xs = Ok best'"
    "scan_state suppressed (pre @ x # xs) best'" by auto
  moreover have "masked_scan suppressed best (length pre) (x # xs) =
      masked_scan suppressed next_best (length (pre @ [x])) xs"
    using idx(1) by (auto simp: next_best_def)
  ultimately show ?case by simp
qed auto

text \<open>
  The masked sampler returns the first position of the largest logit the mask keeps, and
  never a suppressed token; when the mask keeps none it is an error.
\<close>

theorem masked_greedy_sample_argmax:
  assumes "no_nan logits" and "length logits \<le> 2 ^ 32"
  shows "if \<exists>j < length logits. \<not> suppressed (word_of_nat j)
    then \<exists>token. masked_greedy_sample suppressed logits = Ok token \<and> \<not> suppressed token \<and>
      is_argmax (\<lambda>j. \<not> suppressed (word_of_nat j)) logits (unat token)
    else \<exists>e. masked_greedy_sample suppressed logits = Err e"
proof -
  let ?ok = "\<lambda>j. \<not> suppressed (word_of_nat j :: token_id)"
  have "scan_state suppressed [] None" by (simp add: scan_state_def)
  from masked_scan_state [OF this, of logits] assms obtain best where
    scan: "masked_scan suppressed None 0 logits = Ok best" "scan_state suppressed logits best"
    by auto
  show ?thesis
  proof (cases best)
    case None
    with scan show ?thesis by (auto simp: scan_state_def masked_greedy_sample_def)
  next
    case (Some b)
    obtain i v where b: "b = (i, v)" by (cases b)
    have arg: "is_argmax ?ok logits i" using scan(2) Some b by (simp add: scan_state_def)
    then have i: "i < length logits" "?ok i" by (simp_all add: is_argmax_def)
    then have "i < 2 ^ 32" using assms(2) by linarith
    then have "unat (word_of_nat i :: token_id) = i" by (simp add: unat_of_nat)
    moreover have "masked_greedy_sample suppressed logits = Ok (word_of_nat i)"
      using scan(1) Some b \<open>i < 2 ^ 32\<close> by (simp add: masked_greedy_sample_def)
    ultimately show ?thesis using arg i by auto
  qed
qed

theorem masked_greedy_sample_argmax_witness:
  "\<exists>token. masked_greedy_sample (\<lambda>t. t = 1) [0x3DCCCCCD, 0x3F000000, 0x3E000000] = Ok token \<and>
     unat token = 2"
proof -
  let ?l = "[0x3DCCCCCD, 0x3F000000, 0x3E000000] :: f32 list"
  let ?ok = "\<lambda>j. word_of_nat j \<noteq> (1 :: token_id)"
  have "no_nan ?l" by (simp add: no_nan_def f32_is_nan_def f32_magnitude_def)
  moreover have "\<exists>j < length ?l. ?ok j" by (intro exI [of _ 0]) simp
  ultimately obtain token where t: "masked_greedy_sample (\<lambda>t. t = 1) ?l = Ok token"
    "is_argmax ?ok ?l (unat token)"
    using masked_greedy_sample_argmax [of ?l "\<lambda>t. t = 1"] by auto
  moreover have "is_argmax ?ok ?l (Suc (Suc 0))"
    by (simp add: is_argmax_def All_less_Suc f32_lt_def f32_is_nan_def f32_rank_def
        f32_magnitude_def f32_negative_def)
  ultimately have "unat token = Suc (Suc 0)" using is_argmax_unique by blast
  with t(1) show ?thesis by simp
qed

section \<open>The argmax of the transducer loop\<close>

fun argmax_scan :: "nat \<Rightarrow> f32 \<Rightarrow> nat \<Rightarrow> f32 list \<Rightarrow> nat" where
  "argmax_scan best best_v i [] = best"
| "argmax_scan best best_v i (v # rest) =
     (if f32_gt v best_v then argmax_scan i v (i + 1) rest
      else argmax_scan best best_v (i + 1) rest)"

definition argmax :: "f32 list \<Rightarrow> nat" where
  "argmax values = argmax_scan 0 f32_neg_infinity 0 values"

lemma argmax_scan_greedy: "argmax_scan b v i xs = greedy_scan b v i xs"
  by (induction b v i xs rule: argmax_scan.induct) simp_all

lemma greedy_scan_less: "b < n \<Longrightarrow> i + length xs \<le> n \<Longrightarrow> greedy_scan b v i xs < n"
  by (induction b v i xs rule: greedy_scan.induct) auto

lemma argmax_less: "0 < length xs \<Longrightarrow> argmax xs < length xs"
  by (simp add: argmax_def argmax_scan_greedy greedy_scan_less)

lemma greedy_sample_less:
  "logits \<noteq> [] \<Longrightarrow> length logits \<le> 2 ^ 32 \<Longrightarrow>
     \<exists>token. greedy_sample logits = Ok token \<and> unat token < length logits"
proof (cases logits)
  case (Cons x xs)
  assume "length logits \<le> 2 ^ 32"
  moreover have "greedy_scan 0 x 1 xs < length logits" by (simp add: Cons greedy_scan_less)
  ultimately show ?thesis by (simp add: greedy_sample_def Cons unat_of_nat)
qed simp

lemma greedy_sample_no_Panic [simp]: "greedy_sample logits \<noteq> Panic"
  by (simp add: greedy_sample_def split: list.split)

lemma f32_rank_neg_infinity: "\<not> f32_is_nan x \<Longrightarrow> f32_rank f32_neg_infinity \<le> f32_rank x"
  by (auto simp: f32_rank_def f32_is_nan_def f32_neg_infinity_def f32_negative_def
      f32_magnitude_def intro: order_trans [OF _ uint_ge_0])

text \<open>
  The argmax of the transducer loop is the greedy sampler's choice: starting the scan
  from negative infinity instead of the first value makes no difference on numbers.
\<close>

theorem argmax_first_largest:
  assumes "no_nan xs" and "xs \<noteq> []"
  shows "is_argmax (\<lambda>_. True) xs (argmax xs)"
proof -
  obtain y ys where xs: "xs = y # ys" using assms(2) by (cases xs) auto
  have arg: "is_argmax (\<lambda>_. True) ([y] @ ys) (greedy_scan 0 ([y] ! 0) (length [y]) ys)"
    using assms(1) xs by (intro greedy_scan_argmax is_argmax_single) auto
  have "\<not> f32_is_nan y" using assms(1) xs by (simp add: no_nan_def)
  have drop: "greedy_scan 0 f32_neg_infinity i zs = greedy_scan 0 y i zs"
    if "f32_rank y = f32_rank f32_neg_infinity" for i zs
    using that \<open>\<not> f32_is_nan y\<close>
  proof (induction zs arbitrary: i)
    case (Cons z zs)
    have "\<not> f32_is_nan f32_neg_infinity"
      by (simp add: f32_is_nan_def f32_neg_infinity_def f32_magnitude_def)
    with Cons show ?case by (auto simp: f32_gt_def f32_lt_def)
  qed simp
  have "argmax xs = greedy_scan 0 y 1 ys"
  proof (cases "f32_gt y f32_neg_infinity")
    case False
    then have "f32_rank y = f32_rank f32_neg_infinity"
      using f32_rank_neg_infinity [OF \<open>\<not> f32_is_nan y\<close>] \<open>\<not> f32_is_nan y\<close>
      by (auto simp: f32_gt_def f32_lt_def f32_is_nan_def f32_neg_infinity_def f32_magnitude_def)
    with drop False show ?thesis by (simp add: argmax_def argmax_scan_greedy xs)
  qed (simp add: argmax_def argmax_scan_greedy xs)
  with arg show ?thesis by (simp add: xs)
qed

theorem argmax_first_largest_witness:
  "is_argmax (\<lambda>_. True) [f32_neg_infinity, 0x3F800000] (argmax [f32_neg_infinity, 0x3F800000])"
  by (rule argmax_first_largest)
    (simp_all add: no_nan_def f32_neg_infinity_def f32_is_nan_def f32_magnitude_def)

end
