(* ===== verification/Scheduler.thy ===== *)
theory Scheduler imports Core_Types "HOL-Library.Multiset"
begin

text \<open>
  The continuous-batch scheduler of the runtime (src/crates/runtime/src/scheduler.rs): the
  request state machine, submission, cancellation and the round-robin loop. The decode model
  (the trait \<open>GreedyDecodeModel\<close>) is the parameter \<open>decode\<close>. The lemmas show that the loop
  ends, that every request gets the tokens it would get alone, that responses come in
  submission order and tokens in rounds.
\<close>

section \<open>Requests and the state machine\<close>

record scheduler_config =
  sc_max_queue_len :: usize

definition default_scheduler_config :: scheduler_config where
  "default_scheduler_config = \<lparr>sc_max_queue_len = 128\<rparr>"

datatype scheduler_request_state =
  Queued | Prefill | Decode | Emit | Complete | Canceled | Cleanup

fun transition :: "scheduler_request_state \<Rightarrow> scheduler_request_state \<Rightarrow> scheduler_request_state res" where
  "transition Queued Prefill = Ok Prefill"
| "transition Prefill Decode = Ok Decode"
| "transition Decode Emit = Ok Emit"
| "transition Emit Decode = Ok Decode"
| "transition Emit Complete = Ok Complete"
| "transition Complete Cleanup = Ok Cleanup"
| "transition Queued Canceled = Ok Canceled"
| "transition Prefill Canceled = Ok Canceled"
| "transition Decode Canceled = Ok Canceled"
| "transition Emit Canceled = Ok Canceled"
| "transition Canceled Cleanup = Ok Cleanup"
| "transition _ _ = runtime_err ''invalid scheduler transition {self:?} -> {next:?}''"

record generation_request =
  sr_request_id :: u64
  sr_prompt_tokens :: "token_id list"
  sr_max_new_tokens :: usize

record generation_response =
  sp_request_id :: u64
  sp_tokens :: "token_id list"

record scheduler_event =
  ev_request_id :: u64
  ev_state :: scheduler_request_state
  ev_token :: "token_id option"

record request_slot =
  rs_request_id :: u64
  rs_prompt_tokens :: "token_id list"
  rs_generated_tokens :: "token_id list"
  rs_max_new_tokens :: usize
  rs_state :: scheduler_request_state

record scheduler =
  sch_config :: scheduler_config
  sch_limits :: request_limits
  sch_pending :: "request_slot list"
  sch_active :: "request_slot list"
  sch_completed :: "generation_response list"
  sch_cleanup_log :: "u64 list"
  sch_events :: "scheduler_event list"

definition scheduler_new :: "scheduler_config \<Rightarrow> scheduler" where
  "scheduler_new config =
     \<lparr>sch_config = config, sch_limits = default_request_limits, sch_pending = [],
      sch_active = [], sch_completed = [], sch_cleanup_log = [], sch_events = []\<rparr>"

definition scheduler_with_limits :: "scheduler_config \<Rightarrow> request_limits \<Rightarrow> scheduler res" where
  "scheduler_with_limits config limits =
     and_then (request_limits_validate limits) (\<lambda>_.
       Ok \<lparr>sch_config = config, sch_limits = limits, sch_pending = [], sch_active = [],
           sch_completed = [], sch_cleanup_log = [], sch_events = []\<rparr>)"

definition push_event ::
    "u64 \<Rightarrow> scheduler_request_state \<Rightarrow> token_id option \<Rightarrow> scheduler \<Rightarrow> scheduler" where
  "push_event request_id state token s =
     s\<lparr>sch_events := sch_events s @
       [\<lparr>ev_request_id = request_id, ev_state = state, ev_token = token\<rparr>]\<rparr>"

section \<open>Submission\<close>

definition start_new_batch_history_if_idle :: "scheduler \<Rightarrow> scheduler" where
  "start_new_batch_history_if_idle s =
     (if sch_pending s = [] \<and> sch_active s = [] \<and> sch_completed s = []
      then s\<lparr>sch_events := [], sch_cleanup_log := []\<rparr> else s)"

text \<open>
  \<open>reserve n\<close> says whether the allocator grants a vector of \<open>n\<close> tokens
  (\<open>try_reserve_exact\<close>).
\<close>

definition submit ::
    "(nat \<Rightarrow> bool) \<Rightarrow> scheduler \<Rightarrow> generation_request \<Rightarrow> scheduler \<times> unit res" where
  "submit reserve s request =
     (if sc_max_queue_len (sch_config s) \<le> length (sch_pending s) + length (sch_active s)
      then (s, invalid_request ''scheduler.queue'')
      else if sr_prompt_tokens request = [] then (s, invalid_request ''prompt_tokens'')
      else if sr_max_new_tokens request = 0 then (s, invalid_request ''max_new_tokens'')
      else
        and_then_st (s, validate_generation (sch_limits s) (length (sr_prompt_tokens request))
                          (sr_max_new_tokens request)) (\<lambda>s _.
        if (\<exists>slot \<in> set (sch_pending s @ sch_active s).
              rs_request_id slot = sr_request_id request) \<or>
           (\<exists>response \<in> set (sch_completed s).
              sp_request_id response = sr_request_id request)
        then (s, invalid_request ''request_id'')
        else if \<not> reserve (sr_max_new_tokens request)
        then (s, runtime_err ''failed to reserve {} generated tokens: {source}'')
        else
          let s = start_new_batch_history_if_idle s;
              slot = \<lparr>rs_request_id = sr_request_id request,
                      rs_prompt_tokens = sr_prompt_tokens request,
                      rs_generated_tokens = [],
                      rs_max_new_tokens = sr_max_new_tokens request,
                      rs_state = Queued\<rparr>;
              s = push_event (rs_request_id slot) (rs_state slot) None s
          in (s\<lparr>sch_pending := sch_pending s @ [slot]\<rparr>, Ok ())))"

section \<open>Cancellation and cleanup\<close>

definition sch_cleanup :: "scheduler \<Rightarrow> request_slot \<Rightarrow> scheduler \<times> unit res" where
  "sch_cleanup s slot =
     and_then_st (s, transition (rs_state slot) Cleanup) (\<lambda>s _.
       let s = push_event (rs_request_id slot) Cleanup None s in
       (s\<lparr>sch_cleanup_log := sch_cleanup_log s @ [rs_request_id slot]\<rparr>, Ok ()))"

fun find_index :: "('a \<Rightarrow> bool) \<Rightarrow> 'a list \<Rightarrow> nat option" where
  "find_index P [] = None"
| "find_index P (x # xs) = (if P x then Some 0 else map_option Suc (find_index P xs))"

text \<open>
  A pending slot is removed before its transition and its cleanup; an active one is only
  marked, and the loop cleans it up.
\<close>

definition cancel :: "scheduler \<Rightarrow> u64 \<Rightarrow> scheduler \<times> unit res" where
  "cancel s request_id =
     (case find_index (\<lambda>r. rs_request_id r = request_id) (sch_pending s) of
        Some idx \<Rightarrow>
          let slot = sch_pending s ! idx;
              s = s\<lparr>sch_pending := take idx (sch_pending s) @ drop (Suc idx) (sch_pending s)\<rparr> in
          and_then_st (s, transition (rs_state slot) Canceled) (\<lambda>s state.
            sch_cleanup (push_event request_id state None s) (slot\<lparr>rs_state := state\<rparr>))
      | None \<Rightarrow>
          (case find_index (\<lambda>r. rs_request_id r = request_id) (sch_active s) of
             Some idx \<Rightarrow>
               let slot = sch_active s ! idx in
               and_then_st (s, transition (rs_state slot) Canceled) (\<lambda>s state.
                 (push_event request_id state None
                    (s\<lparr>sch_active := (sch_active s)[idx := slot\<lparr>rs_state := state\<rparr>]\<rparr>), Ok ()))
           | None \<Rightarrow> (s, runtime_err ''request {request_id} is not pending or active'')))"

section \<open>The loop\<close>

text \<open>The loop of \<open>admit_pending\<close>; the list is the queue of pending slots still to admit.\<close>

fun admit_slots :: "scheduler \<Rightarrow> request_slot list \<Rightarrow> scheduler \<times> unit res" where
  "admit_slots s [] = (s, Ok ())"
| "admit_slots s (slot # rest) =
     and_then_st (s\<lparr>sch_pending := rest\<rparr>, transition (rs_state slot) Prefill) (\<lambda>s state.
     let s = push_event (rs_request_id slot) state None s in
     and_then_st (s, transition state Decode) (\<lambda>s state.
     let s = push_event (rs_request_id slot) state None s in
     admit_slots (s\<lparr>sch_active := sch_active s @ [slot\<lparr>rs_state := state\<rparr>]\<rparr>) rest))"

definition admit_pending :: "scheduler \<Rightarrow> scheduler \<times> unit res" where
  "admit_pending s = admit_slots s (sch_pending s)"

text \<open>One turn of the loop body for the slot popped from the front of \<open>active\<close>.\<close>

definition serve_slot ::
    "(token_id list \<Rightarrow> token_id res) \<Rightarrow> scheduler \<Rightarrow> request_slot \<Rightarrow> scheduler \<times> unit res" where
  "serve_slot decode s slot =
     (if rs_state slot = Canceled then sch_cleanup s slot
      else
        and_then_st (s, transition (rs_state slot) Emit) (\<lambda>s state.
        and_then_st (s, decode (rs_prompt_tokens slot)) (\<lambda>s token.
        let slot = slot\<lparr>rs_state := state,
                        rs_generated_tokens := rs_generated_tokens slot @ [token],
                        rs_prompt_tokens := rs_prompt_tokens slot @ [token]\<rparr>;
            s = push_event (rs_request_id slot) Emit (Some token) s in
        if length (rs_generated_tokens slot) = rs_max_new_tokens slot then
          and_then_st (s, transition (rs_state slot) Complete) (\<lambda>s state.
          let s = push_event (rs_request_id slot) Complete None s;
              s = s\<lparr>sch_completed := sch_completed s @
                    [\<lparr>sp_request_id = rs_request_id slot,
                      sp_tokens = rs_generated_tokens slot\<rparr>]\<rparr> in
          sch_cleanup s (slot\<lparr>rs_state := state, rs_generated_tokens := []\<rparr>))
        else
          and_then_st (s, transition (rs_state slot) Decode) (\<lambda>s state.
          let s = push_event (rs_request_id slot) Decode None s in
          (s\<lparr>sch_active := sch_active s @ [slot\<lparr>rs_state := state\<rparr>]\<rparr>, Ok ())))))"

partial_function (option) serve_active ::
    "(token_id list \<Rightarrow> token_id res) \<Rightarrow> scheduler \<Rightarrow> (scheduler \<times> unit res) option" where
  "serve_active decode s =
     (case sch_active s of
        [] \<Rightarrow> Some (s, Ok ())
      | slot # rest \<Rightarrow>
          (case serve_slot decode (s\<lparr>sch_active := rest\<rparr>) slot of
             (s', r) \<Rightarrow> if r = Ok () then serve_active decode s' else Some (s', r)))"

definition first_event :: "scheduler_event list \<Rightarrow> u64 \<Rightarrow> usize" where
  "first_event events request_id =
     (case find_index (\<lambda>e. ev_request_id e = request_id) events of Some i \<Rightarrow> i | None \<Rightarrow> max64)"

definition run_to_completion ::
    "(token_id list \<Rightarrow> token_id res) \<Rightarrow> scheduler \<Rightarrow>
     (scheduler \<times> generation_response list res) option" where
  "run_to_completion decode s =
     (case admit_pending s of
        (s, Ok _) \<Rightarrow>
          map_option (\<lambda>r. and_then_st r (\<lambda>s _.
              (s\<lparr>sch_completed := []\<rparr>,
               Ok (sort_key (\<lambda>response. first_event (sch_events s) (sp_request_id response))
                     (sch_completed s)))))
            (serve_active decode s)
      | (s, Err e) \<Rightarrow> Some (s, Err e)
      | (s, Panic) \<Rightarrow> Some (s, Panic))"

section \<open>Unbatched decoding\<close>

text \<open>What one request yields alone: the model applied to the growing prompt.\<close>

fun decode_alone ::
    "(token_id list \<Rightarrow> token_id res) \<Rightarrow> token_id list \<Rightarrow> nat \<Rightarrow> token_id list res" where
  "decode_alone decode prompt 0 = Ok []"
| "decode_alone decode prompt (Suc n) =
     and_then (decode prompt) (\<lambda>token.
     and_then (decode_alone decode (prompt @ [token]) n) (\<lambda>tokens. Ok (token # tokens)))"

lemma decode_alone_length: "decode_alone decode prompt n = Ok ts \<Longrightarrow> length ts = n"
  by (induction n arbitrary: prompt ts) (auto simp: res_simps)

definition remaining :: "request_slot \<Rightarrow> nat" where
  "remaining slot = rs_max_new_tokens slot - length (rs_generated_tokens slot)"

definition slot_rest :: "(token_id list \<Rightarrow> token_id res) \<Rightarrow> request_slot \<Rightarrow> token_id list res" where
  "slot_rest decode slot = decode_alone decode (rs_prompt_tokens slot) (remaining slot)"

section \<open>The invariant of the scheduler\<close>

definition active_slot_ok :: "request_slot \<Rightarrow> bool" where
  "active_slot_ok slot \<longleftrightarrow>
     length (rs_generated_tokens slot) < rs_max_new_tokens slot \<and>
     (rs_state slot = Decode \<or> rs_state slot = Canceled)"

definition pending_slot_ok :: "request_slot \<Rightarrow> bool" where
  "pending_slot_ok slot \<longleftrightarrow>
     rs_generated_tokens slot = [] \<and> 0 < rs_max_new_tokens slot \<and> rs_state slot = Queued"

text \<open>The states a request went through, read off the events.\<close>

definition history :: "u64 \<Rightarrow> scheduler_event list \<Rightarrow> scheduler_request_state list" where
  "history i events = map ev_state [e \<leftarrow> events. ev_request_id e = i]"

text \<open>
  Consecutive states are transitions of the table, except that a history may start over with
  a new submission under the same id.
\<close>

definition valid_history :: "scheduler_request_state list \<Rightarrow> bool" where
  "valid_history = successively (\<lambda>a b. is_ok (transition a b) \<or> b = Queued)"

definition slot_history_ok :: "scheduler_event list \<Rightarrow> request_slot \<Rightarrow> bool" where
  "slot_history_ok events slot \<longleftrightarrow>
     history (rs_request_id slot) events \<noteq> [] \<and>
     last (history (rs_request_id slot) events) = rs_state slot"

definition live_ids :: "scheduler \<Rightarrow> u64 list" where
  "live_ids s = map rs_request_id (sch_pending s) @ map rs_request_id (sch_active s) @
     map sp_request_id (sch_completed s)"

definition scheduler_inv :: "scheduler \<Rightarrow> bool" where
  "scheduler_inv s \<longleftrightarrow>
     (\<forall>slot \<in> set (sch_pending s). pending_slot_ok slot) \<and>
     (\<forall>slot \<in> set (sch_active s). active_slot_ok slot) \<and>
     distinct (live_ids s) \<and> set (live_ids s) \<subseteq> set (map ev_request_id (sch_events s)) \<and>
     (\<forall>i. valid_history (history i (sch_events s))) \<and>
     (\<forall>slot \<in> set (sch_pending s @ sch_active s). slot_history_ok (sch_events s) slot) \<and>
     length (sch_pending s) + length (sch_active s) \<le> sc_max_queue_len (sch_config s) \<and>
     consistent_limits (sch_limits s)"

definition work :: "scheduler \<Rightarrow> nat" where
  "work s = sum_list (map remaining (sch_active s))"

text \<open>Every way a turn can end for a sound slot.\<close>

lemma serve_canceled:
  "rs_state slot = Canceled \<Longrightarrow> serve_slot decode s slot =
     ((push_event (rs_request_id slot) Cleanup None s)
        \<lparr>sch_cleanup_log := sch_cleanup_log s @ [rs_request_id slot]\<rparr>, Ok ())"
  by (simp add: serve_slot_def sch_cleanup_def push_event_def)

definition emit_event :: "u64 \<Rightarrow> token_id \<Rightarrow> scheduler_event" where
  "emit_event i t = \<lparr>ev_request_id = i, ev_state = Emit, ev_token = Some t\<rparr>"

definition plain_event :: "u64 \<Rightarrow> scheduler_request_state \<Rightarrow> scheduler_event" where
  "plain_event i st = \<lparr>ev_request_id = i, ev_state = st, ev_token = None\<rparr>"

lemma serve_decode_last:
  assumes "rs_state slot = Decode" and "decode (rs_prompt_tokens slot) = Ok t"
    and "remaining slot = 1"
  shows "serve_slot decode s slot =
    (s\<lparr>sch_events := sch_events s @ [emit_event (rs_request_id slot) t,
         plain_event (rs_request_id slot) Complete, plain_event (rs_request_id slot) Cleanup],
       sch_completed := sch_completed s @
         [\<lparr>sp_request_id = rs_request_id slot, sp_tokens = rs_generated_tokens slot @ [t]\<rparr>],
       sch_cleanup_log := sch_cleanup_log s @ [rs_request_id slot]\<rparr>, Ok ())"
proof -
  have "length (rs_generated_tokens slot @ [t]) = rs_max_new_tokens slot"
    using assms(3) by (simp add: remaining_def)
  with assms(1,2) show ?thesis
    by (simp add: serve_slot_def Let_def push_event_def sch_cleanup_def emit_event_def
        plain_event_def)
qed

definition advanced :: "request_slot \<Rightarrow> token_id \<Rightarrow> request_slot" where
  "advanced slot t =
     slot\<lparr>rs_generated_tokens := rs_generated_tokens slot @ [t],
          rs_prompt_tokens := rs_prompt_tokens slot @ [t]\<rparr>"

lemma serve_decode_more:
  assumes "rs_state slot = Decode" and "decode (rs_prompt_tokens slot) = Ok t"
    and "remaining slot = Suc (Suc n)"
  shows "serve_slot decode s slot =
    (s\<lparr>sch_events := sch_events s @ [emit_event (rs_request_id slot) t,
         plain_event (rs_request_id slot) Decode],
       sch_active := sch_active s @ [advanced slot t]\<rparr>, Ok ())"
proof -
  have "length (rs_generated_tokens slot @ [t]) \<noteq> rs_max_new_tokens slot"
    using assms(3) by (simp add: remaining_def)
  with assms(1,2) show ?thesis
    by (simp add: serve_slot_def Let_def push_event_def emit_event_def plain_event_def
        advanced_def)
qed

lemma serve_decode_fails:
  "rs_state slot = Decode \<Longrightarrow> decode (rs_prompt_tokens slot) = Err e \<Longrightarrow>
     serve_slot decode s slot = (s, Err e)"
  by (simp add: serve_slot_def)

section \<open>What the loop computes\<close>

definition not_canceled :: "request_slot list \<Rightarrow> request_slot list" where
  "not_canceled slots = [slot \<leftarrow> slots. rs_state slot \<noteq> Canceled]"

definition rest_tokens :: "(token_id list \<Rightarrow> token_id res) \<Rightarrow> request_slot \<Rightarrow> token_id list" where
  "rest_tokens decode slot = (case slot_rest decode slot of Ok ts \<Rightarrow> ts | _ \<Rightarrow> [])"

definition response_of ::
    "(token_id list \<Rightarrow> token_id res) \<Rightarrow> request_slot \<Rightarrow> generation_response" where
  "response_of decode slot =
     \<lparr>sp_request_id = rs_request_id slot,
      sp_tokens = rs_generated_tokens slot @ rest_tokens decode slot\<rparr>"

definition emitted :: "scheduler_event list \<Rightarrow> (u64 \<times> token_id) list" where
  "emitted events =
     concat (map (\<lambda>e. case ev_token e of None \<Rightarrow> [] | Some t \<Rightarrow> [(ev_request_id e, t)]) events)"

text \<open>Round robin over queues of tokens: the head of the first queue, then the others.\<close>

function round_robin :: "(u64 \<times> token_id list) list \<Rightarrow> (u64 \<times> token_id) list" where
  "round_robin [] = []"
| "round_robin ((i, []) # q) = round_robin q"
| "round_robin ((i, [t]) # q) = (i, t) # round_robin q"
| "round_robin ((i, t # u # ts) # q) = (i, t) # round_robin (q @ [(i, u # ts)])"
  by pat_completeness auto
termination by (relation "measure (\<lambda>q. sum_list (map (\<lambda>(i, ts). Suc (length ts)) q))") auto

definition token_queues ::
    "(token_id list \<Rightarrow> token_id res) \<Rightarrow> request_slot list \<Rightarrow> (u64 \<times> token_id list) list" where
  "token_queues decode slots =
     map (\<lambda>slot. (rs_request_id slot, rest_tokens decode slot)) (not_canceled slots)"

definition loop_result ::
    "(token_id list \<Rightarrow> token_id res) \<Rightarrow> scheduler \<Rightarrow> scheduler \<Rightarrow> bool" where
  "loop_result decode s s' \<longleftrightarrow>
     sch_active s' = [] \<and> sch_pending s' = sch_pending s \<and> sch_config s' = sch_config s \<and>
     sch_limits s' = sch_limits s \<and>
     mset (sch_completed s') = mset (sch_completed s) +
       mset (map (response_of decode) (not_canceled (sch_active s))) \<and>
     (\<exists>evs. sch_events s' = sch_events s @ evs \<and>
        emitted evs = round_robin (token_queues decode (sch_active s))) \<and>
     mset (sch_cleanup_log s') = mset (sch_cleanup_log s) +
       mset (map rs_request_id (sch_active s))"

lemma emitted_simps [simp]:
  "emitted [] = []" "emitted (xs @ ys) = emitted xs @ emitted ys"
  "emitted (emit_event i t # es) = (i, t) # emitted es"
  "emitted (plain_event i st # es) = emitted es"
  by (simp_all add: emitted_def emit_event_def plain_event_def)

lemma not_canceled_simps [simp]:
  "not_canceled [] = []"
  "not_canceled (slot # slots) =
     (if rs_state slot = Canceled then not_canceled slots else slot # not_canceled slots)"
  "not_canceled (xs @ ys) = not_canceled xs @ not_canceled ys"
  by (simp_all add: not_canceled_def)

lemma rs_advanced [simp]:
  "rs_request_id (advanced slot t) = rs_request_id slot"
  "rs_state (advanced slot t) = rs_state slot"
  "rs_generated_tokens (advanced slot t) = rs_generated_tokens slot @ [t]"
  "rs_prompt_tokens (advanced slot t) = rs_prompt_tokens slot @ [t]"
  "rs_max_new_tokens (advanced slot t) = rs_max_new_tokens slot"
  by (simp_all add: advanced_def)

lemma remaining_advanced: "remaining slot = Suc n \<Longrightarrow> remaining (advanced slot t) = n"
  by (simp add: remaining_def)

lemma slot_rest_step:
  assumes "remaining slot = Suc n" and "decode (rs_prompt_tokens slot) = Ok t"
  shows "slot_rest decode slot =
    and_then (slot_rest decode (advanced slot t)) (\<lambda>ts. Ok (t # ts))"
  using assms by (simp add: slot_rest_def remaining_advanced)

lemma slot_rest_last:
  assumes "remaining slot = 1" and "decode (rs_prompt_tokens slot) = Ok t"
  shows "slot_rest decode slot = Ok [t]"
  using assms by (simp add: slot_rest_def)

lemma rest_tokens_step:
  assumes "remaining slot = Suc n" and "decode (rs_prompt_tokens slot) = Ok t"
    and "is_ok (slot_rest decode (advanced slot t))"
  shows "rest_tokens decode slot = t # rest_tokens decode (advanced slot t)"
  using assms(3) slot_rest_step [of slot n decode t, OF assms(1,2)] by (auto simp: rest_tokens_def is_ok_iff)

lemma rest_tokens_nonempty:
  assumes "is_ok (slot_rest decode slot)" and "0 < remaining slot"
  shows "rest_tokens decode slot \<noteq> []"
proof -
  obtain ts where ts: "slot_rest decode slot = Ok ts" using assms(1) by (auto simp: is_ok_iff)
  then have "length ts = remaining slot" unfolding slot_rest_def by (rule decode_alone_length)
  with assms(2) ts show ?thesis by (auto simp: rest_tokens_def)
qed

text \<open>
  The loop ends for every model that does not panic. It succeeds exactly when every request
  that is not canceled can be decoded alone.
\<close>

lemma serve_active_result:
  assumes "\<forall>slot \<in> set (sch_active s). active_slot_ok slot" and "\<forall>p. decode p \<noteq> Panic"
  shows "\<exists>s' r. serve_active decode s = Some (s', r) \<and> r \<noteq> Panic \<and>
    (r = Ok () \<longleftrightarrow> (\<forall>slot \<in> set (not_canceled (sch_active s)). is_ok (slot_rest decode slot))) \<and>
    (r = Ok () \<longrightarrow> loop_result decode s s')"
  using assms(1)
proof (induction "work s" arbitrary: s rule: less_induct)
  case less
  show ?case
  proof (cases "sch_active s")
    case Nil
    then show ?thesis by (subst serve_active.simps) (simp add: loop_result_def token_queues_def)
  next
    case (Cons slot rest)
    let ?s = "s\<lparr>sch_active := rest\<rparr>"
    have ok: "active_slot_ok slot" "\<forall>slot \<in> set rest. active_slot_ok slot"
      using less.prems Cons by auto
    obtain n where n: "remaining slot = Suc n"
      using ok(1) by (cases "remaining slot") (auto simp: active_slot_ok_def remaining_def)
    have unfold: "serve_active decode s = (case serve_slot decode ?s slot of
        (s', r) \<Rightarrow> if r = Ok () then serve_active decode s' else Some (s', r))"
      by (subst serve_active.simps) (simp add: Cons)
    consider (canceled) "rs_state slot = Canceled"
      | (fails) e where "rs_state slot = Decode" "decode (rs_prompt_tokens slot) = Err e"
      | (last) t where "rs_state slot = Decode" "decode (rs_prompt_tokens slot) = Ok t" "n = 0"
      | (more) t m where "rs_state slot = Decode" "decode (rs_prompt_tokens slot) = Ok t" "n = Suc m"
      using ok(1) assms(2)
      by (cases "decode (rs_prompt_tokens slot)"; cases n) (auto simp: active_slot_ok_def)
    then show ?thesis
    proof cases
      case canceled
      let ?s1 = "(push_event (rs_request_id slot) Cleanup None ?s)
        \<lparr>sch_cleanup_log := sch_cleanup_log ?s @ [rs_request_id slot]\<rparr>"
      have s1: "sch_active ?s1 = rest" by (simp add: push_event_def)
      have "work ?s1 < work s" using n Cons by (simp add: work_def push_event_def)
      from less.hyps [OF this] ok(2) obtain s' r where IH: "serve_active decode ?s1 = Some (s', r)"
        "r \<noteq> Panic" "r = Ok () \<longleftrightarrow> (\<forall>slot \<in> set (not_canceled rest). is_ok (slot_rest decode slot))"
        "r = Ok () \<longrightarrow> loop_result decode ?s1 s'"
        unfolding s1 by blast
      have "loop_result decode ?s1 s' \<Longrightarrow> loop_result decode s s'"
        by (auto simp: loop_result_def push_event_def Cons canceled token_queues_def emitted_def)
      with IH show ?thesis by (simp add: unfold serve_canceled [OF canceled] Cons canceled)
    next
      case fails
      then have "\<not> is_ok (slot_rest decode slot)" by (simp add: slot_rest_def n)
      with fails show ?thesis by (simp add: unfold serve_decode_fails Cons)
    next
      case last
      have n1: "remaining slot = 1" using n last by simp
      let ?s1 = "?s\<lparr>sch_events := sch_events ?s @ [emit_event (rs_request_id slot) t,
         plain_event (rs_request_id slot) Complete, plain_event (rs_request_id slot) Cleanup],
       sch_completed := sch_completed ?s @
         [\<lparr>sp_request_id = rs_request_id slot, sp_tokens = rs_generated_tokens slot @ [t]\<rparr>],
       sch_cleanup_log := sch_cleanup_log ?s @ [rs_request_id slot]\<rparr>"
      have s1: "sch_active ?s1 = rest" by simp
      have "work ?s1 < work s" using n Cons by (simp add: work_def)
      from less.hyps [OF this] ok(2) obtain s' r where IH: "serve_active decode ?s1 = Some (s', r)"
        "r \<noteq> Panic" "r = Ok () \<longleftrightarrow> (\<forall>slot \<in> set (not_canceled rest). is_ok (slot_rest decode slot))"
        "r = Ok () \<longrightarrow> loop_result decode ?s1 s'"
        unfolding s1 by blast
      note rest1 = slot_rest_last [of slot decode t, OF n1 last(2)]
      have "loop_result decode ?s1 s' \<Longrightarrow> loop_result decode s s'"
        by (auto simp: loop_result_def Cons last(1) token_queues_def response_of_def
            rest_tokens_def rest1)
      with IH show ?thesis
        by (simp add: unfold serve_decode_last [of slot decode t, OF last(1,2) n1] Cons last(1) rest1)
    next
      case more
      let ?s1 = "?s\<lparr>sch_events := sch_events ?s @ [emit_event (rs_request_id slot) t,
         plain_event (rs_request_id slot) Decode],
       sch_active := sch_active ?s @ [advanced slot t]\<rparr>"
      have s1: "sch_active ?s1 = rest @ [advanced slot t]" by simp
      have n2: "remaining slot = Suc (Suc m)" using n more by simp
      have "work ?s1 < work s" using n Cons by (simp add: work_def remaining_advanced [OF n])
      moreover have "active_slot_ok (advanced slot t)"
        using more(1) n2 by (simp add: active_slot_ok_def remaining_def)
      ultimately obtain s' r where IH: "serve_active decode ?s1 = Some (s', r)"
        "r \<noteq> Panic" "r = Ok () \<longleftrightarrow>
          (\<forall>slot \<in> set (not_canceled (rest @ [advanced slot t])). is_ok (slot_rest decode slot))"
        "r = Ok () \<longrightarrow> loop_result decode ?s1 s'"
        using less.hyps [of ?s1] ok(2) unfolding s1 by auto
      have iff: "is_ok (slot_rest decode slot) \<longleftrightarrow> is_ok (slot_rest decode (advanced slot t))"
        using slot_rest_step [of slot n decode t, OF n more(2)] by (auto simp: is_ok_iff res_simps)
      have "loop_result decode s s'"
        if l: "loop_result decode ?s1 s'" and okr: "is_ok (slot_rest decode (advanced slot t))"
      proof -
        note tok = rest_tokens_step [of slot n decode t, OF n more(2) okr]
        obtain u us where us: "rest_tokens decode (advanced slot t) = u # us"
          using rest_tokens_nonempty [OF okr] n2 remaining_advanced [OF n2]
          by (cases "rest_tokens decode (advanced slot t)") auto
        show ?thesis using l
          by (auto simp: loop_result_def Cons more(1) token_queues_def response_of_def tok us)
      qed
      with IH iff show ?thesis
        by (simp add: unfold serve_decode_more [of slot decode t, OF more(1,2) n2] Cons more(1))
    qed
  qed
qed

section \<open>Histories\<close>

lemma history_simps [simp]:
  "history i [] = []" "history i (xs @ ys) = history i xs @ history i ys"
  "history i (emit_event j t # es) = (if j = i then Emit # history i es else history i es)"
  "history i (plain_event j st # es) = (if j = i then st # history i es else history i es)"
  by (simp_all add: history_def emit_event_def plain_event_def)

lemma ids_simps [simp]:
  "ev_request_id (emit_event i t) = i" "ev_request_id (plain_event i st) = i"
  by (simp_all add: emit_event_def plain_event_def)

lemma push_event_plain:
  "push_event i st None s = s\<lparr>sch_events := sch_events s @ [plain_event i st]\<rparr>"
  by (simp add: push_event_def plain_event_def)

lemma valid_history_simps [simp]:
  "valid_history []" "valid_history [a]"
  "valid_history (a # b # es) \<longleftrightarrow>
     (is_ok (transition a b) \<or> b = Queued) \<and> valid_history (b # es)"
  "valid_history (h @ b # es) \<longleftrightarrow>
     valid_history h \<and> valid_history (b # es) \<and>
     (h = [] \<or> is_ok (transition (last h) b) \<or> b = Queued)"
  by (auto simp: valid_history_def successively_append_iff)

lemma slot_history_other:
  "rs_request_id slot \<noteq> i \<Longrightarrow> \<forall>e \<in> set es. ev_request_id e = i \<Longrightarrow>
     slot_history_ok (events @ es) slot \<longleftrightarrow> slot_history_ok events slot"
  by (simp add: slot_history_ok_def history_def filter_empty_conv)

text \<open>
  The shape of the state after a turn: the slot left the front of the queue, all new events
  carry its id, and it is in at most one of the queue and the responses.
\<close>

lemma history_other:
  assumes "\<forall>e \<in> set es. ev_request_id e = i"
  shows "history j es = (if j = i then map ev_state es else [])"
  using assms by (induction es) (auto simp: history_def)

lemma distinct_move:
  assumes "distinct (A @ i # B @ C)"
    and "R = [] \<and> D = [] \<or> R = [i] \<and> D = [] \<or> R = [] \<and> D = [i]"
  shows "distinct (A @ (B @ R) @ (C @ D))"
  using assms by auto

lemma inv_after_turn:
  assumes inv: "scheduler_inv s" and active: "sch_active s = slot # rest"
    and ids: "\<forall>e \<in> set es. ev_request_id e = rs_request_id slot"
    and valid: "valid_history (history (rs_request_id slot) (sch_events s) @ map ev_state es)"
    and again: "\<forall>x \<in> set again. rs_request_id x = rs_request_id slot \<and> active_slot_ok x \<and>
      es \<noteq> [] \<and> ev_state (last es) = rs_state x"
    and fin: "\<forall>x \<in> set fin. sp_request_id x = rs_request_id slot"
    and one: "length again + length fin \<le> 1"
    and s': "sch_active s' = rest @ again" "sch_events s' = sch_events s @ es"
      "sch_completed s' = sch_completed s @ fin" "sch_pending s' = sch_pending s"
      "sch_config s' = sch_config s" "sch_limits s' = sch_limits s"
  shows "scheduler_inv s'"
proof -
  let ?i = "rs_request_id slot"
  have others: "rs_request_id x \<noteq> ?i \<and> slot_history_ok (sch_events s) x"
    if x: "x \<in> set (sch_pending s @ rest)" for x
  proof -
    have "?i \<notin> rs_request_id ` set (sch_pending s @ rest)"
      using inv unfolding scheduler_inv_def live_ids_def active by auto
    with x have "rs_request_id x \<noteq> ?i" by (metis imageI)
    moreover have "slot_history_ok (sch_events s) x"
      using inv x unfolding scheduler_inv_def active by auto
    ultimately show ?thesis by simp
  qed
  have keep: "slot_history_ok (sch_events s @ es) x" if "x \<in> set (sch_pending s @ rest)" for x
    using others [OF that] ids slot_history_other by blast
  have new: "slot_history_ok (sch_events s @ es) x" if "x \<in> set again" for x
    using again that history_other [OF ids, of ?i]
    by (auto simp: slot_history_ok_def last_map)
  have v: "valid_history (history j (sch_events s @ es))" for j
    using inv valid history_other [OF ids, of j] by (auto simp: scheduler_inv_def)
  have d: "distinct (map rs_request_id (sch_pending s) @ map rs_request_id (rest @ again) @
      map sp_request_id (sch_completed s @ fin))"
  proof -
    let ?A = "map rs_request_id (sch_pending s)" and ?B = "map rs_request_id rest"
    let ?C = "map sp_request_id (sch_completed s)"
    let ?ids = "map rs_request_id again @ map sp_request_id fin"
    have old: "distinct (?A @ ?i # ?B @ ?C)"
      using inv by (simp add: scheduler_inv_def live_ids_def active)
    have "map rs_request_id again = [] \<and> map sp_request_id fin = [] \<or>
        map rs_request_id again = [?i] \<and> map sp_request_id fin = [] \<or>
        map rs_request_id again = [] \<and> map sp_request_id fin = [?i]"
    proof (cases again)
      case Nil
      with one fin show ?thesis by (cases fin) auto
    next
      case (Cons x xs)
      with one have "xs = []" "fin = []" by auto
      with Cons again show ?thesis by simp
    qed
    from distinct_move [OF old this] show ?thesis by simp
  qed
  have sub: "set (live_ids s') \<subseteq> set (map ev_request_id (sch_events s'))"
  proof -
    have "set (live_ids s') \<subseteq> insert ?i (set (live_ids s))"
      using again fin by (auto simp: live_ids_def s' active)
    moreover have "insert ?i (set (live_ids s)) \<subseteq> set (map ev_request_id (sch_events s))"
      using inv by (auto simp: scheduler_inv_def live_ids_def active)
    ultimately show ?thesis by (auto simp: s')
  qed
  have slots: "\<forall>x \<in> set (rest @ again). active_slot_ok x"
    using inv again by (auto simp: scheduler_inv_def active)
  have hist: "\<forall>x \<in> set (sch_pending s @ rest @ again). slot_history_ok (sch_events s @ es) x"
    using keep new by auto
  have len: "length (sch_pending s) + length (rest @ again) \<le> sc_max_queue_len (sch_config s)"
    using inv one by (simp add: scheduler_inv_def active)
  show ?thesis
    unfolding scheduler_inv_def s'
    using inv d sub slots hist len v by (simp add: scheduler_inv_def live_ids_def s')
qed

text \<open>A turn keeps the invariant, whether it succeeds or not.\<close>

lemma serve_slot_inv:
  assumes "scheduler_inv s" and "sch_active s = slot # rest"
    and "serve_slot decode (s\<lparr>sch_active := rest\<rparr>) slot = (s', r)"
  shows "scheduler_inv s'"
proof -
  let ?i = "rs_request_id slot"
  have state: "List.last (history ?i (sch_events s)) = rs_state slot"
    and valid: "valid_history (history ?i (sch_events s))" and slot: "active_slot_ok slot"
    using assms(1,2) by (auto simp: scheduler_inv_def slot_history_ok_def)
  note turn = inv_after_turn [OF assms(1,2)]
  consider (canceled) "rs_state slot = Canceled"
    | (fails) "rs_state slot = Decode" "\<not> is_ok (decode (rs_prompt_tokens slot))"
    | (last) t where "rs_state slot = Decode" "decode (rs_prompt_tokens slot) = Ok t"
        "remaining slot = 1"
    | (more) t m where "rs_state slot = Decode" "decode (rs_prompt_tokens slot) = Ok t"
        "remaining slot = Suc (Suc m)"
    using slot
    by (cases "decode (rs_prompt_tokens slot)"; cases "remaining slot"; cases "remaining slot - 1")
      (auto simp: active_slot_ok_def remaining_def)
  then show ?thesis
  proof cases
    case canceled
    have "s' = s\<lparr>sch_active := rest, sch_events := sch_events s @ [plain_event ?i Cleanup],
        sch_cleanup_log := sch_cleanup_log s @ [?i]\<rparr>"
      using assms(3) by (simp add: serve_canceled [OF canceled] push_event_plain)
    with valid state canceled show ?thesis
      by (intro turn [where es = "[plain_event ?i Cleanup]" and again = "[]" and fin = "[]"])
        (auto simp: plain_event_def)
  next
    case fails
    then have "s' = s\<lparr>sch_active := rest\<rparr>"
      using assms(3) by (cases "decode (rs_prompt_tokens slot)") (simp_all add: serve_slot_def)
    with valid show ?thesis
      by (intro turn [where es = "[]" and again = "[]" and fin = "[]"]) auto
  next
    case last
    then have "s' = s\<lparr>sch_active := rest, sch_events := sch_events s @ [emit_event ?i t,
         plain_event ?i Complete, plain_event ?i Cleanup],
       sch_completed := sch_completed s @
         [\<lparr>sp_request_id = ?i, sp_tokens = rs_generated_tokens slot @ [t]\<rparr>],
       sch_cleanup_log := sch_cleanup_log s @ [?i]\<rparr>"
      using assms(3) by (simp add: serve_decode_last [of slot decode t])
    with valid state last(1) show ?thesis
      by (intro turn [where again = "[]" and
            es = "[emit_event ?i t, plain_event ?i Complete, plain_event ?i Cleanup]" and
            fin = "[\<lparr>sp_request_id = ?i, sp_tokens = rs_generated_tokens slot @ [t]\<rparr>]"])
        (auto simp: plain_event_def emit_event_def)
  next
    case more
    then have s': "s' = s\<lparr>sch_events := sch_events s @ [emit_event ?i t, plain_event ?i Decode],
       sch_active := rest @ [advanced slot t]\<rparr>"
      using assms(3) by (simp add: serve_decode_more [of slot decode t])
    have "active_slot_ok (advanced slot t)"
      using more by (simp add: active_slot_ok_def remaining_def)
    with s' valid state more(1) show ?thesis
      by (intro turn [where fin = "[]" and es = "[emit_event ?i t, plain_event ?i Decode]" and
            again = "[advanced slot t]"])
        (auto simp: plain_event_def emit_event_def)
  qed
qed

text \<open>The same for any step whose new events carry one id.\<close>

lemma inv_after_events:
  assumes inv: "scheduler_inv s"
    and ids: "\<forall>e \<in> set es. ev_request_id e = i"
    and valid: "valid_history (history i (sch_events s) @ map ev_state es)"
    and events: "sch_events s' = sch_events s @ es" and "es \<noteq> []"
    and live: "distinct (live_ids s')" "set (live_ids s') \<subseteq> insert i (set (live_ids s))"
    and slots: "\<forall>x \<in> set (sch_pending s' @ sch_active s').
      rs_request_id x \<noteq> i \<and> x \<in> set (sch_pending s @ sch_active s) \<or>
      rs_request_id x = i \<and> ev_state (last es) = rs_state x"
    and ok: "\<forall>x \<in> set (sch_pending s'). pending_slot_ok x"
      "\<forall>x \<in> set (sch_active s'). active_slot_ok x"
    and bound: "length (sch_pending s') + length (sch_active s') \<le> sc_max_queue_len (sch_config s')"
    and limits: "sch_limits s' = sch_limits s"
  shows "scheduler_inv s'"
proof -
  have "slot_history_ok (sch_events s') x" if "x \<in> set (sch_pending s' @ sch_active s')" for x
  proof (cases "rs_request_id x = i")
    case True
    with slots that history_other [OF ids, of i] \<open>es \<noteq> []\<close> show ?thesis
      by (auto simp: slot_history_ok_def events last_map)
  next
    case False
    with slots that inv have "slot_history_ok (sch_events s) x"
      unfolding scheduler_inv_def by blast
    with False slot_history_other ids show ?thesis unfolding events by blast
  qed
  moreover have "valid_history (history j (sch_events s'))" for j
    using inv valid history_other [OF ids, of j] by (auto simp: scheduler_inv_def events)
  moreover have "set (live_ids s') \<subseteq> set (map ev_request_id (sch_events s'))"
  proof -
    obtain e where "e \<in> set es" using \<open>es \<noteq> []\<close> by (cases es) auto
    with ids have "i \<in> set (map ev_request_id (sch_events s'))"
      unfolding events by (auto intro!: rev_image_eqI)
    with live(2) inv show ?thesis by (auto simp: scheduler_inv_def events)
  qed
  ultimately show ?thesis
    using live(1) ok bound limits inv by (simp add: scheduler_inv_def)
qed

definition admitted :: "request_slot \<Rightarrow> request_slot" where
  "admitted slot = slot\<lparr>rs_state := Decode\<rparr>"

lemma rs_admitted [simp]:
  "rs_request_id (admitted slot) = rs_request_id slot" "rs_state (admitted slot) = Decode"
  "rs_generated_tokens (admitted slot) = rs_generated_tokens slot"
  "rs_prompt_tokens (admitted slot) = rs_prompt_tokens slot"
  "rs_max_new_tokens (admitted slot) = rs_max_new_tokens slot"
  by (simp_all add: admitted_def)

definition admit_events :: "request_slot list \<Rightarrow> scheduler_event list" where
  "admit_events slots = concat (map (\<lambda>slot.
     [plain_event (rs_request_id slot) Prefill, plain_event (rs_request_id slot) Decode]) slots)"

lemma emitted_admit_events [simp]: "emitted (admit_events slots) = []"
  by (induction slots) (simp_all add: admit_events_def)

lemma admit_slots_result:
  assumes "scheduler_inv s" and "sch_pending s = slots"
  shows "\<exists>s'. admit_slots s slots = (s', Ok ()) \<and> scheduler_inv s' \<and> sch_pending s' = [] \<and>
    sch_active s' = sch_active s @ map admitted slots \<and>
    sch_events s' = sch_events s @ admit_events slots \<and>
    sch_completed s' = sch_completed s \<and> sch_cleanup_log s' = sch_cleanup_log s \<and>
    sch_config s' = sch_config s \<and> sch_limits s' = sch_limits s"
  using assms
proof (induction slots arbitrary: s)
  case Nil
  then show ?case by (simp add: admit_events_def)
next
  case (Cons slot rest)
  let ?i = "rs_request_id slot"
  let ?es = "[plain_event ?i Prefill, plain_event ?i Decode]"
  let ?s1 = "s\<lparr>sch_pending := rest, sch_events := sch_events s @ ?es,
    sch_active := sch_active s @ [admitted slot]\<rparr>"
  have slot: "rs_state slot = Queued" "pending_slot_ok slot"
    "List.last (history ?i (sch_events s)) = Queued" "valid_history (history ?i (sch_events s))"
    using Cons.prems by (auto simp: scheduler_inv_def pending_slot_ok_def slot_history_ok_def)
  have step: "admit_slots s (slot # rest) = admit_slots ?s1 rest"
    using slot(1) by (simp add: push_event_plain Let_def admitted_def)
  have "distinct (?i # map rs_request_id rest @ map rs_request_id (sch_active s) @
      map sp_request_id (sch_completed s))"
    using Cons.prems by (simp add: scheduler_inv_def live_ids_def)
  then have d: "distinct (live_ids ?s1)" "\<forall>x \<in> set (rest @ sch_active s). rs_request_id x \<noteq> ?i"
    by (auto simp: live_ids_def) (metis imageI)+
  have "scheduler_inv ?s1"
  proof (rule inv_after_events [OF Cons.prems(1), of ?es ?i])
    show "\<forall>x \<in> set (sch_active ?s1). active_slot_ok x"
      using Cons.prems slot(2)
      by (auto simp: scheduler_inv_def active_slot_ok_def pending_slot_ok_def)
  qed (use Cons.prems slot d in \<open>auto simp: scheduler_inv_def live_ids_def plain_event_def\<close>)
  from Cons.IH [OF this] show ?case
    unfolding step by (auto simp: admit_events_def)
qed

section \<open>Every operation keeps the invariant\<close>

lemma serve_active_inv:
  assumes "serve_active decode s = Some y" and "scheduler_inv s"
  shows "scheduler_inv (fst y)"
proof -
  have "scheduler_inv s \<longrightarrow> scheduler_inv (fst y)"
  proof (rule serve_active.raw_induct
      [where P = "\<lambda>decode s y. scheduler_inv s \<longrightarrow> scheduler_inv (fst y)", OF _ assms(1)], intro impI)
    fix self and decode :: "token_id list \<Rightarrow> token_id res" and s y
    assume IH: "\<And>decode s y. self decode s = Some y \<Longrightarrow> scheduler_inv s \<longrightarrow> scheduler_inv (fst y)"
      and body: "(case sch_active s of [] \<Rightarrow> Some (s, Ok ())
        | slot # rest \<Rightarrow> (case serve_slot decode (s\<lparr>sch_active := rest\<rparr>) slot of
            (s', r) \<Rightarrow> if r = Ok () then self decode s' else Some (s', r))) = Some y"
      and inv: "scheduler_inv s"
    show "scheduler_inv (fst y)"
    proof (cases "sch_active s")
      case Nil
      with body inv show ?thesis by auto
    next
      case (Cons slot rest)
      obtain s' r where turn: "serve_slot decode (s\<lparr>sch_active := rest\<rparr>) slot = (s', r)"
        by (cases "serve_slot decode (s\<lparr>sch_active := rest\<rparr>) slot")
      have inv': "scheduler_inv s'" by (rule serve_slot_inv [OF inv Cons turn])
      have "y = (s', r) \<or> self decode s' = Some y"
        using body Cons turn by (simp split: if_splits)
      with IH [of decode s' y] inv' show ?thesis by auto
    qed
  qed
  with assms(2) show ?thesis by blast
qed

lemma scheduler_new_inv: "scheduler_inv (scheduler_new config)"
  by (simp add: scheduler_inv_def scheduler_new_def live_ids_def)

lemma scheduler_with_limits_inv: "scheduler_with_limits config limits = Ok s \<Longrightarrow> scheduler_inv s"
  by (auto simp: scheduler_with_limits_def res_simps scheduler_inv_def live_ids_def)

lemma start_new_batch_inv:
  "scheduler_inv s \<Longrightarrow> scheduler_inv (start_new_batch_history_if_idle s)"
  by (auto simp: start_new_batch_history_if_idle_def scheduler_inv_def live_ids_def)

lemma start_new_batch_simps [simp]:
  "sch_pending (start_new_batch_history_if_idle s) = sch_pending s"
  "sch_active (start_new_batch_history_if_idle s) = sch_active s"
  "sch_completed (start_new_batch_history_if_idle s) = sch_completed s"
  "sch_config (start_new_batch_history_if_idle s) = sch_config s"
  "sch_limits (start_new_batch_history_if_idle s) = sch_limits s"
  "live_ids (start_new_batch_history_if_idle s) = live_ids s"
  by (simp_all add: start_new_batch_history_if_idle_def live_ids_def)

definition queued_slot :: "generation_request \<Rightarrow> request_slot" where
  "queued_slot request =
     \<lparr>rs_request_id = sr_request_id request, rs_prompt_tokens = sr_prompt_tokens request,
      rs_generated_tokens = [], rs_max_new_tokens = sr_max_new_tokens request,
      rs_state = Queued\<rparr>"

text \<open>When a submission is accepted, and what it changes.\<close>

definition accepts :: "(nat \<Rightarrow> bool) \<Rightarrow> scheduler \<Rightarrow> generation_request \<Rightarrow> bool" where
  "accepts reserve s request \<longleftrightarrow>
     length (sch_pending s) + length (sch_active s) < sc_max_queue_len (sch_config s) \<and>
     sr_prompt_tokens request \<noteq> [] \<and> 0 < sr_max_new_tokens request \<and>
     is_ok (validate_generation (sch_limits s) (length (sr_prompt_tokens request))
       (sr_max_new_tokens request)) \<and>
     sr_request_id request \<notin> set (live_ids s) \<and> reserve (sr_max_new_tokens request)"

lemma submit_cases:
  "(if accepts reserve s request
    then submit reserve s request =
      (let t = start_new_batch_history_if_idle s in
       t\<lparr>sch_events := sch_events t @ [plain_event (sr_request_id request) Queued],
         sch_pending := sch_pending t @ [queued_slot request]\<rparr>, Ok ())
    else \<exists>e. submit reserve s request = (s, Err e))"
proof -
  have ids: "sr_request_id request \<in> set (live_ids s) \<longleftrightarrow>
      (\<exists>slot \<in> set (sch_pending s @ sch_active s).
         rs_request_id slot = sr_request_id request) \<or>
      (\<exists>response \<in> set (sch_completed s). sp_request_id response = sr_request_id request)"
    by (auto simp: live_ids_def image_iff) metis+
  show ?thesis
    unfolding submit_def accepts_def ids
    by (cases "validate_generation (sch_limits s) (length (sr_prompt_tokens request))
          (sr_max_new_tokens request)")
      (auto simp: Let_def push_event_plain queued_slot_def err_defs)
qed

lemma submit_inv:
  assumes "scheduler_inv s" and "submit reserve s request = (s', r)"
  shows "scheduler_inv s'"
proof (cases "accepts reserve s request")
  case False
  then obtain e where "submit reserve s request = (s, Err e)"
    using submit_cases [of reserve s request] by auto
  with assms show ?thesis by simp
next
  case True
  define t where "t = start_new_batch_history_if_idle s"
  let ?i = "sr_request_id request"
  have s': "s' = t\<lparr>sch_events := sch_events t @ [plain_event ?i Queued],
      sch_pending := sch_pending t @ [queued_slot request]\<rparr>"
    using submit_cases [of reserve s request] True assms(2) by (auto simp: Let_def t_def)
  have t: "scheduler_inv t" using start_new_batch_inv [OF assms(1)] by (simp add: t_def)
  have new: "?i \<notin> set (live_ids t)" using True by (simp add: accepts_def t_def)
  show ?thesis
  proof (rule inv_after_events [OF t, of "[plain_event ?i Queued]" ?i])
    show "distinct (live_ids s')" "set (live_ids s') \<subseteq> insert ?i (set (live_ids t))"
      using t new by (auto simp: s' live_ids_def scheduler_inv_def queued_slot_def)
    show "\<forall>x \<in> set (sch_pending s' @ sch_active s').
      rs_request_id x \<noteq> ?i \<and> x \<in> set (sch_pending t @ sch_active t) \<or>
      rs_request_id x = ?i \<and> ev_state (last [plain_event ?i Queued]) = rs_state x"
      using new by (auto simp: s' live_ids_def queued_slot_def plain_event_def) (metis imageI)+
    show "\<forall>x \<in> set (sch_pending s'). pending_slot_ok x"
      using t True
      by (auto simp: s' scheduler_inv_def pending_slot_ok_def queued_slot_def accepts_def)
    show "\<forall>x \<in> set (sch_active s'). active_slot_ok x" using t by (simp add: s' scheduler_inv_def)
    show "length (sch_pending s') + length (sch_active s') \<le> sc_max_queue_len (sch_config s')"
      using True by (simp add: s' accepts_def t_def)
    show "valid_history (history ?i (sch_events t) @ map ev_state [plain_event ?i Queued])"
      using t by (simp add: scheduler_inv_def plain_event_def)
  qed (simp_all add: s')
qed

lemma find_index_Some:
  "find_index P xs = Some i \<Longrightarrow> i < length xs \<and> P (xs ! i) \<and> (\<forall>j < i. \<not> P (xs ! j))"
  by (induction xs arbitrary: i)
    (auto split: if_splits simp: less_Suc_eq_0_disj)

lemma find_index_None: "find_index P xs = None \<longleftrightarrow> (\<forall>x \<in> set xs. \<not> P x)"
  by (induction xs) (auto split: if_splits)

lemma cancel_inv:
  assumes inv: "scheduler_inv s" and run: "cancel s i = (s', r)"
  shows "scheduler_inv s' \<and> r \<noteq> Panic \<and>
    (i \<in> rs_request_id ` set (sch_pending s) \<longrightarrow>
       r = Ok () \<and> i \<notin> set (live_ids s') \<and> sch_cleanup_log s' = sch_cleanup_log s @ [i])"
proof (cases "find_index (\<lambda>r. rs_request_id r = i) (sch_pending s)")
  case (Some idx)
  define slot where "slot = sch_pending s ! idx"
  let ?rest = "take idx (sch_pending s) @ drop (Suc idx) (sch_pending s)"
  have idx: "idx < length (sch_pending s)" and id: "rs_request_id slot = i"
    using find_index_Some [OF Some] by (auto simp: slot_def)
  then have mem: "slot \<in> set (sch_pending s)" by (simp add: slot_def)
  then have q: "rs_state slot = Queued" "List.last (history i (sch_events s)) = Queued"
    "valid_history (history i (sch_events s))"
    using inv id by (auto simp: scheduler_inv_def pending_slot_ok_def slot_history_ok_def)
  let ?es = "[plain_event i Canceled, plain_event i Cleanup]"
  have s': "s' = s\<lparr>sch_pending := ?rest, sch_events := sch_events s @ ?es,
      sch_cleanup_log := sch_cleanup_log s @ [i]\<rparr>" and r: "r = Ok ()"
    using run q(1) id
    by (auto simp: cancel_def Some Let_def sch_cleanup_def push_event_plain slot_def [symmetric])
  have "sch_pending s = take idx (sch_pending s) @ slot # drop (Suc idx) (sch_pending s)"
    using id_take_nth_drop [OF idx] by (simp add: slot_def)
  then have "distinct (map rs_request_id (take idx (sch_pending s)) @ i #
      map rs_request_id (drop (Suc idx) (sch_pending s)) @
      (map rs_request_id (sch_active s) @ map sp_request_id (sch_completed s)))"
    using inv id unfolding scheduler_inv_def live_ids_def
    by (metis append.assoc append_Cons list.simps(9) map_append)
  then have "distinct (live_ids s') \<and> i \<notin> set (live_ids s')"
    by (simp add: live_ids_def s')
  moreover have sub: "set ?rest \<subseteq> set (sch_pending s)"
    by (auto dest: in_set_takeD in_set_dropD)
  moreover have "length ?rest \<le> length (sch_pending s)" using idx by simp
  moreover have "scheduler_inv s'"
  proof (rule inv_after_events [OF inv, of ?es i])
    show "distinct (live_ids s')" "set (live_ids s') \<subseteq> insert i (set (live_ids s))"
      using calculation by (auto simp: live_ids_def s')
    show "\<forall>x \<in> set (sch_pending s' @ sch_active s').
      rs_request_id x \<noteq> i \<and> x \<in> set (sch_pending s @ sch_active s) \<or>
      rs_request_id x = i \<and> ev_state (last ?es) = rs_state x"
      using calculation by (auto simp: live_ids_def s')
    show "\<forall>x \<in> set (sch_pending s'). pending_slot_ok x"
      using inv sub by (auto simp: s' scheduler_inv_def)
    have "length (sch_pending s) + length (sch_active s) \<le> sc_max_queue_len (sch_config s)"
      using inv by (simp add: scheduler_inv_def)
    with idx show
      "length (sch_pending s') + length (sch_active s') \<le> sc_max_queue_len (sch_config s')"
      by (simp add: s')
  qed (use inv q in \<open>auto simp: s' plain_event_def scheduler_inv_def\<close>)
  ultimately show ?thesis by (simp add: r s')
next
  case None
  then have np2: "\<forall>x \<in> set (sch_pending s). rs_request_id x \<noteq> i" by (simp add: find_index_None)
  then have np: "i \<notin> rs_request_id ` set (sch_pending s)" by auto
  show ?thesis
  proof (cases "find_index (\<lambda>r. rs_request_id r = i) (sch_active s)")
    case None
    with \<open>find_index _ (sch_pending s) = None\<close> run inv np show ?thesis
      by (auto simp: cancel_def err_defs)
  next
    case (Some idx)
    define slot where "slot = sch_active s ! idx"
    have idx: "idx < length (sch_active s)" and id: "rs_request_id slot = i"
      using find_index_Some [OF Some] by (auto simp: slot_def)
    then have mem: "slot \<in> set (sch_active s)" by (simp add: slot_def)
    then have q: "rs_state slot = Decode \<or> rs_state slot = Canceled" "active_slot_ok slot"
      "List.last (history i (sch_events s)) = rs_state slot"
      "valid_history (history i (sch_events s))"
      using inv id by (auto simp: scheduler_inv_def active_slot_ok_def slot_history_ok_def)
    show ?thesis
    proof (cases "rs_state slot = Canceled")
      case True
      with \<open>find_index _ (sch_pending s) = None\<close> Some run inv np show ?thesis
        by (auto simp: cancel_def err_defs Let_def slot_def [symmetric])
    next
      case False
      let ?new = "slot\<lparr>rs_state := Canceled\<rparr>"
      have s': "s' = s\<lparr>sch_active := (sch_active s)[idx := ?new],
          sch_events := sch_events s @ [plain_event i Canceled]\<rparr>" and r: "r = Ok ()"
        using \<open>find_index _ (sch_pending s) = None\<close> Some run q(1) False
        by (auto simp: cancel_def Let_def slot_def [symmetric] push_event_plain)
      have ids: "map rs_request_id ((sch_active s)[idx := ?new]) = map rs_request_id (sch_active s)"
        using idx by (simp add: map_update slot_def) (metis list_update_id nth_map)
      have live: "live_ids s' = live_ids s" by (simp add: live_ids_def s' ids)
      have sub: "x = ?new \<or> x \<in> set (sch_active s) \<and> x \<noteq> slot"
        if "x \<in> set ((sch_active s)[idx := ?new])" for x
      proof -
        have "distinct (sch_active s)"
          using inv by (auto simp: scheduler_inv_def live_ids_def distinct_map)
        with that idx show ?thesis
          by (auto simp: in_set_conv_nth slot_def nth_list_update nth_eq_iff_index_eq
              split: if_splits)
      qed
      have uniq: "rs_request_id x \<noteq> i" if "x \<in> set (sch_active s)" "x \<noteq> slot" for x
      proof -
        have "inj_on rs_request_id (set (sch_active s))"
          using inv by (simp add: scheduler_inv_def live_ids_def distinct_map)
        with that mem id show ?thesis by (auto dest: inj_onD)
      qed
      have "scheduler_inv s'"
      proof (rule inv_after_events [OF inv, of "[plain_event i Canceled]" i])
        show "\<forall>x \<in> set (sch_pending s' @ sch_active s').
          rs_request_id x \<noteq> i \<and> x \<in> set (sch_pending s @ sch_active s) \<or>
          rs_request_id x = i \<and> ev_state (last [plain_event i Canceled]) = rs_state x"
        proof
          fix x assume "x \<in> set (sch_pending s' @ sch_active s')"
          then consider "x \<in> set (sch_pending s)" | "x = ?new" | "x \<in> set (sch_active s)" "x \<noteq> slot"
            using sub by (auto simp: s')
          then show "rs_request_id x \<noteq> i \<and> x \<in> set (sch_pending s @ sch_active s) \<or>
            rs_request_id x = i \<and> ev_state (last [plain_event i Canceled]) = rs_state x"
            using np2 uniq id by cases (auto simp: plain_event_def)
        qed
        show "\<forall>x \<in> set (sch_active s'). active_slot_ok x"
        proof
          fix x assume "x \<in> set (sch_active s')"
          then have "x = ?new \<or> x \<in> set (sch_active s)" using sub [of x] by (auto simp: s')
          with inv q(2) show "active_slot_ok x"
            unfolding scheduler_inv_def by (auto simp: active_slot_ok_def)
        qed
      qed (use inv q False live in \<open>auto simp: s' plain_event_def scheduler_inv_def\<close>)
      with r np show ?thesis by simp
    qed
  qed
qed

section \<open>A whole run\<close>

text \<open>
  A sort by a key that tells the elements apart depends only on the elements, not on the
  order they came in.
\<close>

lemma filter_eq_single: "distinct zs \<Longrightarrow> k \<in> set zs \<Longrightarrow> filter (\<lambda>x. x = k) zs = [k]"
  by (induction zs) (auto simp: filter_empty_conv)

lemma sort_key_unique:
  assumes "mset xs = mset ys" and "distinct xs" and "inj_on g (set xs)"
    and "\<And>x. x \<in> set xs \<Longrightarrow> f x = g x"
  shows "sort_key f xs = sort_key g ys"
proof (rule properties_for_sort_key [symmetric])
  show "mset (sort_key f xs) = mset ys" using assms(1) by simp
  have d: "distinct ys" using assms(1,2) mset_eq_imp_distinct_iff by blast
  have s: "set ys = set xs" using assms(1) by (metis set_mset_mset)
  have "map g (sort_key f xs) = map f (sort_key f xs)" using assms(4) by simp
  then show "sorted (map g (sort_key f xs))" using sorted_sort_key [of f xs] by (simp only:)
  fix k assume "k \<in> set (sort_key f xs)"
  then have k: "k \<in> set xs" by simp
  have single: "filter (\<lambda>x. g k = g x) zs = [k]" if "distinct zs" "set zs = set xs" for zs
  proof -
    have "filter (\<lambda>x. g k = g x) zs = filter (\<lambda>x. x = k) zs"
      using that k assms(3) by (intro filter_cong) (auto dest: inj_onD)
    also have "\<dots> = [k]" using that k by (simp add: filter_eq_single)
    finally show ?thesis .
  qed
  show "filter (\<lambda>x. g k = g x) (sort_key f xs) = filter (\<lambda>x. g k = g x) ys"
    using single [of "sort_key f xs"] single [OF d s] assms(2) by simp
qed

lemma find_index_append:
  "x \<in> set xs \<Longrightarrow> P x \<Longrightarrow> find_index P (xs @ ys) = find_index P xs"
  by (induction xs) auto

lemma first_event_append:
  "i \<in> ev_request_id ` set es \<Longrightarrow> first_event (es @ es') i = first_event es i"
  by (auto simp: first_event_def find_index_append [of _ es])

lemma first_event_inj: "inj_on (first_event es) (ev_request_id ` set es)"
proof (rule inj_onI)
  fix i j assume i: "i \<in> ev_request_id ` set es" and j: "j \<in> ev_request_id ` set es"
    and eq: "first_event es i = first_event es j"
  obtain a where a: "find_index (\<lambda>e. ev_request_id e = i) es = Some a"
    using i find_index_None [of "\<lambda>e. ev_request_id e = i" es]
    by (cases "find_index (\<lambda>e. ev_request_id e = i) es") auto
  obtain b where b: "find_index (\<lambda>e. ev_request_id e = j) es = Some b"
    using j find_index_None [of "\<lambda>e. ev_request_id e = j" es]
    by (cases "find_index (\<lambda>e. ev_request_id e = j) es") auto
  have "a = b" using eq a b by (simp add: first_event_def)
  with find_index_Some [OF a] find_index_Some [OF b] show "i = j" by simp
qed

text \<open>The requests a run serves, and the responses it owes.\<close>

definition served :: "scheduler \<Rightarrow> request_slot list" where
  "served s = not_canceled (sch_active s) @ sch_pending s"

definition owed :: "(token_id list \<Rightarrow> token_id res) \<Rightarrow> scheduler \<Rightarrow> generation_response list" where
  "owed decode s =
     sort_key (\<lambda>response. first_event (sch_events s) (sp_request_id response))
       (sch_completed s @ map (response_of decode) (served s))"

lemma slot_rest_admitted [simp]:
  "slot_rest decode (admitted slot) = slot_rest decode slot"
  "rest_tokens decode (admitted slot) = rest_tokens decode slot"
  "response_of decode (admitted slot) = response_of decode slot"
  by (simp_all add: slot_rest_def rest_tokens_def response_of_def remaining_def)

lemma not_canceled_admitted [simp]: "not_canceled (map admitted slots) = map admitted slots"
  by (induction slots) simp_all

text \<open>Everything a run does, in one statement.\<close>

lemma run_to_completion_result:
  assumes inv: "scheduler_inv s" and decode: "\<forall>p. decode p \<noteq> Panic"
  shows "\<exists>s' r. run_to_completion decode s = Some (s', r) \<and> r \<noteq> Panic \<and> scheduler_inv s' \<and>
    (is_ok r \<longleftrightarrow> (\<forall>slot \<in> set (served s). is_ok (slot_rest decode slot))) \<and>
    (is_ok r \<longrightarrow> r = Ok (owed decode s) \<and> live_ids s' = [] \<and>
      emitted (sch_events s') = emitted (sch_events s) @
        round_robin (token_queues decode (sch_active s @ map admitted (sch_pending s))) \<and>
      mset (sch_cleanup_log s') = mset (sch_cleanup_log s) +
        mset (map rs_request_id (sch_active s @ sch_pending s)))"
proof -
  obtain t where admit: "admit_pending s = (t, Ok ())" and t: "scheduler_inv t"
    "sch_pending t = []" "sch_active t = sch_active s @ map admitted (sch_pending s)"
    "sch_events t = sch_events s @ admit_events (sch_pending s)"
    "sch_completed t = sch_completed s" "sch_cleanup_log t = sch_cleanup_log s"
    using admit_slots_result [OF inv refl] by (auto simp: admit_pending_def)
  have "\<forall>slot \<in> set (sch_active t). active_slot_ok slot" using t(1) by (simp add: scheduler_inv_def)
  from serve_active_result [OF this decode] obtain u q where
    loop: "serve_active decode t = Some (u, q)" and "q \<noteq> Panic"
    and iff: "q = Ok () \<longleftrightarrow> (\<forall>slot \<in> set (not_canceled (sch_active t)). is_ok (slot_rest decode slot))"
    and res: "q = Ok () \<longrightarrow> loop_result decode t u" by blast
  have u: "scheduler_inv u" using serve_active_inv [OF loop t(1)] by simp
  have served: "(\<forall>slot \<in> set (not_canceled (sch_active t)). is_ok (slot_rest decode slot)) \<longleftrightarrow>
      (\<forall>slot \<in> set (served s). is_ok (slot_rest decode slot))"
    unfolding t(3) served_def by (simp add: ball_Un)
  show ?thesis
  proof (cases "q = Ok ()")
    case False
    then have "run_to_completion decode s = Some (u, map_outcome (\<lambda>_. []) id q)"
      using admit loop \<open>q \<noteq> Panic\<close>
      by (cases q) (auto simp: run_to_completion_def)
    moreover have "\<not> is_ok (map_outcome (\<lambda>_. []) id q)" using False by (cases q) auto
    moreover have "map_outcome (\<lambda>_. []) id q \<noteq> Panic" using \<open>q \<noteq> Panic\<close> by (cases q) auto
    ultimately show ?thesis using u iff False served by auto
  next
    case True
    with res have L: "loop_result decode t u" by simp
    obtain evs where evs: "sch_events u = sch_events t @ evs"
      "emitted evs = round_robin (token_queues decode (sch_active t))"
      using L by (auto simp: loop_result_def)
    let ?key = "\<lambda>response. first_event (sch_events s) (sp_request_id response)"
    let ?resp = "sch_completed s @ map (response_of decode) (served s)"
    have ids: "set (map sp_request_id ?resp) \<subseteq> ev_request_id ` set (sch_events s)"
      and dist: "distinct (map sp_request_id ?resp)"
    proof -
      have sub: "set (map sp_request_id ?resp) \<subseteq> set (live_ids s)"
        by (auto simp: served_def live_ids_def not_canceled_def response_of_def)
      with inv show "set (map sp_request_id ?resp) \<subseteq> ev_request_id ` set (sch_events s)"
        by (auto simp: scheduler_inv_def)
      have "distinct (map rs_request_id (sch_pending s) @ map rs_request_id (sch_active s) @
          map sp_request_id (sch_completed s))"
        using inv by (simp add: scheduler_inv_def live_ids_def)
      then show "distinct (map sp_request_id ?resp)"
        by (auto simp: served_def not_canceled_def response_of_def o_def distinct_map_filter)
    qed
    have perm: "mset (sch_completed u) = mset ?resp"
      using L by (simp add: loop_result_def t(3,5) served_def o_def)
    have set_u: "set (sch_completed u) = set ?resp" using perm by (metis set_mset_mset)
    have key: "first_event (sch_events u) (sp_request_id x) = ?key x"
      if "x \<in> set (sch_completed u)" for x
    proof -
      have "sp_request_id x \<in> ev_request_id ` set (sch_events s)" using ids that set_u by auto
      then show ?thesis by (simp add: evs(1) t(4) first_event_append)
    qed
    have sorted: "sort_key (\<lambda>x. first_event (sch_events u) (sp_request_id x))
        (sch_completed u) = owed decode s"
      unfolding owed_def
    proof (rule sort_key_unique [OF perm])
      have inj: "inj_on sp_request_id (set ?resp)" and "distinct ?resp"
        using dist by (auto simp only: distinct_map)
      then show "distinct (sch_completed u)" using perm mset_eq_imp_distinct_iff by blast
      have "inj_on (first_event (sch_events s)) (sp_request_id ` set ?resp)"
        using inj_on_subset [OF first_event_inj ids] by (simp only: set_map)
      with inj have "inj_on (first_event (sch_events s) \<circ> sp_request_id) (set ?resp)"
        by (rule comp_inj_on)
      then show "inj_on ?key (set (sch_completed u))" unfolding set_u by (simp add: o_def)
    qed (rule key)
    have run: "run_to_completion decode s = Some (u\<lparr>sch_completed := []\<rparr>, Ok (owed decode s))"
      using admit loop True sorted by (simp add: run_to_completion_def)
    have "scheduler_inv (u\<lparr>sch_completed := []\<rparr>)"
      using u by (auto simp: scheduler_inv_def live_ids_def)
    moreover have "live_ids (u\<lparr>sch_completed := []\<rparr>) = []"
      using L by (simp add: live_ids_def loop_result_def t(2))
    moreover have "emitted (sch_events u) = emitted (sch_events s) @
        round_robin (token_queues decode (sch_active s @ map admitted (sch_pending s)))"
      by (simp add: evs t(3,4))
    moreover have "mset (sch_cleanup_log u) = mset (sch_cleanup_log s) +
        mset (map rs_request_id (sch_active s @ sch_pending s))"
      using L by (simp add: loop_result_def t(3,6) o_def)
    ultimately show ?thesis using run iff True served by auto
  qed
qed

section \<open>Reachable schedulers\<close>

text \<open>
  The states a scheduler can be in between calls, when the model does not panic: made by a
  constructor, then changed by submissions, cancellations and runs, accepted or not.
\<close>

inductive scheduler_reachable :: "scheduler \<Rightarrow> bool" where
  made: "scheduler_reachable (scheduler_new config)"
| made_with_limits: "scheduler_with_limits config limits = Ok s \<Longrightarrow> scheduler_reachable s"
| submitted: "scheduler_reachable s \<Longrightarrow> submit reserve s request = (s', r) \<Longrightarrow>
    scheduler_reachable s'"
| canceled: "scheduler_reachable s \<Longrightarrow> cancel s i = (s', r) \<Longrightarrow> scheduler_reachable s'"
| ran: "scheduler_reachable s \<Longrightarrow> \<forall>p. decode p \<noteq> Panic \<Longrightarrow>
    run_to_completion decode s = Some (s', r) \<Longrightarrow> scheduler_reachable s'"

lemma reachable_inv: "scheduler_reachable s \<Longrightarrow> scheduler_inv s"
proof (induction rule: scheduler_reachable.induct)
  case (ran s decode s' r)
  from run_to_completion_result [OF ran.IH ran.hyps(2)] ran.hyps(3) show ?case by auto
qed (use scheduler_new_inv scheduler_with_limits_inv submit_inv cancel_inv in blast)+

text \<open>
  A concrete scheduler for the witnesses: two requests, and the model of the source's tests,
  which returns the last token plus one.
\<close>

definition increment_model :: "token_id list \<Rightarrow> token_id res" where
  "increment_model prompt = Ok (last prompt + 1)"

definition failing_model :: "token_id list \<Rightarrow> token_id res" where
  "failing_model prompt =
     (if prompt = [1, 2] then runtime_err ''decode failed'' else increment_model prompt)"

definition example_scheduler :: scheduler where
  "example_scheduler =
     fst (submit (\<lambda>_. True)
       (fst (submit (\<lambda>_. True) (scheduler_new \<lparr>sc_max_queue_len = 4\<rparr>)
         \<lparr>sr_request_id = 10, sr_prompt_tokens = [1], sr_max_new_tokens = 2\<rparr>))
       \<lparr>sr_request_id = 20, sr_prompt_tokens = [100], sr_max_new_tokens = 1\<rparr>)"

lemma example_reachable: "scheduler_reachable example_scheduler"
  unfolding example_scheduler_def
  by (rule scheduler_reachable.submitted [OF scheduler_reachable.submitted
        [OF scheduler_reachable.made prod.collapse [symmetric]] prod.collapse [symmetric]])

lemma increment_no_Panic: "\<forall>p. increment_model p \<noteq> Panic"
  by (simp add: increment_model_def)

definition example_slots :: "request_slot list" where
  "example_slots =
     [\<lparr>rs_request_id = 10, rs_prompt_tokens = [1], rs_generated_tokens = [],
       rs_max_new_tokens = 2, rs_state = Queued\<rparr>,
      \<lparr>rs_request_id = 20, rs_prompt_tokens = [100], rs_generated_tokens = [],
       rs_max_new_tokens = 1, rs_state = Queued\<rparr>]"

lemma example_fields:
  "sch_pending example_scheduler = example_slots" "sch_active example_scheduler = []"
  "sch_completed example_scheduler = []" "sch_cleanup_log example_scheduler = []"
  "map ev_request_id (sch_events example_scheduler) = [10, 20]"
  "emitted (sch_events example_scheduler) = []"
  by (simp_all add: example_scheduler_def submit_def scheduler_new_def validate_generation_def
      request_limits_validate_def default_request_limits_def checked_add_def max64_def Let_def
      push_event_def start_new_batch_history_if_idle_def example_slots_def emitted_def)

lemma example_served:
  "served example_scheduler = example_slots"
  "map (rest_tokens increment_model) example_slots = [[2, 3], [101]]"
  by (simp_all add: served_def example_fields rest_tokens_def slot_rest_def remaining_def
      example_slots_def increment_model_def numeral_2_eq_2)

lemma example_run:
  "\<exists>s' responses. run_to_completion increment_model example_scheduler = Some (s', Ok responses)"
proof -
  have "is_ok (slot_rest increment_model slot)" if "slot \<in> set example_slots" for slot
    using that
    by (auto simp: example_slots_def slot_rest_def remaining_def increment_model_def numeral_2_eq_2)
  with run_to_completion_result [OF reachable_inv [OF example_reachable] increment_no_Panic]
  show ?thesis by (auto simp: example_served is_ok_iff)
qed

text \<open>
  C4. Batching does not change the output: from every reachable scheduler a run ends; it
  succeeds exactly when the model can decode every live request alone; and then it returns,
  for each request, the tokens decoding it alone yields, in the order in which the requests
  first appear in the event history. The run does not panic if the model does not.
\<close>

theorem batched_equals_unbatched:
  assumes "scheduler_reachable s" and "\<forall>p. decode p \<noteq> Panic"
  shows "\<exists>s' r. run_to_completion decode s = Some (s', r) \<and> r \<noteq> Panic \<and>
    (is_ok r \<longleftrightarrow> (\<forall>slot \<in> set (served s).
       is_ok (decode_alone decode (rs_prompt_tokens slot) (remaining slot)))) \<and>
    (\<forall>responses. r = Ok responses \<longrightarrow>
       mset responses = mset (sch_completed s) + mset (map (response_of decode) (served s)) \<and>
       sorted (map (\<lambda>response. first_event (sch_events s) (sp_request_id response)) responses))"
proof -
  obtain s' r where run: "run_to_completion decode s = Some (s', r)" "r \<noteq> Panic"
    and iff: "is_ok r \<longleftrightarrow> (\<forall>slot \<in> set (served s). is_ok (slot_rest decode slot))"
    and res: "is_ok r \<longrightarrow> r = Ok (owed decode s)"
    using run_to_completion_result [OF reachable_inv [OF assms(1)] assms(2)] by blast
  have "mset (owed decode s) = mset (sch_completed s) + mset (map (response_of decode) (served s))"
    and "sorted (map (\<lambda>response. first_event (sch_events s) (sp_request_id response))
      (owed decode s))"
    by (simp_all add: owed_def)
  with run iff res show ?thesis by (auto simp: slot_rest_def)
qed

theorem batched_equals_unbatched_witness:
  "\<exists>s' responses. run_to_completion increment_model example_scheduler = Some (s', Ok responses) \<and>
     mset responses = {#\<lparr>sp_request_id = 10, sp_tokens = [2, 3]\<rparr>,
       \<lparr>sp_request_id = 20, sp_tokens = [101]\<rparr>#}"
proof -
  have "rest_tokens increment_model (example_slots ! 0) = [2, 3]"
    "rest_tokens increment_model (example_slots ! 1) = [101]"
    using example_served(2) by (simp_all add: example_slots_def)
  then have owed: "map (response_of increment_model) example_slots =
      [\<lparr>sp_request_id = 10, sp_tokens = [2, 3]\<rparr>, \<lparr>sp_request_id = 20, sp_tokens = [101]\<rparr>]"
    by (simp add: example_slots_def response_of_def)
  obtain s' responses where
    "run_to_completion increment_model example_scheduler = Some (s', Ok responses)"
    using example_run by blast
  with batched_equals_unbatched [OF example_reachable increment_no_Panic] show ?thesis
    by (auto simp: example_served(1) example_fields owed)
qed

section \<open>Fairness\<close>

text \<open>Round \<open>k\<close> of a set of token queues: the \<open>k\<close>-th token of every queue that long.\<close>

definition token_round :: "(u64 \<times> token_id list) list \<Rightarrow> nat \<Rightarrow> (u64 \<times> token_id) list" where
  "token_round q k = concat (map (\<lambda>(i, ts). if k < length ts then [(i, ts ! k)] else []) q)"

definition later_tokens :: "(u64 \<times> token_id list) list \<Rightarrow> (u64 \<times> token_id list) list" where
  "later_tokens q = [(i, ts) \<leftarrow> map (\<lambda>(i, ts). (i, tl ts)) q. ts \<noteq> []]"

lemma round_robin_round:
  "round_robin (xs @ ys) = token_round xs 0 @ round_robin (ys @ later_tokens xs)"
proof (induction xs arbitrary: ys)
  case Nil
  show ?case by (simp add: token_round_def later_tokens_def)
next
  case (Cons x xs)
  obtain i ts where x: "x = (i, ts)" by (cases x)
  show ?case
  proof (cases ts)
    case Nil
    with Cons.IH [of ys] show ?thesis by (simp add: x token_round_def later_tokens_def)
  next
    case (Cons t us)
    show ?thesis
    proof (cases us)
      case Nil
      with Cons Cons.IH [of ys] show ?thesis by (simp add: x token_round_def later_tokens_def)
    next
      case (Cons u vs)
      with \<open>ts = t # us\<close> Cons.IH [of "ys @ [(i, us)]"] show ?thesis
        by (simp add: x token_round_def later_tokens_def)
    qed
  qed
qed

lemma token_round_later: "token_round (later_tokens q) k = token_round q (Suc k)"
proof (induction q)
  case (Cons x q)
  obtain i ts where "x = (i, ts)" by (cases x)
  with Cons show ?case by (cases ts) (simp_all add: token_round_def later_tokens_def)
qed (simp add: token_round_def later_tokens_def)

lemma round_robin_rounds:
  "\<forall>(i, ts) \<in> set q. length ts \<le> n \<Longrightarrow> round_robin q = concat (map (token_round q) [0..<n])"
proof (induction n arbitrary: q)
  case 0
  then show ?case by (induction q rule: round_robin.induct) auto
next
  case (Suc n)
  have "\<forall>(i, ts) \<in> set (later_tokens q). length ts \<le> n"
    using Suc.prems by (auto simp: later_tokens_def)
  from Suc.IH [OF this] have "round_robin (later_tokens q) =
      concat (map (\<lambda>k. token_round q (Suc k)) [0..<n])"
    by (simp add: token_round_later)
  moreover have "map (token_round q) [0..<Suc n] =
      token_round q 0 # map (\<lambda>k. token_round q (Suc k)) [0..<n]"
    by (simp only: upt_conv_Cons zero_less_Suc list.map map_Suc_upt [symmetric] map_map o_def)
  ultimately show ?case using round_robin_round [of q "[]"] by simp
qed

text \<open>
  C14. Token emission is fair: a successful run emits the tokens in rounds. Round \<open>k\<close> holds
  the \<open>k\<close>-th token of every live request that has one, in queue order, so no request
  receives its next token before every other unfinished request has received as many.
\<close>

theorem emission_in_rounds:
  assumes "scheduler_reachable s" and "\<forall>p. decode p \<noteq> Panic"
    and "run_to_completion decode s = Some (s', Ok responses)"
    and "q = map (\<lambda>slot. (rs_request_id slot, rest_tokens decode slot)) (served s)"
    and "\<forall>(i, ts) \<in> set q. length ts \<le> n"
  shows "emitted (sch_events s') = emitted (sch_events s) @ concat (map (token_round q) [0..<n])"
proof -
  have "token_queues decode (sch_active s @ map admitted (sch_pending s)) = q"
    by (simp add: token_queues_def assms(4) served_def)
  with run_to_completion_result [OF reachable_inv [OF assms(1)] assms(2)] assms(3)
    round_robin_rounds [OF assms(5)]
  show ?thesis by auto
qed

theorem emission_in_rounds_witness:
  "\<exists>s' responses. run_to_completion increment_model example_scheduler = Some (s', Ok responses) \<and>
     emitted (sch_events s') = [(10, 2), (20, 101), (10, 3)]"
proof -
  let ?q = "[(10, [2, 3]), (20, [101])] :: (u64 \<times> token_id list) list"
  have "rest_tokens increment_model (example_slots ! 0) = [2, 3]"
    "rest_tokens increment_model (example_slots ! 1) = [101]"
    using example_served(2) by (simp_all add: example_slots_def)
  then have q: "?q = map (\<lambda>slot. (rs_request_id slot, rest_tokens increment_model slot))
      (served example_scheduler)"
    by (simp add: example_served(1)) (simp add: example_slots_def)
  obtain s' responses where run:
    "run_to_completion increment_model example_scheduler = Some (s', Ok responses)"
    using example_run by blast
  have "emitted (sch_events s') =
      emitted (sch_events example_scheduler) @ concat (map (token_round ?q) [0..<2])"
    by (rule emission_in_rounds [OF example_reachable increment_no_Panic run q]) simp
  with run show ?thesis by (simp add: example_fields token_round_def numeral_2_eq_2)
qed

section \<open>Life of a request\<close>

text \<open>
  C15. In every reachable scheduler the states recorded for an id follow the transition
  table (a new submission may start the history again), ids of pending, active and completed
  requests are distinct, a live request's last recorded state is the state of its slot, and
  the queue is within its configured length.
\<close>

theorem lifecycle_histories:
  assumes "scheduler_reachable s"
  shows "valid_history (history i (sch_events s)) \<and> distinct (live_ids s) \<and>
    list_all (\<lambda>slot. slot_history_ok (sch_events s) slot) (sch_pending s @ sch_active s) \<and>
    length (sch_pending s) + length (sch_active s) \<le> sc_max_queue_len (sch_config s)"
  using reachable_inv [OF assms] by (simp add: scheduler_inv_def list_all_iff ball_Un)

theorem lifecycle_histories_witness:
  "valid_history (history 10 (sch_events example_scheduler)) \<and>
     history 10 (sch_events example_scheduler) = [Queued]"
  using lifecycle_histories [OF example_reachable, of 10]
  by (simp add: example_scheduler_def submit_def scheduler_new_def validate_generation_def
      request_limits_validate_def default_request_limits_def checked_add_def max64_def Let_def
      push_event_def start_new_batch_history_if_idle_def history_def)

text \<open>
  C16. Every request is cleaned up exactly once by a successful run, canceled or not, and
  nothing stays live.
\<close>

theorem cleanup_once:
  assumes "scheduler_reachable s" and "\<forall>p. decode p \<noteq> Panic"
    and "run_to_completion decode s = Some (s', Ok responses)"
  shows "mset (sch_cleanup_log s') =
      mset (sch_cleanup_log s) + mset (map rs_request_id (sch_active s @ sch_pending s)) \<and>
    live_ids s' = []"
  using run_to_completion_result [OF reachable_inv [OF assms(1)] assms(2)] assms(3) by auto

theorem cleanup_once_witness:
  "\<exists>s' responses. run_to_completion increment_model example_scheduler = Some (s', Ok responses) \<and>
     mset (sch_cleanup_log s') = {#10, 20#}"
proof -
  obtain s' responses where run:
    "run_to_completion increment_model example_scheduler = Some (s', Ok responses)"
    using example_run by blast
  from cleanup_once [OF example_reachable increment_no_Panic run] run show ?thesis
    by (simp add: example_fields example_slots_def)
qed

section \<open>A request whose decoding fails\<close>

text \<open>
  What becomes of a request whose decoding fails with \<open>e\<close> in a run from \<open>s\<close> to \<open>s'\<close>: after some
  tokens decoding fails, the run records no state for it but those of admission and of these
  tokens, its history ends in \<open>Decode\<close>, no queue holds it and the cleanup log does not gain it.
\<close>

definition stuck_in_decode ::
    "(token_id list \<Rightarrow> token_id res) \<Rightarrow> scheduler \<Rightarrow> scheduler \<Rightarrow> ocelotl_error \<Rightarrow> request_slot \<Rightarrow> bool" where
  "stuck_in_decode decode s s' e slot \<longleftrightarrow>
     (\<exists>tokens evs. length tokens < remaining slot \<and>
        decode_alone decode (rs_prompt_tokens slot) (length tokens) = Ok tokens \<and>
        decode (rs_prompt_tokens slot @ tokens) = Err e \<and>
        sch_events s' = sch_events s @ evs \<and>
        history (rs_request_id slot) evs =
          (if rs_state slot = Queued then [Prefill, Decode] else []) @
          concat (replicate (length tokens) [Emit, Decode])) \<and>
     last (history (rs_request_id slot) (sch_events s')) = Decode \<and>
     rs_request_id slot \<notin> set (live_ids s') \<and>
     count_list (sch_cleanup_log s') (rs_request_id slot) =
       count_list (sch_cleanup_log s) (rs_request_id slot)"

lemma stuck_other:
  assumes "stuck_in_decode decode t s' e slot" and "sch_events t = sch_events s @ es"
    and "history (rs_request_id slot) es = []" and "sch_cleanup_log t = sch_cleanup_log s @ ids"
    and "rs_request_id slot \<notin> set ids"
  shows "stuck_in_decode decode s s' e slot"
proof -
  obtain tokens evs where "length tokens < remaining slot"
    "decode_alone decode (rs_prompt_tokens slot) (length tokens) = Ok tokens"
    "decode (rs_prompt_tokens slot @ tokens) = Err e" and evs: "sch_events s' = sch_events t @ evs"
    and "history (rs_request_id slot) evs =
      (if rs_state slot = Queued then [Prefill, Decode] else []) @
      concat (replicate (length tokens) [Emit, Decode])"
    using assms(1) unfolding stuck_in_decode_def by blast
  moreover have "sch_events s' = sch_events s @ (es @ evs)" by (simp add: evs assms(2))
  moreover have "history (rs_request_id slot) (es @ evs) = history (rs_request_id slot) evs"
    by (simp add: assms(3))
  moreover have "count_list ids (rs_request_id slot) = 0" using assms(5) by simp
  ultimately show ?thesis
    using assms(1,4) unfolding stuck_in_decode_def by fastforce
qed

lemma stuck_advanced:
  assumes "stuck_in_decode decode t s' e (advanced slot token)" and "rs_state slot = Decode"
    and "decode (rs_prompt_tokens slot) = Ok token" and "remaining slot = Suc n"
    and "sch_events t = sch_events s @ [emit_event (rs_request_id slot) token, plain_event (rs_request_id slot) Decode]"
    and "sch_cleanup_log t = sch_cleanup_log s"
  shows "stuck_in_decode decode s s' e slot"
proof -
  let ?es = "[emit_event (rs_request_id slot) token, plain_event (rs_request_id slot) Decode]"
  obtain tokens evs where tokens: "length tokens < n"
    "decode_alone decode (rs_prompt_tokens slot @ [token]) (length tokens) = Ok tokens"
    "decode (rs_prompt_tokens slot @ token # tokens) = Err e" and evs: "sch_events s' = sch_events t @ evs"
    and hist: "history (rs_request_id slot) evs = concat (replicate (length tokens) [Emit, Decode])"
    using assms(1,2) unfolding stuck_in_decode_def
    by (auto simp: remaining_advanced [OF assms(4)])
  have "length (token # tokens) < remaining slot" using tokens(1) by (simp add: assms(4))
  moreover have "decode_alone decode (rs_prompt_tokens slot) (length (token # tokens)) = Ok (token # tokens)"
    by (simp add: assms(3) tokens(2))
  moreover have "sch_events s' = sch_events s @ (?es @ evs)" by (simp add: evs assms(5))
  moreover have "history (rs_request_id slot) (?es @ evs) =
      (if rs_state slot = Queued then [Prefill, Decode] else []) @
      concat (replicate (length (token # tokens)) [Emit, Decode])"
    by (simp add: hist assms(2))
  ultimately show ?thesis
    using assms(1,6) tokens(3) unfolding stuck_in_decode_def rs_advanced by metis
qed

lemma serve_active_stuck:
  assumes "scheduler_inv s" and "\<forall>p. decode p \<noteq> Panic" and "serve_active decode s = Some (s', Err e)"
  shows "\<exists>slot \<in> set (not_canceled (sch_active s)). stuck_in_decode decode s s' e slot"
  using assms(1,3)
proof (induction "work s" arbitrary: s rule: less_induct)
  case less
  show ?case
  proof (cases "sch_active s")
    case Nil
    with less.prems(2) show ?thesis by (subst (asm) serve_active.simps) simp
  next
    case (Cons slot rest)
    let ?s = "s\<lparr>sch_active := rest\<rparr>" and ?i = "rs_request_id slot"
    have ok: "active_slot_ok slot" and hist: "slot_history_ok (sch_events s) slot"
      and dist: "distinct (live_ids s)"
      using less.prems(1) Cons by (auto simp: scheduler_inv_def)
    then have others: "rs_request_id x \<noteq> ?i" if "x \<in> set (not_canceled rest)" for x
      using that by (auto simp: live_ids_def Cons not_canceled_def) (metis imageI)
    obtain n where n: "remaining slot = Suc n"
      using ok by (cases "remaining slot") (auto simp: active_slot_ok_def remaining_def)
    obtain t r where turn: "serve_slot decode ?s slot = (t, r)" by (cases "serve_slot decode ?s slot")
    have run: "(if r = Ok () then serve_active decode t else Some (t, r)) = Some (s', Err e)"
      using less.prems(2) by (subst (asm) serve_active.simps) (simp add: Cons turn)
    have inv: "scheduler_inv t" by (rule serve_slot_inv [OF less.prems(1) Cons turn])
    consider (canceled) "rs_state slot = Canceled"
      | (fails) e where "rs_state slot = Decode" "decode (rs_prompt_tokens slot) = Err e"
      | (last) token where "rs_state slot = Decode" "decode (rs_prompt_tokens slot) = Ok token" "n = 0"
      | (more) token m where "rs_state slot = Decode" "decode (rs_prompt_tokens slot) = Ok token" "n = Suc m"
      using ok assms(2)
      by (cases "decode (rs_prompt_tokens slot)"; cases n) (auto simp: active_slot_ok_def)
    then show ?thesis
    proof cases
      case canceled
      have t: "r = Ok ()" "sch_active t = rest" "sch_events t = sch_events s @ [plain_event ?i Cleanup]"
        "sch_cleanup_log t = sch_cleanup_log s @ [?i]"
        using turn by (auto simp: serve_canceled [OF canceled] push_event_plain)
      have "work t < work s" using n by (simp add: work_def t(2) Cons)
      from less.hyps [OF this inv] run t(1,2) obtain x where
        x: "x \<in> set (not_canceled rest)" "stuck_in_decode decode t s' e x" by auto
      from stuck_other [OF x(2) t(3) _ t(4)] others [OF x(1)] have "stuck_in_decode decode s s' e x" by simp
      with x(1) show ?thesis by (auto simp: Cons)
    next
      case (fails e')
      then have s': "s' = ?s" "e' = e"
        using turn run by (auto simp: serve_decode_fails)
      have "?i \<notin> set (live_ids s')" using dist by (auto simp: live_ids_def Cons s')
      with fails hist n have "stuck_in_decode decode s s' e slot"
        unfolding stuck_in_decode_def slot_history_ok_def
        by (intro conjI exI [of _ "[]"]) (simp_all add: s')
      with fails show ?thesis by (auto simp: Cons)
    next
      case last
      have n1: "remaining slot = 1" using n last by simp
      have t: "r = Ok ()" "sch_active t = rest" "sch_events t = sch_events s @
          [emit_event ?i token, plain_event ?i Complete, plain_event ?i Cleanup]"
        "sch_cleanup_log t = sch_cleanup_log s @ [?i]"
        using turn by (auto simp: serve_decode_last [of slot decode token, OF last(1,2) n1])
      have "work t < work s" using n by (simp add: work_def t(2) Cons)
      from less.hyps [OF this inv] run t(1,2) obtain x where
        x: "x \<in> set (not_canceled rest)" "stuck_in_decode decode t s' e x" by auto
      from stuck_other [OF x(2) t(3) _ t(4)] others [OF x(1)] have "stuck_in_decode decode s s' e x" by simp
      with x(1) show ?thesis by (auto simp: Cons)
    next
      case more
      have n2: "remaining slot = Suc (Suc m)" using n more by simp
      have t: "r = Ok ()" "sch_active t = rest @ [advanced slot token]"
        "sch_events t = sch_events s @ [emit_event ?i token, plain_event ?i Decode]"
        "sch_cleanup_log t = sch_cleanup_log s"
        using turn by (auto simp: serve_decode_more [of slot decode token, OF more(1,2) n2])
      have "work t < work s" using n by (simp add: work_def t(2) Cons remaining_advanced [OF n])
      from less.hyps [OF this inv] run t(1,2) obtain x where
        x: "x \<in> set (not_canceled (rest @ [advanced slot token]))" "stuck_in_decode decode t s' e x" by auto
      show ?thesis
      proof (cases "x \<in> set (not_canceled rest)")
        case True
        from stuck_other [OF x(2) t(3), of "[]"] others [OF True] t(4)
        have "stuck_in_decode decode s s' e x" by simp
        with True show ?thesis by (auto simp: Cons)
      next
        case False
        with x have "stuck_in_decode decode t s' e (advanced slot token)" by (auto split: if_split_asm)
        from stuck_advanced [OF this more(1,2) n t(3,4)] more(1) show ?thesis by (auto simp: Cons)
      qed
    qed
  qed
qed

lemma history_admit_events:
  "i \<notin> rs_request_id ` set slots \<Longrightarrow> history i (admit_events slots) = []"
  "distinct (map rs_request_id slots) \<Longrightarrow> slot \<in> set slots \<Longrightarrow>
    history (rs_request_id slot) (admit_events slots) = [Prefill, Decode]"
proof -
  show absent: "i \<notin> rs_request_id ` set slots \<Longrightarrow> history i (admit_events slots) = []" for i slots
    by (induction slots) (auto simp: admit_events_def)
  show "distinct (map rs_request_id slots) \<Longrightarrow> slot \<in> set slots \<Longrightarrow>
    history (rs_request_id slot) (admit_events slots) = [Prefill, Decode]"
  proof (induction slots)
    case (Cons x slots)
    have split: "admit_events (x # slots) =
        plain_event (rs_request_id x) Prefill # plain_event (rs_request_id x) Decode # admit_events slots"
      by (simp add: admit_events_def)
    show ?case
    proof (cases "slot = x")
      case True
      with Cons.prems(1) show ?thesis by (simp add: split absent)
    next
      case False
      with Cons.prems have "slot \<in> set slots" "rs_request_id x \<noteq> rs_request_id slot" by auto
      with Cons show ?thesis by (simp add: split)
    qed
  qed simp
qed

lemma stuck_admitted:
  assumes "stuck_in_decode decode t s' e (admitted slot)" and "rs_state slot = Queued"
    and "sch_events t = sch_events s @ es" and "history (rs_request_id slot) es = [Prefill, Decode]"
    and "sch_cleanup_log t = sch_cleanup_log s"
  shows "stuck_in_decode decode s s' e slot"
proof -
  have rem: "remaining (admitted slot) = remaining slot" by (simp add: remaining_def)
  obtain tokens evs where tokens: "length tokens < remaining slot"
    "decode_alone decode (rs_prompt_tokens slot) (length tokens) = Ok tokens"
    "decode (rs_prompt_tokens slot @ tokens) = Err e" and evs: "sch_events s' = sch_events t @ evs"
    and hist: "history (rs_request_id slot) evs = concat (replicate (length tokens) [Emit, Decode])"
    using assms(1) unfolding stuck_in_decode_def rem by auto
  have "sch_events s' = sch_events s @ (es @ evs)" by (simp add: evs assms(3))
  moreover have "history (rs_request_id slot) (es @ evs) =
      (if rs_state slot = Queued then [Prefill, Decode] else []) @
      concat (replicate (length tokens) [Emit, Decode])"
    by (simp add: hist assms(2,4))
  ultimately show ?thesis
    using assms(1,5) tokens unfolding stuck_in_decode_def rs_admitted by metis
qed

text \<open>
  C17. A request whose decoding fails is not cleaned up. From every reachable scheduler and with every
  model that does not panic, whenever decoding fails for a live request that is not canceled,
  pending or active, at whichever token, the run returns an error, and the request it stopped at, whose decoding failed with that error after some tokens, is in no queue any
  more: the cleanup log has not gained its id, the run recorded for it only the states of its
  admission and of the tokens before the failure, and its history ends in \<open>Decode\<close>, which is not a
  final state.
\<close>

theorem decode_error_skips_cleanup:
  assumes "scheduler_reachable s" and "\<forall>p. decode p \<noteq> Panic"
    and "slot \<in> set (served s)" and "\<not> is_ok (slot_rest decode slot)"
  shows "\<exists>s' e stopped. run_to_completion decode s = Some (s', Err e) \<and>
    stopped \<in> set (served s) \<and> stuck_in_decode decode s s' e stopped"
proof -
  have inv: "scheduler_inv s" by (rule reachable_inv [OF assms(1)])
  obtain s' e where run: "run_to_completion decode s = Some (s', Err e)"
    using run_to_completion_result [OF inv assms(2)] assms(3,4)
    by (metis is_ok.simps(1) outcome.exhaust)
  obtain t where admit: "admit_pending s = (t, Ok ())" and t: "scheduler_inv t"
    "sch_active t = sch_active s @ map admitted (sch_pending s)"
    "sch_events t = sch_events s @ admit_events (sch_pending s)" "sch_cleanup_log t = sch_cleanup_log s"
    using admit_slots_result [OF inv refl] by (auto simp: admit_pending_def)
  obtain u q where loop: "serve_active decode t = Some (u, q)"
    using run admit by (auto simp: run_to_completion_def)
  with run admit have "serve_active decode t = Some (s', Err e)"
    by (cases q) (simp_all add: run_to_completion_def)
  from serve_active_stuck [OF t(1) assms(2) this] obtain x where
    x: "x \<in> set (not_canceled (sch_active t))" "stuck_in_decode decode t s' e x" by blast
  have ids: "distinct (map rs_request_id (sch_pending s) @ map rs_request_id (sch_active s))"
    using inv by (auto simp: scheduler_inv_def live_ids_def)
  from x(1) consider (active) "x \<in> set (not_canceled (sch_active s))"
    | (pending) p where "p \<in> set (sch_pending s)" "x = admitted p"
    by (auto simp: t(2) not_canceled_def)
  then show ?thesis
  proof cases
    case active
    then have "rs_request_id x \<notin> rs_request_id ` set (sch_pending s)"
      using ids by (auto simp: not_canceled_def)
    from stuck_other [OF x(2) t(3) history_admit_events(1) [OF this], of "[]"] t(4)
    have "stuck_in_decode decode s s' e x" by simp
    with run active show ?thesis by (auto simp: served_def)
  next
    case pending
    have "rs_state p = Queued" using inv pending(1) by (auto simp: scheduler_inv_def pending_slot_ok_def)
    moreover have "history (rs_request_id p) (admit_events (sch_pending s)) = [Prefill, Decode]"
      using ids by (intro history_admit_events(2) pending(1)) simp
    ultimately have "stuck_in_decode decode s s' e p"
      using stuck_admitted x(2) t(3,4) unfolding pending(2) by blast
    with run pending show ?thesis by (auto simp: served_def)
  qed
qed

theorem decode_error_skips_cleanup_witness:
  "\<exists>s' e. run_to_completion failing_model example_scheduler = Some (s', Err e) \<and>
     stuck_in_decode failing_model example_scheduler s' e (example_slots ! 0) \<and>
     last (history 10 (sch_events s')) = Decode"
proof -
  let ?first = "example_slots ! 0" and ?second = "example_slots ! 1"
  have no_panic: "\<forall>p. failing_model p \<noteq> Panic"
    by (simp add: failing_model_def increment_model_def err_defs)
  have fails: "\<not> is_ok (slot_rest failing_model ?first)"
    by (simp add: example_slots_def slot_rest_def remaining_def failing_model_def increment_model_def
        numeral_2_eq_2 err_defs)
  have first: "?first \<in> set (served example_scheduler)" by (simp add: example_served example_slots_def)
  from decode_error_skips_cleanup [OF example_reachable no_panic first fails] obtain s' e slot where
    run: "run_to_completion failing_model example_scheduler = Some (s', Err e)"
    and slot: "slot \<in> set example_slots" "stuck_in_decode failing_model example_scheduler s' e slot"
    by (auto simp: example_served)
  have "\<not> stuck_in_decode failing_model example_scheduler s' e ?second"
    by (auto simp: stuck_in_decode_def example_slots_def remaining_def failing_model_def increment_model_def)
  with slot have "stuck_in_decode failing_model example_scheduler s' e ?first"
    by (auto simp: example_slots_def)
  with run show ?thesis by (auto simp: stuck_in_decode_def example_slots_def)
qed

end
