(* ===== verification/Qwen_Config.thy ===== *)
theory Qwen_Config imports F32_Bits
begin

text \<open>
  The Qwen2.5 model configuration (src/crates/models/src/qwen/qwen2_5/config.rs): its
  validation from the generic model metadata of \<open>ocelotl-core\<close>. The lemmas show that the
  conversion accepts exactly the coherent shapes (\<open>coherent_metadata\<close>) and which field every
  rejection names.
\<close>

record model_metadata =
  mm_architecture :: string
  mm_vocab_size :: usize
  mm_num_hidden_layers :: usize
  mm_hidden_size :: usize
  mm_intermediate_size :: usize
  mm_num_attention_heads :: usize
  mm_num_key_value_heads :: usize
  mm_head_dim :: usize
  mm_context_length :: usize
  mm_rope_theta :: f64
  mm_rms_norm_eps :: f64
  mm_dtype :: dtype
  mm_tokenizer_model_hint :: "string option"

record qwen_config =
  qc_vocab_size :: usize
  qc_num_hidden_layers :: usize
  qc_hidden_size :: usize
  qc_intermediate_size :: usize
  qc_num_attention_heads :: usize
  qc_num_key_value_heads :: usize
  qc_head_dim :: usize
  qc_context_length :: usize
  qc_rope_theta :: f64
  qc_rms_norm_eps :: f64
  qc_dtype :: dtype

definition qwen2_5_architecture :: string where
  "qwen2_5_architecture = ''qwen2''"

definition qwen2_5_min_vocab_size :: usize where
  "qwen2_5_min_vocab_size = 2"

definition qwen2_5_max_context_length :: usize where
  "qwen2_5_max_context_length = 2 ^ 20"

definition qwen2_5_supported_dtypes :: "dtype list" where
  "qwen2_5_supported_dtypes = [F32, BF16]"

definition qwen_config_try_from :: "model_metadata \<Rightarrow> qwen_config res" where
  "qwen_config_try_from m =
     (if mm_architecture m \<noteq> qwen2_5_architecture then Err (Unsupported ''qwen2_5.architecture'')
      else if mm_num_attention_heads m = 0 then invalid_model ''num_attention_heads''
      else if mm_num_key_value_heads m = 0 then invalid_model ''num_key_value_heads''
      else if mm_hidden_size m = 0 then invalid_model ''hidden_size''
      else if mm_intermediate_size m = 0 then invalid_model ''intermediate_size''
      else if mm_num_hidden_layers m = 0 then invalid_model ''num_hidden_layers''
      else if mm_head_dim m = 0 then invalid_model ''head_dim''
      else if mm_num_attention_heads m mod mm_num_key_value_heads m \<noteq> 0
      then invalid_model ''num_attention_heads''
      else if (case checked_mul (mm_head_dim m) (mm_num_attention_heads m) of
                 Some p \<Rightarrow> p \<noteq> mm_hidden_size m | None \<Rightarrow> True)
      then invalid_model ''head_dim''
      else if mm_head_dim m mod 2 \<noteq> 0 then invalid_model ''head_dim''
      else if \<not> f64_is_finite (mm_rope_theta m) \<or> f64_le_zero (mm_rope_theta m)
      then invalid_model ''rope_theta''
      else if \<not> f64_is_finite (mm_rms_norm_eps m) \<or> f64_le_zero (mm_rms_norm_eps m)
      then invalid_model ''rms_norm_eps''
      else if mm_vocab_size m < qwen2_5_min_vocab_size then invalid_model ''vocab_size''
      else if mm_context_length m = 0 then invalid_model ''context_length''
      else if qwen2_5_max_context_length < mm_context_length m
      then invalid_model ''context_length''
      else if \<not> List.member qwen2_5_supported_dtypes (mm_dtype m)
      then Err (Unsupported ''qwen2_5.dtype'')
      else Ok \<lparr>qc_vocab_size = mm_vocab_size m,
               qc_num_hidden_layers = mm_num_hidden_layers m,
               qc_hidden_size = mm_hidden_size m,
               qc_intermediate_size = mm_intermediate_size m,
               qc_num_attention_heads = mm_num_attention_heads m,
               qc_num_key_value_heads = mm_num_key_value_heads m,
               qc_head_dim = mm_head_dim m,
               qc_context_length = mm_context_length m,
               qc_rope_theta = mm_rope_theta m,
               qc_rms_norm_eps = mm_rms_norm_eps m,
               qc_dtype = mm_dtype m\<rparr>)"

text \<open>What the documentation of \<open>Qwen2_5Config\<close> lets downstream code rely on.\<close>

definition coherent_config :: "qwen_config \<Rightarrow> bool" where
  "coherent_config c \<longleftrightarrow>
     0 < qc_num_attention_heads c \<and> 0 < qc_num_key_value_heads c \<and> 0 < qc_num_hidden_layers c \<and>
     0 < qc_hidden_size c \<and> 0 < qc_intermediate_size c \<and> 0 < qc_head_dim c \<and> even (qc_head_dim c) \<and>
     qc_num_key_value_heads c dvd qc_num_attention_heads c \<and>
     qc_head_dim c * qc_num_attention_heads c = qc_hidden_size c \<and>
     qc_hidden_size c \<le> max64 \<and>
     0 < unat (qc_rope_theta c) \<and> unat (qc_rope_theta c) < 2047 * 2 ^ 52 \<and>
     0 < unat (qc_rms_norm_eps c) \<and> unat (qc_rms_norm_eps c) < 2047 * 2 ^ 52 \<and>
     2 \<le> qc_vocab_size c \<and> 0 < qc_context_length c \<and> qc_context_length c \<le> 2 ^ 20 \<and>
     (qc_dtype c = F32 \<or> qc_dtype c = BF16)"

definition config_of :: "model_metadata \<Rightarrow> qwen_config" where
  "config_of m =
     \<lparr>qc_vocab_size = mm_vocab_size m, qc_num_hidden_layers = mm_num_hidden_layers m,
      qc_hidden_size = mm_hidden_size m, qc_intermediate_size = mm_intermediate_size m,
      qc_num_attention_heads = mm_num_attention_heads m,
      qc_num_key_value_heads = mm_num_key_value_heads m, qc_head_dim = mm_head_dim m,
      qc_context_length = mm_context_length m, qc_rope_theta = mm_rope_theta m,
      qc_rms_norm_eps = mm_rms_norm_eps m, qc_dtype = mm_dtype m\<rparr>"

lemma size_matches:
  "\<not> (case checked_mul a b of Some p \<Rightarrow> p \<noteq> n | None \<Rightarrow> True) \<longleftrightarrow> a * b = n \<and> n \<le> max64"
  by (auto simp: checked_mul_def)

text \<open>
  C22. The conversion accepts a metadata record exactly when it is a Qwen2 one and its
  projection is coherent (positive dimensions, even head dimension, heads times head dimension equal to
  the hidden size within 64 bits, divisible head groups, positive finite floats, bounded
  context, executable dtype); the result is that projection, and no input panics.
\<close>

theorem qwen_config_exact:
  "(qwen_config_try_from m = Ok c \<longleftrightarrow>
      mm_architecture m = ''qwen2'' \<and> c = config_of m \<and> coherent_config c)
   \<and> qwen_config_try_from m \<noteq> Panic"
proof
  have pos: "\<not> (\<not> f64_is_finite x \<or> f64_le_zero x) \<longleftrightarrow> 0 < unat x \<and> unat x < 2047 * 2 ^ 52" for x
    using f64_positive_iff [of x] by blast
  have "qwen_config_try_from m = Ok c \<longleftrightarrow>
      mm_architecture m = ''qwen2'' \<and> c = config_of m \<and> coherent_config (config_of m)"
    unfolding qwen_config_try_from_def if_err_iff if_Err_Ok_iff coherent_config_def
      qwen2_5_architecture_def qwen2_5_min_vocab_size_def qwen2_5_max_context_length_def
      qwen2_5_supported_dtypes_def pos size_matches
    by (simp add: config_of_def dvd_eq_mod_eq_0 not_less eq_commute [of c] even_iff_mod_2_eq_zero
        conj_ac disj_ac)
  then show "qwen_config_try_from m = Ok c \<longleftrightarrow>
      mm_architecture m = ''qwen2'' \<and> c = config_of m \<and> coherent_config c" by blast
  show "qwen_config_try_from m \<noteq> Panic"
    unfolding qwen_config_try_from_def if_err_iff if_Err_Ok_iff by simp
qed

end
