(* ===== verification/Byte_Codec.thy ===== *)
theory Byte_Codec imports Core_Types
begin

text \<open>
  Bytes as the loaders read them: little-endian integers (\<open>u64::from_le_bytes\<close> and its
  narrower forms), the validity test of \<open>std::str::from_utf8\<close>, and text as the list of its
  UTF-8 bytes. The lemmas give the round trips between numbers and their bytes.
\<close>

type_synonym byte = "8 word"

fun le_nat :: "byte list \<Rightarrow> nat" where
  "le_nat [] = 0"
| "le_nat (b # bs) = unat b + 256 * le_nat bs"

fun nat_le :: "nat \<Rightarrow> nat \<Rightarrow> byte list" where
  "nat_le 0 n = []"
| "nat_le (Suc k) n = word_of_nat (n mod 256) # nat_le k (n div 256)"

lemma length_nat_le [simp]: "length (nat_le k n) = k"
  by (induction k arbitrary: n) auto

lemma unat_byte_less: "unat (b :: byte) < 256"
  using unsigned_less [of b, where ?'a = nat] by simp

lemma le_nat_less: "le_nat bs < 256 ^ length bs"
proof (induction bs)
  case (Cons b bs)
  have "unat b + 256 * le_nat bs < 256 * (le_nat bs + 1)" using unat_byte_less [of b] by simp
  also have "\<dots> \<le> 256 * 256 ^ length bs" using Cons by (intro mult_le_mono) auto
  finally show ?case by simp
qed simp

lemma le_nat_nat_le: "n < 256 ^ k \<Longrightarrow> le_nat (nat_le k n) = n"
proof (induction k arbitrary: n)
  case (Suc k)
  have "n div 256 < 256 ^ k" using Suc.prems by (simp add: less_mult_imp_div_less mult.commute)
  moreover have "unat (word_of_nat (n mod 256) :: byte) = n mod 256" by (simp add: unat_of_nat)
  ultimately show ?case using Suc.IH by simp
qed simp

lemma nat_le_le_nat: "nat_le (length bs) (le_nat bs) = bs"
proof (induction bs)
  case (Cons b bs)
  have "(unat b + 256 * le_nat bs) mod 256 = unat b"
    using unat_byte_less [of b] by simp
  moreover have "(unat b + 256 * le_nat bs) div 256 = le_nat bs"
    using unat_byte_less [of b] by simp
  ultimately show ?case using Cons by simp
qed simp

section \<open>UTF-8\<close>

text \<open>A continuation byte, and the byte ranges of the second byte per first byte.\<close>

definition utf8_cont :: "byte \<Rightarrow> bool" where
  "utf8_cont b \<longleftrightarrow> 0x80 \<le> b \<and> b \<le> 0xBF"

fun valid_utf8 :: "byte list \<Rightarrow> bool" where
  "valid_utf8 [] = True"
| "valid_utf8 (a # r) =
     (if a \<le> 0x7F then valid_utf8 r
      else (case r of
        [] \<Rightarrow> False
      | b # r2 \<Rightarrow>
          if 0xC2 \<le> a \<and> a \<le> 0xDF then utf8_cont b \<and> valid_utf8 r2
          else (case r2 of
            [] \<Rightarrow> False
          | c # r3 \<Rightarrow>
              if 0xE0 \<le> a \<and> a \<le> 0xEF
              then utf8_cont b \<and> (a = 0xE0 \<longrightarrow> 0xA0 \<le> b) \<and> (a = 0xED \<longrightarrow> b \<le> 0x9F) \<and>
                   utf8_cont c \<and> valid_utf8 r3
              else (case r3 of
                [] \<Rightarrow> False
              | d # r4 \<Rightarrow>
                  0xF0 \<le> a \<and> a \<le> 0xF4 \<and> utf8_cont b \<and> (a = 0xF0 \<longrightarrow> 0x90 \<le> b) \<and>
                  (a = 0xF4 \<longrightarrow> b \<le> 0x8F) \<and> utf8_cont c \<and> utf8_cont d \<and> valid_utf8 r4))))"

lemma valid_utf8_ascii: "\<forall>b \<in> set bs. b \<le> 0x7F \<Longrightarrow> valid_utf8 bs"
  by (induction bs) auto

definition text_of_bytes :: "byte list \<Rightarrow> string" where
  "text_of_bytes bs = map (\<lambda>b. char_of (unat b)) bs"

definition bytes_of_text :: "string \<Rightarrow> byte list" where
  "bytes_of_text s = map (\<lambda>c. word_of_nat (of_char c)) s"

lemma bytes_of_text_of_bytes [simp]: "bytes_of_text (text_of_bytes bs) = bs"
proof -
  have "(of_char (char_of (unat b) :: char) :: nat) = unat b" for b :: byte
    using unat_byte_less [of b] by simp
  then have "(word_of_nat (of_char (char_of (unat b) :: char)) :: byte) = b" for b by simp
  then show ?thesis by (simp add: bytes_of_text_def text_of_bytes_def o_def)
qed

lemma text_of_bytes_of_text [simp]: "text_of_bytes (bytes_of_text s) = s"
proof -
  have "char_of (unat (word_of_nat (of_char c) :: byte)) = c" for c :: char
  proof -
    have "(of_char c :: nat) < 256" 
      by (metis of_char_mod_256 mod_less_divisor zero_less_numeral)
    then have "unat (word_of_nat (of_char c) :: byte) = of_char c" by (simp add: unat_of_nat)
    then show ?thesis by simp
  qed
  then show ?thesis by (simp add: bytes_of_text_def text_of_bytes_def o_def)
qed

lemma length_text_of_bytes [simp]: "length (text_of_bytes bs) = length bs"
  by (simp add: text_of_bytes_def)

lemma length_bytes_of_text [simp]: "length (bytes_of_text s) = length s"
  by (simp add: bytes_of_text_def)

lemma text_of_bytes_eq_iff: "text_of_bytes xs = text_of_bytes ys \<longleftrightarrow> xs = ys"
  by (metis bytes_of_text_of_bytes)

end
