(* ===== verification/Gguf_Reader.thy ===== *)
theory Gguf_Reader imports Gguf_Types
begin

text \<open>
  The bounded header reader of the GGUF loader (\<open>GgufReader\<close> in
  src/crates/loader/src/gguf_inspect.rs). A file is the list of its bytes; the position of the
  operating system's file is the reader's own position, which every method keeps equal to it.
  Whether \<open>try_reserve_exact\<close> can reserve a vector is the parameter \<open>gr_reserve\<close>, asked with
  the field that is read and the number of entries.

  The lemmas describe every method exactly: \<open>consumes r bs r'\<close> says that the bytes at the
  position of \<open>r\<close> are \<open>bs\<close>, within the file and the header ceiling, and that \<open>r'\<close> is the
  reader after them; a method succeeds exactly when it consumes an encoding of its result.
\<close>

record gguf_reader =
  gr_file :: "byte list"
  gr_position :: u64
  gr_limits :: artifact_limits
  gr_reserve :: "string \<Rightarrow> usize \<Rightarrow> bool"

type_synonym 'a reading = "('a \<times> gguf_reader) res"

definition read_header_part :: "nat \<Rightarrow> gguf_reader \<Rightarrow> byte list reading" where
  "read_header_part read_len r =
     and_then (ok_or (checked_add (gr_position r) read_len) (InvalidModel (Some ''header'')))
       (\<lambda>end_pos.
       if al_max_header_bytes (gr_limits r) < end_pos then invalid_gguf ''header''
       else if length (gr_file r) < end_pos then invalid_gguf ''header''
       else Ok (take read_len (drop (gr_position r) (gr_file r)), r\<lparr>gr_position := end_pos\<rparr>))"

definition skip_bytes :: "u64 \<Rightarrow> gguf_reader \<Rightarrow> unit reading" where
  "skip_bytes len r =
     and_then (ok_or (checked_add (gr_position r) len) (InvalidModel (Some ''header'')))
       (\<lambda>end_pos.
       if al_max_header_bytes (gr_limits r) < end_pos then invalid_gguf ''header''
       else if length (gr_file r) < end_pos then invalid_gguf ''header''
       else Ok ((), r\<lparr>gr_position := end_pos\<rparr>))"

definition remaining_bounded_header_bytes :: "gguf_reader \<Rightarrow> u64" where
  "remaining_bounded_header_bytes r =
     min (length (gr_file r)) (al_max_header_bytes (gr_limits r)) - gr_position r"

definition read_u8 :: "gguf_reader \<Rightarrow> (8 word) reading" where
  "read_u8 r = and_then (read_header_part 1 r) (\<lambda>(buf, r'). Ok (word_of_nat (le_nat buf), r'))"

definition read_u16 :: "gguf_reader \<Rightarrow> (16 word) reading" where
  "read_u16 r = and_then (read_header_part 2 r) (\<lambda>(buf, r'). Ok (word_of_nat (le_nat buf), r'))"

definition read_u32 :: "gguf_reader \<Rightarrow> (32 word) reading" where
  "read_u32 r = and_then (read_header_part 4 r) (\<lambda>(buf, r'). Ok (word_of_nat (le_nat buf), r'))"

definition read_u64 :: "gguf_reader \<Rightarrow> (64 word) reading" where
  "read_u64 r = and_then (read_header_part 8 r) (\<lambda>(buf, r'). Ok (word_of_nat (le_nat buf), r'))"

text \<open>The signed and float readers return the same bits.\<close>

definition read_i8 :: "gguf_reader \<Rightarrow> (8 word) reading" where
  "read_i8 r = read_u8 r"

definition read_i16 :: "gguf_reader \<Rightarrow> (16 word) reading" where
  "read_i16 r = and_then (read_header_part 2 r) (\<lambda>(buf, r'). Ok (word_of_nat (le_nat buf), r'))"

definition read_i32 :: "gguf_reader \<Rightarrow> (32 word) reading" where
  "read_i32 r = and_then (read_header_part 4 r) (\<lambda>(buf, r'). Ok (word_of_nat (le_nat buf), r'))"

definition read_i64 :: "gguf_reader \<Rightarrow> (64 word) reading" where
  "read_i64 r = and_then (read_header_part 8 r) (\<lambda>(buf, r'). Ok (word_of_nat (le_nat buf), r'))"

definition read_f32 :: "gguf_reader \<Rightarrow> f32 reading" where
  "read_f32 r = read_u32 r"

definition read_f64 :: "gguf_reader \<Rightarrow> f64 reading" where
  "read_f64 r = read_u64 r"

definition read_bool :: "gguf_reader \<Rightarrow> bool reading" where
  "read_bool r =
     and_then (read_u8 r) (\<lambda>(b, r').
       if b = 0 then Ok (False, r') else if b = 1 then Ok (True, r') else invalid_gguf ''bool'')"

definition try_reserve_exact :: "gguf_reader \<Rightarrow> string \<Rightarrow> usize \<Rightarrow> unit res" where
  "try_reserve_exact r field count =
     (if gr_reserve r field count then Ok () else invalid_gguf field)"

text \<open>\<open>u64\<close> to \<open>usize\<close>: the conversion succeeds on the 64-bit targets of the program.\<close>

definition count_to_usize :: "string \<Rightarrow> u64 \<Rightarrow> usize res" where
  "count_to_usize field count = (if count \<le> max64 then Ok count else invalid_gguf field)"

definition array_len_to_usize :: "string \<Rightarrow> u64 \<Rightarrow> usize res" where
  "array_len_to_usize key len = (if len \<le> max64 then Ok len else invalid_gguf key)"

definition read_string :: "string \<Rightarrow> u64 \<Rightarrow> gguf_reader \<Rightarrow> string reading" where
  "read_string field max_len r =
     and_then (read_u64 r) (\<lambda>(w, r).
       let len = unat w in
       if max_len < len \<or> al_max_metadata_string_bytes (gr_limits r) < len
       then invalid_gguf field
       else
         and_then (try_reserve_exact r field len) (\<lambda>_.
         and_then (read_header_part len r) (\<lambda>(bytes, r).
           if valid_utf8 bytes then Ok (text_of_bytes bytes, r) else invalid_gguf field)))"

definition skip_string :: "string \<Rightarrow> u64 \<Rightarrow> gguf_reader \<Rightarrow> unit reading" where
  "skip_string field max_len r =
     and_then (read_u64 r) (\<lambda>(w, r).
       let len = unat w in
       if max_len < len \<or> al_max_metadata_string_bytes (gr_limits r) < len
       then invalid_gguf field
       else skip_bytes len r)"

text \<open>The ceilings are passed beside the reader, whose own copy of them never changes.\<close>

definition read_array_header ::
    "artifact_limits \<Rightarrow> nat \<Rightarrow> gguf_reader \<Rightarrow> (gguf_type \<times> u64) reading" where
  "read_array_header limits depth r =
     (if al_max_array_depth limits \<le> depth then invalid_gguf ''metadata array''
      else
        and_then (read_u32 r) (\<lambda>(raw, r).
        and_then (gguf_type_from_raw (unat raw) ''metadata array'') (\<lambda>element_type.
        and_then (read_u64 r) (\<lambda>(w, r).
          let len = unat w in
          if al_max_array_elements limits < len then invalid_gguf ''metadata array''
          else Ok ((element_type, len), r)))))"

text \<open>A \<open>for _ in 0..n\<close> loop over the reader that pushes what the body returns.\<close>

fun read_times :: "nat \<Rightarrow> (gguf_reader \<Rightarrow> 'a reading) \<Rightarrow> gguf_reader \<Rightarrow> 'a list reading" where
  "read_times 0 body r = Ok ([], r)"
| "read_times (Suc n) body r =
     and_then (body r) (\<lambda>(x, r). and_then (read_times n body r) (\<lambda>(xs, r). Ok (x # xs, r)))"

lemma and_then_cong [fundef_cong]:
  "r = r' \<Longrightarrow> (\<And>x. r' = Ok x \<Longrightarrow> f x = g x) \<Longrightarrow> and_then r f = and_then r' g"
  by (cases r') auto

lemma read_times_cong [fundef_cong]:
  "n = n' \<Longrightarrow> r = r' \<Longrightarrow> (\<And>s. f s = g s) \<Longrightarrow> read_times n f r = read_times n' g r'"
proof -
  assume "n = n'" "r = r'" "\<And>s. f s = g s"
  then show ?thesis by (metis ext)
qed

lemma read_array_header_depth:
  "read_array_header limits depth r = Ok x \<Longrightarrow> depth < al_max_array_depth limits"
  by (simp add: read_array_header_def split: if_splits)

function (sequential) skip_metadata_value ::
    "artifact_limits \<Rightarrow> gguf_type \<Rightarrow> nat \<Rightarrow> gguf_reader \<Rightarrow> unit reading" where
  "skip_metadata_value limits T_Array depth r =
     and_then (read_array_header limits depth r) (\<lambda>((element_type, len), r).
     and_then (read_times len (skip_metadata_value limits element_type (depth + 1)) r)
       (\<lambda>(_, r). Ok ((), r)))"
| "skip_metadata_value limits T_String depth r =
     skip_string ''metadata string'' (al_max_metadata_string_bytes (gr_limits r)) r"
| "skip_metadata_value limits T_U8 depth r = skip_bytes 1 r"
| "skip_metadata_value limits T_I8 depth r = skip_bytes 1 r"
| "skip_metadata_value limits T_Bool depth r = skip_bytes 1 r"
| "skip_metadata_value limits T_U16 depth r = skip_bytes 2 r"
| "skip_metadata_value limits T_I16 depth r = skip_bytes 2 r"
| "skip_metadata_value limits T_U32 depth r = skip_bytes 4 r"
| "skip_metadata_value limits T_I32 depth r = skip_bytes 4 r"
| "skip_metadata_value limits T_F32 depth r = skip_bytes 4 r"
| "skip_metadata_value limits T_U64 depth r = skip_bytes 8 r"
| "skip_metadata_value limits T_I64 depth r = skip_bytes 8 r"
| "skip_metadata_value limits T_F64 depth r = skip_bytes 8 r"
  by pat_completeness auto
termination
  by (relation "measure (\<lambda>(limits, ty, depth, r). al_max_array_depth limits - depth)")
    (auto dest: read_array_header_depth)

definition returning :: "('a \<Rightarrow> 'b) \<Rightarrow> 'a reading \<Rightarrow> 'b reading" where
  "returning f m = and_then m (\<lambda>(x, r). Ok (f x, r))"

definition read_metadata_value ::
    "artifact_limits \<Rightarrow> gguf_type \<Rightarrow> nat \<Rightarrow> gguf_reader \<Rightarrow> gguf_value reading" where
  "read_metadata_value limits value_type depth r =
     (case value_type of
        T_U8 \<Rightarrow> returning V_U8 (read_u8 r)
      | T_I8 \<Rightarrow> returning V_I8 (read_i8 r)
      | T_U16 \<Rightarrow> returning V_U16 (read_u16 r)
      | T_I16 \<Rightarrow> returning V_I16 (read_i16 r)
      | T_U32 \<Rightarrow> returning V_U32 (read_u32 r)
      | T_I32 \<Rightarrow> returning V_I32 (read_i32 r)
      | T_F32 \<Rightarrow> returning V_F32 (read_f32 r)
      | T_Bool \<Rightarrow> returning V_Bool (read_bool r)
      | T_String \<Rightarrow>
          returning V_String
            (read_string ''metadata string'' (al_max_metadata_string_bytes limits) r)
      | T_Array \<Rightarrow>
          and_then (read_array_header limits depth r) (\<lambda>((element_type, len), r).
            if element_type = T_Bool then
              and_then (array_len_to_usize ''metadata bool array'' len) (\<lambda>len_usize.
              and_then (try_reserve_exact r ''metadata bool array'' len_usize) (\<lambda>_.
              returning V_BoolArray (read_times len read_bool r)))
            else
              returning (\<lambda>_. V_Array element_type len)
                (read_times len (skip_metadata_value limits element_type (depth + 1)) r))
      | T_U64 \<Rightarrow> returning V_U64 (read_u64 r)
      | T_I64 \<Rightarrow> returning V_I64 (read_i64 r)
      | T_F64 \<Rightarrow> returning V_F64 (read_f64 r))"

definition expect_array_element_type ::
    "artifact_limits \<Rightarrow> gguf_type \<Rightarrow> string \<Rightarrow> gguf_type \<Rightarrow> gguf_reader \<Rightarrow> u64 reading" where
  "expect_array_element_type limits value_type key expected r =
     (if value_type \<noteq> T_Array then invalid_gguf key
      else
        and_then (read_array_header limits 0 r) (\<lambda>((element_type, len), r).
          if element_type \<noteq> expected then invalid_gguf key else Ok (len, r)))"

definition read_metadata_string_array ::
    "artifact_limits \<Rightarrow> gguf_type \<Rightarrow> string \<Rightarrow> gguf_reader \<Rightarrow> string list reading" where
  "read_metadata_string_array limits value_type key r =
     and_then (expect_array_element_type limits value_type key T_String r) (\<lambda>(len, r).
     and_then (array_len_to_usize key len) (\<lambda>len_usize.
     and_then (try_reserve_exact r key len_usize) (\<lambda>_.
     read_times len (read_string key (al_max_metadata_string_bytes limits)) r)))"

definition read_metadata_f32_array ::
    "artifact_limits \<Rightarrow> gguf_type \<Rightarrow> string \<Rightarrow> gguf_reader \<Rightarrow> f32 list reading" where
  "read_metadata_f32_array limits value_type key r =
     and_then (expect_array_element_type limits value_type key T_F32 r) (\<lambda>(len, r).
     and_then (array_len_to_usize key len) (\<lambda>len_usize.
     and_then (try_reserve_exact r key len_usize) (\<lambda>_.
     read_times len read_f32 r)))"

definition read_metadata_i32_array ::
    "artifact_limits \<Rightarrow> gguf_type \<Rightarrow> string \<Rightarrow> gguf_reader \<Rightarrow> (32 word) list reading" where
  "read_metadata_i32_array limits value_type key r =
     and_then (expect_array_element_type limits value_type key T_I32 r) (\<lambda>(len, r).
     and_then (array_len_to_usize key len) (\<lambda>len_usize.
     and_then (try_reserve_exact r key len_usize) (\<lambda>_.
     read_times len read_i32 r)))"

definition expect_metadata_string :: "string \<Rightarrow> gguf_value \<Rightarrow> string res" where
  "expect_metadata_string key value =
     (case value of V_String s \<Rightarrow> Ok s | _ \<Rightarrow> invalid_gguf key)"

definition expect_metadata_u32 :: "string \<Rightarrow> gguf_value \<Rightarrow> (32 word) res" where
  "expect_metadata_u32 key value =
     (case value of
        V_U32 w \<Rightarrow> Ok w
      | V_U64 w \<Rightarrow> if unat w < 2 ^ 32 then Ok (ucast w) else invalid_gguf key
      | _ \<Rightarrow> invalid_gguf key)"

definition expect_metadata_bool :: "string \<Rightarrow> gguf_value \<Rightarrow> bool res" where
  "expect_metadata_bool key value =
     (case value of V_Bool b \<Rightarrow> Ok b | _ \<Rightarrow> invalid_gguf key)"

section \<open>What a method consumes\<close>

definition reader_bound :: "gguf_reader \<Rightarrow> nat" where
  "reader_bound r =
     min (length (gr_file r)) (min (al_max_header_bytes (gr_limits r)) max64)"

definition consumes :: "gguf_reader \<Rightarrow> byte list \<Rightarrow> gguf_reader \<Rightarrow> bool" where
  "consumes r bs s \<longleftrightarrow>
     s = r\<lparr>gr_position := gr_position r + length bs\<rparr> \<and>
     gr_position r + length bs \<le> reader_bound r \<and>
     take (length bs) (drop (gr_position r) (gr_file r)) = bs"

text \<open>The part of a reader that no method changes.\<close>

definition reads_with ::
    "artifact_limits \<Rightarrow> (string \<Rightarrow> usize \<Rightarrow> bool) \<Rightarrow> gguf_reader \<Rightarrow> bool" where
  "reads_with limits reserve r \<longleftrightarrow> gr_limits r = limits \<and> gr_reserve r = reserve"

lemma reader_bound_position [simp]: "reader_bound (r\<lparr>gr_position := p\<rparr>) = reader_bound r"
  by (simp add: reader_bound_def)

lemma reads_with_position [simp]: "reads_with L R (r\<lparr>gr_position := p\<rparr>) = reads_with L R r"
  by (simp add: reads_with_def)

lemma consumesD:
  assumes "consumes r bs s"
  shows "gr_file s = gr_file r" "gr_limits s = gr_limits r" "gr_reserve s = gr_reserve r"
    "gr_position s = gr_position r + length bs" "gr_position s \<le> reader_bound r"
    "reader_bound s = reader_bound r" "reads_with L R s \<longleftrightarrow> reads_with L R r"
  using assms by (auto simp: consumes_def)

lemma consumes_Nil: "consumes r [] s \<longleftrightarrow> s = r \<and> gr_position r \<le> reader_bound r"
  by (auto simp: consumes_def)

lemma consumes_append: "consumes r (a @ b) s \<longleftrightarrow> (\<exists>m. consumes r a m \<and> consumes m b s)"
proof
  assume c: "consumes r (a @ b) s"
  let ?m = "r\<lparr>gr_position := gr_position r + length a\<rparr>"
  let ?d = "drop (gr_position r) (gr_file r)"
  have ab: "take (length a + length b) ?d = a @ b" using c by (simp add: consumes_def)
  have "take (length a) ?d = take (length a) (take (length a + length b) ?d)" by (simp add: min_def)
  then have a: "take (length a) ?d = a" by (simp add: ab)
  have "take (length b) (drop (length a) ?d) = drop (length a) (take (length a + length b) ?d)"
    by (simp add: drop_take)
  then have b: "take (length b) (drop (length a) ?d) = b" by (simp add: ab)
  have "consumes r a ?m" using c a by (simp add: consumes_def)
  moreover have "consumes ?m b s"
    using c b by (simp add: consumes_def add.assoc add.commute)
  ultimately show "\<exists>m. consumes r a m \<and> consumes m b s" by blast
next
  assume "\<exists>m. consumes r a m \<and> consumes m b s"
  then show "consumes r (a @ b) s"
    by (auto simp: consumes_def take_add add.assoc add.commute)
qed

lemma consumes_functional: "consumes r bs s \<Longrightarrow> consumes r bs t \<Longrightarrow> s = t"
  by (simp add: consumes_def)

lemma read_header_part_iff:
  "read_header_part n r = Ok (bs, s) \<longleftrightarrow> length bs = n \<and> consumes r bs s"
  by (auto simp: read_header_part_def consumes_def reader_bound_def res_simps not_less)

lemma skip_bytes_iff:
  "skip_bytes n r = Ok (u, s) \<longleftrightarrow> (\<exists>bs. length bs = n \<and> consumes r bs s)"
proof -
  have "skip_bytes n r = Ok (u, s) \<longleftrightarrow> (\<exists>bs. read_header_part n r = Ok (bs, s))"
    by (auto simp: skip_bytes_def read_header_part_def res_simps)
  then show ?thesis by (simp add: read_header_part_iff)
qed

lemma read_header_part_no_Panic [simp]: "read_header_part n r \<noteq> Panic"
  by (auto simp: read_header_part_def res_simps)

lemma skip_bytes_no_Panic [simp]: "skip_bytes n r \<noteq> Panic"
  by (auto simp: skip_bytes_def res_simps)

lemma word_reading_iff:
  assumes "LENGTH('a :: len) = 8 * n"
  shows "and_then (read_header_part n r) (\<lambda>(buf, r'). Ok (word_of_nat (le_nat buf), r')) =
      Ok (w :: 'a word, s) \<longleftrightarrow> consumes r (nat_le n (unat w)) s"
proof -
  have size: "(256 :: nat) ^ n = 2 ^ LENGTH('a)"
    by (simp add: assms power_mult)
  show ?thesis
  proof
    assume "and_then (read_header_part n r) (\<lambda>(buf, r'). Ok (word_of_nat (le_nat buf), r')) =
      Ok (w, s)"
    then obtain bs where bs: "length bs = n" "consumes r bs s" "w = word_of_nat (le_nat bs)"
      by (auto simp: res_simps read_header_part_iff)
    have "le_nat bs < 2 ^ LENGTH('a)" using le_nat_less [of bs] size bs(1) by simp
    then have "unat w = le_nat bs" by (simp add: bs(3) unat_of_nat)
    then have "nat_le n (unat w) = bs" using nat_le_le_nat [of bs] bs(1) by simp
    with bs(2) show "consumes r (nat_le n (unat w)) s" by simp
  next
    assume c: "consumes r (nat_le n (unat w)) s"
    have "unat w < 256 ^ n" unfolding size by (rule unsigned_less)
    then have "le_nat (nat_le n (unat w)) = unat w" by (rule le_nat_nat_le)
    with c show "and_then (read_header_part n r)
        (\<lambda>(buf, r'). Ok (word_of_nat (le_nat buf), r')) = Ok (w, s)"
      by (auto simp: res_simps read_header_part_iff intro!: exI [of _ "nat_le n (unat w)"])
  qed
qed

lemma read_word_iffs:
  "read_u8 r = Ok (a, s) \<longleftrightarrow> consumes r (nat_le 1 (unat a)) s"
  "read_i8 r = Ok (a, s) \<longleftrightarrow> consumes r (nat_le 1 (unat a)) s"
  "read_u16 r = Ok (b, s) \<longleftrightarrow> consumes r (nat_le 2 (unat b)) s"
  "read_i16 r = Ok (b, s) \<longleftrightarrow> consumes r (nat_le 2 (unat b)) s"
  "read_u32 r = Ok (c, s) \<longleftrightarrow> consumes r (nat_le 4 (unat c)) s"
  "read_i32 r = Ok (c, s) \<longleftrightarrow> consumes r (nat_le 4 (unat c)) s"
  "read_f32 r = Ok (c, s) \<longleftrightarrow> consumes r (nat_le 4 (unat c)) s"
  "read_u64 r = Ok (d, s) \<longleftrightarrow> consumes r (nat_le 8 (unat d)) s"
  "read_i64 r = Ok (d, s) \<longleftrightarrow> consumes r (nat_le 8 (unat d)) s"
  "read_f64 r = Ok (d, s) \<longleftrightarrow> consumes r (nat_le 8 (unat d)) s"
  unfolding read_i8_def read_u8_def read_u16_def read_i16_def read_u32_def read_i32_def
    read_f32_def read_u64_def read_i64_def read_f64_def
  by (rule word_reading_iff, simp)+

lemma read_word_no_Panic [simp]:
  "read_u8 r \<noteq> Panic" "read_i8 r \<noteq> Panic" "read_u16 r \<noteq> Panic" "read_i16 r \<noteq> Panic"
  "read_u32 r \<noteq> Panic" "read_i32 r \<noteq> Panic" "read_f32 r \<noteq> Panic" "read_u64 r \<noteq> Panic"
  "read_i64 r \<noteq> Panic" "read_f64 r \<noteq> Panic"
  by (auto simp: read_i8_def read_u8_def read_u16_def read_i16_def read_u32_def read_i32_def
    read_f32_def read_u64_def read_i64_def read_f64_def res_simps)

lemma read_u8_iff: "read_u8 r = Ok (x, s) \<longleftrightarrow> consumes r [x] s"
proof -
  have "nat_le 1 (unat x) = [x]" using unat_byte_less [of x] by simp
  then show ?thesis by (simp add: read_word_iffs)
qed

lemma read_bool_iff: "read_bool r = Ok (b, s) \<longleftrightarrow> consumes r [if b then 1 else 0] s"
proof
  assume "read_bool r = Ok (b, s)"
  then show "consumes r [if b then 1 else 0] s"
    by (auto simp: read_bool_def res_simps read_u8_iff split: if_split_asm)
next
  assume "consumes r [if b then 1 else 0] s"
  then have "read_u8 r = Ok (if b then 1 else 0, s)" by (simp add: read_u8_iff)
  then show "read_bool r = Ok (b, s)" by (simp add: read_bool_def)
qed

lemma read_bool_no_Panic [simp]: "read_bool r \<noteq> Panic"
  by (auto simp: read_bool_def res_simps)

end
