(* ===== verification/Gguf_Data.thy ===== *)
theory Gguf_Data imports Gguf_Reader
begin

text \<open>
  The serialised form of GGUF metadata values: a value is a tree (\<open>gguf_data\<close>) with an encoding
  to bytes and a well-formedness test under the artifact limits. The lemmas show that the
  reader of src/crates/loader/src/gguf_inspect.rs skips exactly the encodings of well-formed
  trees and reads exactly those that also hold valid booleans and text, returning the value
  the tree denotes; the nesting depth of what it accepts is bounded by the limits.
\<close>

section \<open>Trees and their encoding\<close>

datatype gguf_data = D_Fixed "byte list" | D_Str "byte list" | D_Arr gguf_type "gguf_data list"

fun encode_data :: "gguf_data \<Rightarrow> byte list" where
  "encode_data (D_Fixed bs) = bs"
| "encode_data (D_Str bs) = nat_le 8 (length bs) @ bs"
| "encode_data (D_Arr t ds) =
     nat_le 4 (gguf_type_raw t) @ nat_le 8 (length ds) @ concat (map encode_data ds)"

fun fixed_width :: "gguf_type \<Rightarrow> nat option" where
  "fixed_width T_U8 = Some 1"
| "fixed_width T_I8 = Some 1"
| "fixed_width T_Bool = Some 1"
| "fixed_width T_U16 = Some 2"
| "fixed_width T_I16 = Some 2"
| "fixed_width T_U32 = Some 4"
| "fixed_width T_I32 = Some 4"
| "fixed_width T_F32 = Some 4"
| "fixed_width T_U64 = Some 8"
| "fixed_width T_I64 = Some 8"
| "fixed_width T_F64 = Some 8"
| "fixed_width T_String = None"
| "fixed_width T_Array = None"

fun wf_data :: "artifact_limits \<Rightarrow> gguf_type \<Rightarrow> nat \<Rightarrow> gguf_data \<Rightarrow> bool" where
  "wf_data L t depth (D_Fixed bs) \<longleftrightarrow> fixed_width t = Some (length bs)"
| "wf_data L t depth (D_Str bs) \<longleftrightarrow>
     t = T_String \<and> length bs \<le> al_max_metadata_string_bytes L \<and> length bs \<le> max64"
| "wf_data L t depth (D_Arr e ds) \<longleftrightarrow>
     t = T_Array \<and> depth < al_max_array_depth L \<and> length ds \<le> al_max_array_elements L \<and>
     length ds \<le> max64 \<and> (\<forall>d \<in> set ds. wf_data L e (depth + 1) d)"

fun data_depth :: "gguf_data \<Rightarrow> nat" where
  "data_depth (D_Fixed bs) = 0"
| "data_depth (D_Str bs) = 0"
| "data_depth (D_Arr e ds) = Suc (fold max (map data_depth ds) 0)"

lemma wf_data_nonempty: "wf_data L t depth d \<Longrightarrow> 1 \<le> length (encode_data d)"
  by (cases d; cases t) auto

section \<open>Loops\<close>

lemma read_times_iff:
  assumes body: "\<And>r x s. reads_with L R r \<Longrightarrow> gr_position r \<le> reader_bound r \<Longrightarrow>
      body r = Ok (x, s) \<longleftrightarrow> (\<exists>d. P x d \<and> consumes r (enc d) s)"
    and r: "reads_with L R r" and pos: "gr_position r \<le> reader_bound r"
  shows "read_times n body r = Ok (xs, s) \<longleftrightarrow>
    (\<exists>ds. list_all2 P xs ds \<and> length xs = n \<and> consumes r (concat (map enc ds)) s)"
  using r pos
proof (induction n arbitrary: r xs)
  case 0
  then show ?case by (auto simp: consumes_Nil)
next
  case (Suc n)
  show ?case
  proof
    assume "read_times (Suc n) body r = Ok (xs, s)"
    then obtain x m ys where x: "body r = Ok (x, m)" and ys: "read_times n body m = Ok (ys, s)"
      and xs: "xs = x # ys" by (auto simp: res_simps)
    from x body [OF Suc.prems] obtain d where d: "P x d" "consumes r (enc d) m" by blast
    then have "reads_with L R m" "gr_position m \<le> reader_bound m"
      using Suc.prems(1) consumesD [OF d(2)] by simp_all
    with Suc.IH ys obtain ds where "list_all2 P ys ds" "length ys = n"
      "consumes m (concat (map enc ds)) s" by blast
    with d xs show "\<exists>ds. list_all2 P xs ds \<and> length xs = Suc n \<and> consumes r (concat (map enc ds)) s"
      by (intro exI [of _ "d # ds"]) (auto simp: consumes_append)
  next
    assume "\<exists>ds. list_all2 P xs ds \<and> length xs = Suc n \<and> consumes r (concat (map enc ds)) s"
    then obtain x ys d ds m where xs: "xs = x # ys" "P x d" "list_all2 P ys ds" "length ys = n"
      and c: "consumes r (enc d) m" "consumes m (concat (map enc ds)) s"
      by (auto simp: length_Suc_conv list_all2_Cons1 consumes_append)
    have m: "reads_with L R m" "gr_position m \<le> reader_bound m"
      using Suc.prems(1) consumesD [OF c(1)] by simp_all
    have "body r = Ok (x, m)" using body [OF Suc.prems] xs(2) c(1) by blast
    moreover have "read_times n body m = Ok (ys, s)" using Suc.IH [OF m] xs c(2) by blast
    ultimately show "read_times (Suc n) body r = Ok (xs, s)" by (simp add: xs(1))
  qed
qed

lemma read_times_no_Panic: "(\<And>r. body r \<noteq> Panic) \<Longrightarrow> read_times n body r \<noteq> Panic"
  by (induction n arbitrary: r) (auto simp: res_simps)

section \<open>Strings and array headers\<close>

lemma read_len_iff:
  "(\<exists>w. consumes r (nat_le 8 (unat (w :: 64 word))) m \<and> Q (unat w)) \<longleftrightarrow>
    (\<exists>n. n \<le> max64 \<and> consumes r (nat_le 8 n) m \<and> Q n)"
proof
  assume "\<exists>w. consumes r (nat_le 8 (unat (w :: 64 word))) m \<and> Q (unat w)"
  then obtain w :: "64 word" where "consumes r (nat_le 8 (unat w)) m" "Q (unat w)" by blast
  moreover have "unat w \<le> max64"
    using unsigned_less [of w, where ?'a = nat] by (simp add: max64_def)
  ultimately show "\<exists>n. n \<le> max64 \<and> consumes r (nat_le 8 n) m \<and> Q n" by blast
next
  assume "\<exists>n. n \<le> max64 \<and> consumes r (nat_le 8 n) m \<and> Q n"
  then obtain n where n: "n \<le> max64" "consumes r (nat_le 8 n) m" "Q n" by blast
  then have "unat (word_of_nat n :: 64 word) = n" by (simp add: unat_of_nat max64_def)
  with n show "\<exists>w. consumes r (nat_le 8 (unat (w :: 64 word))) m \<and> Q (unat w)"
    by (intro exI [of _ "word_of_nat n"]) simp
qed

lemma try_reserve_exact_iff [simp]:
  "try_reserve_exact r field n = Ok u \<longleftrightarrow> gr_reserve r field n"
  "try_reserve_exact r field n \<noteq> Panic"
  by (simp_all add: try_reserve_exact_def)

lemma skip_string_iff:
  "skip_string field max_len r = Ok (u, s) \<longleftrightarrow>
    (\<exists>bs. length bs \<le> max_len \<and> length bs \<le> al_max_metadata_string_bytes (gr_limits r) \<and>
       length bs \<le> max64 \<and> consumes r (nat_le 8 (length bs) @ bs) s)"
proof -
  have r: "gr_limits m = gr_limits r" if "consumes r bs m" for bs m by (rule consumesD(2) [OF that])
  have "skip_string field max_len r = Ok (u, s) \<longleftrightarrow>
      (\<exists>w m. consumes r (nat_le 8 (unat (w :: 64 word))) m \<and>
        (unat w \<le> max_len \<and> unat w \<le> al_max_metadata_string_bytes (gr_limits r) \<and>
         (\<exists>bs. length bs = unat w \<and> consumes m bs s)))"
    by (simp add: skip_string_def res_simps Let_def read_word_iffs skip_bytes_iff not_less r
        cong: conj_cong)
  also have "\<dots> \<longleftrightarrow> (\<exists>m n. n \<le> max64 \<and> consumes r (nat_le 8 n) m \<and>
        (n \<le> max_len \<and> n \<le> al_max_metadata_string_bytes (gr_limits r) \<and>
         (\<exists>bs. length bs = n \<and> consumes m bs s)))"
    by (subst ex_comm) (subst read_len_iff, rule refl)
  finally show ?thesis unfolding consumes_append by blast
qed

lemma read_string_iff:
  "read_string field max_len r = Ok (x, s) \<longleftrightarrow>
    length x \<le> max_len \<and> length x \<le> al_max_metadata_string_bytes (gr_limits r) \<and>
    length x \<le> max64 \<and> gr_reserve r field (length x) \<and> valid_utf8 (bytes_of_text x) \<and>
    consumes r (nat_le 8 (length x) @ bytes_of_text x) s"
proof -
  have r: "gr_limits m = gr_limits r" "gr_reserve m = gr_reserve r" if "consumes r bs m" for bs m
    by (rule consumesD(2,3) [OF that])+
  have as_bytes: "x = text_of_bytes bs \<longleftrightarrow> bs = bytes_of_text x" for bs
    using bytes_of_text_of_bytes [of bs] text_of_bytes_of_text [of x] by metis
  have "read_string field max_len r = Ok (x, s) \<longleftrightarrow>
      (\<exists>w m. consumes r (nat_le 8 (unat (w :: 64 word))) m \<and>
        (unat w \<le> max_len \<and> unat w \<le> al_max_metadata_string_bytes (gr_limits r) \<and>
         gr_reserve r field (unat w) \<and>
         (\<exists>bs. length bs = unat w \<and> consumes m bs s \<and> valid_utf8 bs \<and> x = text_of_bytes bs)))"
    by (simp add: read_string_def res_simps Let_def read_word_iffs read_header_part_iff
        not_less try_reserve_exact_iff r cong: conj_cong) blast
  also have "\<dots> \<longleftrightarrow> (\<exists>m n. n \<le> max64 \<and> consumes r (nat_le 8 n) m \<and>
        (n \<le> max_len \<and> n \<le> al_max_metadata_string_bytes (gr_limits r) \<and> gr_reserve r field n \<and>
         (\<exists>bs. length bs = n \<and> consumes m bs s \<and> valid_utf8 bs \<and> x = text_of_bytes bs)))"
    by (subst ex_comm) (subst read_len_iff, rule refl)
  finally show ?thesis unfolding consumes_append as_bytes by auto
qed

lemma read_raw_type_iff:
  "(\<exists>w. consumes r (nat_le 4 (unat (w :: 32 word))) m \<and> unat w = gguf_type_raw t) \<longleftrightarrow>
    consumes r (nat_le 4 (gguf_type_raw t)) m"
proof -
  have "unat (word_of_nat (gguf_type_raw t) :: 32 word) = gguf_type_raw t"
    using gguf_type_raw_less [of t] by (simp add: unat_of_nat)
  then show ?thesis by metis
qed

lemma read_array_header_iff:
  "read_array_header L depth r = Ok ((t, n), s) \<longleftrightarrow>
    depth < al_max_array_depth L \<and> n \<le> al_max_array_elements L \<and> n \<le> max64 \<and>
    consumes r (nat_le 4 (gguf_type_raw t) @ nat_le 8 n) s"
proof -
  have "read_array_header L depth r = Ok ((t, n), s) \<longleftrightarrow>
      depth < al_max_array_depth L \<and>
      (\<exists>m. (\<exists>w. consumes r (nat_le 4 (unat (w :: 32 word))) m \<and> unat w = gguf_type_raw t) \<and>
        (\<exists>w. consumes m (nat_le 8 (unat (w :: 64 word))) s \<and>
          (n = unat w \<and> n \<le> al_max_array_elements L)))"
    by (auto simp: read_array_header_def res_simps Let_def read_word_iffs not_less not_le)
  also have "\<dots> \<longleftrightarrow> depth < al_max_array_depth L \<and>
      (\<exists>m. consumes r (nat_le 4 (gguf_type_raw t)) m \<and>
        (\<exists>k. k \<le> max64 \<and> consumes m (nat_le 8 k) s \<and> (n = k \<and> n \<le> al_max_array_elements L)))"
    unfolding read_raw_type_iff by (subst read_len_iff) (rule refl)
  finally show ?thesis unfolding consumes_append by blast
qed

text \<open>An array header followed by a loop over the elements.\<close>

lemma read_array_iff:
  assumes body: "\<And>h r' x s. read_array_header L depth r = Ok ((e, n), h) \<Longrightarrow>
      reads_with L R r' \<Longrightarrow> gr_position r' \<le> reader_bound r' \<Longrightarrow>
      body r' = Ok (x, s) \<longleftrightarrow> (\<exists>d. P x d \<and> consumes r' (encode_data d) s)"
    and r: "reads_with L R r"
  shows "(\<exists>m. read_array_header L depth r = Ok ((e, n), m) \<and> read_times n body m = Ok (xs, s)) \<longleftrightarrow>
    (\<exists>ds. depth < al_max_array_depth L \<and> n \<le> al_max_array_elements L \<and> n \<le> max64 \<and>
      length ds = n \<and> list_all2 P xs ds \<and> consumes r (encode_data (D_Arr e ds)) s)"
    (is "?lhs \<longleftrightarrow> ?rhs")
proof -
  let ?h = "nat_le 4 (gguf_type_raw e) @ nat_le 8 n"
  let ?bounds = "depth < al_max_array_depth L \<and> n \<le> al_max_array_elements L \<and> n \<le> max64"
  have m: "reads_with L R m" "gr_position m \<le> reader_bound m" if "consumes r ?h m" for m
    using r consumesD [OF that] by simp_all
  have times: "read_times n body m = Ok (xs, s) \<longleftrightarrow>
      (\<exists>ds. list_all2 P xs ds \<and> length xs = n \<and> consumes m (concat (map encode_data ds)) s)"
    if "?bounds" "consumes r ?h m" for m
  proof -
    from that have "read_array_header L depth r = Ok ((e, n), m)" by (simp add: read_array_header_iff)
    then show ?thesis by (rule read_times_iff [OF body m [OF that(2)]])
  qed
  have "?lhs \<longleftrightarrow> ?bounds \<and> (\<exists>m. consumes r ?h m \<and> read_times n body m = Ok (xs, s))"
    by (simp only: read_array_header_iff) blast
  also have "\<dots> \<longleftrightarrow> ?bounds \<and> (\<exists>m. consumes r ?h m \<and>
      (\<exists>ds. list_all2 P xs ds \<and> length xs = n \<and> consumes m (concat (map encode_data ds)) s))"
    using times by blast
  also have "\<dots> \<longleftrightarrow> ?bounds \<and> (\<exists>ds. list_all2 P xs ds \<and> length xs = n \<and>
      consumes r (?h @ concat (map encode_data ds)) s)"
    unfolding consumes_append [of r ?h] by blast
  also have "\<dots> \<longleftrightarrow> ?rhs"
    by (rule iffI; elim conjE exE; frule list_all2_lengthD; intro conjI exI; assumption?; simp)
  finally show ?thesis .
qed

section \<open>Skipping a value\<close>

lemma wf_data_fixed:
  "fixed_width t = Some n \<Longrightarrow> wf_data L t depth d \<longleftrightarrow> (\<exists>bs. d = D_Fixed bs \<and> length bs = n)"
  by (cases d) auto

lemma wf_data_String:
  "wf_data L T_String depth d \<longleftrightarrow>
    (\<exists>bs. d = D_Str bs \<and> length bs \<le> al_max_metadata_string_bytes L \<and> length bs \<le> max64)"
  by (cases d) auto

lemma wf_data_Array:
  "wf_data L T_Array depth d \<longleftrightarrow>
    (\<exists>e ds. d = D_Arr e ds \<and> depth < al_max_array_depth L \<and> length ds \<le> al_max_array_elements L \<and>
      length ds \<le> max64 \<and> (\<forall>d \<in> set ds. wf_data L e (depth + 1) d))"
  by (cases d) auto

lemma skip_fixed_iff:
  assumes "fixed_width t = Some n"
  shows "skip_bytes n r = Ok (u, s) \<longleftrightarrow> (\<exists>d. wf_data L t depth d \<and> consumes r (encode_data d) s)"
  by (auto simp: skip_bytes_iff wf_data_fixed [OF assms])

lemma list_all2_snd: "list_all2 (\<lambda>_. P) xs ds \<longleftrightarrow> length xs = length ds \<and> (\<forall>d \<in> set ds. P d)"
  by (auto simp: list_all2_conv_all_nth all_set_conv_all_nth)

lemma skip_metadata_value_iff:
  assumes "reads_with L R r" and "gr_position r \<le> reader_bound r"
  shows "skip_metadata_value L t depth r = Ok (u, s) \<longleftrightarrow>
    (\<exists>d. wf_data L t depth d \<and> consumes r (encode_data d) s)"
  using assms
proof (induction L t depth r arbitrary: u s rule: skip_metadata_value.induct)
  case (1 L depth r)
  have array: "(\<exists>m. read_array_header L depth r = Ok ((e, n), m) \<and>
        read_times n (skip_metadata_value L e (depth + 1)) m = Ok (us, s)) \<longleftrightarrow>
      (\<exists>ds. depth < al_max_array_depth L \<and> n \<le> al_max_array_elements L \<and> n \<le> max64 \<and>
        length ds = n \<and> list_all2 (\<lambda>_. wf_data L e (depth + 1)) us ds \<and>
        consumes r (encode_data (D_Arr e ds)) s)" for e n us
    by (rule read_array_iff [where R = R, OF 1(1) [OF _ refl refl] 1(2)])
  have "skip_metadata_value L T_Array depth r = Ok (u, s) \<longleftrightarrow>
      (\<exists>e n us m. read_array_header L depth r = Ok ((e, n), m) \<and>
        read_times n (skip_metadata_value L e (depth + 1)) m = Ok (us, s))"
    by (auto simp: res_simps)
  also have "\<dots> \<longleftrightarrow> (\<exists>e n (us :: unit list) ds. depth < al_max_array_depth L \<and> n \<le> al_max_array_elements L \<and>
      n \<le> max64 \<and> length ds = n \<and> list_all2 (\<lambda>_. wf_data L e (depth + 1)) us ds \<and>
      consumes r (encode_data (D_Arr e ds)) s)"
    by (simp only: array)
  also have "\<dots> \<longleftrightarrow> (\<exists>d. wf_data L T_Array depth d \<and> consumes r (encode_data d) s)"
    unfolding wf_data_Array list_all2_snd by (fastforce intro: exI [of _ "replicate _ ()"])
  finally show ?case .
next
  case (2 L depth r)
  then show ?case by (auto simp: skip_string_iff wf_data_String reads_with_def)
qed (simp_all add: skip_fixed_iff)

lemma skip_string_no_Panic [simp]: "skip_string f n r \<noteq> Panic"
  by (auto simp: skip_string_def res_simps Let_def)

lemma read_string_no_Panic [simp]: "read_string f n r \<noteq> Panic"
  by (auto simp: read_string_def res_simps Let_def)

lemma read_array_header_no_Panic [simp]: "read_array_header L depth r \<noteq> Panic"
  by (auto simp: read_array_header_def res_simps Let_def)

lemma skip_metadata_value_no_Panic [simp]: "skip_metadata_value L t depth r \<noteq> Panic"
proof (induction L t depth r rule: skip_metadata_value.induct)
  case (1 L depth r)
  have "read_times n (skip_metadata_value L e (depth + 1)) m \<noteq> Panic"
    if "read_array_header L depth r = Ok ((e, n), m)" for e n m
    using 1 [OF that refl refl] by (rule read_times_no_Panic)
  then show ?case by (auto simp: res_simps)
qed simp_all

section \<open>Reading a value\<close>

text \<open>What a tree denotes; \<open>None\<close> when the reader refuses it.\<close>

fun bool_of_data :: "gguf_data \<Rightarrow> bool option" where
  "bool_of_data (D_Fixed bs) =
     (if bs = [0] then Some False else if bs = [1] then Some True else None)"
| "bool_of_data _ = None"

fun word_of_data :: "gguf_data \<Rightarrow> ('a :: len) word option" where
  "word_of_data (D_Fixed bs) = Some (word_of_nat (le_nat bs))"
| "word_of_data _ = None"

fun string_of_data :: "(string \<Rightarrow> usize \<Rightarrow> bool) \<Rightarrow> string \<Rightarrow> gguf_data \<Rightarrow> string option" where
  "string_of_data R field (D_Str bs) =
     (if valid_utf8 bs \<and> R field (length bs) then Some (text_of_bytes bs) else None)"
| "string_of_data R field _ = None"

text \<open>The elements of an array that is read into a vector.\<close>

fun elements_of ::
    "(string \<Rightarrow> usize \<Rightarrow> bool) \<Rightarrow> string \<Rightarrow> gguf_type \<Rightarrow> (gguf_data \<Rightarrow> 'a option) \<Rightarrow>
      gguf_data \<Rightarrow> 'a list option" where
  "elements_of R field expected f (D_Arr e ds) =
     (if e = expected \<and> R field (length ds) then those (map f ds) else None)"
| "elements_of R field expected f _ = None"

definition array_value :: "(string \<Rightarrow> usize \<Rightarrow> bool) \<Rightarrow> gguf_data \<Rightarrow> gguf_value option" where
  "array_value R d =
     (case d of
        D_Arr e ds \<Rightarrow>
          if e = T_Bool
          then map_option V_BoolArray (elements_of R ''metadata bool array'' T_Bool bool_of_data d)
          else Some (V_Array e (length ds))
      | _ \<Rightarrow> None)"

definition value_of ::
    "(string \<Rightarrow> usize \<Rightarrow> bool) \<Rightarrow> gguf_type \<Rightarrow> gguf_data \<Rightarrow> gguf_value option" where
  "value_of R t d =
     (case t of
        T_U8 \<Rightarrow> map_option V_U8 (word_of_data d)
      | T_I8 \<Rightarrow> map_option V_I8 (word_of_data d)
      | T_U16 \<Rightarrow> map_option V_U16 (word_of_data d)
      | T_I16 \<Rightarrow> map_option V_I16 (word_of_data d)
      | T_U32 \<Rightarrow> map_option V_U32 (word_of_data d)
      | T_I32 \<Rightarrow> map_option V_I32 (word_of_data d)
      | T_F32 \<Rightarrow> map_option V_F32 (word_of_data d)
      | T_Bool \<Rightarrow> map_option V_Bool (bool_of_data d)
      | T_String \<Rightarrow> map_option V_String (string_of_data R ''metadata string'' d)
      | T_Array \<Rightarrow> array_value R d
      | T_U64 \<Rightarrow> map_option V_U64 (word_of_data d)
      | T_I64 \<Rightarrow> map_option V_I64 (word_of_data d)
      | T_F64 \<Rightarrow> map_option V_F64 (word_of_data d))"

lemma those_Some_iff: "those ys = Some xs \<longleftrightarrow> ys = map Some xs"
  by (induction ys arbitrary: xs) (auto split: option.splits)

lemma those_map_Some_iff:
  "those (map f ds) = Some xs \<longleftrightarrow> list_all2 (\<lambda>x d. f d = Some x) xs ds"
proof -
  have "those (map f ds) = Some xs \<longleftrightarrow> list_all2 (=) (map Some xs) (map f ds)"
    by (auto simp: those_Some_iff list.rel_eq)
  also have "\<dots> \<longleftrightarrow> list_all2 (\<lambda>x d. f d = Some x) xs ds"
    by (simp add: list.rel_map eq_commute [of "Some _"])
  finally show ?thesis .
qed

lemma returning_Ok_iff [simp]:
  "returning f m = Ok (v, s) \<longleftrightarrow> (\<exists>x. m = Ok (x, s) \<and> v = f x)"
  by (auto simp: returning_def res_simps)

lemma returning_no_Panic [simp]: "returning f m = Panic \<longleftrightarrow> m = Panic"
  by (auto simp: returning_def res_simps)

text \<open>The elements of vectors, per kind: a body that reads what \<open>f\<close> sees in a tree.\<close>

lemma word_body:
  assumes "fixed_width t = Some n"
  shows "and_then (read_header_part n r) (\<lambda>(buf, r'). Ok (word_of_nat (le_nat buf), r')) = Ok (w, s) \<longleftrightarrow>
    (\<exists>d. (wf_data L t depth d \<and> word_of_data d = Some w) \<and> consumes r (encode_data d) s)"
  by (auto simp: res_simps read_header_part_iff wf_data_fixed [OF assms])

lemma bool_of_data_iff: "bool_of_data d = Some b \<longleftrightarrow> d = D_Fixed [if b then 1 else 0]"
  by (cases d) auto

lemma bool_body:
  "read_bool r = Ok (b, s) \<longleftrightarrow>
    (\<exists>d. (wf_data L T_Bool depth d \<and> bool_of_data d = Some b) \<and> consumes r (encode_data d) s)"
  unfolding read_bool_iff bool_of_data_iff by auto

lemma string_of_data_iff:
  "string_of_data R field d = Some x \<longleftrightarrow>
    d = D_Str (bytes_of_text x) \<and> valid_utf8 (bytes_of_text x) \<and> R field (length x)"
proof (cases d)
  case (D_Str bs)
  have "x = text_of_bytes bs \<longleftrightarrow> bs = bytes_of_text x"
    using bytes_of_text_of_bytes [of bs] text_of_bytes_of_text [of x] by metis
  then show ?thesis using D_Str by auto
qed auto

lemma string_body:
  assumes "reads_with L R r"
  shows "read_string field (al_max_metadata_string_bytes L) r = Ok (x, s) \<longleftrightarrow>
    (\<exists>d. (wf_data L T_String depth d \<and> string_of_data R field d = Some x) \<and>
      consumes r (encode_data d) s)"
  unfolding string_of_data_iff using assms by (auto simp: read_string_iff reads_with_def)

lemma read_word_bodies:
  "read_u8 r = Ok (a, s) \<longleftrightarrow> (\<exists>d. (wf_data L T_U8 n d \<and> word_of_data d = Some a) \<and> consumes r (encode_data d) s)"
  "read_i8 r = Ok (a, s) \<longleftrightarrow> (\<exists>d. (wf_data L T_I8 n d \<and> word_of_data d = Some a) \<and> consumes r (encode_data d) s)"
  "read_u16 r = Ok (b, s) \<longleftrightarrow> (\<exists>d. (wf_data L T_U16 n d \<and> word_of_data d = Some b) \<and> consumes r (encode_data d) s)"
  "read_i16 r = Ok (b, s) \<longleftrightarrow> (\<exists>d. (wf_data L T_I16 n d \<and> word_of_data d = Some b) \<and> consumes r (encode_data d) s)"
  "read_u32 r = Ok (c, s) \<longleftrightarrow> (\<exists>d. (wf_data L T_U32 n d \<and> word_of_data d = Some c) \<and> consumes r (encode_data d) s)"
  "read_i32 r = Ok (c, s) \<longleftrightarrow> (\<exists>d. (wf_data L T_I32 n d \<and> word_of_data d = Some c) \<and> consumes r (encode_data d) s)"
  "read_f32 r = Ok (c, s) \<longleftrightarrow> (\<exists>d. (wf_data L T_F32 n d \<and> word_of_data d = Some c) \<and> consumes r (encode_data d) s)"
  "read_u64 r = Ok (e, s) \<longleftrightarrow> (\<exists>d. (wf_data L T_U64 n d \<and> word_of_data d = Some e) \<and> consumes r (encode_data d) s)"
  "read_i64 r = Ok (e, s) \<longleftrightarrow> (\<exists>d. (wf_data L T_I64 n d \<and> word_of_data d = Some e) \<and> consumes r (encode_data d) s)"
  "read_f64 r = Ok (e, s) \<longleftrightarrow> (\<exists>d. (wf_data L T_F64 n d \<and> word_of_data d = Some e) \<and> consumes r (encode_data d) s)"
  unfolding read_i8_def read_u8_def read_u16_def read_i16_def read_u32_def read_i32_def
    read_f32_def read_u64_def read_i64_def read_f64_def
  by (rule word_body, simp)+

lemma elements_of_iff:
  "elements_of R field e f d = Some xs \<longleftrightarrow>
    (\<exists>ds. d = D_Arr e ds \<and> R field (length ds) \<and> those (map f ds) = Some xs)"
  by (cases d) auto

lemma read_elements_iff:
  assumes body: "\<And>r x s. reads_with L R r \<Longrightarrow>
      body r = Ok (x, s) \<longleftrightarrow>
      (\<exists>d. (wf_data L e (depth + 1) d \<and> f d = Some x) \<and> consumes r (encode_data d) s)"
    and r: "reads_with L R r"
  shows "(\<exists>n m. read_array_header L depth r = Ok ((e, n), m) \<and> R field n \<and>
      read_times n body m = Ok (xs, s)) \<longleftrightarrow>
    (\<exists>d. (wf_data L T_Array depth d \<and> elements_of R field e f d = Some xs) \<and>
      consumes r (encode_data d) s)" (is "?lhs \<longleftrightarrow> ?rhs")
proof -
  have those: "those (map f ds) = Some xs \<and> (\<forall>d \<in> set ds. wf_data L e (depth + 1) d) \<longleftrightarrow>
      list_all2 (\<lambda>x d. wf_data L e (depth + 1) d \<and> f d = Some x) xs ds" for ds
    unfolding those_map_Some_iff by (auto simp: list_all2_conv_all_nth all_set_conv_all_nth)
  have "?lhs \<longleftrightarrow> (\<exists>n. R field n \<and> (\<exists>m. read_array_header L depth r = Ok ((e, n), m) \<and>
      read_times n body m = Ok (xs, s)))" by blast
  also have "\<dots> \<longleftrightarrow> (\<exists>n. R field n \<and> (\<exists>ds. depth < al_max_array_depth L \<and>
      n \<le> al_max_array_elements L \<and> n \<le> max64 \<and> length ds = n \<and>
      list_all2 (\<lambda>x d. wf_data L e (depth + 1) d \<and> f d = Some x) xs ds \<and>
      consumes r (encode_data (D_Arr e ds)) s))"
    by (subst read_array_iff [where R = R, OF body r]) auto
  also have "\<dots> \<longleftrightarrow> (\<exists>ds. wf_data L T_Array depth (D_Arr e ds) \<and> R field (length ds) \<and>
      those (map f ds) = Some xs \<and> consumes r (encode_data (D_Arr e ds)) s)"
    unfolding those [symmetric] wf_data.simps by blast
  also have "\<dots> \<longleftrightarrow> ?rhs" unfolding elements_of_iff by blast
  finally show ?thesis .
qed

lemma array_value_iff:
  "array_value R d = Some v \<longleftrightarrow>
    (\<exists>bs. v = V_BoolArray bs \<and>
      elements_of R ''metadata bool array'' T_Bool bool_of_data d = Some bs) \<or>
    (\<exists>e ds. e \<noteq> T_Bool \<and> d = D_Arr e ds \<and> v = V_Array e (length ds))"
proof (cases d)
  case (D_Arr e ds)
  then show ?thesis by (cases "e = T_Bool") (auto simp: array_value_def)
qed (auto simp: array_value_def)

lemma read_metadata_array_iff:
  assumes r: "reads_with L R r"
  shows "read_metadata_value L T_Array depth r = Ok (v, s) \<longleftrightarrow>
    (\<exists>d. (wf_data L T_Array depth d \<and> array_value R d = Some v) \<and> consumes r (encode_data d) s)"
proof -
  have keep: "gr_reserve m = R" if "read_array_header L depth r = Ok (h, m)" for h m
    using that r consumesD(3) by (cases h) (auto simp: read_array_header_iff reads_with_def)
  have "read_metadata_value L T_Array depth r = Ok (v, s) \<longleftrightarrow>
      (\<exists>n m bs. read_array_header L depth r = Ok ((T_Bool, n), m) \<and>
         R ''metadata bool array'' n \<and> read_times n read_bool m = Ok (bs, s) \<and> v = V_BoolArray bs) \<or>
      (\<exists>e n m us. e \<noteq> T_Bool \<and> v = V_Array e n \<and> read_array_header L depth r = Ok ((e, n), m) \<and>
         read_times n (skip_metadata_value L e (depth + 1)) m = Ok (us, s))"
    (is "_ \<longleftrightarrow> ?bools \<or> ?other")
  proof -
    have max: "n \<le> max64" if "read_array_header L depth r = Ok ((e, n), m)" for e n m
      using that by (simp add: read_array_header_iff)
    show ?thesis
      by (auto simp: read_metadata_value_def res_simps array_len_to_usize_def keep max
          split: if_split_asm dest: max keep intro: max)
  qed
  also have "?bools \<longleftrightarrow> (\<exists>bs d. v = V_BoolArray bs \<and> wf_data L T_Array depth d \<and>
      elements_of R ''metadata bool array'' T_Bool bool_of_data d = Some bs \<and>
      consumes r (encode_data d) s)"
    using read_elements_iff [where e = T_Bool and field = "''metadata bool array''" and s = s and
        depth = depth, OF bool_body r]
    by blast
  also have "?other \<longleftrightarrow> (\<exists>e ds. e \<noteq> T_Bool \<and> v = V_Array e (length ds) \<and>
      wf_data L T_Array depth (D_Arr e ds) \<and> consumes r (encode_data (D_Arr e ds)) s)"
  proof -
    have "?other \<longleftrightarrow> (\<exists>e n us. e \<noteq> T_Bool \<and> v = V_Array e n \<and>
       (\<exists>m. read_array_header L depth r = Ok ((e, n), m) \<and>
         read_times n (skip_metadata_value L e (depth + 1)) m = Ok (us, s)))" by blast
    also have "\<dots> \<longleftrightarrow> (\<exists>e n (us :: unit list) ds. e \<noteq> T_Bool \<and> v = V_Array e n \<and>
        depth < al_max_array_depth L \<and> n \<le> al_max_array_elements L \<and> n \<le> max64 \<and>
        length ds = n \<and> list_all2 (\<lambda>_. wf_data L e (depth + 1)) us ds \<and>
        consumes r (encode_data (D_Arr e ds)) s)"
      by (subst read_array_iff [where R = R, OF skip_metadata_value_iff r]) (assumption+, blast)
    also have "\<dots> \<longleftrightarrow> (\<exists>e ds. e \<noteq> T_Bool \<and> v = V_Array e (length ds) \<and>
      wf_data L T_Array depth (D_Arr e ds) \<and> consumes r (encode_data (D_Arr e ds)) s)"
    proof -
      have "\<exists>us :: unit list. length us = n" for n by (rule exI [of _ "replicate n ()"]) simp
      then show ?thesis unfolding list_all2_snd wf_data.simps by blast
    qed
    finally show ?thesis .
  qed
  also have "(\<exists>bs d. v = V_BoolArray bs \<and> wf_data L T_Array depth d \<and>
      elements_of R ''metadata bool array'' T_Bool bool_of_data d = Some bs \<and>
      consumes r (encode_data d) s) \<or>
    (\<exists>e ds. e \<noteq> T_Bool \<and> v = V_Array e (length ds) \<and>
      wf_data L T_Array depth (D_Arr e ds) \<and> consumes r (encode_data (D_Arr e ds)) s) \<longleftrightarrow>
    (\<exists>d. (wf_data L T_Array depth d \<and> array_value R d = Some v) \<and> consumes r (encode_data d) s)"
    unfolding array_value_iff by blast
  finally show ?thesis .
qed

lemma read_metadata_value_iff:
  assumes r: "reads_with L R r"
  shows "read_metadata_value L t depth r = Ok (v, s) \<longleftrightarrow>
    (\<exists>d. wf_data L t depth d \<and> value_of R t d = Some v \<and> consumes r (encode_data d) s)"
proof (cases "t = T_Array")
  case True
  then show ?thesis using read_metadata_array_iff [OF r] by (auto simp: value_of_def)
next
  case False
  then show ?thesis
    using read_word_bodies [where r = r and s = s and L = L and n = depth]
      bool_body [of r _ s L depth] string_body [OF r, of "''metadata string''" _ s depth]
    by (cases t) (auto simp: read_metadata_value_def value_of_def)
qed

lemma expect_array_iff:
  "expect_array_element_type L t key e r = Ok (n, m) \<longleftrightarrow>
    t = T_Array \<and> read_array_header L 0 r = Ok ((e, n), m)"
  by (auto simp: expect_array_element_type_def res_simps)

lemma read_vector_iff:
  assumes body: "\<And>r x s. reads_with L R r \<Longrightarrow>
      body r = Ok (x, s) \<longleftrightarrow>
      (\<exists>d. (wf_data L e 1 d \<and> f d = Some x) \<and> consumes r (encode_data d) s)"
    and r: "reads_with L R r"
  shows "and_then (expect_array_element_type L t key e r) (\<lambda>(len, r).
      and_then (array_len_to_usize key len) (\<lambda>len_usize.
      and_then (try_reserve_exact r key len_usize) (\<lambda>_. read_times len body r))) = Ok (xs, s) \<longleftrightarrow>
    (\<exists>d. wf_data L t 0 d \<and> t = T_Array \<and> elements_of R key e f d = Some xs \<and>
      consumes r (encode_data d) s)"
proof -
  have keep: "gr_reserve m = R" "n \<le> max64" if "read_array_header L 0 r = Ok ((e, n), m)" for e n m
    using that r consumesD(3) by (auto simp: read_array_header_iff reads_with_def)
  have "and_then (expect_array_element_type L t key e r) (\<lambda>(len, r).
      and_then (array_len_to_usize key len) (\<lambda>len_usize.
      and_then (try_reserve_exact r key len_usize) (\<lambda>_. read_times len body r))) = Ok (xs, s) \<longleftrightarrow>
    t = T_Array \<and> (\<exists>n m. read_array_header L 0 r = Ok ((e, n), m) \<and> R key n \<and>
      read_times n body m = Ok (xs, s))"
    by (auto simp: res_simps expect_array_iff array_len_to_usize_def dest: keep)
  then show ?thesis
    using read_elements_iff [where depth = 0 and field = key and s = s and xs = xs, OF _ r] body
    by auto
qed

lemma read_metadata_array_iffs:
  assumes "reads_with L R r"
  shows "read_metadata_string_array L t key r = Ok (ss, s) \<longleftrightarrow>
      (\<exists>d. wf_data L t 0 d \<and> t = T_Array \<and>
        elements_of R key T_String (string_of_data R key) d = Some ss \<and> consumes r (encode_data d) s)"
    and "read_metadata_f32_array L t key r = Ok (fs, s) \<longleftrightarrow>
      (\<exists>d. wf_data L t 0 d \<and> t = T_Array \<and>
        elements_of R key T_F32 word_of_data d = Some fs \<and> consumes r (encode_data d) s)"
    and "read_metadata_i32_array L t key r = Ok (is, s) \<longleftrightarrow>
      (\<exists>d. wf_data L t 0 d \<and> t = T_Array \<and>
        elements_of R key T_I32 word_of_data d = Some is \<and> consumes r (encode_data d) s)"
  unfolding read_metadata_string_array_def read_metadata_f32_array_def read_metadata_i32_array_def
  by (rule read_vector_iff [OF string_body assms] read_vector_iff [OF read_word_bodies(7) assms]
      read_vector_iff [OF read_word_bodies(6) assms]; assumption)+

lemma read_times_no_Panic' [simp]:
  "read_times n read_bool r \<noteq> Panic" "read_times n read_f32 r \<noteq> Panic"
  "read_times n read_i32 r \<noteq> Panic" "read_times n (skip_metadata_value L t depth) r \<noteq> Panic"
  "read_times n (read_string field k) r \<noteq> Panic"
  by (simp_all add: read_times_no_Panic)

lemma read_metadata_value_no_Panic [simp]: "read_metadata_value L t depth r \<noteq> Panic"
  by (cases t) (auto simp: read_metadata_value_def res_simps array_len_to_usize_def)

lemma read_metadata_array_no_Panic [simp]:
  "read_metadata_string_array L t key r \<noteq> Panic" "read_metadata_f32_array L t key r \<noteq> Panic"
  "read_metadata_i32_array L t key r \<noteq> Panic"
  by (auto simp: read_metadata_string_array_def read_metadata_f32_array_def
      read_metadata_i32_array_def expect_array_element_type_def res_simps array_len_to_usize_def)

end
