(* ===== verification/Gguf_Document.thy ===== *)
theory Gguf_Document imports Gguf_Inspect
begin

text \<open>
  GGUF documents: metadata entries and tensor declarations with their encoding to bytes. The
  lemmas show that the loops of \<open>inspect_gguf_with_limits\<close> read exactly the encodings of
  well-formed entries and declarations; the theorems put them together.
\<close>

section \<open>Metadata entries\<close>

type_synonym gguf_entry = "string \<times> gguf_type \<times> gguf_data"

fun encode_entry :: "gguf_entry \<Rightarrow> byte list" where
  "encode_entry (key, t, d) =
     nat_le 8 (length key) @ bytes_of_text key @ nat_le 4 (gguf_type_raw t) @ encode_data d"

definition name_ok ::
    "artifact_limits \<Rightarrow> (string \<Rightarrow> usize \<Rightarrow> bool) \<Rightarrow> string \<Rightarrow> u64 \<Rightarrow> string \<Rightarrow> bool" where
  "name_ok L R field max_len x \<longleftrightarrow>
     length x \<le> max_len \<and> length x \<le> al_max_metadata_string_bytes L \<and> length x \<le> max64 \<and>
     R field (length x) \<and> valid_utf8 (bytes_of_text x)"

fun entry_ok ::
    "artifact_limits \<Rightarrow> (string \<Rightarrow> usize \<Rightarrow> bool) \<Rightarrow> gguf_metadata_entry \<Rightarrow> gguf_entry \<Rightarrow> bool" where
  "entry_ok L R e (key, t, d) \<longleftrightarrow>
     name_ok L R ''metadata key'' (al_max_key_bytes L) key \<and> wf_data L t 0 d \<and>
     gme_key e = key \<and> value_of R t d = Some (gme_value e)"

lemma read_name_iff:
  assumes "reads_with L R r"
  shows "read_string field max_len r = Ok (x, s) \<longleftrightarrow>
    name_ok L R field max_len x \<and> consumes r (nat_le 8 (length x) @ bytes_of_text x) s"
  using assms by (auto simp: read_string_iff name_ok_def reads_with_def)

lemma consumes_reads:
  "consumes r bs s \<Longrightarrow> reads_with L R r \<Longrightarrow> reads_with L R s"
  using consumesD(7) by blast

lemma consumes_appendI: "consumes r a m \<Longrightarrow> consumes m b s \<Longrightarrow> consumes r (a @ b) s"
  by (auto simp: consumes_append)

text \<open>Numbers of a fixed width, read as natural numbers.\<close>

lemma read_u32D:
  "read_u32 r = Ok (w, m) \<Longrightarrow> consumes r (nat_le 4 (unat w)) m \<and> unat w < 2 ^ 32"
  using unsigned_less [of w, where ?'a = nat] by (simp add: read_word_iffs)

lemma read_u64D:
  "read_u64 r = Ok (w, m) \<Longrightarrow> consumes r (nat_le 8 (unat w)) m \<and> unat w \<le> max64"
  using unsigned_less [of w, where ?'a = nat] by (simp add: read_word_iffs max64_def)

lemma read_u32I:
  assumes "consumes r (nat_le 4 n) m" and "n < 2 ^ 32"
  shows "\<exists>w. read_u32 r = Ok (w, m) \<and> unat w = n"
proof -
  have "unat (word_of_nat n :: 32 word) = n" using assms(2) by (simp add: unat_of_nat)
  with assms(1) show ?thesis
    by (intro exI [of _ "word_of_nat n"]) (simp add: read_word_iffs)
qed

lemma read_u64I:
  assumes "consumes r (nat_le 8 n) m" and "n \<le> max64"
  shows "\<exists>w. read_u64 r = Ok (w, m) \<and> unat w = n"
proof -
  have "unat (word_of_nat n :: 64 word) = n" using assms(2) by (simp add: unat_of_nat max64_def)
  with assms(1) show ?thesis
    by (intro exI [of _ "word_of_nat n"]) (simp add: read_word_iffs)
qed

definition encode_head :: "string \<Rightarrow> gguf_type \<Rightarrow> byte list" where
  "encode_head key t =
     nat_le 8 (length key) @ bytes_of_text key @ nat_le 4 (gguf_type_raw t)"

lemma encode_entry_head: "encode_entry (key, t, d) = encode_head key t @ encode_data d"
  by (simp add: encode_head_def)

lemma read_entry_head_iff:
  assumes r: "reads_with L R r"
  shows "read_entry_head L r = Ok ((key, t), s) \<longleftrightarrow>
    name_ok L R ''metadata key'' (al_max_key_bytes L) key \<and> consumes r (encode_head key t) s"
proof
  assume "read_entry_head L r = Ok ((key, t), s)"
  then obtain m w where
    a: "read_string ''metadata key'' (al_max_key_bytes L) r = Ok (key, m)"
    and b: "read_u32 m = Ok (w, s)" "unat w = gguf_type_raw t"
    by (auto simp: read_entry_head_def res_simps)
  from a have key: "name_ok L R ''metadata key'' (al_max_key_bytes L) key"
    "consumes r (nat_le 8 (length key) @ bytes_of_text key) m"
    by (simp_all add: read_name_iff [OF r])
  have m: "consumes m (nat_le 4 (gguf_type_raw t)) s" using read_u32D [OF b(1)] b(2) by simp
  show "name_ok L R ''metadata key'' (al_max_key_bytes L) key \<and> consumes r (encode_head key t) s"
    using key(1) consumes_appendI [OF key(2) m] by (simp add: encode_head_def)
next
  assume ok: "name_ok L R ''metadata key'' (al_max_key_bytes L) key \<and>
    consumes r (encode_head key t) s"
  then have "consumes r ((nat_le 8 (length key) @ bytes_of_text key) @ nat_le 4 (gguf_type_raw t)) s"
    by (simp add: encode_head_def)
  then obtain m where c: "consumes r (nat_le 8 (length key) @ bytes_of_text key) m"
    "consumes m (nat_le 4 (gguf_type_raw t)) s"
    unfolding consumes_append [of r "nat_le 8 (length key) @ bytes_of_text key"] by blast
  have "read_string ''metadata key'' (al_max_key_bytes L) r = Ok (key, m)"
    using ok c(1) by (simp add: read_name_iff [OF r])
  moreover obtain w where "read_u32 m = Ok (w, s)" "unat w = gguf_type_raw t"
    using read_u32I [OF c(2)] gguf_type_raw_less [of t] by auto
  ultimately show "read_entry_head L r = Ok ((key, t), s)" by (simp add: read_entry_head_def)
qed

lemma read_metadata_entry_iff:
  assumes r: "reads_with L R r"
  shows "read_metadata_entry L r = Ok (e, s) \<longleftrightarrow>
    (\<exists>x. entry_ok L R e x \<and> consumes r (encode_entry x) s)"
proof
  assume "read_metadata_entry L r = Ok (e, s)"
  then obtain key t m v where h: "read_entry_head L r = Ok ((key, t), m)"
    and c: "read_metadata_value L t 0 m = Ok (v, s)" and e: "e = \<lparr>gme_key = key, gme_value = v\<rparr>"
    by (auto simp: read_metadata_entry_def res_simps)
  have key: "name_ok L R ''metadata key'' (al_max_key_bytes L) key" "consumes r (encode_head key t) m"
    using h by (simp_all add: read_entry_head_iff [OF r])
  from c read_metadata_value_iff [OF consumes_reads [OF key(2) r]] obtain d where
    d: "wf_data L t 0 d" "value_of R t d = Some v" "consumes m (encode_data d) s" by blast
  have "consumes r (encode_entry (key, t, d)) s"
    unfolding encode_entry_head by (rule consumes_appendI [OF key(2) d(3)])
  moreover have "entry_ok L R e (key, t, d)" using key(1) d e by simp
  ultimately show "\<exists>x. entry_ok L R e x \<and> consumes r (encode_entry x) s" by blast
next
  assume "\<exists>x. entry_ok L R e x \<and> consumes r (encode_entry x) s"
  then obtain key t d m where ok: "entry_ok L R e (key, t, d)"
    and c: "consumes r (encode_head key t) m" "consumes m (encode_data d) s"
    unfolding consumes_append [symmetric] by (metis encode_entry_head prod_cases3 consumes_append)
  have "read_entry_head L r = Ok ((key, t), m)" using ok c(1) by (simp add: read_entry_head_iff [OF r])
  moreover have "read_metadata_value L t 0 m = Ok (gme_value e, s)"
    using read_metadata_value_iff [OF consumes_reads [OF c(1) r]] ok c(2) by auto
  ultimately show "read_metadata_entry L r = Ok (e, s)"
    using ok by (simp add: read_metadata_entry_def)
qed

lemma length_encode_entry:
  assumes "entry_ok L R e x"
  shows "min_metadata_entry_bytes \<le> length (encode_entry x)"
proof -
  obtain k t d where x: "x = (k, t, d)" by (cases x)
  with assms have "1 \<le> length (encode_data d)" using wf_data_nonempty by auto
  then show ?thesis by (simp add: x min_metadata_entry_bytes_def)
qed

section \<open>Tensor declarations\<close>

record gguf_decl =
  gd_name :: string
  gd_dims :: "nat list"
  gd_type :: nat
  gd_offset :: nat

definition encode_decl :: "gguf_decl \<Rightarrow> byte list" where
  "encode_decl td =
     nat_le 8 (length (gd_name td)) @ bytes_of_text (gd_name td) @ nat_le 4 (length (gd_dims td)) @
     concat (map (nat_le 8) (gd_dims td)) @ nat_le 4 (gd_type td) @ nat_le 8 (gd_offset td)"

definition decl_ok ::
    "artifact_limits \<Rightarrow> (string \<Rightarrow> usize \<Rightarrow> bool) \<Rightarrow> u64 \<Rightarrow> gguf_tensor_entry \<Rightarrow> gguf_decl \<Rightarrow> bool" where
  "decl_ok L R alignment e td \<longleftrightarrow>
     name_ok L R ''tensor name'' (al_max_tensor_name_bytes L) (gd_name td) \<and>
     0 < length (gd_dims td) \<and> length (gd_dims td) \<le> al_max_tensor_dimensions L \<and>
     length (gd_dims td) < 2 ^ 32 \<and> R (gd_name td) (length (gd_dims td)) \<and>
     (\<forall>n \<in> set (gd_dims td). 0 < n) \<and> prod_list (gd_dims td) \<le> max64 \<and>
     gd_type td < 2 ^ 32 \<and> gd_offset td \<le> max64 \<and> gd_offset td mod alignment = 0 \<and>
     gte_name e = gd_name td \<and> gte_shape e = gd_dims td \<and>
     gte_tensor_type e = ggml_type_from_raw (gd_type td) \<and> gte_offset e = gd_offset td \<and>
     gte_file_offset e = 0 \<and>
     byte_len_for_shape (gte_tensor_type e) (gd_dims td) (prod_list (gd_dims td)) (gd_name td) =
       Ok (gte_byte_len e)"

lemma prod_list_pos: "\<forall>n \<in> set ns. 0 < n \<Longrightarrow> 0 < (prod_list ns :: nat)"
  by (induction ns) auto

lemma read_dims_iff:
  assumes "0 < acc" and "gr_position r \<le> reader_bound r" and "acc \<le> max64"
  shows "read_dims name n acc r = Ok ((ds, p), s) \<longleftrightarrow>
    length ds = n \<and> (\<forall>d \<in> set ds. 0 < d) \<and> p = acc * prod_list ds \<and> p \<le> max64 \<and>
    consumes r (concat (map (nat_le 8) ds)) s"
  using assms
proof (induction n arbitrary: acc r ds)
  case 0
  then show ?case by (auto simp: consumes_Nil)
next
  case (Suc n)
  have step: "read_dims name n (acc * d) m = Ok ((ds', p), s) \<longleftrightarrow>
      length ds' = n \<and> (\<forall>d \<in> set ds'. 0 < d) \<and> p = acc * d * prod_list ds' \<and> p \<le> max64 \<and>
      consumes m (concat (map (nat_le 8) ds')) s"
    if "0 < d" "acc * d \<le> max64" "consumes r (nat_le 8 d) m" for d m ds'
    using that Suc.prems consumesD(5,6) [OF that(3)] by (intro Suc.IH) auto
  show ?case
  proof
    assume "read_dims name (Suc n) acc r = Ok ((ds, p), s)"
    then obtain w m ds' where w: "read_u64 r = Ok (w, m)" "0 < unat w" "acc * unat w \<le> max64"
      and rest: "read_dims name n (acc * unat w) m = Ok ((ds', p), s)" and ds: "ds = unat w # ds'"
      by (auto simp: res_simps Let_def count_to_usize_def)
    have c: "consumes r (nat_le 8 (unat w)) m" using read_u64D [OF w(1)] by blast
    from rest step [OF w(2,3) c] ds c w(2) show "length ds = Suc n \<and> (\<forall>d \<in> set ds. 0 < d) \<and>
        p = acc * prod_list ds \<and> p \<le> max64 \<and> consumes r (concat (map (nat_le 8) ds)) s"
      by (auto simp: mult.assoc consumes_append)
  next
    assume "length ds = Suc n \<and> (\<forall>d \<in> set ds. 0 < d) \<and> p = acc * prod_list ds \<and> p \<le> max64 \<and>
      consumes r (concat (map (nat_le 8) ds)) s"
    then obtain d ds' m where ds: "ds = d # ds'" "length ds' = n" "0 < d" "\<forall>d \<in> set ds'. 0 < d"
      "p = acc * d * prod_list ds'" "p \<le> max64"
      and c: "consumes r (nat_le 8 d) m" "consumes m (concat (map (nat_le 8) ds')) s"
      by (auto simp: length_Suc_conv mult.assoc consumes_append)
    have "acc * d * 1 \<le> p" unfolding ds(5)
      using prod_list_pos [OF ds(4)] by (intro mult_le_mono) auto
    then have le: "acc * d \<le> max64" using ds(6) by linarith
    moreover have "1 * d \<le> acc * d" using Suc.prems by (intro mult_le_mono) auto
    ultimately have "d \<le> max64" by linarith
    then obtain w where "read_u64 r = Ok (w, m)" "unat w = d" using read_u64I [OF c(1)] by blast
    moreover have "read_dims name n (acc * d) m = Ok ((ds', p), s)"
      using step [OF ds(3) le c(1)] ds c(2) by blast
    ultimately show "read_dims name (Suc n) acc r = Ok ((ds, p), s)"
      using ds(1,3) le \<open>d \<le> max64\<close> by (simp add: count_to_usize_def checked_mul_def)
  qed
qed

lemma read_tensor_entry_iff:
  assumes r: "reads_with L R r"
  shows "read_tensor_entry L a r = Ok (e, s) \<longleftrightarrow>
    (\<exists>td. decl_ok L R a e td \<and> consumes r (encode_decl td) s)"
proof
  assume "read_tensor_entry L a r = Ok (e, s)"
  then obtain name m w m2 ds p m3 w' m4 w'' bl where
    a: "read_string ''tensor name'' (al_max_tensor_name_bytes L) r = Ok (name, m)"
    and b: "read_u32 m = Ok (w, m2)" "0 < unat w" "unat w \<le> al_max_tensor_dimensions L"
      "gr_reserve m2 name (unat w)"
    and c: "read_dims name (unat w) 1 m2 = Ok ((ds, p), m3)"
    and d: "read_u32 m3 = Ok (w', m4)" "read_u64 m4 = Ok (w'', s)" "unat w'' mod a = 0"
    and e: "byte_len_for_shape (ggml_type_from_raw (unat w')) ds p name = Ok bl"
      "e = \<lparr>gte_name = name, gte_shape = ds, gte_tensor_type = ggml_type_from_raw (unat w'),
        gte_offset = unat w'', gte_file_offset = 0, gte_byte_len = bl\<rparr>"
    by (auto simp: read_tensor_entry_def res_simps Let_def count_to_usize_def)
  have name: "name_ok L R ''tensor name'' (al_max_tensor_name_bytes L) name"
    "consumes r (nat_le 8 (length name) @ bytes_of_text name) m"
    using a by (simp_all add: read_name_iff [OF r])
  have c1: "consumes m (nat_le 4 (unat w)) m2" "unat w < 2 ^ 32" using read_u32D [OF b(1)] by simp_all
  have "gr_position m2 \<le> reader_bound m2" using consumesD(5,6) [OF c1(1)] by simp
  from c read_dims_iff [OF _ this, of 1] have ds: "length ds = unat w" "\<forall>d \<in> set ds. 0 < d"
    "p = prod_list ds" "p \<le> max64" "consumes m2 (concat (map (nat_le 8) ds)) m3"
    by simp_all
  have c2: "consumes m3 (nat_le 4 (unat w')) m4" "unat w' < 2 ^ 32"
    and c3: "consumes m4 (nat_le 8 (unat w'')) s" "unat w'' \<le> max64"
    using read_u32D [OF d(1)] read_u64D [OF d(2)] by simp_all
  define td where "td = \<lparr>gd_name = name, gd_dims = ds, gd_type = unat w', gd_offset = unat w''\<rparr>"
  have "gr_reserve m2 = R"
    using consumes_reads [OF c1(1) consumes_reads [OF name(2) r]] by (simp add: reads_with_def)
  then have "decl_ok L R a e td"
    using name(1) b ds c1(2) c2(2) c3(2) d(3) e by (simp add: decl_ok_def td_def)
  moreover have "consumes r (encode_decl td) s"
    using consumes_appendI [OF name(2) consumes_appendI [OF c1(1) consumes_appendI [OF ds(5)
      consumes_appendI [OF c2(1) c3(1)]]]] ds(1)
    by (simp add: encode_decl_def td_def)
  ultimately show "\<exists>td. decl_ok L R a e td \<and> consumes r (encode_decl td) s" by blast
next
  assume "\<exists>td. decl_ok L R a e td \<and> consumes r (encode_decl td) s"
  then obtain td where ok: "decl_ok L R a e td"
    and "consumes r ((nat_le 8 (length (gd_name td)) @ bytes_of_text (gd_name td)) @
      nat_le 4 (length (gd_dims td)) @ concat (map (nat_le 8) (gd_dims td)) @
      nat_le 4 (gd_type td) @ nat_le 8 (gd_offset td)) s"
    by (auto simp: encode_decl_def)
  then obtain m m2 m3 m4 where
    c: "consumes r (nat_le 8 (length (gd_name td)) @ bytes_of_text (gd_name td)) m"
      "consumes m (nat_le 4 (length (gd_dims td))) m2"
      "consumes m2 (concat (map (nat_le 8) (gd_dims td))) m3"
      "consumes m3 (nat_le 4 (gd_type td)) m4" "consumes m4 (nat_le 8 (gd_offset td)) s"
    unfolding consumes_append [of r "nat_le 8 (length (gd_name td)) @ bytes_of_text (gd_name td)"]
      consumes_append [of _ "nat_le 4 (length (gd_dims td))"] consumes_append [of _ "concat _"]
      consumes_append [of _ "nat_le 4 (gd_type td)"] by blast
  have a: "read_string ''tensor name'' (al_max_tensor_name_bytes L) r = Ok (gd_name td, m)"
    using ok c(1) by (simp add: read_name_iff [OF r] decl_ok_def)
  obtain w where w: "read_u32 m = Ok (w, m2)" "unat w = length (gd_dims td)"
    using read_u32I [OF c(2)] ok by (auto simp: decl_ok_def)
  have "gr_position m2 \<le> reader_bound m2" using consumesD(5,6) [OF c(2)] by simp
  then have dims: "read_dims (gd_name td) (length (gd_dims td)) 1 m2 =
      Ok ((gd_dims td, prod_list (gd_dims td)), m3)"
    using read_dims_iff [of 1 m2] ok c(3) by (simp add: decl_ok_def)
  obtain w' where w': "read_u32 m3 = Ok (w', m4)" "unat w' = gd_type td"
    using read_u32I [OF c(4)] ok by (auto simp: decl_ok_def)
  obtain w'' where w'': "read_u64 m4 = Ok (w'', s)" "unat w'' = gd_offset td"
    using read_u64I [OF c(5)] ok by (auto simp: decl_ok_def)
  have res: "gr_reserve m2 = R"
    using consumes_reads [OF c(2) consumes_reads [OF c(1) r]] by (simp add: reads_with_def)
  have count: "count_to_usize name (length (gd_dims td)) = Ok (length (gd_dims td))" for name
    using ok by (simp add: count_to_usize_def decl_ok_def max64_def)
  from a w dims w' w'' count show "read_tensor_entry L a r = Ok (e, s)"
    using ok by (cases e) (simp add: read_tensor_entry_def decl_ok_def Let_def
      try_reserve_exact_def res)
qed

lemma length_encode_decl:
  assumes "decl_ok L R a e td"
  shows "min_tensor_descriptor_bytes \<le> length (encode_decl td)"
proof -
  have "length (concat (map (nat_le 8) ds)) = 8 * length ds" for ds by (induction ds) auto
  moreover have "1 \<le> length (gd_dims td)"
    using assms by (cases "gd_dims td") (simp_all add: decl_ok_def)
  ultimately show ?thesis by (simp add: encode_decl_def min_tensor_descriptor_bytes_def)
qed

section \<open>Whole documents\<close>

definition encode_preamble :: "nat \<Rightarrow> nat \<Rightarrow> byte list" where
  "encode_preamble tensor_count metadata_count =
     gguf_magic @ nat_le 4 supported_gguf_version @ nat_le 8 tensor_count @ nat_le 8 metadata_count"

definition encode_doc :: "gguf_entry list \<Rightarrow> gguf_decl list \<Rightarrow> byte list" where
  "encode_doc entries decls =
     encode_preamble (length decls) (length entries) @
     concat (map encode_entry entries) @ concat (map encode_decl decls)"

definition align_up :: "nat \<Rightarrow> nat \<Rightarrow> nat" where
  "align_up n a = (if n mod a = 0 then n else n + (a - n mod a))"

definition tensor_ok ::
    "artifact_limits \<Rightarrow> (string \<Rightarrow> usize \<Rightarrow> bool) \<Rightarrow> gguf_manifest \<Rightarrow> gguf_tensor_entry \<Rightarrow>
      gguf_decl \<Rightarrow> bool" where
  "tensor_ok L R man t td \<longleftrightarrow>
     decl_ok L R (gm_alignment man) (t\<lparr>gte_file_offset := 0\<rparr>) td \<and>
     gte_file_offset t = gm_data_start man + gte_offset t \<and>
     gte_file_offset t + (case gte_byte_len t of None \<Rightarrow> 0 | Some n \<Rightarrow> n) \<le> gm_file_len man"

text \<open>The documents that pass every ceiling, with the manifest that describes them.\<close>

definition doc_ok ::
    "artifact_limits \<Rightarrow> (string \<Rightarrow> usize \<Rightarrow> bool) \<Rightarrow> gguf_entry list \<Rightarrow> gguf_decl list \<Rightarrow>
      gguf_manifest \<Rightarrow> bool" where
  "doc_ok L R entries decls man \<longleftrightarrow>
     consistent_artifact_limits L \<and>
     length decls \<le> al_max_tensors L \<and> length entries \<le> al_max_metadata_entries L \<and>
     R ''metadata_kv_count'' (length entries) \<and> R ''tensor_count'' (length decls) \<and>
     list_all2 (entry_ok L R) (gm_metadata man) entries \<and>
     alignment_from_metadata (gm_metadata man) = Ok (gm_alignment man) \<and>
     gm_version man = supported_gguf_version \<and>
     gm_data_start man = align_up (length (encode_doc entries decls)) (gm_alignment man) \<and>
     gm_data_start man \<le> al_max_header_bytes L \<and> gm_data_start man \<le> gm_file_len man \<and>
     gm_file_len man \<le> al_max_file_bytes L \<and>
     list_all2 (tensor_ok L R man) (gm_tensors man) decls"

lemma length_gguf_magic [simp]: "length gguf_magic = 4"
  by (simp add: gguf_magic_def)

lemma read_preamble_iff:
  "read_preamble r = Ok ((tc, mc), s) \<longleftrightarrow>
    tc \<le> max64 \<and> mc \<le> max64 \<and> consumes r (encode_preamble tc mc) s"
proof
  assume "read_preamble r = Ok ((tc, mc), s)"
  then obtain m w m2 t m3 c where a: "read_header_part 4 r = Ok (gguf_magic, m)"
    and b: "read_u32 m = Ok (w, m2)" "unat w = supported_gguf_version"
    and c: "read_u64 m2 = Ok (t, m3)" "read_u64 m3 = Ok (c, s)" "tc = unat t" "mc = unat c"
    by (auto simp: read_preamble_def res_simps split: if_split_asm)
  show "tc \<le> max64 \<and> mc \<le> max64 \<and> consumes r (encode_preamble tc mc) s"
    using read_header_part_iff [of 4 r gguf_magic m] a read_u32D [OF b(1)] b(2)
      read_u64D [OF c(1)] read_u64D [OF c(2)] c(3,4)
    unfolding encode_preamble_def by (metis consumes_appendI)
next
  assume "tc \<le> max64 \<and> mc \<le> max64 \<and> consumes r (encode_preamble tc mc) s"
  then obtain m m2 m3 where le: "tc \<le> max64" "mc \<le> max64" and c: "consumes r gguf_magic m"
    "consumes m (nat_le 4 supported_gguf_version) m2" "consumes m2 (nat_le 8 tc) m3"
    "consumes m3 (nat_le 8 mc) s"
    unfolding encode_preamble_def consumes_append by blast
  obtain w where "read_u32 m = Ok (w, m2)" "unat w = supported_gguf_version"
    using read_u32I [OF c(2)] by (auto simp: supported_gguf_version_def)
  moreover obtain t where "read_u64 m2 = Ok (t, m3)" "unat t = tc" using read_u64I [OF c(3) le(1)] by blast
  moreover obtain u where "read_u64 m3 = Ok (u, s)" "unat u = mc" using read_u64I [OF c(4) le(2)] by blast
  moreover have "read_header_part 4 r = Ok (gguf_magic, m)" using c(1) by (simp add: read_header_part_iff)
  ultimately show "read_preamble r = Ok ((tc, mc), s)" by (simp add: read_preamble_def)
qed

lemma read_preamble_no_Panic [simp]: "read_preamble r \<noteq> Panic"
  by (auto simp: read_preamble_def res_simps)

lemma length_concat_ge:
  "list_all2 P xs ds \<Longrightarrow> (\<And>x d. P x d \<Longrightarrow> k \<le> length (enc d)) \<Longrightarrow>
    k * length ds \<le> length (concat (map enc ds))"
  by (induction xs ds rule: list_all2_induct) (auto simp: add_mono)

text \<open>
  The early check of the declared counts never rejects what would parse: entries and
  descriptors of the declared number that are there take at least the bytes it asks for.
\<close>

lemma declared_counts_fit:
  assumes "list_all2 (entry_ok L R) es entries" and "list_all2 (decl_ok L R a) ts decls"
    and "consumes r (concat (map encode_entry entries) @ concat (map encode_decl decls)) s"
  shows "validate_declared_counts_fit_remaining r (length decls) (length entries) = Ok ()"
proof -
  let ?m = "length entries * min_metadata_entry_bytes" and ?t = "length decls * min_tensor_descriptor_bytes"
  have "?m \<le> length (concat (map encode_entry entries))" "?t \<le> length (concat (map encode_decl decls))"
    using length_concat_ge [OF assms(1) length_encode_entry] length_concat_ge [OF assms(2) length_encode_decl]
    by (simp_all add: mult.commute)
  then have fit: "gr_position r + (?m + ?t) \<le> reader_bound r"
    using consumesD(4,5,6) [OF assms(3)] by simp
  then have "?m + ?t \<le> max64" "?m + ?t \<le> remaining_bounded_header_bytes r"
    by (auto simp: reader_bound_def remaining_bounded_header_bytes_def)
  then show ?thesis
    by (simp add: validate_declared_counts_fit_remaining_def checked_mul_def checked_add_def)
qed

lemma align_offset_iff:
  "align_offset n a = Ok m \<longleftrightarrow> m = align_up n a \<and> (n mod a = 0 \<or> m \<le> max64)"
  by (auto simp: align_offset_def align_up_def Let_def)

lemma place_tensor_iff:
  assumes "fl \<le> max64"
  shows "place_tensor ds fl t = Ok t' \<longleftrightarrow>
    t' = t\<lparr>gte_file_offset := ds + gte_offset t\<rparr> \<and>
    ds + gte_offset t + (case gte_byte_len t of None \<Rightarrow> 0 | Some n \<Rightarrow> n) \<le> fl"
  using assms by (auto simp: place_tensor_def res_simps split: option.splits)

lemma place_tensor_no_Panic [simp]: "place_tensor ds fl t \<noteq> Panic"
  by (auto simp: place_tensor_def res_simps split: option.splits)

lemma place_tensors_iff:
  assumes "gm_file_len man \<le> max64"
  shows "(\<exists>ts. list_all2 (decl_ok L R (gm_alignment man)) ts decls \<and>
      try_map (place_tensor (gm_data_start man) (gm_file_len man)) ts = Ok ts') \<longleftrightarrow>
    list_all2 (tensor_ok L R man) ts' decls"
proof
  assume "\<exists>ts. list_all2 (decl_ok L R (gm_alignment man)) ts decls \<and>
      try_map (place_tensor (gm_data_start man) (gm_file_len man)) ts = Ok ts'"
  then obtain ts where ts: "list_all2 (decl_ok L R (gm_alignment man)) ts decls"
    "list_all2 (\<lambda>x y. place_tensor (gm_data_start man) (gm_file_len man) x = Ok y) ts ts'"
    by (auto simp: try_map_Ok_iff)
  have "tensor_ok L R man t' d" if "decl_ok L R (gm_alignment man) t d"
    "place_tensor (gm_data_start man) (gm_file_len man) t = Ok t'" for t t' d
  proof -
    have "t'\<lparr>gte_file_offset := 0\<rparr> = t" if "t' = t\<lparr>gte_file_offset := n\<rparr>" for n
      using that \<open>decl_ok L R (gm_alignment man) t d\<close> by (cases t) (simp add: decl_ok_def)
    with that show ?thesis by (auto simp: tensor_ok_def place_tensor_iff [OF assms])
  qed
  with ts show "list_all2 (tensor_ok L R man) ts' decls"
    by (auto simp: list_all2_conv_all_nth)
next
  assume ok: "list_all2 (tensor_ok L R man) ts' decls"
  let ?ts = "map (\<lambda>t. t\<lparr>gte_file_offset := 0\<rparr>) ts'"
  have "list_all2 (decl_ok L R (gm_alignment man)) ?ts decls"
    using ok by (auto simp: list_all2_conv_all_nth tensor_ok_def)
  moreover have "place_tensor (gm_data_start man) (gm_file_len man) (t\<lparr>gte_file_offset := 0\<rparr>) = Ok t"
    if "tensor_ok L R man t d" for t d
    using that by (cases t) (simp add: place_tensor_iff [OF assms] tensor_ok_def)
  then have "try_map (place_tensor (gm_data_start man) (gm_file_len man)) ?ts = Ok ts'"
    using ok by (auto simp: try_map_Ok_iff list_all2_conv_all_nth)
  ultimately show "\<exists>ts. list_all2 (decl_ok L R (gm_alignment man)) ts decls \<and>
      try_map (place_tensor (gm_data_start man) (gm_file_len man)) ts = Ok ts'" by blast
qed

section \<open>What is accepted\<close>

lemma read_entries_iff:
  assumes "reads_with L R r" and "gr_position r \<le> reader_bound r"
  shows "read_times n (read_metadata_entry L) r = Ok (es, s) \<longleftrightarrow>
    (\<exists>ds. list_all2 (entry_ok L R) es ds \<and> length es = n \<and>
      consumes r (concat (map encode_entry ds)) s)"
  using assms by (intro read_times_iff [where L = L and R = R]) (auto simp: read_metadata_entry_iff)

lemma read_decls_iff:
  assumes "reads_with L R r" and "gr_position r \<le> reader_bound r"
  shows "read_times n (read_tensor_entry L a) r = Ok (ts, s) \<longleftrightarrow>
    (\<exists>ds. list_all2 (decl_ok L R a) ts ds \<and> length ts = n \<and>
      consumes r (concat (map encode_decl ds)) s)"
  using assms by (intro read_times_iff [where L = L and R = R]) (auto simp: read_tensor_entry_iff)

lemma alignment_Ok: "alignment_from_metadata es = Ok a \<Longrightarrow> 0 < a \<and> a mod 8 = 0"
  by (auto simp: alignment_from_metadata_def res_simps)

lemma alignment_no_Panic [simp]: "alignment_from_metadata es \<noteq> Panic"
  by (auto simp: alignment_from_metadata_def res_simps split: option.splits gguf_value.splits)

lemma align_up_ge: "n \<le> align_up n a"
  by (simp add: align_up_def)

lemma consumes_start:
  assumes "gr_position r = 0"
  shows "consumes r bs s \<longleftrightarrow> s = r\<lparr>gr_position := length bs\<rparr> \<and> length bs \<le> reader_bound r \<and>
    (\<exists>rest. gr_file r = bs @ rest)"
proof -
  have "take (length bs) (gr_file r) = bs \<longleftrightarrow> (\<exists>rest. gr_file r = bs @ rest)"
    by (metis append_eq_conv_conj)
  with assms show ?thesis by (auto simp: consumes_def)
qed

lemma inspect_gguf_Ok:
  assumes ok: "inspect_gguf_with_limits R (Some bytes) L = Ok man" and len: "length bytes \<le> max64"
  shows "gm_file_len man = length bytes \<and>
    (\<exists>entries decls rest. bytes = encode_doc entries decls @ rest \<and> doc_ok L R entries decls man)"
proof -
  define r0 where "r0 = \<lparr>gr_file = bytes, gr_position = 0, gr_limits = L, gr_reserve = R\<rparr>"
  from ok obtain tc mc r1 es r2 a ts r3 start ts' where
    limits: "consistent_artifact_limits L" "length bytes \<le> al_max_file_bytes L"
    and pre: "read_preamble r0 = Ok ((tc, mc), r1)"
    and counts: "tc \<le> al_max_tensors L" "mc \<le> al_max_metadata_entries L"
    and res: "gr_reserve r1 ''metadata_kv_count'' mc" "gr_reserve r2 ''tensor_count'' tc"
    and es: "read_times mc (read_metadata_entry L) r1 = Ok (es, r2)"
    and a: "alignment_from_metadata es = Ok a"
    and ts: "read_times tc (read_tensor_entry L a) r2 = Ok (ts, r3)"
    and start: "align_offset (gr_position r3) a = Ok start"
      "start \<le> al_max_header_bytes L" "start \<le> length bytes"
    and place: "try_map (place_tensor start (length bytes)) ts = Ok ts'"
    and man: "man = \<lparr>gm_version = supported_gguf_version, gm_metadata = es, gm_tensors = ts',
      gm_alignment = a, gm_data_start = start, gm_file_len = length bytes\<rparr>"
    unfolding inspect_gguf_with_limits_def r0_def
    by (auto simp: res_simps Let_def count_to_usize_def)
  have r0: "reads_with L R r0" "gr_position r0 = 0" by (simp_all add: r0_def reads_with_def)
  have c1: "consumes r0 (encode_preamble tc mc) r1" using pre by (simp add: read_preamble_iff)
  have r1: "reads_with L R r1" "gr_position r1 \<le> reader_bound r1"
    using consumesD [OF c1] r0 by simp_all
  from es read_entries_iff [OF r1] obtain entries where
    entries: "list_all2 (entry_ok L R) es entries" "length es = mc"
    and c2: "consumes r1 (concat (map encode_entry entries)) r2" by blast
  have r2: "reads_with L R r2" "gr_position r2 \<le> reader_bound r2"
    using consumesD [OF c2] r1 by simp_all
  from ts read_decls_iff [OF r2] obtain decls where
    decls: "list_all2 (decl_ok L R a) ts decls" "length ts = tc"
    and c3: "consumes r2 (concat (map encode_decl decls)) r3" by blast
  have n: "length entries = mc" "length decls = tc"
    using entries decls by (auto dest: list_all2_lengthD)
  have c: "consumes r0 (encode_doc entries decls) r3"
    using consumes_appendI [OF c1 consumes_appendI [OF c2 c3]] by (simp add: encode_doc_def n)
  then obtain rest where "bytes = encode_doc entries decls @ rest"
    and pos: "gr_position r3 = length (encode_doc entries decls)"
    using consumes_start [OF r0(2)] by (auto simp: r0_def)
  moreover have "list_all2 (tensor_ok L R man) ts' decls"
    using place_tensors_iff [of man L R decls ts'] decls(1) place len by (auto simp: man)
  then have "doc_ok L R entries decls man"
    using limits counts res entries(1) a start pos r1(1) r2(1) n
    by (simp add: doc_ok_def man reads_with_def align_offset_iff)
  ultimately show ?thesis by (auto simp: man)
qed

lemma inspect_gguf_accepts:
  assumes b: "bytes = encode_doc entries decls @ rest" and ok: "doc_ok L R entries decls man"
    and fl: "gm_file_len man = length bytes" and len: "length bytes \<le> max64"
  shows "inspect_gguf_with_limits R (Some bytes) L = Ok man"
proof -
  define r0 where "r0 = \<lparr>gr_file = bytes, gr_position = 0, gr_limits = L, gr_reserve = R\<rparr>"
  let ?n = "length (encode_doc entries decls)" and ?a = "gm_alignment man"
  define r3 where "r3 = r0\<lparr>gr_position := ?n\<rparr>"
  have r0: "reads_with L R r0" "gr_position r0 = 0" by (simp_all add: r0_def reads_with_def)
  have start: "gm_data_start man = align_up ?n ?a" "gm_data_start man \<le> al_max_header_bytes L"
    "gm_data_start man \<le> length bytes"
    using ok fl by (simp_all add: doc_ok_def)
  have "?n \<le> gm_data_start man" unfolding start(1) by (rule align_up_ge)
  then have "?n \<le> reader_bound r0" using start len by (simp add: reader_bound_def r0_def)
  then have "consumes r0 (encode_doc entries decls) r3"
    using consumes_start [OF r0(2)] b by (auto simp: r0_def r3_def)
  then obtain r1 r2 where
    c1: "consumes r0 (encode_preamble (length decls) (length entries)) r1"
    and c2: "consumes r1 (concat (map encode_entry entries)) r2"
    and c3: "consumes r2 (concat (map encode_decl decls)) r3"
    unfolding encode_doc_def consumes_append by blast
  have r1: "reads_with L R r1" "gr_position r1 \<le> reader_bound r1"
    using consumesD [OF c1] r0 by simp_all
  have r2: "reads_with L R r2" "gr_position r2 \<le> reader_bound r2"
    using consumesD [OF c2] r1 by simp_all
  have es: "list_all2 (entry_ok L R) (gm_metadata man) entries"
    and placed: "list_all2 (tensor_ok L R man) (gm_tensors man) decls"
    using ok by (simp_all add: doc_ok_def)
  from placed place_tensors_iff [of man L R decls "gm_tensors man"] fl len obtain ts where
    ts: "list_all2 (decl_ok L R ?a) ts decls"
    and place: "try_map (place_tensor (gm_data_start man) (length bytes)) ts = Ok (gm_tensors man)"
    by auto
  have fit: "validate_declared_counts_fit_remaining r1 (length decls) (length entries) = Ok ()"
    using declared_counts_fit [OF es ts consumes_appendI [OF c2 c3]] .
  have "length (gm_metadata man) = length entries" "length ts = length decls"
    using es ts by (simp_all add: list_all2_lengthD)
  then have
    times: "read_times (length entries) (read_metadata_entry L) r1 = Ok (gm_metadata man, r2)"
      "read_times (length decls) (read_tensor_entry L ?a) r2 = Ok (ts, r3)"
    using read_entries_iff [OF r1] es c2
      read_decls_iff [OF r2] ts c3 by blast+
  have "length entries * min_metadata_entry_bytes + length decls * min_tensor_descriptor_bytes \<le> max64"
    using fit by (auto simp: validate_declared_counts_fit_remaining_def res_simps)
  then have counts: "length entries \<le> max64" "length decls \<le> max64"
    by (auto simp: min_metadata_entry_bytes_def min_tensor_descriptor_bytes_def)
  have pre: "read_preamble r0 = Ok ((length decls, length entries), r1)"
    using c1 counts by (simp add: read_preamble_iff)
  have al: "align_offset (gr_position r3) ?a = Ok (gm_data_start man)"
    using start len by (simp add: align_offset_iff r3_def)
  have R: "gr_reserve r1 = R" "gr_reserve r2 = R" using r1 r2 by (simp_all add: reads_with_def)
  have "inspect_gguf_with_limits R (Some bytes) L =
      Ok \<lparr>gm_version = supported_gguf_version, gm_metadata = gm_metadata man,
        gm_tensors = gm_tensors man, gm_alignment = ?a, gm_data_start = gm_data_start man,
        gm_file_len = length bytes\<rparr>"
  proof -
    have "artifact_limits_validate L = Ok ()" "validate_file_bytes L (length bytes) = Ok ()"
      "validate_gguf_counts L (length decls) (length entries) = Ok ()"
      "alignment_from_metadata (gm_metadata man) = Ok ?a"
      "try_reserve_exact r1 ''metadata_kv_count'' (length entries) = Ok ()"
      "try_reserve_exact r2 ''tensor_count'' (length decls) = Ok ()"
      using ok fl R by (simp_all add: doc_ok_def)
    moreover have "count_to_usize f (length entries) = Ok (length entries)"
      "count_to_usize f (length decls) = Ok (length decls)" for f
      using counts by (simp_all add: count_to_usize_def)
    ultimately show ?thesis
      unfolding inspect_gguf_with_limits_def option.case Let_def r0_def [symmetric]
      using pre fit times al place start(2,3)
      by (simp only: and_then.simps prod.case if_False not_less [symmetric] refl simp_thms)
  qed
  then show ?thesis using ok fl by (cases man) (simp add: doc_ok_def)
qed

lemma read_times_body_no_Panic [simp]:
  "read_times n (read_metadata_entry L) r \<noteq> Panic" "read_times n (read_tensor_entry L a) r \<noteq> Panic"
proof -
  have dims: "read_dims name n acc r \<noteq> Panic" for name n acc r
    by (induction n arbitrary: acc r) (auto simp: res_simps Let_def count_to_usize_def)
  have "read_metadata_entry L r \<noteq> Panic" for r
    by (auto simp: read_metadata_entry_def read_entry_head_def res_simps)
  then show "read_times n (read_metadata_entry L) r \<noteq> Panic" by (rule read_times_no_Panic)
  have "read_tensor_entry L a r \<noteq> Panic" for r
    using dims by (auto simp: read_tensor_entry_def res_simps Let_def count_to_usize_def)
  then show "read_times n (read_tensor_entry L a) r \<noteq> Panic" by (rule read_times_no_Panic)
qed

lemma inspect_gguf_no_Panic: "inspect_gguf_with_limits R file L \<noteq> Panic"
proof -
  have "align_offset n a \<noteq> Panic" "count_to_usize f n \<noteq> Panic"
    "validate_declared_counts_fit_remaining r n m \<noteq> Panic"
    "try_map (place_tensor s n') ts \<noteq> Panic" for n a f m r s n' ts
    by (auto simp: align_offset_def Let_def count_to_usize_def res_simps
        validate_declared_counts_fit_remaining_def try_map_no_Panic)
  then show ?thesis
    by (auto simp: inspect_gguf_with_limits_def Let_def res_simps split: option.splits)
qed

text \<open>
  C5. Header inspection of a GGUF file accepts exactly the files that start with the
  encoding of a document within every ceiling (names, text, nesting, counts, reservations),
  with a valid alignment, a data section within the header ceiling and the file, and every
  tensor's payload within the file; the manifest is the document's. No file and no limits
  make it panic.
\<close>

theorem inspect_gguf_exact:
  assumes "length bytes \<le> max64"
  shows "(inspect_gguf_with_limits R (Some bytes) L = Ok man \<longleftrightarrow>
      gm_file_len man = length bytes \<and>
      (\<exists>entries decls rest. bytes = encode_doc entries decls @ rest \<and> doc_ok L R entries decls man))
    \<and> inspect_gguf_with_limits R file L \<noteq> Panic"
  using inspect_gguf_Ok [OF _ assms] inspect_gguf_accepts [OF _ _ _ assms] inspect_gguf_no_Panic
  by blast

text \<open>The length of a payload the loader can check, from the type and the shape.\<close>

definition payload_len :: "ggml_type \<Rightarrow> usize list \<Rightarrow> nat option" where
  "payload_len ty shape =
     (case fixed_element_size ty of
        Some k \<Rightarrow> Some (prod_list shape * k)
      | None \<Rightarrow>
          (case quant_layout ty of
             Some q \<Rightarrow> Some (prod_list shape div block_element_count q * block_byte_len q)
           | None \<Rightarrow> None))"

definition tensor_in_bounds :: "artifact_limits \<Rightarrow> gguf_manifest \<Rightarrow> gguf_tensor_entry \<Rightarrow> bool" where
  "tensor_in_bounds L man t \<longleftrightarrow>
     list_all (\<lambda>d. 0 < d) (gte_shape t) \<and> gte_shape t \<noteq> [] \<and>
     length (gte_shape t) \<le> al_max_tensor_dimensions L \<and> prod_list (gte_shape t) \<le> max64 \<and>
     length (gte_name t) \<le> al_max_tensor_name_bytes L \<and>
     gte_offset t mod gm_alignment man = 0 \<and>
     gte_file_offset t = gm_data_start man + gte_offset t \<and>
     gte_byte_len t = payload_len (gte_tensor_type t) (gte_shape t) \<and>
     gte_file_offset t + (case gte_byte_len t of None \<Rightarrow> 0 | Some n \<Rightarrow> n) \<le> gm_file_len man"

lemma byte_len_payload:
  "byte_len_for_shape ty shape (prod_list shape) name = Ok bl \<Longrightarrow> bl = payload_len ty shape"
  by (auto simp: byte_len_for_shape_def payload_len_def res_simps split: option.splits)

lemma align_up_multiple: "0 < a \<Longrightarrow> align_up n a mod a = 0"
proof (cases "n mod a = 0")
  case False
  assume "0 < a"
  have "n + (a - n mod a) = (n div a) * a + a"
    using \<open>0 < a\<close> div_mult_mod_eq [of n a] mod_less_divisor [OF \<open>0 < a\<close>, of n] by linarith
  then show ?thesis using False by (simp add: align_up_def)
qed (simp add: align_up_def)

lemma tensor_ok_bounds: "tensor_ok L R man t td \<Longrightarrow> tensor_in_bounds L man t"
  by (auto simp: tensor_ok_def decl_ok_def name_ok_def tensor_in_bounds_def list_all_iff
      dest: byte_len_payload)

text \<open>
  C12. Every accepted manifest is safe to load from: the data section starts at a multiple
  of the alignment within the header ceiling and the file, every tensor has positive
  dimensions whose product fits in 64 bits, an aligned offset, the payload length its type
  and shape determine, and a payload that ends within the file.
\<close>

theorem inspect_gguf_bounds:
  assumes "inspect_gguf_with_limits R (Some bytes) L = Ok man" and "length bytes \<le> max64"
  shows "gm_data_start man mod gm_alignment man = 0 \<and> gm_alignment man mod 8 = 0 \<and>
    0 < gm_alignment man \<and> gm_data_start man \<le> al_max_header_bytes L \<and>
    gm_data_start man \<le> length bytes \<and> gm_file_len man = length bytes \<and>
    length bytes \<le> al_max_file_bytes L \<and>
    length (gm_metadata man) \<le> al_max_metadata_entries L \<and>
    length (gm_tensors man) \<le> al_max_tensors L \<and>
    list_all (tensor_in_bounds L man) (gm_tensors man)"
proof -
  from inspect_gguf_Ok [OF assms] obtain entries decls where
    fl: "gm_file_len man = length bytes" and ok: "doc_ok L R entries decls man" by blast
  have a: "0 < gm_alignment man" "gm_alignment man mod 8 = 0"
    using ok alignment_Ok [of "gm_metadata man"] by (simp_all add: doc_ok_def)
  have "list_all2 (tensor_ok L R man) (gm_tensors man) decls" using ok by (simp add: doc_ok_def)
  then have "list_all (tensor_in_bounds L man) (gm_tensors man)"
    and "length (gm_tensors man) = length decls"
    by (auto simp: list_all2_conv_all_nth list_all_length dest: tensor_ok_bounds)
  moreover have "length (gm_metadata man) = length entries"
    using ok by (auto simp: doc_ok_def dest: list_all2_lengthD)
  ultimately show ?thesis using ok fl a align_up_multiple [OF a(1)] by (simp add: doc_ok_def)
qed

section \<open>A small artifact\<close>

definition example_entries :: "gguf_entry list" where
  "example_entries =
     [(''n'', T_U32, D_Fixed [5, 0, 0, 0]), (''b'', T_Array, D_Arr T_Bool [D_Fixed [1], D_Fixed [0]])]"

definition example_decls :: "gguf_decl list" where
  "example_decls = [\<lparr>gd_name = ''w'', gd_dims = [2], gd_type = 0, gd_offset = 0\<rparr>]"

definition example_gguf :: "byte list" where
  "example_gguf = encode_doc example_entries example_decls @ replicate 35 0"

definition example_manifest :: gguf_manifest where
  "example_manifest =
     \<lparr>gm_version = 3,
      gm_metadata = [\<lparr>gme_key = ''n'', gme_value = V_U32 5\<rparr>,
        \<lparr>gme_key = ''b'', gme_value = V_BoolArray [True, False]\<rparr>],
      gm_tensors = [\<lparr>gte_name = ''w'', gte_shape = [2], gte_tensor_type = Ty_F32, gte_offset = 0,
        gte_file_offset = 128, gte_byte_len = Some 8\<rparr>],
      gm_alignment = 32, gm_data_start = 128, gm_file_len = 136\<rparr>"

lemma length_example_doc: "length (encode_doc example_entries example_decls) = 101"
  by (simp add: encode_doc_def encode_preamble_def example_entries_def example_decls_def
      encode_decl_def)

lemma example_doc_ok:
  "doc_ok default_artifact_limits (\<lambda>_ _. True) example_entries example_decls example_manifest"
proof -
  have utf8: "valid_utf8 (bytes_of_text [c])" if "of_char c \<le> (127 :: nat)" for c
    using that by (intro valid_utf8_ascii) (simp add: bytes_of_text_def word_le_nat_alt unat_of_nat)
  have "list_all2 (entry_ok default_artifact_limits (\<lambda>_ _. True)) (gm_metadata example_manifest)
      example_entries"
    by (simp add: example_manifest_def example_entries_def name_ok_def default_artifact_limits_def
        max64_def utf8 value_of_def array_value_def)
  moreover have "list_all2 (tensor_ok default_artifact_limits (\<lambda>_ _. True) example_manifest)
      (gm_tensors example_manifest) example_decls"
    by (simp add: example_manifest_def example_decls_def tensor_ok_def decl_ok_def name_ok_def
        default_artifact_limits_def max64_def utf8 ggml_type_from_raw_def byte_len_for_shape_def
        checked_mul_def)
  moreover have "alignment_from_metadata (gm_metadata example_manifest) = Ok 32"
    by (simp add: alignment_from_metadata_def example_manifest_def default_alignment_def)
  ultimately show ?thesis
    unfolding doc_ok_def length_example_doc
    by (simp add: example_manifest_def align_up_def default_artifact_limits_def
        supported_gguf_version_def example_entries_def example_decls_def
        consistent_artifact_limits_def)
qed

lemma length_example_gguf: "length example_gguf = 136"
  by (simp add: example_gguf_def length_example_doc)

theorem inspect_gguf_exact_witness:
  "inspect_gguf_with_limits (\<lambda>_ _. True) (Some example_gguf) default_artifact_limits =
    Ok example_manifest"
proof -
  have "length example_gguf \<le> max64" by (simp add: length_example_gguf max64_def)
  moreover have "gm_file_len example_manifest = length example_gguf"
    by (simp add: length_example_gguf example_manifest_def)
  ultimately show ?thesis
    using inspect_gguf_exact [of example_gguf "\<lambda>_ _. True"
        default_artifact_limits example_manifest] example_doc_ok
    by (auto simp: example_gguf_def)
qed

theorem inspect_gguf_bounds_witness:
  "\<exists>man. inspect_gguf_with_limits (\<lambda>_ _. True) (Some example_gguf)
       default_artifact_limits = Ok man \<and>
     list_all (tensor_in_bounds default_artifact_limits man) (gm_tensors man) \<and> gm_tensors man \<noteq> []"
proof -
  have len: "length example_gguf \<le> max64"
    by (simp add: length_example_gguf max64_def)
  have ok: "inspect_gguf_with_limits (\<lambda>_ _. True) (Some example_gguf)
      default_artifact_limits = Ok example_manifest"
    by (rule inspect_gguf_accepts [OF _ example_doc_ok _ len])
      (simp_all add: example_gguf_def length_example_doc example_manifest_def)
  from inspect_gguf_bounds [OF ok len] ok show ?thesis
    by (intro exI [of _ example_manifest]) (simp add: example_manifest_def)
qed

end
