(* ===== verification/Gguf_Tokenizer.thy ===== *)
theory Gguf_Tokenizer imports Gguf_Document
begin

text \<open>
  Extraction of the embedded tokenizer metadata (\<open>inspect_gguf_tokenizer_with_limits\<close> in
  src/crates/loader/src/gguf_inspect.rs). The theorems give the exact files it accepts and what
  it extracts, as a fold over the entries of the document, and relate it to the manifest of the
  full inspection, which skips the arrays this one reads.
\<close>

definition empty_tokenizer_metadata :: gguf_tokenizer_metadata where
  "empty_tokenizer_metadata =
     \<lparr>gt_model = None, gt_tokens = [], gt_scores = [], gt_token_types = [], gt_merges = [],
      gt_chat_template = None, gt_bos_token_id = None, gt_eos_token_id = None,
      gt_unknown_token_id = None, gt_padding_token_id = None, gt_mask_token_id = None,
      gt_add_bos_token = None, gt_add_space_prefix = None\<rparr>"

text \<open>A value read in full and then required to be of one kind.\<close>

definition read_expected ::
    "(string \<Rightarrow> gguf_value \<Rightarrow> 'a res) \<Rightarrow> artifact_limits \<Rightarrow> gguf_type \<Rightarrow> string \<Rightarrow> gguf_reader \<Rightarrow>
      'a reading" where
  "read_expected expect limits value_type key r =
     and_then (read_metadata_value limits value_type 0 r) (\<lambda>(value, r).
     and_then (expect key value) (\<lambda>x. Ok (x, r)))"

definition read_tokenizer_value ::
    "artifact_limits \<Rightarrow> string \<Rightarrow> gguf_type \<Rightarrow> gguf_tokenizer_metadata \<Rightarrow> gguf_reader \<Rightarrow>
      gguf_tokenizer_metadata reading" where
  "read_tokenizer_value limits key value_type metadata r =
     (if key = ''tokenizer.ggml.tokens'' then
        returning (\<lambda>x. metadata\<lparr>gt_tokens := x\<rparr>) (read_metadata_string_array limits value_type key r)
      else if key = ''tokenizer.ggml.scores'' then
        returning (\<lambda>x. metadata\<lparr>gt_scores := x\<rparr>) (read_metadata_f32_array limits value_type key r)
      else if key = ''tokenizer.ggml.token_type'' then
        returning (\<lambda>x. metadata\<lparr>gt_token_types := x\<rparr>) (read_metadata_i32_array limits value_type key r)
      else if key = ''tokenizer.ggml.merges'' then
        returning (\<lambda>x. metadata\<lparr>gt_merges := x\<rparr>) (read_metadata_string_array limits value_type key r)
      else if key = ''tokenizer.ggml.model'' then
        returning (\<lambda>x. metadata\<lparr>gt_model := Some x\<rparr>)
          (read_expected expect_metadata_string limits value_type key r)
      else if key = ''tokenizer.chat_template'' then
        returning (\<lambda>x. metadata\<lparr>gt_chat_template := Some x\<rparr>)
          (read_expected expect_metadata_string limits value_type key r)
      else if key = ''tokenizer.ggml.bos_token_id'' then
        returning (\<lambda>x. metadata\<lparr>gt_bos_token_id := Some x\<rparr>)
          (read_expected expect_metadata_u32 limits value_type key r)
      else if key = ''tokenizer.ggml.eos_token_id'' then
        returning (\<lambda>x. metadata\<lparr>gt_eos_token_id := Some x\<rparr>)
          (read_expected expect_metadata_u32 limits value_type key r)
      else if key = ''tokenizer.ggml.unknown_token_id'' then
        returning (\<lambda>x. metadata\<lparr>gt_unknown_token_id := Some x\<rparr>)
          (read_expected expect_metadata_u32 limits value_type key r)
      else if key = ''tokenizer.ggml.padding_token_id'' then
        returning (\<lambda>x. metadata\<lparr>gt_padding_token_id := Some x\<rparr>)
          (read_expected expect_metadata_u32 limits value_type key r)
      else if key = ''tokenizer.ggml.mask_token_id'' then
        returning (\<lambda>x. metadata\<lparr>gt_mask_token_id := Some x\<rparr>)
          (read_expected expect_metadata_u32 limits value_type key r)
      else if key = ''tokenizer.ggml.add_bos_token'' then
        returning (\<lambda>x. metadata\<lparr>gt_add_bos_token := Some x\<rparr>)
          (read_expected expect_metadata_bool limits value_type key r)
      else if key = ''tokenizer.ggml.add_space_prefix'' then
        returning (\<lambda>x. metadata\<lparr>gt_add_space_prefix := Some x\<rparr>)
          (read_expected expect_metadata_bool limits value_type key r)
      else returning (\<lambda>_. metadata) (skip_metadata_value limits value_type 0 r))"

fun read_tokenizer_entries ::
    "artifact_limits \<Rightarrow> nat \<Rightarrow> gguf_tokenizer_metadata \<Rightarrow> gguf_reader \<Rightarrow>
      gguf_tokenizer_metadata reading" where
  "read_tokenizer_entries limits 0 metadata r = Ok (metadata, r)"
| "read_tokenizer_entries limits (Suc n) metadata r =
     and_then (read_entry_head limits r) (\<lambda>((key, value_type), r).
     and_then (read_tokenizer_value limits key value_type metadata r) (\<lambda>(metadata, r).
     read_tokenizer_entries limits n metadata r))"

definition inspect_gguf_tokenizer_with_limits ::
    "(string \<Rightarrow> usize \<Rightarrow> bool) \<Rightarrow> byte list option \<Rightarrow> artifact_limits \<Rightarrow>
      gguf_tokenizer_metadata res" where
  "inspect_gguf_tokenizer_with_limits reserve file limits =
     and_then (artifact_limits_validate limits) (\<lambda>_.
     case file of
       None \<Rightarrow> Err IoError
     | Some bytes \<Rightarrow>
         and_then (validate_file_bytes limits (length bytes)) (\<lambda>_.
         let r = \<lparr>gr_file = bytes, gr_position = 0, gr_limits = limits, gr_reserve = reserve\<rparr> in
         and_then (read_preamble r) (\<lambda>((tensor_count, metadata_count), r).
         and_then (validate_gguf_counts limits tensor_count metadata_count) (\<lambda>_.
         and_then (validate_declared_metadata_count_fits_remaining r metadata_count) (\<lambda>_.
         and_then (count_to_usize ''metadata_kv_count'' metadata_count) (\<lambda>metadata_count.
         and_then (read_tokenizer_entries limits metadata_count empty_tokenizer_metadata r)
           (\<lambda>(metadata, r). Ok metadata)))))))"

definition inspect_gguf_tokenizer ::
    "(string \<Rightarrow> usize \<Rightarrow> bool) \<Rightarrow> byte list option \<Rightarrow> gguf_tokenizer_metadata res" where
  "inspect_gguf_tokenizer reserve file =
     inspect_gguf_tokenizer_with_limits reserve file default_artifact_limits"

section \<open>What an entry contributes\<close>

definition res_value :: "'a res \<Rightarrow> 'a option" where
  "res_value x = (case x of Ok v \<Rightarrow> Some v | _ \<Rightarrow> None)"

lemma res_value_iff [simp]: "res_value x = Some v \<longleftrightarrow> x = Ok v"
  by (cases x) (auto simp: res_value_def)

definition expected_of ::
    "(string \<Rightarrow> gguf_value \<Rightarrow> 'a res) \<Rightarrow> (string \<Rightarrow> usize \<Rightarrow> bool) \<Rightarrow> gguf_type \<Rightarrow> string \<Rightarrow>
      gguf_data \<Rightarrow> 'a option" where
  "expected_of expect R t key d =
     Option.bind (value_of R t d) (\<lambda>v. res_value (expect key v))"

definition vector_of ::
    "(string \<Rightarrow> usize \<Rightarrow> bool) \<Rightarrow> gguf_type \<Rightarrow> string \<Rightarrow> gguf_type \<Rightarrow> (gguf_data \<Rightarrow> 'a option) \<Rightarrow>
      gguf_data \<Rightarrow> 'a list option" where
  "vector_of R t key e f d = (if t = T_Array then elements_of R key e f d else None)"

fun tokenizer_update ::
    "(string \<Rightarrow> usize \<Rightarrow> bool) \<Rightarrow> gguf_entry \<Rightarrow> gguf_tokenizer_metadata \<Rightarrow>
      gguf_tokenizer_metadata option" where
  "tokenizer_update R (key, t, d) m =
     (if key = ''tokenizer.ggml.tokens'' then
        map_option (\<lambda>x. m\<lparr>gt_tokens := x\<rparr>) (vector_of R t key T_String (string_of_data R key) d)
      else if key = ''tokenizer.ggml.scores'' then
        map_option (\<lambda>x. m\<lparr>gt_scores := x\<rparr>) (vector_of R t key T_F32 word_of_data d)
      else if key = ''tokenizer.ggml.token_type'' then
        map_option (\<lambda>x. m\<lparr>gt_token_types := x\<rparr>) (vector_of R t key T_I32 word_of_data d)
      else if key = ''tokenizer.ggml.merges'' then
        map_option (\<lambda>x. m\<lparr>gt_merges := x\<rparr>) (vector_of R t key T_String (string_of_data R key) d)
      else if key = ''tokenizer.ggml.model'' then
        map_option (\<lambda>x. m\<lparr>gt_model := Some x\<rparr>) (expected_of expect_metadata_string R t key d)
      else if key = ''tokenizer.chat_template'' then
        map_option (\<lambda>x. m\<lparr>gt_chat_template := Some x\<rparr>) (expected_of expect_metadata_string R t key d)
      else if key = ''tokenizer.ggml.bos_token_id'' then
        map_option (\<lambda>x. m\<lparr>gt_bos_token_id := Some x\<rparr>) (expected_of expect_metadata_u32 R t key d)
      else if key = ''tokenizer.ggml.eos_token_id'' then
        map_option (\<lambda>x. m\<lparr>gt_eos_token_id := Some x\<rparr>) (expected_of expect_metadata_u32 R t key d)
      else if key = ''tokenizer.ggml.unknown_token_id'' then
        map_option (\<lambda>x. m\<lparr>gt_unknown_token_id := Some x\<rparr>) (expected_of expect_metadata_u32 R t key d)
      else if key = ''tokenizer.ggml.padding_token_id'' then
        map_option (\<lambda>x. m\<lparr>gt_padding_token_id := Some x\<rparr>) (expected_of expect_metadata_u32 R t key d)
      else if key = ''tokenizer.ggml.mask_token_id'' then
        map_option (\<lambda>x. m\<lparr>gt_mask_token_id := Some x\<rparr>) (expected_of expect_metadata_u32 R t key d)
      else if key = ''tokenizer.ggml.add_bos_token'' then
        map_option (\<lambda>x. m\<lparr>gt_add_bos_token := Some x\<rparr>) (expected_of expect_metadata_bool R t key d)
      else if key = ''tokenizer.ggml.add_space_prefix'' then
        map_option (\<lambda>x. m\<lparr>gt_add_space_prefix := Some x\<rparr>) (expected_of expect_metadata_bool R t key d)
      else Some m)"

fun tokenizer_fold ::
    "(string \<Rightarrow> usize \<Rightarrow> bool) \<Rightarrow> gguf_entry list \<Rightarrow> gguf_tokenizer_metadata \<Rightarrow>
      gguf_tokenizer_metadata option" where
  "tokenizer_fold R [] m = Some m"
| "tokenizer_fold R (x # xs) m = Option.bind (tokenizer_update R x m) (tokenizer_fold R xs)"

fun head_ok :: "artifact_limits \<Rightarrow> (string \<Rightarrow> usize \<Rightarrow> bool) \<Rightarrow> gguf_entry \<Rightarrow> bool" where
  "head_ok L R (key, t, d) \<longleftrightarrow>
     name_ok L R ''metadata key'' (al_max_key_bytes L) key \<and> wf_data L t 0 d"

lemma read_expected_iff:
  assumes "reads_with L R r"
  shows "read_expected expect L t key r = Ok (x, s) \<longleftrightarrow>
    (\<exists>d. wf_data L t 0 d \<and> expected_of expect R t key d = Some x \<and> consumes r (encode_data d) s)"
  by (auto simp: read_expected_def res_simps read_metadata_value_iff [OF assms] expected_of_def
      Option.bind_eq_Some_conv)

lemma vector_iffs:
  assumes "reads_with L R r"
  shows "read_metadata_string_array L t key r = Ok (ss, s) \<longleftrightarrow>
      (\<exists>d. wf_data L t 0 d \<and> vector_of R t key T_String (string_of_data R key) d = Some ss \<and>
        consumes r (encode_data d) s)"
    and "read_metadata_f32_array L t key r = Ok (fs, s) \<longleftrightarrow>
      (\<exists>d. wf_data L t 0 d \<and> vector_of R t key T_F32 word_of_data d = Some fs \<and>
        consumes r (encode_data d) s)"
    and "read_metadata_i32_array L t key r = Ok (is, s) \<longleftrightarrow>
      (\<exists>d. wf_data L t 0 d \<and> vector_of R t key T_I32 word_of_data d = Some is \<and>
        consumes r (encode_data d) s)"
  by (auto simp: read_metadata_array_iffs [OF assms] vector_of_def)

lemma branch_iff:
  assumes "a = x \<longleftrightarrow> (\<exists>d. P d \<and> f d = y \<and> Q d)" and "b = x \<longleftrightarrow> (\<exists>d. P d \<and> g d = y \<and> Q d)"
  shows "(if c then a else b) = x \<longleftrightarrow> (\<exists>d. P d \<and> (if c then f d else g d) = y \<and> Q d)"
  using assms by simp

lemma returning_iff:
  assumes "\<And>x. a = Ok (x, s) \<longleftrightarrow> (\<exists>d. P d \<and> f d = Some x \<and> Q d)"
  shows "returning h a = Ok (y, s) \<longleftrightarrow> (\<exists>d. P d \<and> map_option h (f d) = Some y \<and> Q d)"
  using assms by auto

lemma read_tokenizer_value_iff:
  assumes "reads_with L R r" and "gr_position r \<le> reader_bound r"
  shows "read_tokenizer_value L key t m r = Ok (m', s) \<longleftrightarrow>
    (\<exists>d. wf_data L t 0 d \<and> tokenizer_update R (key, t, d) m = Some m' \<and>
      consumes r (encode_data d) s)"
proof -
  have skip: "returning (\<lambda>_. m) (skip_metadata_value L t 0 r) = Ok (m', s) \<longleftrightarrow>
      (\<exists>d. wf_data L t 0 d \<and> Some m = Some m' \<and> consumes r (encode_data d) s)"
    by (auto simp: skip_metadata_value_iff [OF assms])
  show ?thesis
    unfolding read_tokenizer_value_def tokenizer_update.simps
    by (intro branch_iff returning_iff vector_iffs [OF assms(1)] read_expected_iff [OF assms(1)] skip)
qed

lemma read_tokenizer_entries_iff:
  assumes "reads_with L R r" and "gr_position r \<le> reader_bound r"
  shows "read_tokenizer_entries L n m r = Ok (m', s) \<longleftrightarrow>
    (\<exists>xs. length xs = n \<and> list_all (head_ok L R) xs \<and> tokenizer_fold R xs m = Some m' \<and>
      consumes r (concat (map encode_entry xs)) s)"
  using assms
proof (induction n arbitrary: m r)
  case 0
  then show ?case by (auto simp: consumes_Nil)
next
  case (Suc n)
  show ?case
  proof
    assume "read_tokenizer_entries L (Suc n) m r = Ok (m', s)"
    then obtain key t r1 m1 r2 where h: "read_entry_head L r = Ok ((key, t), r1)"
      and v: "read_tokenizer_value L key t m r1 = Ok (m1, r2)"
      and rest: "read_tokenizer_entries L n m1 r2 = Ok (m', s)"
      by (auto simp: res_simps)
    have c1: "name_ok L R ''metadata key'' (al_max_key_bytes L) key" "consumes r (encode_head key t) r1"
      using h by (simp_all add: read_entry_head_iff [OF Suc.prems(1)])
    have r1: "reads_with L R r1" "gr_position r1 \<le> reader_bound r1"
      using consumesD [OF c1(2)] Suc.prems by simp_all
    from v obtain d where d: "wf_data L t 0 d" "tokenizer_update R (key, t, d) m = Some m1"
      "consumes r1 (encode_data d) r2"
      unfolding read_tokenizer_value_iff [OF r1] by blast
    have r2: "reads_with L R r2" "gr_position r2 \<le> reader_bound r2"
      using consumesD [OF d(3)] r1 by simp_all
    from rest Suc.IH [OF r2] obtain xs where xs: "length xs = n" "list_all (head_ok L R) xs"
      "tokenizer_fold R xs m1 = Some m'" "consumes r2 (concat (map encode_entry xs)) s" by blast
    have "consumes r (encode_entry (key, t, d) @ concat (map encode_entry xs)) s"
      unfolding encode_entry_head append_assoc
      by (rule consumes_appendI [OF c1(2) consumes_appendI [OF d(3) xs(4)]])
    then show "\<exists>xs. length xs = Suc n \<and> list_all (head_ok L R) xs \<and>
        tokenizer_fold R xs m = Some m' \<and> consumes r (concat (map encode_entry xs)) s"
      using xs c1(1) d(1,2)
      by (intro exI [of _ "(key, t, d) # xs"]) (simp del: tokenizer_update.simps encode_entry.simps)
  next
    assume "\<exists>xs. length xs = Suc n \<and> list_all (head_ok L R) xs \<and>
        tokenizer_fold R xs m = Some m' \<and> consumes r (concat (map encode_entry xs)) s"
    then obtain ys where ys: "length ys = Suc n" "list_all (head_ok L R) ys"
      "tokenizer_fold R ys m = Some m'" "consumes r (concat (map encode_entry ys)) s" by blast
    from ys(1) obtain y xs where "ys = y # xs" by (cases ys) simp_all
    then obtain key t d where ys_Cons: "ys = (key, t, d) # xs" by (cases y) simp
    from ys(3) obtain m1 where upd: "tokenizer_update R (key, t, d) m = Some m1"
      "tokenizer_fold R xs m1 = Some m'"
      unfolding ys_Cons tokenizer_fold.simps Option.bind_eq_Some_conv by blast
    have ok: "length xs = n" "head_ok L R (key, t, d)" "list_all (head_ok L R) xs"
        "tokenizer_update R (key, t, d) m = Some m1" "tokenizer_fold R xs m1 = Some m'"
      using ys(1,2) upd by (simp_all add: ys_Cons del: tokenizer_update.simps)
    have "consumes r (encode_head key t @ encode_data d @ concat (map encode_entry xs)) s"
      using ys(4) unfolding ys_Cons list.map concat.simps encode_entry_head append_assoc .
    then obtain r1 r2 where c: "consumes r (encode_head key t) r1" "consumes r1 (encode_data d) r2"
      "consumes r2 (concat (map encode_entry xs)) s"
      unfolding consumes_append by blast
    have r1: "reads_with L R r1" "gr_position r1 \<le> reader_bound r1"
      using consumesD [OF c(1)] Suc.prems by simp_all
    have r2: "reads_with L R r2" "gr_position r2 \<le> reader_bound r2"
      using consumesD [OF c(2)] r1 by simp_all
    have "read_entry_head L r = Ok ((key, t), r1)"
      using ok(2) c(1) by (simp add: read_entry_head_iff [OF Suc.prems(1)])
    moreover have "read_tokenizer_value L key t m r1 = Ok (m1, r2)"
      unfolding read_tokenizer_value_iff [OF r1] using ok(2,4) c(2) unfolding head_ok.simps by blast
    moreover have "read_tokenizer_entries L n m1 r2 = Ok (m', s)"
      using Suc.IH [OF r2] ok c(3) by blast
    ultimately show "read_tokenizer_entries L (Suc n) m r = Ok (m', s)" by simp
  qed
qed

section \<open>What is accepted\<close>

lemma declared_metadata_count_fits:
  assumes "list_all (head_ok L R) xs" and "consumes r (concat (map encode_entry xs)) s"
  shows "validate_declared_metadata_count_fits_remaining r (length xs) = Ok ()"
proof -
  have "min_metadata_entry_bytes \<le> length (encode_entry x)" if "head_ok L R x" for x
  proof -
    obtain k t d where x: "x = (k, t, d)" by (cases x)
    with that have "1 \<le> length (encode_data d)" using wf_data_nonempty by auto
    then show ?thesis by (simp add: x min_metadata_entry_bytes_def)
  qed
  then have "length xs * min_metadata_entry_bytes \<le> length (concat (map encode_entry xs))"
    using assms(1) by (induction xs) (auto simp: add_mono)
  then have fit: "gr_position r + length xs * min_metadata_entry_bytes \<le> reader_bound r"
    using consumesD(4,5,6) [OF assms(2)] by simp
  then have "length xs * min_metadata_entry_bytes \<le> max64"
    "length xs * min_metadata_entry_bytes \<le> remaining_bounded_header_bytes r"
    by (auto simp: reader_bound_def remaining_bounded_header_bytes_def)
  then show ?thesis
    by (simp add: validate_declared_metadata_count_fits_remaining_def checked_mul_def)
qed

text \<open>The documents whose tokenizer metadata can be extracted.\<close>

definition tokenizer_doc ::
    "artifact_limits \<Rightarrow> (string \<Rightarrow> usize \<Rightarrow> bool) \<Rightarrow> byte list \<Rightarrow> gguf_entry list \<Rightarrow> bool" where
  "tokenizer_doc L R bytes entries \<longleftrightarrow>
     consistent_artifact_limits L \<and> length bytes \<le> al_max_file_bytes L \<and>
     length entries \<le> al_max_metadata_entries L \<and> list_all (head_ok L R) entries \<and>
     (\<exists>tensor_count rest.
        bytes = encode_preamble tensor_count (length entries) @ concat (map encode_entry entries) @ rest \<and>
        tensor_count \<le> al_max_tensors L \<and> tensor_count \<le> max64 \<and>
        length (encode_preamble tensor_count (length entries) @ concat (map encode_entry entries)) \<le>
          al_max_header_bytes L)"

lemma inspect_tokenizer_iff:
  assumes len: "length bytes \<le> max64"
  shows "inspect_gguf_tokenizer_with_limits R (Some bytes) L = Ok m \<longleftrightarrow>
    (\<exists>entries. tokenizer_doc L R bytes entries \<and>
       tokenizer_fold R entries empty_tokenizer_metadata = Some m)"
proof -
  define r0 where "r0 = \<lparr>gr_file = bytes, gr_position = 0, gr_limits = L, gr_reserve = R\<rparr>"
  have r0: "reads_with L R r0" "gr_position r0 = 0" by (simp_all add: r0_def reads_with_def)
  have bound: "reader_bound r0 = min (length bytes) (al_max_header_bytes L)"
    using len by (simp add: reader_bound_def r0_def)
  have "inspect_gguf_tokenizer_with_limits R (Some bytes) L = Ok m \<longleftrightarrow>
      consistent_artifact_limits L \<and> length bytes \<le> al_max_file_bytes L \<and>
      (\<exists>tc mc r1 s. read_preamble r0 = Ok ((tc, mc), r1) \<and> tc \<le> al_max_tensors L \<and>
         mc \<le> al_max_metadata_entries L \<and>
         validate_declared_metadata_count_fits_remaining r1 mc = Ok () \<and> mc \<le> max64 \<and>
         read_tokenizer_entries L mc empty_tokenizer_metadata r1 = Ok (m, s))"
    unfolding inspect_gguf_tokenizer_with_limits_def Let_def option.case r0_def [symmetric]
    by (auto simp: res_simps count_to_usize_def)
  also have "\<dots> \<longleftrightarrow> (\<exists>entries. tokenizer_doc L R bytes entries \<and>
       tokenizer_fold R entries empty_tokenizer_metadata = Some m)" (is "?lhs \<longleftrightarrow> ?rhs")
  proof
    assume ?lhs
    then obtain tc mc r1 s where lim: "consistent_artifact_limits L" "length bytes \<le> al_max_file_bytes L"
        "tc \<le> al_max_tensors L" "mc \<le> al_max_metadata_entries L"
      and pre: "read_preamble r0 = Ok ((tc, mc), r1)"
      and body: "read_tokenizer_entries L mc empty_tokenizer_metadata r1 = Ok (m, s)" by blast
    have c: "tc \<le> max64" "consumes r0 (encode_preamble tc mc) r1"
      using pre by (simp_all add: read_preamble_iff)
    have r1: "reads_with L R r1" "gr_position r1 \<le> reader_bound r1"
      using consumesD [OF c(2)] r0 by simp_all
    from body read_tokenizer_entries_iff [OF r1] obtain xs where xs: "length xs = mc"
      "list_all (head_ok L R) xs" "tokenizer_fold R xs empty_tokenizer_metadata = Some m"
      "consumes r1 (concat (map encode_entry xs)) s" by blast
    from consumes_appendI [OF c(2) xs(4)] consumes_start [OF r0(2)] obtain rest where
      "bytes = (encode_preamble tc mc @ concat (map encode_entry xs)) @ rest"
      "length (encode_preamble tc mc @ concat (map encode_entry xs)) \<le> reader_bound r0"
      by (auto simp: r0_def)
    then have "tokenizer_doc L R bytes xs"
      unfolding tokenizer_doc_def using lim xs(1,2) c(1)
      by (intro conjI exI [of _ tc] exI [of _ rest]) (simp_all add: bound)
    with xs(3) show ?rhs by blast
  next
    assume ?rhs
    then obtain xs tc rest where
      fold: "tokenizer_fold R xs empty_tokenizer_metadata = Some m"
      and lim: "consistent_artifact_limits L" "length bytes \<le> al_max_file_bytes L"
        "tc \<le> al_max_tensors L" "tc \<le> max64" "length xs \<le> al_max_metadata_entries L"
        "list_all (head_ok L R) xs"
      and b: "bytes = (encode_preamble tc (length xs) @ concat (map encode_entry xs)) @ rest"
        "length (encode_preamble tc (length xs) @ concat (map encode_entry xs)) \<le> al_max_header_bytes L"
      by (auto simp: tokenizer_doc_def)
    have le: "length (encode_preamble tc (length xs) @ concat (map encode_entry xs)) \<le> reader_bound r0"
      using b(2) unfolding bound by (subst b(1)) simp
    moreover have "\<exists>rest. gr_file r0 = (encode_preamble tc (length xs) @ concat (map encode_entry xs)) @ rest"
      unfolding r0_def using b(1) by auto
    ultimately obtain s where
      "consumes r0 (encode_preamble tc (length xs) @ concat (map encode_entry xs)) s"
      using consumes_start [OF r0(2)] by blast
    then obtain r1 where c: "consumes r0 (encode_preamble tc (length xs)) r1"
      "consumes r1 (concat (map encode_entry xs)) s"
      unfolding consumes_append by blast
    have r1: "reads_with L R r1" "gr_position r1 \<le> reader_bound r1"
      using consumesD [OF c(1)] r0 by simp_all
    have fits: "validate_declared_metadata_count_fits_remaining r1 (length xs) = Ok ()"
      by (rule declared_metadata_count_fits [OF lim(6) c(2)])
    then have "length xs * min_metadata_entry_bytes \<le> max64"
      by (auto simp: validate_declared_metadata_count_fits_remaining_def res_simps)
    then have mc: "length xs \<le> max64" by (simp add: min_metadata_entry_bytes_def)
    have "read_preamble r0 = Ok ((tc, length xs), r1)"
      using c(1) lim(4) mc by (simp add: read_preamble_iff)
    moreover have "read_tokenizer_entries L (length xs) empty_tokenizer_metadata r1 = Ok (m, s)"
      using read_tokenizer_entries_iff [OF r1] lim(6) fold c(2) by blast
    ultimately show ?lhs using lim fits mc by blast
  qed
  finally show ?thesis .
qed

lemma read_expected_no_Panic [simp]:
  "read_expected expect_metadata_string L t key r \<noteq> Panic"
  "read_expected expect_metadata_u32 L t key r \<noteq> Panic"
  "read_expected expect_metadata_bool L t key r \<noteq> Panic"
  by (auto simp: read_expected_def res_simps expect_metadata_string_def expect_metadata_u32_def
      expect_metadata_bool_def split: gguf_value.splits)

lemma if_no_Panic: "a \<noteq> Panic \<Longrightarrow> b \<noteq> Panic \<Longrightarrow> (if c then a else b) \<noteq> Panic"
  by simp

lemma read_tokenizer_value_no_Panic: "read_tokenizer_value L key t m r \<noteq> Panic"
  unfolding read_tokenizer_value_def by (intro if_no_Panic) simp_all

lemma inspect_tokenizer_no_Panic: "inspect_gguf_tokenizer_with_limits R file L \<noteq> Panic"
proof -
  have "read_entry_head L r \<noteq> Panic" for r by (auto simp: read_entry_head_def res_simps)
  then have "read_tokenizer_entries L n m r \<noteq> Panic" for n m r
    using read_tokenizer_value_no_Panic
    by (induction n arbitrary: m r) (auto simp: res_simps)
  then show ?thesis
    by (auto simp: inspect_gguf_tokenizer_with_limits_def Let_def res_simps count_to_usize_def
        validate_declared_metadata_count_fits_remaining_def split: option.splits)
qed

text \<open>
  C26. Tokenizer extraction accepts exactly the files that start with a preamble and well-formed
  metadata entries within the ceilings whose tokenizer keys hold values of the expected kinds
  (the tensor descriptors after them are not looked at); the result is the fold of the
  entries in file order, so the last value of a repeated key counts. Nothing panics.
\<close>

theorem inspect_tokenizer_exact:
  assumes "length bytes \<le> max64"
  shows "(inspect_gguf_tokenizer_with_limits R (Some bytes) L = Ok m \<longleftrightarrow>
      (\<exists>entries. tokenizer_doc L R bytes entries \<and>
         tokenizer_fold R entries empty_tokenizer_metadata = Some m))
    \<and> inspect_gguf_tokenizer_with_limits R file L \<noteq> Panic"
  using inspect_tokenizer_iff [OF assms] inspect_tokenizer_no_Panic by blast

section \<open>Unique decoding\<close>

lemma nat_le_eq_iff:
  assumes "a < 256 ^ k" and "b < 256 ^ k"
  shows "nat_le k a = nat_le k b \<longleftrightarrow> a = b"
proof
  assume "nat_le k a = nat_le k b"
  then have "le_nat (nat_le k a) = le_nat (nat_le k b)" by (rule arg_cong)
  with assms show "a = b" by (simp only: le_nat_nat_le)
qed (rule arg_cong)

lemma nat_le_8_eq: "a \<le> max64 \<Longrightarrow> b \<le> max64 \<Longrightarrow> nat_le 8 a = nat_le 8 b \<longleftrightarrow> a = b"
  by (rule nat_le_eq_iff) (simp_all add: max64_def)

lemma raw_type_eq: "nat_le 4 (gguf_type_raw s) = nat_le 4 (gguf_type_raw t) \<longleftrightarrow> s = t"
proof -
  have "gguf_type_raw t < 256 ^ 4" for t using gguf_type_raw_less [of t] by simp
  then have "nat_le 4 (gguf_type_raw s) = nat_le 4 (gguf_type_raw t) \<longleftrightarrow>
      gguf_type_raw s = gguf_type_raw t"
    by (intro nat_le_eq_iff)
  also have "\<dots> \<longleftrightarrow> s = t" by (cases s; cases t) simp_all
  finally show ?thesis .
qed

text \<open>
  A well-formed encoding determines its tree, and where it ends, whatever follows it: no two
  readers of the same entry can disagree on it.
\<close>

lemma encode_data_inject:
  assumes "wf_data L t n d" and "wf_data L' t n' d'" and "encode_data d @ x = encode_data d' @ y"
  shows "d = d' \<and> x = y"
  using assms
proof (induction d arbitrary: t n n' d' x y)
  case (D_Fixed bs)
  then obtain bs' where "d' = D_Fixed bs'" "length bs' = length bs" by (cases d') auto
  with D_Fixed.prems(3) show ?case by simp
next
  case (D_Str bs)
  then obtain bs' where "d' = D_Str bs'" "length bs' \<le> max64" "t = T_String"
    by (cases d') (auto)
  moreover from this have "length bs = length bs'" using D_Str.prems by (simp add: nat_le_8_eq)
  ultimately show ?case using D_Str.prems(3) by simp
next
  case (D_Arr e ds)
  then obtain e' ds' where d': "d' = D_Arr e' ds'" and wf: "length ds' \<le> max64" "length ds \<le> max64"
    "\<forall>d \<in> set ds. wf_data L e (n + 1) d" "\<forall>d \<in> set ds'. wf_data L' e' (n' + 1) d"
    by (cases d') auto
  from D_Arr.prems(3) wf(1,2) have same: "e = e'" "length ds = length ds'"
    and rest: "concat (map encode_data ds) @ x = concat (map encode_data ds') @ y"
    by (simp_all add: d' raw_type_eq nat_le_8_eq)
  have inj: "\<forall>d \<in> set ds. \<forall>d' x y. wf_data L e' (n + 1) d \<longrightarrow> wf_data L' e' (n' + 1) d' \<longrightarrow>
      encode_data d @ x = encode_data d' @ y \<longrightarrow> d = d' \<and> x = y"
    using D_Arr.IH by blast
  have "ds = ds' \<and> x = y"
    using same(2) rest wf(3,4) inj unfolding same(1)
  proof (induction ds ds' rule: list_induct2)
    case (Cons d ds d' ds')
    have "encode_data d @ concat (map encode_data ds) @ x = encode_data d' @ concat (map encode_data ds') @ y"
      using Cons.prems(1) by simp
    moreover have "wf_data L e' (n + 1) d" "wf_data L' e' (n' + 1) d'"
      using Cons.prems(2,3) by simp_all
    moreover have "\<forall>d' x y. wf_data L e' (n + 1) d \<longrightarrow> wf_data L' e' (n' + 1) d' \<longrightarrow>
        encode_data d @ x = encode_data d' @ y \<longrightarrow> d = d' \<and> x = y"
      by (rule bspec [OF Cons.prems(4)]) (rule list.set_intros(1))
    ultimately have "d = d' \<and> concat (map encode_data ds) @ x = concat (map encode_data ds') @ y"
      by blast
    moreover have "ds = ds' \<and> x = y"
    proof (rule Cons.IH)
      show "concat (map encode_data ds) @ x = concat (map encode_data ds') @ y"
        using \<open>d = d' \<and> _\<close> by blast
      show "\<forall>d \<in> set ds. wf_data L e' (n + 1) d" "\<forall>d \<in> set ds'. wf_data L' e' (n' + 1) d"
        using Cons.prems(2,3) by simp_all
      show "\<forall>d \<in> set ds. \<forall>d' x y. wf_data L e' (n + 1) d \<longrightarrow> wf_data L' e' (n' + 1) d' \<longrightarrow>
          encode_data d @ x = encode_data d' @ y \<longrightarrow> d = d' \<and> x = y"
        by (rule ballI, rule bspec [OF Cons.prems(4)]) (rule list.set_intros(2))
    qed
    ultimately show ?case by blast
  qed simp
  then show ?case by (simp add: d' same(1))
qed

lemma encode_entries_inject:
  assumes "list_all (head_ok L R) xs" and "list_all (head_ok L R) ys" and "length xs = length ys"
    and "concat (map encode_entry xs) @ a = concat (map encode_entry ys) @ b"
  shows "xs = ys"
  using assms(3,1,2,4)
proof (induction xs ys rule: list_induct2)
  case (Cons x xs y ys)
  obtain k t d k' t' d' where xy: "x = (k, t, d)" "y = (k', t', d')" by (cases x; cases y)
  have le: "length k \<le> max64" "length k' \<le> max64" using Cons.prems by (simp_all add: xy name_ok_def)
  from Cons.prems(3) have eq: "nat_le 8 (length k) @ bytes_of_text k @ nat_le 4 (gguf_type_raw t) @ encode_data d @
      concat (map encode_entry xs) @ a = nat_le 8 (length k') @ bytes_of_text k' @ nat_le 4 (gguf_type_raw t') @
      encode_data d' @ concat (map encode_entry ys) @ b"
    by (simp add: xy)
  then have len: "length k = length k'" using le by (simp add: nat_le_8_eq)
  with eq have key: "bytes_of_text k = bytes_of_text k'" by simp
  then have "k = k'" by (metis text_of_bytes_of_text)
  from eq len key have t: "t = t'" by (simp add: raw_type_eq)
  from eq len key t have
    d: "encode_data d @ concat (map encode_entry xs) @ a = encode_data d' @ concat (map encode_entry ys) @ b"
    by simp
  have "d = d' \<and> concat (map encode_entry xs) @ a = concat (map encode_entry ys) @ b"
    using Cons.prems d by (intro encode_data_inject [of L t 0 d L 0 d']) (simp_all add: xy t)
  with Cons \<open>k = k'\<close> t show ?case by (simp add: xy)
qed simp

section \<open>Agreement with the manifest\<close>

lemma encode_preamble_inject:
  assumes "tc \<le> max64" "mc \<le> max64" "tc' \<le> max64" "mc' \<le> max64"
  shows "encode_preamble tc mc @ x = encode_preamble tc' mc' @ y \<longleftrightarrow> tc = tc' \<and> mc = mc' \<and> x = y"
  using assms by (simp add: encode_preamble_def nat_le_8_eq)

lemma entry_head_ok: "entry_ok L R e x \<Longrightarrow> head_ok L R x"
  by (cases x) simp

lemma entries_head_ok: "list_all2 (entry_ok L R) es xs \<Longrightarrow> list_all (head_ok L R) xs"
  by (induction es xs rule: list_all2_induct) (auto dest: entry_head_ok)

lemma length_le_concat:
  assumes "\<And>x. 1 \<le> length (f x)"
  shows "length xs \<le> length (concat (map f xs))"
proof (induction xs)
  case (Cons x xs)
  have "1 + length xs \<le> length (f x) + length (concat (map f xs))"
    by (rule add_mono [OF assms Cons.IH])
  then show ?case by simp
qed simp

text \<open>Both inspections of a file see the same entries.\<close>

lemma same_entries:
  assumes man: "inspect_gguf_with_limits R (Some bytes) L = Ok man"
    and tok: "inspect_gguf_tokenizer_with_limits R (Some bytes) L = Ok m"
    and len: "length bytes \<le> max64"
  shows "\<exists>entries. list_all2 (entry_ok L R) (gm_metadata man) entries \<and>
    tokenizer_fold R entries empty_tokenizer_metadata = Some m"
proof -
  from inspect_gguf_Ok [OF man len] obtain xs decls rest where
    b1: "bytes = encode_doc xs decls @ rest" and ok: "doc_ok L R xs decls man" by blast
  from tok inspect_tokenizer_iff [OF len] obtain ys tc rest' where
    ys: "list_all (head_ok L R) ys" "tokenizer_fold R ys empty_tokenizer_metadata = Some m"
    and b2: "bytes = encode_preamble tc (length ys) @ concat (map encode_entry ys) @ rest'"
    and tc: "tc \<le> max64"
    by (auto simp: tokenizer_doc_def)
  have es: "list_all2 (entry_ok L R) (gm_metadata man) xs" using ok by (simp add: doc_ok_def)
  then have xs: "list_all (head_ok L R) xs" by (rule entries_head_ok)
  have decls: "list_all2 (tensor_ok L R man) (gm_tensors man) decls"
    using ok by (simp add: doc_ok_def)
  have long: "length zs \<le> max64" if "list_all (head_ok L R) zs"
    "length (concat (map encode_entry zs)) \<le> length bytes" for zs
  proof -
    have "1 \<le> length (encode_entry z)" for z by (cases z) simp
    then have "length zs \<le> length (concat (map encode_entry zs))" by (rule length_le_concat)
    with that len show ?thesis by linarith
  qed
  have "length decls \<le> length (concat (map encode_decl decls))"
  proof -
    have "1 \<le> length (encode_decl td)" for td by (simp add: encode_decl_def)
    then show ?thesis by (rule length_le_concat)
  qed
  moreover have "length (concat (map encode_decl decls)) \<le> length bytes"
    and "length (concat (map encode_entry xs)) \<le> length bytes"
    by (simp_all add: b1 encode_doc_def)
  moreover have "length (concat (map encode_entry ys)) \<le> length bytes" by (simp add: b2)
  ultimately have le: "length decls \<le> max64" "length xs \<le> max64" "length ys \<le> max64"
    using long [OF xs] long [OF ys(1)] len by linarith+
  have "encode_preamble (length decls) (length xs) @ concat (map encode_entry xs) @
      concat (map encode_decl decls) @ rest =
    encode_preamble tc (length ys) @ concat (map encode_entry ys) @ rest'"
    using b1 b2 by (simp add: encode_doc_def)
  then have "length xs = length ys" "concat (map encode_entry xs) @ concat (map encode_decl decls) @ rest =
      concat (map encode_entry ys) @ rest'"
    using encode_preamble_inject [OF le(1,2) tc le(3)] by blast+
  then have "xs = ys" by (rule encode_entries_inject [OF xs ys(1)])
  with es ys(2) show ?thesis by blast
qed

text \<open>
  A field that only the entry of key \<open>k\<close> sets: after the fold of entries with distinct keys it
  is related to that entry's value in the manifest, and untouched without such an entry.
\<close>

lemma fold_field:
  assumes keep: "\<And>x m m'. tokenizer_update R x m = Some m' \<Longrightarrow> fst x \<noteq> k \<Longrightarrow> g m' = g m"
    and set: "\<And>t d v m m'. tokenizer_update R (k, t, d) m = Some m' \<Longrightarrow> value_of R t d = Some v \<Longrightarrow>
      Q v (g m')"
  shows "list_all2 (entry_ok L R) es xs \<Longrightarrow> distinct (map gme_key es) \<Longrightarrow>
    tokenizer_fold R xs m = Some m' \<Longrightarrow>
    (case find_metadata k es of None \<Rightarrow> g m' = g m | Some v \<Rightarrow> Q v (g m'))"
proof (induction es xs arbitrary: m rule: list_all2_induct)
  case (Cons e es x xs)
  obtain key t d where x: "x = (key, t, d)" by (cases x)
  from Cons.prems(2) obtain m1 where m1: "tokenizer_update R x m = Some m1"
    "tokenizer_fold R xs m1 = Some m'"
    unfolding tokenizer_fold.simps Option.bind_eq_Some_conv by blast
  have IH: "case find_metadata k es of None \<Rightarrow> g m' = g m1 | Some v \<Rightarrow> Q v (g m')"
    using Cons m1(2) by simp
  have e: "gme_key e = key" "value_of R t d = Some (gme_value e)"
    using Cons.hyps(1) by (simp_all add: x)
  show ?case
  proof (cases "key = k")
    case True
    have "find_metadata k zs = None" if "k \<notin> gme_key ` set zs" for zs
      using that by (induction zs) auto
    then have "find_metadata k es = None" using Cons.prems(1) e(1) True by simp
    moreover have "Q (gme_value e) (g m1)" using set [OF m1(1) [unfolded x True] e(2)] .
    ultimately show ?thesis using IH e(1) True by simp
  next
    case False
    with keep [OF m1(1)] IH e(1) show ?thesis by (auto simp: x split: option.splits)
  qed
qed simp

lemma fold_option_field:
  assumes "\<And>x m m'. tokenizer_update R x m = Some m' \<Longrightarrow> fst x \<noteq> k \<Longrightarrow> g m' = g m"
    and "\<And>t d v m m'. tokenizer_update R (k, t, d) m = Some m' \<Longrightarrow> value_of R t d = Some v \<Longrightarrow>
      g m' = val v"
    and "list_all2 (entry_ok L R) es xs" and "distinct (map gme_key es)"
    and "tokenizer_fold R xs empty_tokenizer_metadata = Some m"
    and "g empty_tokenizer_metadata = None"
  shows "g m = Option.bind (find_metadata k es) val"
proof -
  have "case find_metadata k es of None \<Rightarrow> g m = g empty_tokenizer_metadata | Some v \<Rightarrow> g m = val v"
    by (rule fold_field [where Q = "\<lambda>v x. x = val v", OF _ _ assms(3-5)]) (erule (1) assms(1), erule (1) assms(2))
  then show ?thesis using assms(6) by (simp split: option.splits)
qed

lemma fold_vector_field:
  assumes "\<And>x m m'. tokenizer_update R x m = Some m' \<Longrightarrow> fst x \<noteq> k \<Longrightarrow> g m' = g m"
    and "\<And>t d v m m'. tokenizer_update R (k, t, d) m = Some m' \<Longrightarrow> value_of R t d = Some v \<Longrightarrow>
      v = V_Array e (length (g m'))"
    and "list_all2 (entry_ok L R) es xs" and "distinct (map gme_key es)"
    and "tokenizer_fold R xs empty_tokenizer_metadata = Some m"
    and "g empty_tokenizer_metadata = []"
  shows "case find_metadata k es of None \<Rightarrow> g m = [] | Some v \<Rightarrow> v = V_Array e (length (g m))"
proof -
  have "case find_metadata k es of None \<Rightarrow> g m = g empty_tokenizer_metadata | Some v \<Rightarrow> v = V_Array e (length (g m))"
    by (rule fold_field [where Q = "\<lambda>v x. v = V_Array e (length x)", OF _ _ assms(3-5)]) (erule (1) assms(1), erule (1) assms(2))
  then show ?thesis using assms(6) by (simp split: option.splits)
qed

definition id_value :: "gguf_value \<Rightarrow> (32 word) option" where
  "id_value v = (case v of V_U32 w \<Rightarrow> Some w | V_U64 w \<Rightarrow> Some (ucast w) | _ \<Rightarrow> None)"

definition text_value :: "gguf_value \<Rightarrow> string option" where
  "text_value v = (case v of V_String s \<Rightarrow> Some s | _ \<Rightarrow> None)"

definition flag_value :: "gguf_value \<Rightarrow> bool option" where
  "flag_value v = (case v of V_Bool b \<Rightarrow> Some b | _ \<Rightarrow> None)"

lemma expected_of_u32:
  "expected_of expect_metadata_u32 R t k d = Some w \<Longrightarrow> value_of R t d = Some v \<Longrightarrow> id_value v = Some w"
  by (auto simp: expected_of_def Option.bind_eq_Some_conv expect_metadata_u32_def id_value_def
      split: gguf_value.splits)

lemma expected_of_string:
  "expected_of expect_metadata_string R t k d = Some s \<Longrightarrow> value_of R t d = Some v \<Longrightarrow>
    text_value v = Some s"
  by (auto simp: expected_of_def Option.bind_eq_Some_conv expect_metadata_string_def text_value_def
      split: gguf_value.splits)

lemma expected_of_bool:
  "expected_of expect_metadata_bool R t k d = Some b \<Longrightarrow> value_of R t d = Some v \<Longrightarrow> flag_value v = Some b"
  by (auto simp: expected_of_def Option.bind_eq_Some_conv expect_metadata_bool_def flag_value_def
      split: gguf_value.splits)

lemma vector_of_value:
  assumes "vector_of R t k e f d = Some xs" and "value_of R t d = Some v" and "e \<noteq> T_Bool"
  shows "v = V_Array e (length xs)"
proof (cases d)
  case (D_Arr e' ds)
  with assms show ?thesis
    by (auto simp: vector_of_def value_of_def array_value_def those_map_Some_iff
        split: if_split_asm dest: list_all2_lengthD)
qed (use assms in \<open>auto simp: vector_of_def split: if_split_asm\<close>)

text \<open>An entry changes the field of its key and no other.\<close>

lemma tokenizer_update_cases:
  assumes "tokenizer_update R x m = Some m'"
  shows "(fst x = ''tokenizer.ggml.tokens'' \<and> (\<exists>y. m' = m\<lparr>gt_tokens := y\<rparr>)) \<or>
    (fst x = ''tokenizer.ggml.scores'' \<and> (\<exists>y. m' = m\<lparr>gt_scores := y\<rparr>)) \<or>
    (fst x = ''tokenizer.ggml.token_type'' \<and> (\<exists>y. m' = m\<lparr>gt_token_types := y\<rparr>)) \<or>
    (fst x = ''tokenizer.ggml.merges'' \<and> (\<exists>y. m' = m\<lparr>gt_merges := y\<rparr>)) \<or>
    (fst x = ''tokenizer.ggml.bos_token_id'' \<and> (\<exists>y. m' = m\<lparr>gt_bos_token_id := y\<rparr>)) \<or>
    (fst x = ''tokenizer.ggml.eos_token_id'' \<and> (\<exists>y. m' = m\<lparr>gt_eos_token_id := y\<rparr>)) \<or>
    (fst x = ''tokenizer.ggml.unknown_token_id'' \<and> (\<exists>y. m' = m\<lparr>gt_unknown_token_id := y\<rparr>)) \<or>
    (fst x = ''tokenizer.ggml.padding_token_id'' \<and> (\<exists>y. m' = m\<lparr>gt_padding_token_id := y\<rparr>)) \<or>
    (fst x = ''tokenizer.ggml.mask_token_id'' \<and> (\<exists>y. m' = m\<lparr>gt_mask_token_id := y\<rparr>)) \<or>
    (fst x = ''tokenizer.ggml.model'' \<and> (\<exists>y. m' = m\<lparr>gt_model := y\<rparr>)) \<or>
    (fst x = ''tokenizer.chat_template'' \<and> (\<exists>y. m' = m\<lparr>gt_chat_template := y\<rparr>)) \<or>
    (fst x = ''tokenizer.ggml.add_bos_token'' \<and> (\<exists>y. m' = m\<lparr>gt_add_bos_token := y\<rparr>)) \<or>
    (fst x = ''tokenizer.ggml.add_space_prefix'' \<and> (\<exists>y. m' = m\<lparr>gt_add_space_prefix := y\<rparr>)) \<or> m' = m"
  using assms by (cases x; simp split: if_split_asm; auto)

lemma tokenizer_update_other:
  assumes "tokenizer_update R x m = Some m'"
  shows "fst x \<noteq> ''tokenizer.ggml.bos_token_id'' \<Longrightarrow> gt_bos_token_id m' = gt_bos_token_id m"
    and "fst x \<noteq> ''tokenizer.ggml.eos_token_id'' \<Longrightarrow> gt_eos_token_id m' = gt_eos_token_id m"
    and "fst x \<noteq> ''tokenizer.ggml.unknown_token_id'' \<Longrightarrow> gt_unknown_token_id m' = gt_unknown_token_id m"
    and "fst x \<noteq> ''tokenizer.ggml.padding_token_id'' \<Longrightarrow> gt_padding_token_id m' = gt_padding_token_id m"
    and "fst x \<noteq> ''tokenizer.ggml.mask_token_id'' \<Longrightarrow> gt_mask_token_id m' = gt_mask_token_id m"
    and "fst x \<noteq> ''tokenizer.ggml.model'' \<Longrightarrow> gt_model m' = gt_model m"
    and "fst x \<noteq> ''tokenizer.chat_template'' \<Longrightarrow> gt_chat_template m' = gt_chat_template m"
    and "fst x \<noteq> ''tokenizer.ggml.add_bos_token'' \<Longrightarrow> gt_add_bos_token m' = gt_add_bos_token m"
    and "fst x \<noteq> ''tokenizer.ggml.add_space_prefix'' \<Longrightarrow> gt_add_space_prefix m' = gt_add_space_prefix m"
    and "fst x \<noteq> ''tokenizer.ggml.tokens'' \<Longrightarrow> gt_tokens m' = gt_tokens m"
    and "fst x \<noteq> ''tokenizer.ggml.scores'' \<Longrightarrow> gt_scores m' = gt_scores m"
    and "fst x \<noteq> ''tokenizer.ggml.token_type'' \<Longrightarrow> gt_token_types m' = gt_token_types m"
    and "fst x \<noteq> ''tokenizer.ggml.merges'' \<Longrightarrow> gt_merges m' = gt_merges m"
  using assms
  by - (drule tokenizer_update_cases, elim disjE exE conjE; (erule (1) notE | (hypsubst, simp (no_asm))))+

lemma tokenizer_update_same:
  assumes "tokenizer_update R (k, t, d) m = Some m'" and "value_of R t d = Some v"
  shows "k = ''tokenizer.ggml.bos_token_id'' \<Longrightarrow> gt_bos_token_id m' = id_value v"
    and "k = ''tokenizer.ggml.eos_token_id'' \<Longrightarrow> gt_eos_token_id m' = id_value v"
    and "k = ''tokenizer.ggml.unknown_token_id'' \<Longrightarrow> gt_unknown_token_id m' = id_value v"
    and "k = ''tokenizer.ggml.padding_token_id'' \<Longrightarrow> gt_padding_token_id m' = id_value v"
    and "k = ''tokenizer.ggml.mask_token_id'' \<Longrightarrow> gt_mask_token_id m' = id_value v"
    and "k = ''tokenizer.ggml.model'' \<Longrightarrow> gt_model m' = text_value v"
    and "k = ''tokenizer.chat_template'' \<Longrightarrow> gt_chat_template m' = text_value v"
    and "k = ''tokenizer.ggml.add_bos_token'' \<Longrightarrow> gt_add_bos_token m' = flag_value v"
    and "k = ''tokenizer.ggml.add_space_prefix'' \<Longrightarrow> gt_add_space_prefix m' = flag_value v"
    and "k = ''tokenizer.ggml.tokens'' \<Longrightarrow> v = V_Array T_String (length (gt_tokens m'))"
    and "k = ''tokenizer.ggml.scores'' \<Longrightarrow> v = V_Array T_F32 (length (gt_scores m'))"
    and "k = ''tokenizer.ggml.token_type'' \<Longrightarrow> v = V_Array T_I32 (length (gt_token_types m'))"
    and "k = ''tokenizer.ggml.merges'' \<Longrightarrow> v = V_Array T_String (length (gt_merges m'))"
  using assms by (auto dest: expected_of_u32 expected_of_string expected_of_bool vector_of_value)

lemma fold_fields:
  assumes "list_all2 (entry_ok L R) es xs" and "distinct (map gme_key es)"
    and "tokenizer_fold R xs empty_tokenizer_metadata = Some m"
  shows "gt_bos_token_id m = Option.bind (find_metadata ''tokenizer.ggml.bos_token_id'' es) id_value"
    and "gt_eos_token_id m = Option.bind (find_metadata ''tokenizer.ggml.eos_token_id'' es) id_value"
    and "gt_unknown_token_id m = Option.bind (find_metadata ''tokenizer.ggml.unknown_token_id'' es) id_value"
    and "gt_padding_token_id m = Option.bind (find_metadata ''tokenizer.ggml.padding_token_id'' es) id_value"
    and "gt_mask_token_id m = Option.bind (find_metadata ''tokenizer.ggml.mask_token_id'' es) id_value"
    and "gt_model m = Option.bind (find_metadata ''tokenizer.ggml.model'' es) text_value"
    and "gt_chat_template m = Option.bind (find_metadata ''tokenizer.chat_template'' es) text_value"
    and "gt_add_bos_token m = Option.bind (find_metadata ''tokenizer.ggml.add_bos_token'' es) flag_value"
    and "gt_add_space_prefix m = Option.bind (find_metadata ''tokenizer.ggml.add_space_prefix'' es) flag_value"
    and "case find_metadata ''tokenizer.ggml.tokens'' es of None \<Rightarrow> gt_tokens m = []
      | Some v \<Rightarrow> v = V_Array T_String (length (gt_tokens m))"
    and "case find_metadata ''tokenizer.ggml.scores'' es of None \<Rightarrow> gt_scores m = []
      | Some v \<Rightarrow> v = V_Array T_F32 (length (gt_scores m))"
    and "case find_metadata ''tokenizer.ggml.token_type'' es of None \<Rightarrow> gt_token_types m = []
      | Some v \<Rightarrow> v = V_Array T_I32 (length (gt_token_types m))"
    and "case find_metadata ''tokenizer.ggml.merges'' es of None \<Rightarrow> gt_merges m = []
      | Some v \<Rightarrow> v = V_Array T_String (length (gt_merges m))"
  by (rule fold_option_field [OF _ _ assms] fold_vector_field [OF _ _ assms],
      erule (1) tokenizer_update_other, erule (1) tokenizer_update_same [OF _ _ refl],
      simp add: empty_tokenizer_metadata_def)+

text \<open>
  C27. Where a file passes both inspections and repeats no key, they agree on every field of the
  tokenizer metadata: the five token ids, the model name, the chat template and the two flags are
  the values the manifest holds under the same keys, and the tokens, scores, token types and merges
  are as many as the manifest counts in arrays of their types, and empty without such an array.
\<close>

theorem tokenizer_matches_manifest:
  assumes "inspect_gguf_with_limits R (Some bytes) L = Ok man"
    and "inspect_gguf_tokenizer_with_limits R (Some bytes) L = Ok m"
    and "length bytes \<le> max64" and "distinct (map gme_key (gm_metadata man))"
  shows "gt_bos_token_id m = Option.bind (metadata_value man ''tokenizer.ggml.bos_token_id'') id_value \<and>
    gt_eos_token_id m = Option.bind (metadata_value man ''tokenizer.ggml.eos_token_id'') id_value \<and>
    gt_unknown_token_id m = Option.bind (metadata_value man ''tokenizer.ggml.unknown_token_id'') id_value \<and>
    gt_padding_token_id m = Option.bind (metadata_value man ''tokenizer.ggml.padding_token_id'') id_value \<and>
    gt_mask_token_id m = Option.bind (metadata_value man ''tokenizer.ggml.mask_token_id'') id_value \<and>
    gt_model m = Option.bind (metadata_value man ''tokenizer.ggml.model'') text_value \<and>
    gt_chat_template m = Option.bind (metadata_value man ''tokenizer.chat_template'') text_value \<and>
    gt_add_bos_token m = Option.bind (metadata_value man ''tokenizer.ggml.add_bos_token'') flag_value \<and>
    gt_add_space_prefix m = Option.bind (metadata_value man ''tokenizer.ggml.add_space_prefix'') flag_value \<and>
    (case metadata_value man ''tokenizer.ggml.tokens'' of None \<Rightarrow> gt_tokens m = []
      | Some v \<Rightarrow> v = V_Array T_String (length (gt_tokens m))) \<and>
    (case metadata_value man ''tokenizer.ggml.scores'' of None \<Rightarrow> gt_scores m = []
      | Some v \<Rightarrow> v = V_Array T_F32 (length (gt_scores m))) \<and>
    (case metadata_value man ''tokenizer.ggml.token_type'' of None \<Rightarrow> gt_token_types m = []
      | Some v \<Rightarrow> v = V_Array T_I32 (length (gt_token_types m))) \<and>
    (case metadata_value man ''tokenizer.ggml.merges'' of None \<Rightarrow> gt_merges m = []
      | Some v \<Rightarrow> v = V_Array T_String (length (gt_merges m)))"
proof -
  from same_entries [OF assms(1,2,3)] obtain xs where
    xs: "list_all2 (entry_ok L R) (gm_metadata man) xs"
      "tokenizer_fold R xs empty_tokenizer_metadata = Some m" by blast
  show ?thesis unfolding metadata_value_def
    by (intro conjI fold_fields [OF xs(1) assms(4) xs(2)])
qed

section \<open>A small artifact\<close>

definition tokenizer_entries :: "gguf_entry list" where
  "tokenizer_entries =
     [(''tokenizer.ggml.tokens'', T_Array, D_Arr T_String [D_Str [97], D_Str [98]]),
      (''tokenizer.ggml.bos_token_id'', T_U32, D_Fixed [1, 0, 0, 0])]"

definition tokenizer_file :: "byte list" where
  "tokenizer_file = encode_doc tokenizer_entries [] @ replicate 30 0"

definition tokenizer_manifest :: gguf_manifest where
  "tokenizer_manifest =
     \<lparr>gm_version = 3,
      gm_metadata = [\<lparr>gme_key = ''tokenizer.ggml.tokens'', gme_value = V_Array T_String 2\<rparr>,
        \<lparr>gme_key = ''tokenizer.ggml.bos_token_id'', gme_value = V_U32 1\<rparr>],
      gm_tensors = [], gm_alignment = 32, gm_data_start = 160, gm_file_len = 160\<rparr>"

lemma length_tokenizer_doc: "length (encode_doc tokenizer_entries []) = 130"
  by (simp add: encode_doc_def encode_preamble_def tokenizer_entries_def)

lemma length_tokenizer_file: "length tokenizer_file = 160" "length tokenizer_file \<le> max64"
  by (simp_all add: tokenizer_file_def length_tokenizer_doc max64_def)

lemma tokenizer_names_ok:
  "list_all (\<lambda>x. valid_utf8 (bytes_of_text x)) [''tokenizer.ggml.tokens'', ''tokenizer.ggml.bos_token_id'', ''a'', ''b'']"
  by (simp add: bytes_of_text_def word_le_nat_alt)

lemma tokenizer_entries_ok:
  "list_all2 (entry_ok default_artifact_limits (\<lambda>_ _. True)) (gm_metadata tokenizer_manifest)
     tokenizer_entries"
  using tokenizer_names_ok
  by (simp add: tokenizer_manifest_def tokenizer_entries_def name_ok_def default_artifact_limits_def
      max64_def value_of_def array_value_def)

lemma tokenizer_inspected:
  "inspect_gguf_with_limits (\<lambda>_ _. True) (Some tokenizer_file) default_artifact_limits =
     Ok tokenizer_manifest"
proof (rule inspect_gguf_accepts [OF tokenizer_file_def _ _ length_tokenizer_file(2)])
  have "alignment_from_metadata (gm_metadata tokenizer_manifest) = Ok 32"
    by (simp add: alignment_from_metadata_def tokenizer_manifest_def default_alignment_def)
  then show "doc_ok default_artifact_limits (\<lambda>_ _. True) tokenizer_entries [] tokenizer_manifest"
    using tokenizer_entries_ok unfolding doc_ok_def length_tokenizer_doc
    by (simp add: tokenizer_manifest_def align_up_def default_artifact_limits_def
        supported_gguf_version_def consistent_artifact_limits_def tokenizer_entries_def)
qed (simp add: tokenizer_manifest_def length_tokenizer_file)

definition extracted :: gguf_tokenizer_metadata where
  "extracted = empty_tokenizer_metadata\<lparr>gt_tokens := [''a'', ''b''], gt_bos_token_id := Some 1\<rparr>"

lemma tokenizer_extracted_doc:
  "tokenizer_doc default_artifact_limits (\<lambda>_ _. True) tokenizer_file tokenizer_entries \<and>
   tokenizer_fold (\<lambda>_ _. True) tokenizer_entries empty_tokenizer_metadata = Some extracted"
proof
  have "tokenizer_file = encode_preamble 0 (length tokenizer_entries) @
      concat (map encode_entry tokenizer_entries) @ replicate 30 0"
    by (simp add: tokenizer_file_def encode_doc_def)
  moreover have "length (encode_preamble 0 (length tokenizer_entries) @
      concat (map encode_entry tokenizer_entries)) = 130"
    using length_tokenizer_doc by (simp add: encode_doc_def)
  moreover have "list_all (head_ok default_artifact_limits (\<lambda>_ _. True)) tokenizer_entries"
    by (rule entries_head_ok [OF tokenizer_entries_ok])
  ultimately show "tokenizer_doc default_artifact_limits (\<lambda>_ _. True) tokenizer_file tokenizer_entries"
    unfolding tokenizer_doc_def length_tokenizer_file(1)
    by (intro conjI exI [of _ 0] exI [of _ "replicate 30 0"])
      (simp_all add: default_artifact_limits_def tokenizer_entries_def consistent_artifact_limits_def)
  have letters: "text_of_bytes [97] = ''a''" "text_of_bytes [98] = ''b''"
    by (simp_all add: text_of_bytes_def char_of_def bit_0)
  show "tokenizer_fold (\<lambda>_ _. True) tokenizer_entries empty_tokenizer_metadata = Some extracted"
    by (simp add: tokenizer_entries_def vector_of_def expected_of_def value_of_def
        expect_metadata_u32_def extracted_def letters res_value_def)
qed

theorem inspect_tokenizer_exact_witness:
  "inspect_gguf_tokenizer_with_limits (\<lambda>_ _. True) (Some tokenizer_file) default_artifact_limits =
     Ok extracted"
  using inspect_tokenizer_exact [OF length_tokenizer_file(2), of "\<lambda>_ _. True" default_artifact_limits
      extracted] tokenizer_extracted_doc by blast

theorem tokenizer_matches_manifest_witness:
  "\<exists>man m. inspect_gguf_with_limits (\<lambda>_ _. True) (Some tokenizer_file) default_artifact_limits = Ok man \<and>
     inspect_gguf_tokenizer_with_limits (\<lambda>_ _. True) (Some tokenizer_file) default_artifact_limits = Ok m \<and>
     gt_bos_token_id m = Some 1 \<and>
     Option.bind (metadata_value man ''tokenizer.ggml.bos_token_id'') id_value = Some 1"
proof -
  have ok: "inspect_gguf_tokenizer_with_limits (\<lambda>_ _. True) (Some tokenizer_file)
      default_artifact_limits = Ok extracted"
    using inspect_tokenizer_iff [OF length_tokenizer_file(2)] tokenizer_extracted_doc by blast
  have "distinct (map gme_key (gm_metadata tokenizer_manifest))"
    by (simp add: tokenizer_manifest_def)
  from tokenizer_matches_manifest [OF tokenizer_inspected ok length_tokenizer_file(2) this]
  have "gt_bos_token_id extracted =
      Option.bind (metadata_value tokenizer_manifest ''tokenizer.ggml.bos_token_id'') id_value" by blast
  then show ?thesis using tokenizer_inspected ok by (auto simp: extracted_def)
qed

end
