(* ===== verification/Safetensors.thy ===== *)
theory Safetensors imports Byte_Codec F32_Bits
begin

text \<open>
  The safetensors loader: header inspection (src/crates/loader/src/safetensors_inspect.rs).
  A file is the list of its bytes, \<open>None\<close> when it cannot be opened. The JSON header parser
  (serde with the \<open>safetensors\<close> crate) is the parameter \<open>from_str\<close>: from the header text to
  the metadata it declares. The theorems give the exact file layout that is accepted.
\<close>

definition safetensors_header_len_bytes :: nat where
  "safetensors_header_len_bytes = 8"

definition safetensors_max_header_size :: nat where
  "safetensors_max_header_size = 100000000"

datatype supported_dtype = Sup_F32 | Sup_F16 | Sup_BF16

text \<open>The dtypes of the \<open>safetensors\<close> crate; \<open>Raw_Other\<close> is any it has beside the three.\<close>

datatype raw_dtype = Raw_F32 | Raw_F16 | Raw_BF16 | Raw_Other string

record tensor_entry =
  te_name :: string
  te_shape :: "usize list"
  te_dtype :: supported_dtype
  te_byte_range :: "usize \<times> usize"

record safetensors_manifest =
  sf_tensors :: "tensor_entry list"
  sf_data_len :: usize

text \<open>What the crate's \<open>Metadata\<close> answers: \<open>data_len\<close>, \<open>offset_keys\<close> and \<open>info\<close>.\<close>

record st_tensor_info =
  ti_dtype :: raw_dtype
  ti_shape :: "usize list"
  ti_data_offsets :: "usize \<times> usize"

record st_metadata =
  sm_data_len :: usize
  sm_offset_keys :: "string list"
  sm_info :: "string \<Rightarrow> st_tensor_info option"

definition invalid_safetensors_header :: "'a res" where
  "invalid_safetensors_header = Err (InvalidModel None)"

text \<open>\<open>read_exact\<close> at a position of the file: an early end is a truncated header.\<close>

definition read_exact_header_part :: "byte list \<Rightarrow> nat \<Rightarrow> nat \<Rightarrow> byte list res" where
  "read_exact_header_part bytes pos n =
     (if pos + n \<le> length bytes then Ok (take n (drop pos bytes))
      else invalid_safetensors_header)"

fun map_dtype :: "raw_dtype \<Rightarrow> supported_dtype res" where
  "map_dtype Raw_F32 = Ok Sup_F32"
| "map_dtype Raw_F16 = Ok Sup_F16"
| "map_dtype Raw_BF16 = Ok Sup_BF16"
| "map_dtype (Raw_Other other) = Err (Unsupported ''safetensors_dtype'')"

definition inspect_tensor :: "st_metadata \<Rightarrow> string \<Rightarrow> tensor_entry res" where
  "inspect_tensor metadata name =
     and_then (ok_or (sm_info metadata name) (InvalidModel (Some name))) (\<lambda>info.
     and_then (map_dtype (ti_dtype info)) (\<lambda>dtype.
       Ok \<lparr>te_name = name, te_shape = ti_shape info, te_dtype = dtype,
           te_byte_range = ti_data_offsets info\<rparr>))"

definition inspect_safetensors ::
    "(string \<Rightarrow> st_metadata option) \<Rightarrow> byte list option \<Rightarrow> safetensors_manifest res" where
  "inspect_safetensors from_str file =
     (case file of
        None \<Rightarrow> Err IoError
      | Some bytes \<Rightarrow>
          and_then (read_exact_header_part bytes 0 safetensors_header_len_bytes)
            (\<lambda>header_len_bytes.
          let header_len = le_nat header_len_bytes in
          if safetensors_max_header_size < header_len then invalid_safetensors_header
          else
            and_then (ok_or (checked_add safetensors_header_len_bytes header_len)
                       (InvalidModel None)) (\<lambda>header_end.
            if length bytes < header_end then invalid_safetensors_header
            else
              and_then (read_exact_header_part bytes safetensors_header_len_bytes header_len)
                (\<lambda>header_bytes.
              if \<not> valid_utf8 header_bytes then invalid_safetensors_header
              else
                and_then (ok_or (from_str (text_of_bytes header_bytes)) (InvalidModel None))
                  (\<lambda>metadata.
                and_then (ok_or (checked_add header_end (sm_data_len metadata))
                           (InvalidModel None)) (\<lambda>expected_file_len.
                if expected_file_len \<noteq> length bytes then invalid_safetensors_header
                else
                  and_then (try_map (inspect_tensor metadata) (sm_offset_keys metadata))
                    (\<lambda>tensors.
                    Ok \<lparr>sf_tensors = tensors, sf_data_len = sm_data_len metadata\<rparr>)))))))"

definition require_tensors :: "safetensors_manifest \<Rightarrow> string list \<Rightarrow> unit res" where
  "require_tensors manifest required =
     try_fold (\<lambda>_ name.
       if \<exists>t \<in> set (sf_tensors manifest). te_name t = name then Ok ()
       else Err (InvalidModel (Some name))) () required"

section \<open>What is accepted\<close>

lemma map_dtype_no_Panic [simp]: "map_dtype d \<noteq> Panic"
  by (cases d) simp_all

lemma inspect_tensor_no_Panic [simp]: "inspect_tensor md name \<noteq> Panic"
  by (auto simp: inspect_tensor_def res_simps)

lemma inspect_tensor_name: "inspect_tensor md name = Ok t \<Longrightarrow> te_name t = name"
  by (auto simp: inspect_tensor_def res_simps)

lemma require_tensors_Ok_iff:
  "require_tensors manifest names = Ok u \<longleftrightarrow> set names \<subseteq> te_name ` set (sf_tensors manifest)"
  by (induction names) (auto simp: require_tensors_def image_iff)

lemma require_tensors_no_Panic [simp]: "require_tensors manifest names \<noteq> Panic"
  by (induction names) (auto simp: require_tensors_def)

text \<open>The field of the error is a missing name.\<close>

lemma require_tensors_ErrD:
  "require_tensors manifest names = Err e \<Longrightarrow>
     \<exists>name \<in> set names. e = InvalidModel (Some name) \<and>
       name \<notin> te_name ` set (sf_tensors manifest)"
  by (induction names) (auto simp: require_tensors_def image_iff split: if_splits)

definition safetensors_file :: "byte list \<Rightarrow> byte list \<Rightarrow> byte list" where
  "safetensors_file header data = nat_le 8 (length header) @ header @ data"

lemma safetensors_file_parts:
  assumes "length header \<le> safetensors_max_header_size"
  shows "take 8 (safetensors_file header data) = nat_le 8 (length header)"
    and "le_nat (nat_le 8 (length header)) = length header"
    and "take (length header) (drop 8 (safetensors_file header data)) = header"
    and "length (safetensors_file header data) = 8 + length header + length data"
  using assms
  by (simp_all add: safetensors_file_def le_nat_nat_le safetensors_max_header_size_def)

lemma safetensors_file_split:
  assumes "8 + le_nat (take 8 bytes) \<le> length bytes"
  shows "bytes = safetensors_file (take (le_nat (take 8 bytes)) (drop 8 bytes))
    (drop (8 + le_nat (take 8 bytes)) bytes)"
proof -
  let ?n = "le_nat (take 8 bytes)"
  have "nat_le 8 ?n = take 8 bytes"
    using nat_le_le_nat [of "take 8 bytes"] assms by (simp add: min_absorb2)
  moreover have "take ?n (drop 8 bytes) @ drop (8 + ?n) bytes = drop 8 bytes"
    by (metis append_take_drop_id drop_drop add.commute)
  ultimately have "nat_le 8 ?n @ take ?n (drop 8 bytes) @ drop (8 + ?n) bytes = bytes"
    by (metis append_take_drop_id)
  then show ?thesis using assms by (simp add: safetensors_file_def min_absorb2)
qed

text \<open>
  C23. Header inspection accepts exactly the files that consist of an eight-byte
  little-endian length, that many bytes of UTF-8 header (at most 100,000,000) which the
  parser accepts, and exactly as many data bytes as the header declares, with every declared
  tensor of a supported dtype; the manifest lists the tensors in offset order. No file panics
  and the data bytes have no influence.
\<close>

theorem inspect_safetensors_exact:
  assumes "length bytes \<le> max64"
  shows "(inspect_safetensors from_str (Some bytes) = Ok manifest \<longleftrightarrow>
      (\<exists>header data metadata.
         bytes = safetensors_file header data \<and>
         length header \<le> safetensors_max_header_size \<and> valid_utf8 header \<and>
         from_str (text_of_bytes header) = Some metadata \<and>
         length data = sm_data_len metadata \<and> sf_data_len manifest = sm_data_len metadata \<and>
         list_all2 (\<lambda>name t. inspect_tensor metadata name = Ok t)
           (sm_offset_keys metadata) (sf_tensors manifest)))
    \<and> inspect_safetensors from_str (Some bytes) \<noteq> Panic"
proof
  show "inspect_safetensors from_str (Some bytes) \<noteq> Panic"
    by (auto simp: inspect_safetensors_def read_exact_header_part_def Let_def res_simps
        invalid_safetensors_header_def try_map_no_Panic)
  show "inspect_safetensors from_str (Some bytes) = Ok manifest \<longleftrightarrow>
      (\<exists>header data metadata.
         bytes = safetensors_file header data \<and>
         length header \<le> safetensors_max_header_size \<and> valid_utf8 header \<and>
         from_str (text_of_bytes header) = Some metadata \<and>
         length data = sm_data_len metadata \<and> sf_data_len manifest = sm_data_len metadata \<and>
         list_all2 (\<lambda>name t. inspect_tensor metadata name = Ok t)
           (sm_offset_keys metadata) (sf_tensors manifest))" (is "?ok \<longleftrightarrow> ?layout")
  proof
    assume ?ok
    then obtain md tensors where
      le: "8 + le_nat (take 8 bytes) \<le> length bytes"
        "le_nat (take 8 bytes) \<le> safetensors_max_header_size"
      and utf8: "valid_utf8 (take (le_nat (take 8 bytes)) (drop 8 bytes))"
      and md: "from_str (text_of_bytes (take (le_nat (take 8 bytes)) (drop 8 bytes))) = Some md"
      and len: "8 + le_nat (take 8 bytes) + sm_data_len md = length bytes"
      and tensors: "try_map (inspect_tensor md) (sm_offset_keys md) = Ok tensors"
      and man: "manifest = \<lparr>sf_tensors = tensors, sf_data_len = sm_data_len md\<rparr>"
      by (auto simp: inspect_safetensors_def read_exact_header_part_def Let_def res_simps
          invalid_safetensors_header_def safetensors_header_len_bytes_def not_less
          split: if_splits)
    show ?layout
      using safetensors_file_split [OF le(1)] le utf8 md len tensors
      by (intro exI [of _ "take (le_nat (take 8 bytes)) (drop 8 bytes)"]
          exI [of _ "drop (8 + le_nat (take 8 bytes)) bytes"] exI [of _ md])
        (simp add: man try_map_Ok_iff min_absorb2)
  next
    assume ?layout
    then obtain header data md where
      b: "bytes = safetensors_file header data" "length header \<le> safetensors_max_header_size"
        "valid_utf8 header" "from_str (text_of_bytes header) = Some md"
        "length data = sm_data_len md" "sf_data_len manifest = sm_data_len md"
        "try_map (inspect_tensor md) (sm_offset_keys md) = Ok (sf_tensors manifest)"
      by (auto simp: try_map_Ok_iff)
    then show ?ok
      using safetensors_file_parts(1,3,4) [OF b(2), of data] safetensors_file_parts(2) [OF b(2)] assms
      by (simp add: inspect_safetensors_def read_exact_header_part_def Let_def checked_add_def
          safetensors_header_len_bytes_def not_less)
  qed
qed

definition example_st_metadata :: st_metadata where
  "example_st_metadata =
     \<lparr>sm_data_len = 8, sm_offset_keys = [''w''],
      sm_info = (\<lambda>name. if name = ''w''
        then Some \<lparr>ti_dtype = Raw_F32, ti_shape = [2], ti_data_offsets = (0, 8)\<rparr> else None)\<rparr>"

theorem inspect_safetensors_exact_witness:
  "\<exists>manifest. inspect_safetensors (\<lambda>_. Some example_st_metadata)
     (Some (safetensors_file (bytes_of_text ''{}'') [0, 0, 128, 63, 0, 0, 0, 64])) = Ok manifest \<and>
   map te_name (sf_tensors manifest) = [''w'']"
proof -
  let ?header = "bytes_of_text ''{}''" and ?data = "[0, 0, 128, 63, 0, 0, 0, 64] :: byte list"
  let ?t = "\<lparr>te_name = ''w'', te_shape = [2], te_dtype = Sup_F32, te_byte_range = (0, 8)\<rparr>"
  let ?m = "\<lparr>sf_tensors = [?t], sf_data_len = 8\<rparr>"
  have len: "length ?header = 2" "length ?data = 8" by simp_all
  then have "length (safetensors_file ?header ?data) \<le> max64"
    by (simp add: safetensors_file_def max64_def)
  moreover have "valid_utf8 ?header" by (rule valid_utf8_ascii) (simp add: bytes_of_text_def)
  moreover have "list_all2 (\<lambda>name t. inspect_tensor example_st_metadata name = Ok t) [''w''] [?t]"
    by (simp add: inspect_tensor_def example_st_metadata_def)
  moreover have "sm_data_len example_st_metadata = 8" "sm_offset_keys example_st_metadata = [''w'']"
    by (simp_all add: example_st_metadata_def)
  ultimately have ok: "length (safetensors_file ?header ?data) \<le> max64"
    and layout: "length ?header \<le> safetensors_max_header_size \<and> valid_utf8 ?header \<and>
         Some example_st_metadata = Some example_st_metadata \<and>
         length ?data = sm_data_len example_st_metadata \<and>
         sf_data_len ?m = sm_data_len example_st_metadata \<and>
         list_all2 (\<lambda>name t. inspect_tensor example_st_metadata name = Ok t)
           (sm_offset_keys example_st_metadata) (sf_tensors ?m)"
    using len by (simp_all add: safetensors_max_header_size_def)
  from inspect_safetensors_exact [OF ok, of "\<lambda>_. Some example_st_metadata" ?m] layout
  have "inspect_safetensors (\<lambda>_. Some example_st_metadata)
      (Some (safetensors_file ?header ?data)) = Ok ?m" by blast
  then show ?thesis by (intro exI [of _ ?m]) simp
qed

end
