(* ===== verification/Safetensors_Values.thy ===== *)
theory Safetensors_Values imports Safetensors
begin

text \<open>
  Loading tensor values from a safetensors archive
  (src/crates/loader/src/safetensors_values.rs): the archive parser of the \<open>safetensors\<close>
  crate is the parameter \<open>deserialize\<close>; the decoding of the three dtypes to \<open>f32\<close> bits is
  modelled on the bytes. The lemmas show that decoding is total on whole elements and exact:
  every decoded value denotes the number the stored bits denote.
\<close>

section \<open>Decoding\<close>

text \<open>\<open>chunks_exact\<close>; the program uses it with sizes 2 and 4.\<close>

fun chunks_exact :: "nat \<Rightarrow> 'a list \<Rightarrow> 'a list list" where
  "chunks_exact n xs =
     (if n = 0 \<or> length xs < n then [] else take n xs # chunks_exact n (drop n xs))"

declare chunks_exact.simps [simp del]

definition exact_chunks :: "string \<Rightarrow> nat \<Rightarrow> byte list \<Rightarrow> byte list list res" where
  "exact_chunks tensor_name elem_size data =
     (if length data mod elem_size \<noteq> 0 then Err (InvalidModel (Some tensor_name))
      else Ok (chunks_exact elem_size data))"

definition decode_f32 :: "string \<Rightarrow> byte list \<Rightarrow> f32 list res" where
  "decode_f32 tensor_name data =
     and_then (exact_chunks tensor_name 4 data) (\<lambda>chunks.
       Ok (map (\<lambda>bytes. word_of_nat (le_nat bytes)) chunks))"

definition bf16_bits_to_f32 :: "16 word \<Rightarrow> f32" where
  "bf16_bits_to_f32 bits = push_bit 16 (ucast bits)"

definition decode_bf16 :: "string \<Rightarrow> byte list \<Rightarrow> f32 list res" where
  "decode_bf16 tensor_name data =
     and_then (exact_chunks tensor_name 2 data) (\<lambda>chunks.
       Ok (map (\<lambda>bytes. bf16_bits_to_f32 (word_of_nat (le_nat bytes))) chunks))"

text \<open>The loop that normalises a subnormal; it does not end when the fraction is zero.\<close>

partial_function (option) normalize_frac :: "32 word \<Rightarrow> int \<Rightarrow> (32 word \<times> int) option" where
  "normalize_frac frac_norm exp_unbiased =
     (if frac_norm AND 0x400 = 0
      then normalize_frac (push_bit 1 frac_norm) (exp_unbiased - 1)
      else Some (frac_norm, exp_unbiased))"

definition f16_bits_to_f32 :: "16 word \<Rightarrow> f32 option" where
  "f16_bits_to_f32 bits =
     (let sign = push_bit 16 (ucast (bits AND 0x8000)) :: 32 word;
          exp = drop_bit 10 bits AND 0x1F;
          frac = ucast (bits AND 0x3FF) :: 32 word in
      if exp = 0 then
        if frac = 0 then Some sign
        else
          (case normalize_frac frac (- 14) of
             None \<Rightarrow> None
           | Some (frac_norm, exp_unbiased) \<Rightarrow>
               let frac_norm = frac_norm AND 0x3FF;
                   exp32 = word_of_int (exp_unbiased + 127) :: 32 word in
               Some (sign OR push_bit 23 exp32 OR push_bit 13 frac_norm))
      else if exp = 0x1F then Some (sign OR 0x7F800000 OR push_bit 13 frac)
      else
        let exp32 = ucast exp + (127 - 15) :: 32 word in
        Some (sign OR push_bit 23 exp32 OR push_bit 13 frac))"

definition decode_f16 :: "string \<Rightarrow> byte list \<Rightarrow> f32 list res option" where
  "decode_f16 tensor_name data =
     (case exact_chunks tensor_name 2 data of
        Ok chunks \<Rightarrow>
          (let values = map (\<lambda>bytes. f16_bits_to_f32 (word_of_nat (le_nat bytes))) chunks in
           if None \<in> set values then None else Some (Ok (map the values)))
      | Err e \<Rightarrow> Some (Err e)
      | Panic \<Rightarrow> Some Panic)"

text \<open>
  Loading by name. What the \<open>safetensors\<close> crate parses out of the bytes of a file is the lookup
  of a tensor's dtype, shape and data by its name.
\<close>

record st_tensor =
  st_dtype :: raw_dtype
  st_shape :: "usize list"
  st_data :: "byte list"

type_synonym st_archive = "string \<Rightarrow> st_tensor option"

record loaded_tensor =
  lt_name :: string
  lt_shape :: "usize list"
  lt_dtype :: supported_dtype
  lt_values :: "f32 list"

definition decode_values :: "supported_dtype \<Rightarrow> string \<Rightarrow> byte list \<Rightarrow> f32 list res option" where
  "decode_values dtype tensor_name data =
     (case dtype of
        Sup_F32 \<Rightarrow> Some (decode_f32 tensor_name data)
      | Sup_BF16 \<Rightarrow> Some (decode_bf16 tensor_name data)
      | Sup_F16 \<Rightarrow> decode_f16 tensor_name data)"

definition load_tensor_from_archive :: "st_archive \<Rightarrow> string \<Rightarrow> loaded_tensor res option" where
  "load_tensor_from_archive tensors tensor_name =
     (case tensors tensor_name of
        None \<Rightarrow> Some (Err (InvalidModel (Some tensor_name)))
      | Some tensor \<Rightarrow>
          (case map_dtype (st_dtype tensor) of
             Ok dtype \<Rightarrow>
               map_option (\<lambda>decoded. and_then decoded (\<lambda>values.
                   Ok \<lparr>lt_name = tensor_name, lt_shape = st_shape tensor, lt_dtype = dtype,
                       lt_values = values\<rparr>))
                 (decode_values dtype tensor_name (st_data tensor))
           | Err e \<Rightarrow> Some (Err e)
           | Panic \<Rightarrow> Some Panic))"

text \<open>\<open>collect\<close> into a \<open>Result\<close>: the names after the first failing one are not looked at.\<close>

fun load_tensors_in_order :: "st_archive \<Rightarrow> string list \<Rightarrow> loaded_tensor list res option" where
  "load_tensors_in_order tensors [] = Some (Ok [])"
| "load_tensors_in_order tensors (name # names) =
     (case load_tensor_from_archive tensors name of
        None \<Rightarrow> None
      | Some (Ok t) \<Rightarrow>
          map_option (\<lambda>rest. and_then rest (\<lambda>ts. Ok (t # ts))) (load_tensors_in_order tensors names)
      | Some (Err e) \<Rightarrow> Some (Err e)
      | Some Panic \<Rightarrow> Some Panic)"

definition load_safetensors_tensors_f32 ::
    "(byte list \<Rightarrow> st_archive option) \<Rightarrow> byte list option \<Rightarrow> string list \<Rightarrow>
      loaded_tensor list res option" where
  "load_safetensors_tensors_f32 deserialize file tensor_names =
     (case file of
        None \<Rightarrow> Some (Err IoError)
      | Some bytes \<Rightarrow>
          (case deserialize bytes of
             None \<Rightarrow> Some (Err (InvalidModel None))
           | Some tensors \<Rightarrow> load_tensors_in_order tensors tensor_names))"

definition load_safetensors_tensor_f32 ::
    "(byte list \<Rightarrow> st_archive option) \<Rightarrow> byte list option \<Rightarrow> string \<Rightarrow>
      loaded_tensor res option" where
  "load_safetensors_tensor_f32 deserialize file tensor_name =
     (case file of
        None \<Rightarrow> Some (Err IoError)
      | Some bytes \<Rightarrow>
          (case deserialize bytes of
             None \<Rightarrow> Some (Err (InvalidModel None))
           | Some tensors \<Rightarrow> load_tensor_from_archive tensors tensor_name))"

section \<open>Half precision to single precision\<close>

text \<open>The magnitude of a finite half-precision number, in units of the smallest one.\<close>

definition f16_units :: "nat \<Rightarrow> nat" where
  "f16_units g = (if g div 2 ^ 10 = 0 then g mod 2 ^ 10
                  else (2 ^ 10 + g mod 2 ^ 10) * 2 ^ (g div 2 ^ 10 - 1))"

definition f16_rat :: "16 word \<Rightarrow> rat" where
  "f16_rat x =
     (let v = of_nat (f16_units (unat x mod 2 ^ 15)) * (1 / 2 ^ 24) in
      if 2 ^ 15 \<le> unat x then - v else v)"

lemma int_or_field: "0 \<le> y \<Longrightarrow> y < 2 ^ n \<Longrightarrow> (x * 2 ^ n) OR y = x * 2 ^ n + (y :: int)"
  using concat_bit_eq [of n y x] concat_bit_def [of n y x]
  by (simp add: take_bit_int_eq_self push_bit_eq_mult or.commute add.commute)

lemma f32_fields:
  fixes sign a b :: "32 word"
  assumes "unat sign = s * 2 ^ 31" and "s < 2" and "unat a < 256" and "unat b < 1024"
  shows "unat (sign OR push_bit 23 a OR push_bit 13 b) =
    s * 2 ^ 31 + (unat a * 2 ^ 23 + unat b * 2 ^ 13)"
proof -
  have "int (unat a) < int 256" "int (unat b) < int 1024"
    using assms(3,4) by (simp_all only: of_nat_less_iff)
  then have bounds: "0 \<le> uint a" "uint a < 256" "0 \<le> uint b" "uint b < 1024" by simp_all
  have a: "uint (push_bit 23 a) = uint a * 2 ^ 23"
    using bounds by (simp add: push_bit_eq_mult uint_word_ariths)
  have b: "uint (push_bit 13 b) = uint b * 2 ^ 13"
    using bounds by (simp add: push_bit_eq_mult uint_word_ariths)
  have s: "uint sign = int s * 2 ^ 31" 
    using arg_cong [OF assms(1), of int] by simp
  have "uint (push_bit 23 a OR push_bit 13 b) = uint a * 2 ^ 23 + uint b * 2 ^ 13"
    unfolding unsigned_or_eq a b using bounds by (intro int_or_field) auto
  then have "uint (sign OR push_bit 23 a OR push_bit 13 b) =
      int s * 2 ^ 31 + (uint a * 2 ^ 23 + uint b * 2 ^ 13)"
    unfolding unsigned_or_eq s using bounds by (simp only: unsigned_or_eq) (intro int_or_field, auto)
  then have "int (unat (sign OR push_bit 23 a OR push_bit 13 b)) =
      int (s * 2 ^ 31 + (unat a * 2 ^ 23 + unat b * 2 ^ 13))" by simp
  then show ?thesis by (simp only: of_nat_eq_iff)
qed

lemma bit10_iff:
  assumes "unat (x :: 32 word) < 2048"
  shows "x AND 0x400 = 0 \<longleftrightarrow> unat x < 1024"
proof -
  have "x AND 0x400 = 0 \<longleftrightarrow> \<not> bit x 10" using and_exp_eq_0_iff_not_bit [of x 10] by simp
  also have "\<dots> \<longleftrightarrow> even (unat x div 1024)"
  proof -
    have "bit (unat x) 10 \<longleftrightarrow> bit x 10" by (simp add: bit_unsigned_iff)
    moreover have "bit (unat x) 10 \<longleftrightarrow> odd (unat x div 1024)" by (simp add: bit_iff_odd)
    ultimately show ?thesis by blast
  qed
  also have "\<dots> \<longleftrightarrow> unat x < 1024"
  proof
    assume e: "even (unat x div 1024)"
    have "unat x div 1024 < 2" using assms by (simp add: less_mult_imp_div_less)
    with e have "unat x div 1024 = 0" by (cases "unat x div 1024") auto
    then show "unat x < 1024" by simp
  qed simp
  finally show ?thesis .
qed

lemma normalize_frac_result:
  assumes "0 < unat m" and "unat m < 2048"
  shows "\<exists>k m'. normalize_frac m e = Some (m', e - int k) \<and> unat m' = unat m * 2 ^ k \<and>
    1024 \<le> unat m' \<and> unat m' < 2048"
  using assms
proof (induction "2048 - unat m" arbitrary: m e rule: less_induct)
  case less
  show ?case
  proof (cases "unat m < 1024")
    case False
    with less.prems show ?thesis
      by (intro exI [of _ 0] exI [of _ m], subst normalize_frac.simps)
        (simp add: bit10_iff)
  next
    case True
    have dbl: "unat (m * 2) = 2 * unat m"
      using True by (simp add: unat_word_ariths)
    have "2048 - unat (m * 2) < 2048 - unat m" "0 < unat (m * 2)" "unat (m * 2) < 2048"
      using True less.prems by (simp_all add: dbl)
    from less.hyps [OF this, of "e - 1"] obtain k m' where
      IH: "normalize_frac (m * 2) (e - 1) = Some (m', e - 1 - int k)"
        "unat m' = 2 * unat m * 2 ^ k" "1024 \<le> unat m'" "unat m' < 2048"
      unfolding dbl by blast
    moreover have "normalize_frac m e = normalize_frac (m * 2) (e - 1)"
      using True less.prems by (subst normalize_frac.simps) (simp add: bit10_iff)
    ultimately show ?thesis by (intro exI [of _ "Suc k"] exI [of _ m']) simp
  qed
qed

lemma word_and_exp: "x AND 2 ^ k = (if bit x k then 2 ^ k else 0)" for x :: "'a :: len word"
  by (rule bit_word_eqI) (auto simp: bit_and_iff bit_exp_iff)

lemma f16_fields:
  fixes bits :: "16 word"
  defines "g \<equiv> unat bits mod 2 ^ 15"
  shows "unat (push_bit 16 (ucast (bits AND 0x8000)) :: 32 word) =
      (if 2 ^ 15 \<le> unat bits then 1 else 0) * 2 ^ 31"
    and "unat (drop_bit 10 bits AND 0x1F) = g div 2 ^ 10"
    and "unat (ucast (bits AND 0x3FF) :: 32 word) = g mod 2 ^ 10"
proof -
  have frac: "bits AND 0x3FF = take_bit 10 bits" by (simp add: take_bit_eq_mask mask_eq_exp_minus_1)
  have "unat (bits AND 0x3FF) = unat bits mod 2 ^ 10"
    unfolding frac by (simp only: unsigned_take_bit_eq) (simp only: take_bit_eq_mod)
  moreover have "unat bits mod 2 ^ 10 = g mod 2 ^ 10"
    unfolding g_def by (simp add: mod_mod_cancel)
  ultimately show "unat (ucast (bits AND 0x3FF) :: 32 word) = g mod 2 ^ 10"
    by (simp add: unsigned_ucast_eq take_bit_nat_eq_self)
  have exp: "drop_bit 10 bits AND 0x1F = take_bit 5 (drop_bit 10 bits)"
    by (simp add: take_bit_eq_mask mask_eq_exp_minus_1)
  have "unat (drop_bit 10 bits AND 0x1F) = unat bits div 2 ^ 10 mod 2 ^ 5"
    unfolding exp
    using unsigned_less [of bits, where ?'a = nat]
    by (simp only: unsigned_take_bit_eq unsigned_drop_bit_eq)
      (simp add: take_bit_eq_mod drop_bit_eq_div)
  also have "\<dots> = g div 2 ^ 10"
  proof -
    have "unat bits mod (2 ^ 10 * 2 ^ 5) =
        2 ^ 10 * (unat bits div 2 ^ 10 mod 2 ^ 5) + unat bits mod 2 ^ 10"
      by (rule mod_mult2_eq)
    then show ?thesis unfolding g_def by simp
  qed
  finally show "unat (drop_bit 10 bits AND 0x1F) = g div 2 ^ 10" .
  show "unat (push_bit 16 (ucast (bits AND 0x8000)) :: 32 word) =
      (if 2 ^ 15 \<le> unat bits then 1 else 0) * 2 ^ 31"
  proof -
    have "bits AND 2 ^ 15 = (if bit bits 15 then 2 ^ 15 else 0)" by (rule word_and_exp)
    moreover have "bit bits 15 \<longleftrightarrow> 2 ^ 15 \<le> unat bits"
    proof -
      have "unat bits < 2 * 2 ^ 15" using unsigned_less [of bits, where ?'a = nat] by simp
      then have d: "unat bits div 2 ^ 15 < 2" by (rule less_mult_imp_div_less)
      have "bit bits 15 \<longleftrightarrow> bit (unat bits) 15" by (simp add: bit_unsigned_iff)
      also have "\<dots> \<longleftrightarrow> odd (unat bits div 2 ^ 15)" by (simp only: bit_iff_odd)
      also have "\<dots> \<longleftrightarrow> 2 ^ 15 \<le> unat bits"
      proof (cases "unat bits div 2 ^ 15 = 0")
        case True
        then show ?thesis by simp
      next
        case False
        with d have one: "unat bits div 2 ^ 15 = 1" by linarith
        then have "\<not> unat bits < 2 ^ 15" by (metis div_less zero_neq_one)
        with one show ?thesis by simp
      qed
      finally show ?thesis .
    qed
    ultimately show ?thesis by simp
  qed
qed

text \<open>A number with the given fields: its sign, its magnitude and the class it is in.\<close>

lemma f32_of_fields:
  assumes "unat (x :: f32) = s * 2 ^ 31 + (e * 2 ^ 23 + m * 2 ^ 13)"
    and "s < 2" and "e < 256" and "m < 1024"
  shows "f32_magnitude x = e * 2 ^ 23 + m * 2 ^ 13" and "f32_negative x \<longleftrightarrow> s = 1"
proof -
  have "e * 2 ^ 23 + m * 2 ^ 13 < 2 ^ 31" using assms(3,4) by simp
  with assms show "f32_magnitude x = e * 2 ^ 23 + m * 2 ^ 13" "f32_negative x \<longleftrightarrow> s = 1"
    by (auto simp: f32_magnitude_def f32_negative_def less_2_cases_iff)
qed

lemma field_div_mod:
  assumes "m < (1024 :: nat)"
  shows "(e * 2 ^ 23 + m * 2 ^ 13) div 2 ^ 23 = e" "(e * 2 ^ 23 + m * 2 ^ 13) mod 2 ^ 23 = m * 2 ^ 13"
  using assms by simp_all

lemma f32_units_fields:
  assumes "0 < e" and "m < (1024 :: nat)"
  shows "f32_units (e * 2 ^ 23 + m * 2 ^ 13) = (1024 + m) * 2 ^ 13 * 2 ^ (e - 1)"
proof -
  have "2 ^ 23 + m * 2 ^ 13 = (1024 + m) * 2 ^ 13" by simp
  then show ?thesis
    unfolding f32_units_def field_div_mod [OF assms(2)] using assms(1) by simp
qed

text \<open>What the conversion returns, in terms of the fields of the half-precision number.\<close>

lemma f16_bits_to_f32_fields:
  fixes bits :: "16 word"
  defines "g \<equiv> unat bits mod 2 ^ 15" and "s \<equiv> (if 2 ^ 15 \<le> unat bits then 1 else 0 :: nat)"
  shows "\<exists>x. f16_bits_to_f32 bits = Some x \<and> (f32_negative x \<longleftrightarrow> s = 1) \<and>
    (if g div 2 ^ 10 = 31 then f32_magnitude x = 255 * 2 ^ 23 + g mod 2 ^ 10 * 2 ^ 13
     else f32_is_finite x \<and> f32_units (f32_magnitude x) = f16_units g * 2 ^ 125)"
proof -
  define sign frac :: "32 word" where "sign = push_bit 16 (ucast (bits AND 0x8000))"
    and "frac = ucast (bits AND 0x3FF)"
  define exp where "exp = drop_bit 10 bits AND 0x1F"
  have sign: "unat sign = s * 2 ^ 31" and exp: "unat exp = g div 2 ^ 10"
    and frac: "unat frac = g mod 2 ^ 10"
    unfolding sign_def exp_def frac_def g_def s_def by (rule f16_fields)+
  have s2: "s < 2" and s01: "s = 0 \<or> s = 1" by (simp_all add: s_def)
  have m: "unat frac < 1024" by (simp add: frac)
  have e: "g div 2 ^ 10 < 32" by (simp add: g_def less_mult_imp_div_less)
  have call: "f16_bits_to_f32 bits =
     (if exp = 0 then
        if frac = 0 then Some sign
        else
          (case normalize_frac frac (- 14) of
             None \<Rightarrow> None
           | Some (frac_norm, exp_unbiased) \<Rightarrow>
               Some (sign OR push_bit 23 (word_of_int (exp_unbiased + 127)) OR
                 push_bit 13 (frac_norm AND 0x3FF)))
      else if exp = 0x1F then Some (sign OR 0x7F800000 OR push_bit 13 frac)
      else Some (sign OR push_bit 23 (ucast exp + (127 - 15)) OR push_bit 13 frac))"
    unfolding f16_bits_to_f32_def Let_def sign_def [symmetric] frac_def [symmetric]
      exp_def [symmetric] ..
  have exp0: "exp = 0 \<longleftrightarrow> g div 2 ^ 10 = 0" and exp31: "exp = 0x1F \<longleftrightarrow> g div 2 ^ 10 = 31"
    unfolding exp [symmetric] word_unat_eq_iff by simp_all
  have frac0: "frac = 0 \<longleftrightarrow> g mod 2 ^ 10 = 0"
    unfolding frac [symmetric] word_unat_eq_iff by simp
  consider (zero) "g div 2 ^ 10 = 0" "g mod 2 ^ 10 = 0"
    | (sub) "g div 2 ^ 10 = 0" "0 < g mod 2 ^ 10"
    | (special) "g div 2 ^ 10 = 31"
    | (normal) "0 < g div 2 ^ 10" "g div 2 ^ 10 < 31" using e by linarith
  then show ?thesis
  proof cases
    case zero
    have "f16_bits_to_f32 bits = Some sign" using zero by (simp add: call exp0 frac0)
    moreover have "f32_magnitude sign = 0" "f32_negative sign \<longleftrightarrow> s = 1"
      using f32_of_fields [of sign s 0 0] sign s2 by auto
    ultimately show ?thesis using zero
      by (simp add: f32_is_finite_def f32_units_def f16_units_def)
  next
    case sub
    obtain k m' where norm: "normalize_frac frac (- 14) = Some (m', - 14 - int k)"
      "unat m' = unat frac * 2 ^ k" "1024 \<le> unat m'" "unat m' < 2048"
      using normalize_frac_result [of frac "- 14"] sub frac m by auto
    have k: "k \<le> 10"
    proof (rule ccontr)
      assume "\<not> k \<le> 10"
      then have "2 ^ 11 \<le> (2 :: nat) ^ k" by (intro power_increasing) auto
      moreover have "1 * 2 ^ k \<le> unat frac * 2 ^ k" using sub frac by (intro mult_le_mono) auto
      ultimately show False using norm(2,4) by simp
    qed
    have low: "m' AND 0x3FF = take_bit 10 m'" by (simp add: take_bit_eq_mask mask_eq_exp_minus_1)
    have low10: "unat (m' AND 0x3FF) = unat m' - 1024"
    proof -
      have "unat (m' AND 0x3FF) = unat m' mod 2 ^ 10"
        unfolding low by (simp only: unsigned_take_bit_eq) (simp only: take_bit_eq_mod)
      also have "\<dots> = unat m' - 1024" using norm(3,4) by (simp add: mod_if)
      finally show ?thesis .
    qed
    define w :: "32 word" where "w = word_of_int (- 14 - int k + 127)"
    have "(- 14 - int k + 127) = int (113 - k)" using k by simp
    then have "w = word_of_nat (113 - k)" unfolding w_def by (simp only: of_int_of_nat_eq)
    moreover have "113 - k < 2 ^ 32" by simp
    ultimately have e32: "unat w = 113 - k" by (simp only: unat_of_nat) (simp add: mod_less)
    let ?x = "sign OR push_bit 23 w OR push_bit 13 (m' AND 0x3FF)"
    have x: "unat ?x = s * 2 ^ 31 + ((113 - k) * 2 ^ 23 + (unat m' - 1024) * 2 ^ 13)"
      using f32_fields [OF sign s2, of w "m' AND 0x3FF"] e32 low10 norm(4) by simp
    have fields: "f32_magnitude ?x = (113 - k) * 2 ^ 23 + (unat m' - 1024) * 2 ^ 13"
      "f32_negative ?x \<longleftrightarrow> s = 1"
      using f32_of_fields [OF x s2] norm(4) by simp_all
    have "f32_units (f32_magnitude ?x) = (1024 + (unat m' - 1024)) * 2 ^ 13 * 2 ^ (113 - k - 1)"
      unfolding fields(1) using k norm(4) by (intro f32_units_fields) auto
    also have "\<dots> = unat frac * (2 ^ k * 2 ^ 13 * 2 ^ (112 - k))" using norm(2,3) by simp
    also have "\<dots> = unat frac * 2 ^ 125" using k by (simp flip: power_add)
    finally have units: "f32_units (f32_magnitude ?x) = f16_units g * 2 ^ 125"
      using sub by (simp add: f16_units_def frac)
    have "f32_is_finite ?x" unfolding f32_is_finite_def fields(1) using norm(4) by simp
    moreover have "f16_bits_to_f32 bits = Some ?x"
      using sub unfolding call norm(1) w_def by (simp add: exp0 frac0)
    ultimately show ?thesis using fields units sub by simp
  next
    case special
    let ?x = "sign OR 0x7F800000 OR push_bit 13 frac"
    have "(0x7F800000 :: 32 word) = push_bit 23 255" by simp
    then have x: "unat ?x = s * 2 ^ 31 + (255 * 2 ^ 23 + g mod 2 ^ 10 * 2 ^ 13)"
      using f32_fields [OF sign s2, of 255 frac] m frac by simp
    have "f32_magnitude ?x = 255 * 2 ^ 23 + g mod 2 ^ 10 * 2 ^ 13" "f32_negative ?x \<longleftrightarrow> s = 1"
      using f32_of_fields [OF x s2] by simp_all
    moreover have "exp \<noteq> 0" "exp = 0x1F" using special exp0 exp31 by simp_all
    ultimately show ?thesis using special unfolding call by simp
  next
    case normal
    let ?e = "ucast exp + (127 - 15) :: 32 word"
    have e32: "unat ?e = g div 2 ^ 10 + 112"
      using normal(2) exp by (simp add: unat_word_ariths unsigned_ucast_eq take_bit_nat_eq_self)
    let ?x = "sign OR push_bit 23 ?e OR push_bit 13 frac"
    have x: "unat ?x = s * 2 ^ 31 + ((g div 2 ^ 10 + 112) * 2 ^ 23 + g mod 2 ^ 10 * 2 ^ 13)"
      using f32_fields [OF sign s2, of ?e frac] e32 m frac normal(2) by simp
    have fields: "f32_magnitude ?x = (g div 2 ^ 10 + 112) * 2 ^ 23 + g mod 2 ^ 10 * 2 ^ 13"
      "f32_negative ?x \<longleftrightarrow> s = 1"
      using f32_of_fields [OF x s2] normal(2) by simp_all
    obtain d where d: "g div 2 ^ 10 = Suc d" using normal(1) by (cases "g div 2 ^ 10") auto
    have "f32_units (f32_magnitude ?x) =
        (1024 + g mod 2 ^ 10) * 2 ^ 13 * 2 ^ (g div 2 ^ 10 + 112 - 1)"
      unfolding fields(1) by (intro f32_units_fields) auto
    also have "\<dots> = f16_units g * 2 ^ 125"
    proof -
      have "g div 2 ^ 10 + 112 - 1 = d + 112" using d by linarith
      moreover have "(2 :: nat) ^ 13 * 2 ^ (d + 112) = 2 ^ d * 2 ^ 125" by (simp add: power_add)
      moreover have "f16_units g = (1024 + g mod 2 ^ 10) * 2 ^ d"
        unfolding f16_units_def by (simp only: d) simp
      ultimately show ?thesis by (simp only: mult.assoc)
    qed
    finally have units: "f32_units (f32_magnitude ?x) = f16_units g * 2 ^ 125" .
    have "f32_is_finite ?x" unfolding f32_is_finite_def fields(1) using normal(2) by simp
    moreover have "exp \<noteq> 0" "exp \<noteq> 0x1F" using normal exp0 exp31 by simp_all
    ultimately show ?thesis using fields units normal unfolding call by simp
  qed
qed

text \<open>
  The conversion of half precision to single precision returns for every one of the 65536
  bit patterns (its normalisation loop ends), keeps the sign, and is exact: a finite number
  denotes the same rational, and an infinity or a NaN stays one with its payload.
\<close>

theorem f16_conversion_exact:
  "\<exists>x. f16_bits_to_f32 bits = Some x \<and> (f32_negative x \<longleftrightarrow> 2 ^ 15 \<le> unat bits) \<and>
    (if unat bits mod 2 ^ 15 div 2 ^ 10 = 31
     then f32_magnitude x = 255 * 2 ^ 23 + unat bits mod 2 ^ 10 * 2 ^ 13
     else f32_is_finite x \<and> f32_rat x = f16_rat bits)"
proof -
  let ?g = "unat bits mod 2 ^ 15"
  obtain x where x: "f16_bits_to_f32 bits = Some x"
    and sign: "f32_negative x \<longleftrightarrow> 2 ^ 15 \<le> unat bits"
    and cls: "if ?g div 2 ^ 10 = 31 then f32_magnitude x = 255 * 2 ^ 23 + ?g mod 2 ^ 10 * 2 ^ 13
       else f32_is_finite x \<and> f32_units (f32_magnitude x) = f16_units ?g * 2 ^ 125"
    using f16_bits_to_f32_fields [of bits] by (auto split: if_splits)
  have "?g mod 2 ^ 10 = unat bits mod 2 ^ 10" by (simp add: mod_mod_cancel)
  moreover have "f32_rat x = f16_rat bits"
    if u: "f32_units (f32_magnitude x) = f16_units ?g * 2 ^ 125"
  proof -
    have "of_nat (f16_units ?g * 2 ^ 125) * (1 / 2 ^ 149) = (of_nat (f16_units ?g) * (1 / 2 ^ 24) :: rat)"
      by simp
    then show ?thesis by (simp only: f32_rat_units f16_rat_def u sign Let_def)
  qed
  ultimately show ?thesis using x sign cls by (auto split: if_splits)
qed

section \<open>Whole tensors\<close>

definition f32_le_bytes :: "f32 list \<Rightarrow> byte list" where
  "f32_le_bytes xs = concat (map (\<lambda>x. nat_le 4 (unat x)) xs)"

lemma chunks_exact_step:
  "0 < n \<Longrightarrow> length c = n \<Longrightarrow> chunks_exact n (c @ xs) = c # chunks_exact n xs"
  by (subst chunks_exact.simps) simp

lemma chunks_exact_concat:
  "0 < n \<Longrightarrow> \<forall>c \<in> set cs. length c = n \<Longrightarrow> chunks_exact n (concat cs) = cs"
  by (induction cs) (auto simp: chunks_exact_step chunks_exact.simps [of n "[]"])

lemma chunks_exact_partition:
  "0 < n \<Longrightarrow> n dvd length xs \<Longrightarrow>
    concat (chunks_exact n xs) = xs \<and> (\<forall>c \<in> set (chunks_exact n xs). length c = n)"
proof (induction n xs rule: chunks_exact.induct)
  case (1 n xs)
  show ?case
  proof (cases "length xs < n")
    case True
    then have "xs = []" using 1(2,3) by (auto dest: dvd_imp_le)
    with 1(2) show ?thesis by (simp add: chunks_exact.simps [of n "[]"])
  next
    case False
    then have "n dvd length (drop n xs)" using 1(3) by (simp add: dvd_diff_nat)
    then have "concat (chunks_exact n (drop n xs)) = drop n xs \<and>
        (\<forall>c \<in> set (chunks_exact n (drop n xs)). length c = n)"
      using 1(1,2) False by blast
    moreover have "chunks_exact n xs = take n xs # chunks_exact n (drop n xs)"
      using 1(2) False by (subst chunks_exact.simps) simp
    moreover have "length (take n xs) = n" using False by simp
    ultimately show ?thesis
      by (simp only: concat.simps append_take_drop_id list.set ball_simps refl simp_thms) blast
  qed
qed

lemma length_chunks_exact: "0 < n \<Longrightarrow> length (chunks_exact n xs) = length xs div n"
proof (induction n xs rule: chunks_exact.induct)
  case (1 n xs)
  show ?case
  proof (cases "length xs < n")
    case True
    with 1(2) show ?thesis by (subst chunks_exact.simps) simp
  next
    case False
    then have "length (chunks_exact n (drop n xs)) = (length xs - n) div n" using 1 by simp
    moreover have "chunks_exact n xs = take n xs # chunks_exact n (drop n xs)"
      using 1(2) False by (subst chunks_exact.simps) simp
    ultimately show ?thesis using 1(2) False by (simp add: le_div_geq)
  qed
qed

text \<open>
  C24. Decoding an \<open>f32\<close> tensor inverts its little-endian encoding: the decoder returns the
  values \<open>xs\<close> exactly on the bytes of \<open>xs\<close>, so no value is lost, added or reordered.
\<close>

theorem decode_f32_exact: "decode_f32 tensor_name data = Ok xs \<longleftrightarrow> data = f32_le_bytes xs"
proof
  assume "decode_f32 tensor_name data = Ok xs"
  then have d: "4 dvd length data"
    and xs: "xs = map (\<lambda>c. word_of_nat (le_nat c)) (chunks_exact 4 data)"
    by (auto simp: decode_f32_def exact_chunks_def split: if_splits)
  have "nat_le 4 (unat (word_of_nat (le_nat c) :: f32)) = c" if "length c = 4" for c
  proof -
    have "le_nat c < 2 ^ 32" using le_nat_less [of c] that by simp
    then have "unat (word_of_nat (le_nat c) :: f32) = le_nat c"
      by (simp add: unat_of_nat)
    then show ?thesis using nat_le_le_nat [of c] that by simp
  qed
  then have "f32_le_bytes xs = concat (chunks_exact 4 data)"
    using chunks_exact_partition [of 4 data] d
    unfolding f32_le_bytes_def xs map_map o_def
    by (intro arg_cong [where f = concat]) (simp add: map_idI)
  then show "data = f32_le_bytes xs" using chunks_exact_partition [of 4 data] d by simp
next
  assume data: "data = f32_le_bytes xs"
  have chunks: "chunks_exact 4 data = map (\<lambda>x. nat_le 4 (unat x)) xs"
    unfolding data f32_le_bytes_def by (rule chunks_exact_concat) auto
  have "length data = 4 * length xs"
    unfolding data f32_le_bytes_def by (induction xs) auto
  moreover have "(word_of_nat (le_nat (nat_le 4 (unat x))) :: f32) = x" for x :: f32
    using unsigned_less [of x, where ?'a = nat] by (simp add: le_nat_nat_le)
  ultimately show "decode_f32 tensor_name data = Ok xs"
    by (simp add: decode_f32_def exact_chunks_def chunks o_def)
qed

lemma f16_total: "f16_bits_to_f32 bits \<noteq> None"
  using f16_bits_to_f32_fields [of bits] by auto

text \<open>The bytes of one element.\<close>

definition element_size :: "supported_dtype \<Rightarrow> nat" where
  "element_size dtype = (case dtype of Sup_F32 \<Rightarrow> 4 | Sup_F16 \<Rightarrow> 2 | Sup_BF16 \<Rightarrow> 2)"

lemma decode_values_cases:
  "(length data mod element_size dtype \<noteq> 0 \<and>
     decode_values dtype name data = Some (Err (InvalidModel (Some name)))) \<or>
   (length data mod element_size dtype = 0 \<and>
     (\<exists>values. decode_values dtype name data = Some (Ok values) \<and>
        length values = length data div element_size dtype))"
proof (cases dtype)
  case Sup_F16
  have "None \<notin> set (map (\<lambda>bytes. f16_bits_to_f32 (word_of_nat (le_nat bytes))) chunks)" for chunks
    using f16_total by (metis (mono_tags, lifting) image_iff list.set_map)
  with Sup_F16 show ?thesis
    by (simp add: decode_values_def element_size_def decode_f16_def exact_chunks_def Let_def
        length_chunks_exact)
qed (simp_all add: decode_values_def element_size_def decode_f32_def decode_bf16_def
    exact_chunks_def length_chunks_exact)

text \<open>A tensor of the archive that can be loaded.\<close>

definition loadable :: "st_archive \<Rightarrow> string \<Rightarrow> bool" where
  "loadable tensors name =
     (case tensors name of
        None \<Rightarrow> False
      | Some t \<Rightarrow> (case map_dtype (st_dtype t) of
          Ok d \<Rightarrow> length (st_data t) mod element_size d = 0 | _ \<Rightarrow> False))"

lemma load_tensor_cases:
  "(\<exists>t. loadable tensors name \<and> load_tensor_from_archive tensors name = Some (Ok t) \<and>
      lt_name t = name \<and>
      length (lt_values t) =
        length (st_data (the (tensors name))) div element_size (lt_dtype t)) \<or>
   (\<exists>e. \<not> loadable tensors name \<and> load_tensor_from_archive tensors name = Some (Err e))"
proof (cases "tensors name")
  case None
  then show ?thesis by (simp add: loadable_def load_tensor_from_archive_def)
next
  case (Some t)
  show ?thesis
  proof (cases "map_dtype (st_dtype t)")
    case (Ok d)
    from decode_values_cases [of "st_data t" d name] show ?thesis
      by (auto simp: Some Ok loadable_def load_tensor_from_archive_def)
  next
    case (Err e)
    then show ?thesis by (simp add: Some loadable_def load_tensor_from_archive_def)
  qed simp
qed

lemma load_in_order_cases:
  "(\<exists>ts. (\<forall>n \<in> set names. loadable tensors n) \<and>
      load_tensors_in_order tensors names = Some (Ok ts) \<and> map lt_name ts = names \<and>
      (\<forall>t \<in> set ts. length (lt_values t) =
        length (st_data (the (tensors (lt_name t)))) div element_size (lt_dtype t))) \<or>
   (\<exists>e. (\<exists>n \<in> set names. \<not> loadable tensors n) \<and>
      load_tensors_in_order tensors names = Some (Err e))"
proof (induction names)
  case (Cons n names)
  from load_tensor_cases [of tensors n] show ?case
  proof (elim disjE exE conjE)
    fix t assume "loadable tensors n" "load_tensor_from_archive tensors n = Some (Ok t)"
      "lt_name t = n" "length (lt_values t) =
        length (st_data (the (tensors n))) div element_size (lt_dtype t)"
    with Cons show ?case by (elim disjE exE conjE) auto
  qed auto
qed simp

text \<open>
  C25. Loading tensors by name always returns, without a panic. It succeeds exactly when the
  file can be read and parsed and every name is in the archive with a supported dtype and a whole
  number of elements; it then returns the named tensors in the order asked for, each with as
  many values as its data holds elements.
\<close>

theorem load_tensors_exact:
  "\<exists>r. load_safetensors_tensors_f32 deserialize file names = Some r \<and> r \<noteq> Panic \<and>
    ((\<exists>ts. r = Ok ts) \<longleftrightarrow>
      (case Option.bind file deserialize of
         None \<Rightarrow> False | Some tensors \<Rightarrow> list_all (loadable tensors) names)) \<and>
    (case r of
       Ok ts \<Rightarrow> map lt_name ts = names \<and>
         list_all (\<lambda>t. length (lt_values t) =
           length (st_data (the (the (deserialize (the file)) (lt_name t)))) div
             element_size (lt_dtype t)) ts
     | _ \<Rightarrow> True)"
proof (cases "Option.bind file deserialize")
  case None
  then show ?thesis by (auto simp: load_safetensors_tensors_f32_def split: option.splits)
next
  case (Some tensors)
  then obtain bytes where "file = Some bytes" "deserialize bytes = Some tensors"
    by (auto simp: Option.bind_eq_Some_conv)
  with load_in_order_cases [of names tensors] show ?thesis
    by (auto simp: load_safetensors_tensors_f32_def list_all_iff)
qed

end
