(* ===== verification/Gguf_Values.thy ===== *)
theory Gguf_Values imports Gguf_Document Safetensors_Values F32_Arith
begin

text \<open>
  Loading tensor values from a GGUF artifact (src/crates/loader/src/gguf_values.rs): the dense
  dtypes and the block-wise dequantisation of Q4_K, Q5_K and Q6_K payloads, with the arithmetic
  of \<open>f32\<close> on bits. Slices and indices panic out of range, and a half-precision conversion that
  did not end would be a \<open>Panic\<close> here, so the absence of panics includes that the loops end.
  The theorems give the element every position of a block holds and show that every tensor
  of an accepted manifest that has a supported type can be loaded from the same file.
\<close>

section \<open>Dequantisation\<close>

definition q4_k_block_bytes :: usize where
  "q4_k_block_bytes = 144"

definition q5_k_block_bytes :: usize where
  "q5_k_block_bytes = 176"

definition q6_k_block_bytes :: usize where
  "q6_k_block_bytes = 210"

definition f16_le_at :: "byte list \<Rightarrow> usize \<Rightarrow> f32 res" where
  "f16_le_at data offset =
     (if offset + 1 < length data
      then or_panic (f16_bits_to_f32 (word_of_nat (le_nat [data ! offset, data ! (offset + 1)])))
      else Panic)"

text \<open>The debug assertions of the source are the bounds of its indices.\<close>

definition get_scale_min_k4 :: "usize \<Rightarrow> byte list \<Rightarrow> (byte \<times> byte) res" where
  "get_scale_min_k4 index scales =
     (if length scales \<noteq> 12 \<or> 8 \<le> index then Panic
      else if index < 4 then Ok (scales ! index AND 0x3F, scales ! (index + 4) AND 0x3F)
      else
        Ok ((scales ! (index + 4) AND 0x0F) OR push_bit 4 (drop_bit 6 (scales ! (index - 4))),
            drop_bit 4 (scales ! (index + 4)) OR push_bit 4 (drop_bit 6 (scales ! index))))"

definition f32_of_u8 :: "byte \<Rightarrow> f32" where
  "f32_of_u8 b = f32_of_int (uint b)"

definition f32_of_i8 :: "byte \<Rightarrow> f32" where
  "f32_of_i8 b = f32_of_int (sint b)"

text \<open>One of the four groups of 64 values of a Q4_K block.\<close>

definition q4_k_group :: "f32 \<Rightarrow> f32 \<Rightarrow> byte list \<Rightarrow> byte list \<Rightarrow> nat \<Rightarrow> f32 list res" where
  "q4_k_group d dmin scales qs j =
     and_then (slice qs (32 * j) (32 * j + 32)) (\<lambda>q.
     and_then (get_scale_min_k4 (2 * j) scales) (\<lambda>(sc1, m1).
     and_then (get_scale_min_k4 (2 * j + 1) scales) (\<lambda>(sc2, m2).
       let d1 = f32_mul d (f32_of_u8 sc1); min1 = f32_mul dmin (f32_of_u8 m1);
           d2 = f32_mul d (f32_of_u8 sc2); min2 = f32_mul dmin (f32_of_u8 m2) in
       Ok (map (\<lambda>b. f32_sub (f32_mul d1 (f32_of_u8 (b AND 0x0F))) min1) q @
           map (\<lambda>b. f32_sub (f32_mul d2 (f32_of_u8 (drop_bit 4 b))) min2) q))))"

definition q4_k_block :: "byte list \<Rightarrow> f32 list res" where
  "q4_k_block block =
     and_then (f16_le_at block 0) (\<lambda>d.
     and_then (f16_le_at block 2) (\<lambda>dmin.
     and_then (slice block 4 16) (\<lambda>scales.
     and_then (slice block 16 144) (\<lambda>qs.
     and_then (try_map (q4_k_group d dmin scales qs) [0..<4]) (\<lambda>groups.
       Ok (concat groups))))))"

definition dequantize_q4_k_blocks :: "byte list \<Rightarrow> f32 list res" where
  "dequantize_q4_k_blocks data =
     and_then (try_map q4_k_block (chunks_exact q4_k_block_bytes data)) (\<lambda>vs. Ok (concat vs))"

text \<open>
  One of the four groups of a Q5_K block; the masks are shifted by two per group, on eight
  bits.
\<close>

definition q5_k_group ::
    "f32 \<Rightarrow> f32 \<Rightarrow> byte list \<Rightarrow> byte list \<Rightarrow> byte list \<Rightarrow> nat \<Rightarrow> f32 list res" where
  "q5_k_group d dmin scales qh qs j =
     and_then (slice qs (32 * j) (32 * j + 32)) (\<lambda>q.
     and_then (get_scale_min_k4 (2 * j) scales) (\<lambda>(sc1, m1).
     and_then (get_scale_min_k4 (2 * j + 1) scales) (\<lambda>(sc2, m2).
       let d1 = f32_mul d (f32_of_u8 sc1); min1 = f32_mul dmin (f32_of_u8 m1);
           d2 = f32_mul d (f32_of_u8 sc2); min2 = f32_mul dmin (f32_of_u8 m2);
           high_bit_low_nibble = push_bit (2 * j) 1;
           high_bit_high_nibble = push_bit (2 * j) 2 in
       Ok (map (\<lambda>(b, high).
             let quant = (b AND 0x0F) + (if high AND high_bit_low_nibble \<noteq> 0 then 16 else 0) in
             f32_sub (f32_mul d1 (f32_of_u8 quant)) min1) (zip q qh) @
           map (\<lambda>(b, high).
             let quant = drop_bit 4 b + (if high AND high_bit_high_nibble \<noteq> 0 then 16 else 0) in
             f32_sub (f32_mul d2 (f32_of_u8 quant)) min2) (zip q qh)))))"

definition q5_k_block :: "byte list \<Rightarrow> f32 list res" where
  "q5_k_block block =
     and_then (f16_le_at block 0) (\<lambda>d.
     and_then (f16_le_at block 2) (\<lambda>dmin.
     and_then (slice block 4 16) (\<lambda>scales.
     and_then (slice block 16 48) (\<lambda>qh.
     and_then (slice block 48 176) (\<lambda>qs.
     and_then (try_map (q5_k_group d dmin scales qh qs) [0..<4]) (\<lambda>groups.
       Ok (concat groups)))))))"

definition dequantize_q5_k_blocks :: "byte list \<Rightarrow> f32 list res" where
  "dequantize_q5_k_blocks data =
     and_then (try_map q5_k_block (chunks_exact q5_k_block_bytes data)) (\<lambda>vs. Ok (concat vs))"

text \<open>
  The body of the inner loop of Q6_K: four writes into the 128 values of a super group. All
  indices are compared with the lengths first, where the source panics.
\<close>

definition q6_k_step ::
    "f32 \<Rightarrow> byte list \<Rightarrow> byte list \<Rightarrow> byte list \<Rightarrow> nat \<Rightarrow> f32 list \<Rightarrow> nat \<Rightarrow> f32 list res" where
  "q6_k_step d ql qh scales super_group values l =
     (let ql_base = super_group * 64; qh_base = super_group * 32; scale_base = super_group * 8;
          scale_index = l div 16 in
      if length ql \<le> ql_base + l + 32 \<or> length qh \<le> qh_base + l \<or>
         length scales \<le> scale_base + scale_index + 6 \<or> length values \<le> l + 96
      then Panic
      else
        let high = qh ! (qh_base + l);
            q1 = uint ((ql ! (ql_base + l) AND 0x0F) OR push_bit 4 (high AND 0x03)) - 32;
            q2 = uint ((ql ! (ql_base + l + 32) AND 0x0F) OR
                   push_bit 4 (drop_bit 2 high AND 0x03)) - 32;
            q3 = uint (drop_bit 4 (ql ! (ql_base + l)) OR
                   push_bit 4 (drop_bit 4 high AND 0x03)) - 32;
            q4 = uint (drop_bit 4 (ql ! (ql_base + l + 32)) OR
                   push_bit 4 (drop_bit 6 high AND 0x03)) - 32;
            sc = (\<lambda>k. f32_of_i8 (scales ! (scale_base + scale_index + k))) in
        Ok (values[l := f32_mul (f32_mul d (sc 0)) (f32_of_int q1),
                   l + 32 := f32_mul (f32_mul d (sc 2)) (f32_of_int q2),
                   l + 64 := f32_mul (f32_mul d (sc 4)) (f32_of_int q3),
                   l + 96 := f32_mul (f32_mul d (sc 6)) (f32_of_int q4)]))"

definition q6_k_super_group ::
    "f32 \<Rightarrow> byte list \<Rightarrow> byte list \<Rightarrow> byte list \<Rightarrow> nat \<Rightarrow> f32 list res" where
  "q6_k_super_group d ql qh scales super_group =
     try_fold (q6_k_step d ql qh scales super_group) (replicate 128 0) [0..<32]"

definition q6_k_block :: "byte list \<Rightarrow> f32 list res" where
  "q6_k_block block =
     and_then (slice block 0 128) (\<lambda>ql.
     and_then (slice block 128 192) (\<lambda>qh.
     and_then (slice block 192 208) (\<lambda>scales.
     and_then (f16_le_at block 208) (\<lambda>d.
     and_then (try_map (q6_k_super_group d ql qh scales) [0..<2]) (\<lambda>groups.
       Ok (concat groups))))))"

definition dequantize_q6_k_blocks :: "byte list \<Rightarrow> f32 list res" where
  "dequantize_q6_k_blocks data =
     and_then (try_map q6_k_block (chunks_exact q6_k_block_bytes data)) (\<lambda>vs. Ok (concat vs))"

definition dequantize_k_quant_payload_f32 ::
    "string \<Rightarrow> ggml_type \<Rightarrow> byte list \<Rightarrow> usize list \<Rightarrow> usize \<Rightarrow> f32 list res" where
  "dequantize_k_quant_payload_f32 tensor_name tensor_type data shape element_count =
     and_then (ok_or (quant_layout tensor_type) (Unsupported ''gguf_tensor_type'')) (\<lambda>layout.
     and_then (ok_or (case shape of [] \<Rightarrow> None | d # _ \<Rightarrow> Some d) (InvalidModel (Some tensor_name)))
       (\<lambda>row_element_count.
     if row_element_count mod block_element_count layout \<noteq> 0
     then Err (InvalidModel (Some tensor_name))
     else if element_count mod block_element_count layout \<noteq> 0
     then Err (InvalidModel (Some tensor_name))
     else
       and_then (ok_or (checked_mul (element_count div block_element_count layout)
                         (block_byte_len layout)) (InvalidModel (Some tensor_name)))
         (\<lambda>expected_len.
       if length data \<noteq> expected_len then Err (InvalidModel (Some tensor_name))
       else if 2 ^ 63 - 1 < 4 * element_count then Panic
       else
         and_then
           (case tensor_type of
              Ty_Q4K \<Rightarrow> dequantize_q4_k_blocks data
            | Ty_Q5K \<Rightarrow> dequantize_q5_k_blocks data
            | Ty_Q6K \<Rightarrow> dequantize_q6_k_blocks data
            | other \<Rightarrow> Err (Unsupported ''gguf_tensor_type''))
           (\<lambda>values. if length values \<noteq> element_count then Panic else Ok values))))"

section \<open>Every element of a block\<close>

text \<open>Scale and minimum of group \<open>j\<close> of 32 values, and the raw quantised values.\<close>

definition k4_scale :: "byte list \<Rightarrow> nat \<Rightarrow> byte" where
  "k4_scale scales j =
     (if j < 4 then scales ! j AND 0x3F
      else (scales ! (j + 4) AND 0x0F) OR push_bit 4 (drop_bit 6 (scales ! (j - 4))))"

definition k4_min :: "byte list \<Rightarrow> nat \<Rightarrow> byte" where
  "k4_min scales j =
     (if j < 4 then scales ! (j + 4) AND 0x3F
      else drop_bit 4 (scales ! (j + 4)) OR push_bit 4 (drop_bit 6 (scales ! j)))"

definition f16_at :: "byte list \<Rightarrow> nat \<Rightarrow> f32" where
  "f16_at block offset =
     the (f16_bits_to_f32 (word_of_nat (le_nat [block ! offset, block ! (offset + 1)])))"

definition affine :: "byte list \<Rightarrow> nat \<Rightarrow> byte \<Rightarrow> f32" where
  "affine block j quant =
     (let scales = take 12 (drop 4 block) in
      f32_sub (f32_mul (f32_mul (f16_at block 0) (f32_of_u8 (k4_scale scales j))) (f32_of_u8 quant))
        (f32_mul (f16_at block 2) (f32_of_u8 (k4_min scales j))))"

definition q4_k_element :: "byte list \<Rightarrow> nat \<Rightarrow> f32" where
  "q4_k_element block i =
     (let b = block ! (16 + (32 * (i div 64) + i mod 32)) in
      affine block (i div 32) (if i mod 64 < 32 then b AND 0x0F else drop_bit 4 b))"

definition q5_k_element :: "byte list \<Rightarrow> nat \<Rightarrow> f32" where
  "q5_k_element block i =
     (let b = block ! (48 + (32 * (i div 64) + i mod 32)); high = block ! (16 + i mod 32) in
      affine block (i div 32)
        ((if i mod 64 < 32 then b AND 0x0F else drop_bit 4 b) +
         (if bit high (i div 32) then 16 else 0)))"

definition q6_k_element :: "byte list \<Rightarrow> nat \<Rightarrow> f32" where
  "q6_k_element block i =
     (let g = i div 128; k = i mod 128 div 32; l = i mod 32;
          b = block ! (64 * g + l + (if odd k then 32 else 0));
          high = block ! (128 + (32 * g + l)) in
      f32_mul (f32_mul (f16_at block 208) (f32_of_i8 (block ! (192 + (8 * g + l div 16 + 2 * k)))))
        (f32_of_int (uint ((if k < 2 then b AND 0x0F else drop_bit 4 b) OR
           push_bit 4 (drop_bit (2 * k) high AND 0x03)) - 32)))"

lemma get_scale_min_k4_Ok:
  "length scales = 12 \<Longrightarrow> j < 8 \<Longrightarrow> get_scale_min_k4 j scales = Ok (k4_scale scales j, k4_min scales j)"
  by (simp add: get_scale_min_k4_def k4_scale_def k4_min_def)

lemma f16_le_at_Ok: "offset + 1 < length block \<Longrightarrow> f16_le_at block offset = Ok (f16_at block offset)"
  using f16_total by (auto simp: f16_le_at_def f16_at_def)

lemma slice_Ok: "a \<le> b \<Longrightarrow> b \<le> length xs \<Longrightarrow> slice xs a b = Ok (take (b - a) (drop a xs))"
  by (simp add: slice_def)

lemma window_map: "a + n \<le> length xs \<Longrightarrow> take n (drop a xs) = map (\<lambda>k. xs ! (a + k)) [0..<n]"
  by (rule nth_equalityI) auto

lemma slice_window:
  assumes "a + n \<le> len" "off + len \<le> length xs"
  shows "slice (take len (drop off xs)) a (a + n) = Ok (map (\<lambda>k. xs ! (off + (a + k))) [0..<n])"
  using assms window_map [of a n "take len (drop off xs)"] by (simp add: slice_Ok)

lemma concat_map_blocks:
  "concat (map (\<lambda>j. map (\<lambda>k. f (n * j + k)) [0..<n]) [0..<m]) = map f [0..<n * m]"
proof (induction m)
  case (Suc m)
  have "[0..<n * Suc m] = [0..<n * m] @ map (\<lambda>k. n * m + k) [0..<n]"
  proof -
    have "map (\<lambda>k. n * m + k) [0..<n] = [n * m..<n * m + n]"
      using map_add_upt [of "n * m" n] by (simp add: add.commute)
    then show ?thesis using upt_add_eq_append [of 0 "n * m" n] by (simp add: add.commute)
  qed
  with Suc show ?case by (simp add: o_def)
qed simp

lemma upt_halves: "map f [0..<64] = map f [0..<32] @ map (\<lambda>k. f (k + 32)) [0..<32]"
proof -
  have "[0..<64] = [0..<32] @ map (\<lambda>k. k + 32) [0..<32]"
    using upt_add_eq_append [of 0 32 32] map_add_upt [of 32 32] by simp
  then show ?thesis by (simp only: map_append map_map o_def)
qed

lemma group_index:
  assumes "k < 32"
  shows "(64 * j + k) div 64 = j" "(64 * j + k) mod 64 = k" "(64 * j + k) div 32 = 2 * j"
    "(64 * j + k) mod 32 = k" "(64 * j + (k + 32)) div 64 = j" "(64 * j + (k + 32)) mod 64 = k + 32"
    "(64 * j + (k + 32)) div 32 = Suc (2 * j)" "(64 * j + (k + 32)) mod 32 = k"
proof -
  have s: "64 * j + k = 32 * (2 * j) + k" "64 * j + (k + 32) = 32 * (2 * j + 1) + k" by simp_all
  show "(64 * j + k) div 32 = 2 * j" "(64 * j + k) mod 32 = k"
    "(64 * j + (k + 32)) div 32 = Suc (2 * j)" "(64 * j + (k + 32)) mod 32 = k"
    unfolding s using assms by (simp_all only: div_mult_self4 mod_mult_self4 div_less mod_less)
qed (use assms in simp_all)

lemma q4_k_block_Ok:
  assumes len: "length block = 144"
  shows "q4_k_block block = Ok (map (q4_k_element block) [0..<256])"
proof -
  let ?d = "f16_at block 0" and ?dm = "f16_at block 2"
  let ?s = "take 12 (drop 4 block)" and ?qs = "take 128 (drop 16 block)"
  have group: "q4_k_group ?d ?dm ?s ?qs j = Ok (map (\<lambda>k. q4_k_element block (64 * j + k)) [0..<64])"
    if j: "j < 4" for j
  proof -
    have q: "slice ?qs (32 * j) (32 * j + 32) = Ok (map (\<lambda>k. block ! (16 + (32 * j + k))) [0..<32])"
      using j len by (intro slice_window) simp_all
    have "get_scale_min_k4 (2 * j) ?s = Ok (k4_scale ?s (2 * j), k4_min ?s (2 * j))"
      "get_scale_min_k4 (2 * j + 1) ?s = Ok (k4_scale ?s (2 * j + 1), k4_min ?s (2 * j + 1))"
      using j len by (intro get_scale_min_k4_Ok; simp)+
    then have "q4_k_group ?d ?dm ?s ?qs j =
        Ok (map (\<lambda>k. affine block (2 * j) (block ! (16 + (32 * j + k)) AND 0x0F)) [0..<32] @
            map (\<lambda>k. affine block (2 * j + 1) (drop_bit 4 (block ! (16 + (32 * j + k))))) [0..<32])"
      unfolding q4_k_group_def q by (simp add: Let_def affine_def o_def)
    also have "\<dots> = Ok (map (\<lambda>k. q4_k_element block (64 * j + k)) [0..<64])"
      unfolding upt_halves by (auto simp: q4_k_element_def Let_def group_index)
    finally show ?thesis .
  qed
  have "try_map (q4_k_group ?d ?dm ?s ?qs) [0..<4] =
      Ok (map (\<lambda>j. map (\<lambda>k. q4_k_element block (64 * j + k)) [0..<64]) [0..<4])"
    by (rule try_map_all_Ok) (simp add: group)
  then show ?thesis
    using len concat_map_blocks [of "q4_k_element block" 64 4]
    by (simp add: q4_k_block_def f16_le_at_Ok slice_Ok)
qed

lemma chunk_length: "0 < n \<Longrightarrow> c \<in> set (chunks_exact n xs) \<Longrightarrow> length c = n"
proof (induction n xs rule: chunks_exact.induct)
  case (1 n xs)
  show ?case
  proof (cases "length xs < n")
    case True
    then have "chunks_exact n xs = []" by (subst chunks_exact.simps) simp
    with 1(3) show ?thesis by simp
  next
    case False
    then have "chunks_exact n xs = take n xs # chunks_exact n (drop n xs)"
      using 1(2) by (subst chunks_exact.simps) simp
    with 1 False show ?thesis by auto
  qed
qed

lemma and_mask_bit:
  "(high AND push_bit n 1 \<noteq> 0) = bit (high :: byte) n" "(high AND push_bit n 2 \<noteq> 0) = bit high (Suc n)"
proof -
  have "(2 :: byte) * 2 ^ n = 2 ^ Suc n" by simp
  then show "(high AND push_bit n 1 \<noteq> 0) = bit high n" "(high AND push_bit n 2 \<noteq> 0) = bit high (Suc n)"
    unfolding push_bit_eq_mult by (simp_all only: mult_1 and_exp_eq_0_iff_not_bit not_not)
qed

lemma q5_k_block_Ok:
  assumes len: "length block = 176"
  shows "q5_k_block block = Ok (map (q5_k_element block) [0..<256])"
proof -
  let ?d = "f16_at block 0" and ?dm = "f16_at block 2"
  let ?s = "take 12 (drop 4 block)" and ?qh = "take 32 (drop 16 block)"
    and ?qs = "take 128 (drop 48 block)"
  have qh: "?qh = map (\<lambda>k. block ! (16 + k)) [0..<32]" using len by (intro window_map) simp
  have group: "q5_k_group ?d ?dm ?s ?qh ?qs j =
      Ok (map (\<lambda>k. q5_k_element block (64 * j + k)) [0..<64])" if j: "j < 4" for j
  proof -
    have q: "slice ?qs (32 * j) (32 * j + 32) = Ok (map (\<lambda>k. block ! (48 + (32 * j + k))) [0..<32])"
      using j len by (intro slice_window) simp_all
    have "get_scale_min_k4 (2 * j) ?s = Ok (k4_scale ?s (2 * j), k4_min ?s (2 * j))"
      "get_scale_min_k4 (2 * j + 1) ?s = Ok (k4_scale ?s (2 * j + 1), k4_min ?s (2 * j + 1))"
      using j len by (intro get_scale_min_k4_Ok; simp)+
    then have "q5_k_group ?d ?dm ?s ?qh ?qs j =
        Ok (map (\<lambda>k. affine block (2 * j) ((block ! (48 + (32 * j + k)) AND 0x0F) +
              (if bit (block ! (16 + k)) (2 * j) then 16 else 0))) [0..<32] @
            map (\<lambda>k. affine block (2 * j + 1) (drop_bit 4 (block ! (48 + (32 * j + k))) +
              (if bit (block ! (16 + k)) (2 * j + 1) then 16 else 0))) [0..<32])"
      unfolding q5_k_group_def q qh Let_def and_mask_bit
      by (simp add: Let_def affine_def o_def zip_map_map zip_same_conv_map)
    also have "\<dots> = Ok (map (\<lambda>k. q5_k_element block (64 * j + k)) [0..<64])"
      unfolding upt_halves by (auto simp: q5_k_element_def Let_def group_index)
    finally show ?thesis .
  qed
  have "try_map (q5_k_group ?d ?dm ?s ?qh ?qs) [0..<4] =
      Ok (map (\<lambda>j. map (\<lambda>k. q5_k_element block (64 * j + k)) [0..<64]) [0..<4])"
    by (rule try_map_all_Ok) (simp add: group)
  then show ?thesis
    using len concat_map_blocks [of "q5_k_element block" 64 4]
    by (simp add: q5_k_block_def f16_le_at_Ok slice_Ok)
qed

lemma four_updates:
  assumes "l < 32"
  shows "(map (\<lambda>i. if i mod 32 < l then e i else z) [0..<128])
      [l := e l, l + 32 := e (l + 32), l + 64 := e (l + 64), l + 96 := e (l + 96)] =
    map (\<lambda>i. if i mod 32 < Suc l then e i else z) [0..<128]"
proof (rule nth_equalityI)
  fix i
  assume i: "i < length ((map (\<lambda>i. if i mod 32 < l then e i else z) [0..<128])
      [l := e l, l + 32 := e (l + 32), l + 64 := e (l + 64), l + 96 := e (l + 96)])"
  have "i mod 32 = l \<longleftrightarrow> i = l \<or> i = l + 32 \<or> i = l + 64 \<or> i = l + 96"
  proof -
    define q r where "q = i div 32" and "r = i mod 32"
    have "q < 4" using i by (simp add: q_def div_less_iff_less_mult)
    moreover have "i = r + 32 * q" "r < 32" by (simp_all add: q_def r_def)
    ultimately have "r = l \<longleftrightarrow> i = l \<or> i = l + 32 \<or> i = l + 64 \<or> i = l + 96"
      using assms by (cases "q = 0"; cases "q = 1"; cases "q = 2"; cases "q = 3") auto
    then show ?thesis unfolding r_def .
  qed
  then show "(map (\<lambda>i. if i mod 32 < l then e i else z) [0..<128])
      [l := e l, l + 32 := e (l + 32), l + 64 := e (l + 64), l + 96 := e (l + 96)] ! i =
    map (\<lambda>i. if i mod 32 < Suc l then e i else z) [0..<128] ! i"
    using i assms by (auto simp: nth_list_update less_Suc_eq)
qed simp

lemma q6_index:
  fixes l k g :: nat
  assumes "l < 32" "k < 4"
  shows "(128 * g + (l + 32 * k)) div 128 = g" "(128 * g + (l + 32 * k)) mod 128 div 32 = k"
    "(128 * g + (l + 32 * k)) mod 32 = l"
proof -
  have "l + 32 * k < 128" using assms by simp
  then show "(128 * g + (l + 32 * k)) div 128 = g" "(128 * g + (l + 32 * k)) mod 128 div 32 = k"
    using assms by (simp_all add: div_mult_self4)
  have "128 * g + (l + 32 * k) = 32 * (4 * g + k) + l" by simp
  then show "(128 * g + (l + 32 * k)) mod 32 = l" using assms by (simp only: mod_mult_self4 mod_less)
qed

lemma q6_k_step_Ok:
  assumes len: "length block = 210" and g: "g < 2" and l: "l < 32"
  defines "e \<equiv> \<lambda>i. q6_k_element block (128 * g + i)"
  shows "q6_k_step (f16_at block 208) (take 128 block) (take 64 (drop 128 block))
      (take 16 (drop 192 block)) g (map (\<lambda>i. if i mod 32 < l then e i else 0) [0..<128]) l =
    Ok (map (\<lambda>i. if i mod 32 < Suc l then e i else 0) [0..<128])"
proof -
  have "l div 16 < 2" using l by simp
  have e: "e l = q6_k_element block (128 * g + (l + 32 * 0))"
    "e (l + 32) = q6_k_element block (128 * g + (l + 32 * 1))"
    "e (l + 64) = q6_k_element block (128 * g + (l + 32 * 2))"
    "e (l + 96) = q6_k_element block (128 * g + (l + 32 * 3))" by (simp_all add: e_def)
  have el: "e (l + 32 * k) =
      f32_mul (f32_mul (f16_at block 208) (f32_of_i8 (block ! (192 + (8 * g + l div 16 + 2 * k)))))
        (f32_of_int (uint ((if k < 2 then block ! (64 * g + l + (if odd k then 32 else 0)) AND 0x0F
             else drop_bit 4 (block ! (64 * g + l + (if odd k then 32 else 0)))) OR
           push_bit 4 (drop_bit (2 * k) (block ! (128 + (32 * g + l))) AND 0x03)) - 32))"
    if "k < 4" for k
    unfolding e_def q6_k_element_def q6_index [OF l that] Let_def ..
  show ?thesis
    unfolding four_updates [OF l, symmetric] q6_k_step_def Let_def
    using g l len \<open>l div 16 < 2\<close> el [of 0] el [of 1] el [of 2] el [of 3]
    by (simp add: mult.commute [of g])
qed

lemma q6_k_super_group_Ok:
  assumes len: "length block = 210" and g: "g < 2"
  shows "q6_k_super_group (f16_at block 208) (take 128 block) (take 64 (drop 128 block))
      (take 16 (drop 192 block)) g = Ok (map (\<lambda>i. q6_k_element block (128 * g + i)) [0..<128])"
proof -
  let ?e = "\<lambda>i. q6_k_element block (128 * g + i)"
  let ?step = "q6_k_step (f16_at block 208) (take 128 block) (take 64 (drop 128 block))
      (take 16 (drop 192 block)) g"
  have "try_fold ?step (replicate 128 0) [0..<n] =
      Ok (map (\<lambda>i. if i mod 32 < n then ?e i else 0) [0..<128])" if "n \<le> 32" for n
    using that
  proof (induction n)
    case 0
    show ?case by (simp add: map_replicate_const)
  next
    case (Suc n)
    then show ?case using q6_k_step_Ok [OF len g, of n] by (simp add: try_fold_append)
  qed
  from this [of 32] show ?thesis by (simp add: q6_k_super_group_def)
qed

lemma q6_k_block_Ok:
  assumes len: "length block = 210"
  shows "q6_k_block block = Ok (map (q6_k_element block) [0..<256])"
proof -
  have "try_map (q6_k_super_group (f16_at block 208) (take 128 block) (take 64 (drop 128 block))
      (take 16 (drop 192 block))) [0..<2] =
      Ok (map (\<lambda>g. map (\<lambda>i. q6_k_element block (128 * g + i)) [0..<128]) [0..<2])"
    by (rule try_map_all_Ok) (simp add: q6_k_super_group_Ok [OF len])
  then show ?thesis
    using len concat_map_blocks [of "q6_k_element block" 128 2]
    by (simp add: q6_k_block_def f16_le_at_Ok slice_Ok)
qed

section \<open>Loading\<close>

datatype gguf_value_mode = Dense_Only | Dense_Or_K_Quantized

record loaded_gguf_k_quant_bytes =
  lk_name :: string
  lk_shape :: "usize list"
  lk_tensor_type :: ggml_type
  lk_data :: "byte list"

text \<open>
  \<open>vec![0u8; n]\<close> panics above the largest allocation; \<open>read_exact\<close> after a seek fails when the
  file ends before the last byte.
\<close>

definition read_tensor_data :: "byte list \<Rightarrow> gguf_tensor_entry \<Rightarrow> byte list res" where
  "read_tensor_data bytes tensor =
     and_then (ok_or (gte_byte_len tensor) (Unsupported ''gguf_tensor_type'')) (\<lambda>byte_len.
     if max64 < byte_len then Err (InvalidModel (Some (gte_name tensor)))
     else if 2 ^ 63 - 1 < byte_len then Panic
     else if byte_len = 0 \<or> gte_file_offset tensor + byte_len \<le> length bytes
     then Ok (take byte_len (drop (gte_file_offset tensor) bytes))
     else Err IoError)"

definition element_count_from_shape :: "gguf_tensor_entry \<Rightarrow> usize res" where
  "element_count_from_shape tensor =
     ok_or (try_product 1 (gte_shape tensor)) (InvalidModel (Some (gte_name tensor)))"

text \<open>A result that a loop computes: a loop that did not end would be a panic here.\<close>

definition ended :: "'a res option \<Rightarrow> 'a res" where
  "ended x = (case x of None \<Rightarrow> Panic | Some r \<Rightarrow> r)"

definition load_tensor_bytes ::
    "byte list \<Rightarrow> gguf_tensor_entry \<Rightarrow> gguf_value_mode \<Rightarrow> loaded_tensor res" where
  "load_tensor_bytes bytes tensor mode =
     (let tensor_name = gte_name tensor in
      and_then
        (case read_tensor_data bytes tensor of
           Err (Unsupported f) \<Rightarrow> Err (Unsupported ''gguf_tensor_type'')
         | other \<Rightarrow> other)
        (\<lambda>data.
      and_then
        (case gte_tensor_type tensor of
           Ty_F32 \<Rightarrow> and_then (decode_f32 tensor_name data) (\<lambda>v. Ok (Sup_F32, v))
         | Ty_F16 \<Rightarrow> and_then (ended (decode_f16 tensor_name data)) (\<lambda>v. Ok (Sup_F16, v))
         | Ty_BF16 \<Rightarrow> and_then (decode_bf16 tensor_name data) (\<lambda>v. Ok (Sup_BF16, v))
         | ty \<Rightarrow>
             if (ty = Ty_Q4K \<or> ty = Ty_Q5K \<or> ty = Ty_Q6K) \<and> mode = Dense_Or_K_Quantized then
               and_then (element_count_from_shape tensor) (\<lambda>element_count.
               and_then (dequantize_k_quant_payload_f32 tensor_name ty data (gte_shape tensor)
                          element_count) (\<lambda>v. Ok (Sup_F32, v)))
             else Err (Unsupported ''gguf_tensor_type''))
        (\<lambda>(dtype, values).
        Ok \<lparr>lt_name = tensor_name, lt_shape = gte_shape tensor, lt_dtype = dtype,
            lt_values = values\<rparr>)))"

fun find_tensor :: "string \<Rightarrow> gguf_tensor_entry list \<Rightarrow> gguf_tensor_entry option" where
  "find_tensor name [] = None"
| "find_tensor name (t # ts) = (if gte_name t = name then Some t else find_tensor name ts)"

definition load_tensor_from_manifest ::
    "gguf_manifest \<Rightarrow> byte list \<Rightarrow> string \<Rightarrow> gguf_value_mode \<Rightarrow> loaded_tensor res" where
  "load_tensor_from_manifest manifest bytes tensor_name mode =
     and_then (ok_or (find_tensor tensor_name (gm_tensors manifest))
                (InvalidModel (Some tensor_name))) (\<lambda>tensor.
     load_tensor_bytes bytes tensor mode)"

definition load_k_quant_tensor_from_manifest ::
    "gguf_manifest \<Rightarrow> byte list \<Rightarrow> string \<Rightarrow> loaded_gguf_k_quant_bytes res" where
  "load_k_quant_tensor_from_manifest manifest bytes tensor_name =
     and_then (ok_or (find_tensor tensor_name (gm_tensors manifest))
                (InvalidModel (Some tensor_name))) (\<lambda>tensor.
     if \<not> (gte_tensor_type tensor = Ty_Q4K \<or> gte_tensor_type tensor = Ty_Q5K \<or>
            gte_tensor_type tensor = Ty_Q6K)
     then Err (Unsupported ''gguf_k_quant_tensor_type'')
     else
       and_then (read_tensor_data bytes tensor) (\<lambda>data.
         Ok \<lparr>lk_name = gte_name tensor, lk_shape = gte_shape tensor,
             lk_tensor_type = gte_tensor_type tensor, lk_data = data\<rparr>))"

text \<open>
  The public functions inspect the file and open it again; the file is the same both times.
  \<open>collect\<close> stops at the first error.
\<close>

definition with_manifest ::
    "(string \<Rightarrow> usize \<Rightarrow> bool) \<Rightarrow> byte list option \<Rightarrow> (gguf_manifest \<Rightarrow> byte list \<Rightarrow> 'a res) \<Rightarrow> 'a res" where
  "with_manifest reserve file body =
     and_then (inspect_gguf reserve file) (\<lambda>manifest.
     case file of None \<Rightarrow> Err IoError | Some bytes \<Rightarrow> body manifest bytes)"

definition load_gguf_tensor_f32 ::
    "(string \<Rightarrow> usize \<Rightarrow> bool) \<Rightarrow> byte list option \<Rightarrow> string \<Rightarrow> loaded_tensor res" where
  "load_gguf_tensor_f32 reserve file tensor_name =
     with_manifest reserve file (\<lambda>manifest bytes.
       load_tensor_from_manifest manifest bytes tensor_name Dense_Only)"

definition load_gguf_tensors_f32 ::
    "(string \<Rightarrow> usize \<Rightarrow> bool) \<Rightarrow> byte list option \<Rightarrow> string list \<Rightarrow> loaded_tensor list res" where
  "load_gguf_tensors_f32 reserve file tensor_names =
     with_manifest reserve file (\<lambda>manifest bytes.
       try_map (\<lambda>name. load_tensor_from_manifest manifest bytes name Dense_Only) tensor_names)"

definition load_gguf_tensor_dequantized_f32 ::
    "(string \<Rightarrow> usize \<Rightarrow> bool) \<Rightarrow> byte list option \<Rightarrow> string \<Rightarrow> loaded_tensor res" where
  "load_gguf_tensor_dequantized_f32 reserve file tensor_name =
     with_manifest reserve file (\<lambda>manifest bytes.
       load_tensor_from_manifest manifest bytes tensor_name Dense_Or_K_Quantized)"

definition load_gguf_tensors_dequantized_f32 ::
    "(string \<Rightarrow> usize \<Rightarrow> bool) \<Rightarrow> byte list option \<Rightarrow> string list \<Rightarrow> loaded_tensor list res" where
  "load_gguf_tensors_dequantized_f32 reserve file tensor_names =
     with_manifest reserve file (\<lambda>manifest bytes.
       try_map (\<lambda>name. load_tensor_from_manifest manifest bytes name Dense_Or_K_Quantized)
         tensor_names)"

definition load_gguf_k_quant_tensor_bytes ::
    "(string \<Rightarrow> usize \<Rightarrow> bool) \<Rightarrow> byte list option \<Rightarrow> string \<Rightarrow> loaded_gguf_k_quant_bytes res" where
  "load_gguf_k_quant_tensor_bytes reserve file tensor_name =
     with_manifest reserve file (\<lambda>manifest bytes.
       load_k_quant_tensor_from_manifest manifest bytes tensor_name)"

definition load_gguf_k_quant_tensors_bytes ::
    "(string \<Rightarrow> usize \<Rightarrow> bool) \<Rightarrow> byte list option \<Rightarrow> string list \<Rightarrow> loaded_gguf_k_quant_bytes list res" where
  "load_gguf_k_quant_tensors_bytes reserve file tensor_names =
     with_manifest reserve file (\<lambda>manifest bytes.
       try_map (load_k_quant_tensor_from_manifest manifest bytes) tensor_names)"

section \<open>Properties\<close>

lemma block_list_Ok:
  assumes "\<And>block. length block = n \<Longrightarrow> f block = Ok (map (e block) [0..<256])" and "0 < n"
  shows "try_map f (chunks_exact n data) =
    Ok (map (\<lambda>block. map (e block) [0..<256]) (chunks_exact n data))"
  using assms chunk_length [of n _ data] by (intro try_map_all_Ok) blast

text \<open>
  C28. Block-wise dequantisation computes the same closed formula at every position: value
  \<open>i\<close> of a block is its scale times the quantised value of that position, less the minimum of
  its group of 32 in Q4_K and Q5_K, and the blocks come in order; bytes after the last whole
  block are ignored.
\<close>

theorem dequantize_blocks_exact:
  "dequantize_q4_k_blocks data =
      Ok (concat (map (\<lambda>block. map (q4_k_element block) [0..<256]) (chunks_exact 144 data))) \<and>
    dequantize_q5_k_blocks data =
      Ok (concat (map (\<lambda>block. map (q5_k_element block) [0..<256]) (chunks_exact 176 data))) \<and>
    dequantize_q6_k_blocks data =
      Ok (concat (map (\<lambda>block. map (q6_k_element block) [0..<256]) (chunks_exact 210 data)))"
  by (simp add: dequantize_q4_k_blocks_def dequantize_q5_k_blocks_def dequantize_q6_k_blocks_def
      q4_k_block_bytes_def q5_k_block_bytes_def q6_k_block_bytes_def
      block_list_Ok [OF q4_k_block_Ok] block_list_Ok [OF q5_k_block_Ok] block_list_Ok [OF q6_k_block_Ok])

text \<open>The packing of eight scales and eight minima of six bits into 12 bytes.\<close>

definition pack_k4 :: "(nat \<Rightarrow> byte) \<Rightarrow> (nat \<Rightarrow> byte) \<Rightarrow> byte list" where
  "pack_k4 sc m =
     map (\<lambda>j. (sc j AND 0x3F) OR push_bit 6 (drop_bit 4 (sc (j + 4)))) [0..<4] @
     map (\<lambda>j. (m j AND 0x3F) OR push_bit 6 (drop_bit 4 (m (j + 4)))) [0..<4] @
     map (\<lambda>j. (sc (j + 4) AND 0x0F) OR push_bit 4 (m (j + 4))) [0..<4]"

lemma byte_masks: "(0x3F :: byte) = mask 6" "(0x0F :: byte) = mask 4"
  by (simp_all add: mask_eq_exp_minus_1)

lemma six_bit_fields:
  fixes a b :: byte
  shows "((a AND 0x3F) OR push_bit 6 (drop_bit 4 b)) AND 0x3F = a AND 0x3F"
    and "((b AND 0x0F) OR push_bit 4 c) AND 0x0F OR push_bit 4 (drop_bit 6 (push_bit 6 (drop_bit 4 b))) =
      b AND 0x3F"
    and "drop_bit 4 (push_bit 4 b) OR push_bit 4 (drop_bit 6 (push_bit 6 (drop_bit 4 b))) =
      b AND 0x3F"
proof -
  have rejoin: "4 + (n - 4) = n" if "\<not> n < 4" for n :: nat using that by simp
  show "((a AND 0x3F) OR push_bit 6 (drop_bit 4 b)) AND 0x3F = a AND 0x3F"
    unfolding byte_masks by (rule bit_word_eqI) (auto simp: bit_simps)
  show "((b AND 0x0F) OR push_bit 4 c) AND 0x0F OR push_bit 4 (drop_bit 6 (push_bit 6 (drop_bit 4 b))) =
      b AND 0x3F" "drop_bit 4 (push_bit 4 b) OR push_bit 4 (drop_bit 6 (push_bit 6 (drop_bit 4 b))) =
      b AND 0x3F"
    unfolding byte_masks
    by (rule bit_word_eqI, rename_tac n, case_tac "n < 4", auto simp: bit_simps rejoin)+
qed

text \<open>
  C29. Reading the packed scales of a Q4_K or Q5_K block inverts their packing: for each of the
  eight groups the loader gets exactly the six bits of the group's scale and of its minimum,
  although those of groups four to seven are split over two bytes.
\<close>

theorem scales_roundtrip:
  "map (\<lambda>j. get_scale_min_k4 j (pack_k4 sc m)) [0..<8] =
    map (\<lambda>j. Ok (sc j AND 0x3F, m j AND 0x3F)) [0..<8]"
proof (rule map_cong [OF refl])
  fix j
  assume j: "j \<in> set [0..<8]"
  show "get_scale_min_k4 j (pack_k4 sc m) = Ok (sc j AND 0x3F, m j AND 0x3F)"
  proof (cases "j < 4")
    case True
    then show ?thesis
      by (simp add: get_scale_min_k4_def pack_k4_def nth_append six_bit_fields(1))
  next
    case False
    then have "j = (j - 4) + 4" "j - 4 < 4" using j by auto
    then obtain i where "j = i + 4" "i < 4" by blast
    then show ?thesis
      by (simp add: get_scale_min_k4_def pack_k4_def nth_append six_bit_fields(2,3))
  qed
qed

lemma length_blocks: "length (concat (map (\<lambda>block. map (e block) [0..<256]) bs)) = 256 * length bs"
  by (induction bs) auto

lemma dequantized_length:
  "\<exists>v. dequantize_q4_k_blocks data = Ok v \<and> length v = 256 * (length data div 144)"
  "\<exists>v. dequantize_q5_k_blocks data = Ok v \<and> length v = 256 * (length data div 176)"
  "\<exists>v. dequantize_q6_k_blocks data = Ok v \<and> length v = 256 * (length data div 210)"
  by (simp_all add: dequantize_q4_k_blocks_def dequantize_q5_k_blocks_def dequantize_q6_k_blocks_def
      q4_k_block_bytes_def q5_k_block_bytes_def q6_k_block_bytes_def length_blocks length_chunks_exact
      block_list_Ok [OF q4_k_block_Ok] block_list_Ok [OF q5_k_block_Ok] block_list_Ok [OF q6_k_block_Ok]
      del: length_concat)

definition loads_as_f32 :: "ggml_type \<Rightarrow> bool" where
  "loads_as_f32 ty \<longleftrightarrow> ty \<in> {Ty_F32, Ty_F16, Ty_BF16, Ty_Q4K, Ty_Q5K, Ty_Q6K}"

lemma dequantize_payload_Ok:
  assumes ty: "ty \<in> {Ty_Q4K, Ty_Q5K, Ty_Q6K}"
    and bl: "byte_len_for_shape ty shape n name = Ok (Some (length data))"
    and small: "8 * length data < 2 ^ 63"
  shows "\<exists>v. dequantize_k_quant_payload_f32 name' ty data shape n = Ok v \<and> length v = n"
proof -
  from ty obtain q where q: "quant_layout ty = Some q" "block_element_count q = 256"
    "144 \<le> block_byte_len q" and fixed: "fixed_element_size ty = None" by auto
  from bl obtain d ds where d: "shape = d # ds" "d mod 256 = 0" and n: "n mod 256 = 0"
    and len: "length data = n div 256 * block_byte_len q" "length data \<le> max64"
    unfolding byte_len_for_shape_def fixed q option.case
    by (auto simp: q res_simps checked_mul_def split: list.splits if_splits)
  have n': "n = 256 * (n div 256)" using n by auto
  have "n div 256 * 144 \<le> length data" using len(1) q(3) by simp
  then have "4 * n \<le> 8 * length data" using n' by linarith
  then have small: "\<not> 2 ^ 63 - 1 < 4 * n" using small by linarith
  have quotient: "length data div block_byte_len q = n div 256" using len(1) q(3) by simp
  have mul: "checked_mul (n div 256) (block_byte_len q) = Some (length data)"
    using len by (simp add: checked_mul_def)
  from ty q(1) quotient n' dequantized_length [of data] obtain v where
    v: "(case ty of
          Ty_Q4K \<Rightarrow> dequantize_q4_k_blocks data
        | Ty_Q5K \<Rightarrow> dequantize_q5_k_blocks data
        | Ty_Q6K \<Rightarrow> dequantize_q6_k_blocks data
        | other \<Rightarrow> Err (Unsupported ''gguf_tensor_type'')) = Ok v" "length v = n" by auto
  show ?thesis
    unfolding dequantize_k_quant_payload_f32_def q(1) d(1) list.case ok_or_def option.case and_then.simps v(1)
    using small d(2) n v(2) by (simp add: q(2) mul)
qed

lemma tensor_ok_payload:
  assumes "tensor_ok L R man t td"
  shows "byte_len_for_shape (gte_tensor_type t) (gte_shape t) (prod_list (gte_shape t)) (gte_name t) =
      Ok (gte_byte_len t)" "list_all (\<lambda>d. 0 < d) (gte_shape t)" "prod_list (gte_shape t) \<le> max64"
  using assms by (auto simp: tensor_ok_def decl_ok_def list_all_iff)

lemma element_count_Ok:
  "list_all (\<lambda>d. 0 < d) (gte_shape t) \<Longrightarrow> prod_list (gte_shape t) \<le> max64 \<Longrightarrow>
    element_count_from_shape t = Ok (prod_list (gte_shape t))"
proof -
  have "list_all (\<lambda>d. 0 < d) ds \<Longrightarrow> 0 < a \<Longrightarrow> a * prod_list ds \<le> max64 \<Longrightarrow>
      try_product a ds = Some (a * prod_list ds)" for a ds
  proof (induction ds arbitrary: a)
    case (Cons d ds)
    have "0 < prod_list ds" using Cons.prems(1) by (induction ds) auto
    then have "a * d * 1 \<le> a * d * prod_list ds" by (intro mult_le_mono) auto
    also have "a * d * prod_list ds \<le> max64" using Cons.prems(3) by (simp add: mult.assoc)
    finally have "a * d \<le> max64" by simp
    then show ?case using Cons by (simp add: checked_mul_def mult.assoc)
  qed simp
  from this [of "gte_shape t" 1] show
    "list_all (\<lambda>d. 0 < d) (gte_shape t) \<Longrightarrow> prod_list (gte_shape t) \<le> max64 \<Longrightarrow>
      element_count_from_shape t = Ok (prod_list (gte_shape t))"
    by (simp add: element_count_from_shape_def)
qed

lemma find_tensor_member: "find_tensor name ts = Some t \<Longrightarrow> t \<in> set ts \<and> gte_name t = name"
  by (induction ts) (auto split: if_splits)

lemma dense_Ok:
  "length data = 4 * n \<Longrightarrow> \<exists>v. decode_f32 name data = Ok v \<and> length v = n"
  "length data = 2 * n \<Longrightarrow> \<exists>v. ended (decode_f16 name data) = Ok v \<and> length v = n"
  "length data = 2 * n \<Longrightarrow> \<exists>v. decode_bf16 name data = Ok v \<and> length v = n"
  using decode_values_cases [of data Sup_F32 name] decode_values_cases [of data Sup_F16 name]
    decode_values_cases [of data Sup_BF16 name]
  by (auto simp: decode_values_def element_size_def ended_def)

lemma read_tensor_data_Ok:
  assumes "gte_byte_len t = Some n" "n \<le> max64" "8 * length bytes < 2 ^ 63"
    "gte_file_offset t + n \<le> length bytes"
  shows "read_tensor_data bytes t = Ok (take n (drop (gte_file_offset t) bytes))"
  using assms by (simp add: read_tensor_data_def)

text \<open>The result of loading: the tensor's name and shape, and a value for every element.\<close>

definition loaded_as :: "loaded_tensor res \<Rightarrow> gguf_tensor_entry \<Rightarrow> bool" where
  "loaded_as r t \<longleftrightarrow>
     (case r of
        Ok v \<Rightarrow> lt_name v = gte_name t \<and> lt_shape v = gte_shape t \<and>
          length (lt_values v) = prod_list (gte_shape t)
      | _ \<Rightarrow> False)"

lemma load_tensor_bytes_placed:
  assumes ok: "tensor_ok L R man t td" and small: "8 * length bytes < 2 ^ 63"
    and fl: "gm_file_len man = length bytes"
  shows "if loads_as_f32 (gte_tensor_type t)
    then loaded_as (load_tensor_bytes bytes t Dense_Or_K_Quantized) t
    else load_tensor_bytes bytes t Dense_Or_K_Quantized = Err (Unsupported ''gguf_tensor_type'')"
proof (cases "gte_byte_len t")
  case None
  then have "read_tensor_data bytes t = Err (Unsupported ''gguf_tensor_type'')"
    by (simp add: read_tensor_data_def)
  moreover have "\<not> loads_as_f32 (gte_tensor_type t)"
    using tensor_ok_payload(1) [OF ok] None
    by (auto simp: loads_as_f32_def byte_len_for_shape_def res_simps split: list.splits if_splits)
  ultimately show ?thesis by (simp add: load_tensor_bytes_def Let_def)
next
  case (Some n)
  define data where "data = take n (drop (gte_file_offset t) bytes)"
  have fits: "gte_file_offset t + n \<le> length bytes" using ok fl Some by (simp add: tensor_ok_def)
  then have len: "length data = n" by (simp add: data_def)
  have "n \<le> max64" using fits small by (simp add: max64_def)
  then have read: "read_tensor_data bytes t = Ok data"
    unfolding data_def by (rule read_tensor_data_Ok [OF Some _ small fits])
  note payload = tensor_ok_payload [OF ok]
  have count: "element_count_from_shape t = Ok (prod_list (gte_shape t))"
    by (rule element_count_Ok [OF payload(2,3)])
  have dense: "n = prod_list (gte_shape t) * k" if "fixed_element_size (gte_tensor_type t) = Some k" for k
    using payload(1) Some that by (auto simp: byte_len_for_shape_def res_simps checked_mul_def split: if_splits)
  have data8: "8 * length data < 2 ^ 63" using len fits small by linarith
  have quant: "\<exists>v. dequantize_k_quant_payload_f32 (gte_name t) (gte_tensor_type t) data (gte_shape t)
      (prod_list (gte_shape t)) = Ok v \<and> length v = prod_list (gte_shape t)"
    if "gte_tensor_type t \<in> {Ty_Q4K, Ty_Q5K, Ty_Q6K}"
    using dequantize_payload_Ok [OF that, of "gte_shape t" "prod_list (gte_shape t)" "gte_name t" data]
      payload(1) Some len data8 by simp
  show ?thesis
    using dense dense_Ok [of data "prod_list (gte_shape t)" "gte_name t"] quant
    by (cases "gte_tensor_type t")
      (auto simp: load_tensor_bytes_def read count Let_def loads_as_f32_def loaded_as_def len mult.commute)
qed

text \<open>
  C13. Whatever the inspection of a file accepts can be loaded from that file: every tensor
  found by name in the manifest, dense or block-quantised, gives a tensor of the same name and
  shape with one value per element, and a tensor of any other type gives the error for an
  unsupported type. No payload is out of bounds and no conversion panics.
\<close>

theorem accepted_tensors_load:
  assumes "inspect_gguf reserve (Some bytes) = Ok manifest"
    and "8 * length bytes < 2 ^ 63"
    and "find_tensor name (gm_tensors manifest) = Some t"
  shows "gte_name t = name \<and>
    (if loads_as_f32 (gte_tensor_type t)
     then loaded_as (load_gguf_tensor_dequantized_f32 reserve (Some bytes) name) t
     else load_gguf_tensor_dequantized_f32 reserve (Some bytes) name =
       Err (Unsupported ''gguf_tensor_type''))"
proof -
  have "length bytes \<le> max64" using assms(2) by (simp add: max64_def)
  from inspect_gguf_Ok [OF assms(1) [unfolded inspect_gguf_def] this] obtain entries decls where
    fl: "gm_file_len manifest = length bytes"
    and ok: "doc_ok default_artifact_limits reserve entries decls manifest" by blast
  have t: "t \<in> set (gm_tensors manifest)" "gte_name t = name"
    using find_tensor_member [OF assms(3)] by simp_all
  have "list_all2 (tensor_ok default_artifact_limits reserve manifest) (gm_tensors manifest) decls"
    using ok by (simp add: doc_ok_def)
  with t(1) obtain td where "tensor_ok default_artifact_limits reserve manifest t td"
    by (auto simp: list_all2_conv_all_nth in_set_conv_nth)
  from load_tensor_bytes_placed [OF this assms(2) fl] t(2) show ?thesis
    by (simp add: load_gguf_tensor_dequantized_f32_def with_manifest_def assms(1,3)
        load_tensor_from_manifest_def)
qed

theorem accepted_tensors_load_witness:
  "\<exists>t. find_tensor ''w'' (gm_tensors example_manifest) = Some t \<and>
     loaded_as (load_gguf_tensor_dequantized_f32 (\<lambda>_ _. True) (Some example_gguf) ''w'') t"
proof -
  have "inspect_gguf (\<lambda>_ _. True) (Some example_gguf) = Ok example_manifest"
    unfolding inspect_gguf_def by (rule inspect_gguf_accepts [OF _ example_doc_ok])
      (simp_all add: example_gguf_def length_example_doc example_manifest_def max64_def)
  from accepted_tensors_load [OF this, of "''w''"] show ?thesis
    by (simp add: length_example_gguf example_manifest_def loads_as_f32_def)
qed

end
