(* ===== verification/Wer.thy ===== *)
theory Wer imports Core_Types F32_Arith
begin

text \<open>
  Word error rate scoring (src/crates/models/src/whisper/wer.rs): normalisation of a
  transcript into words, the table of edit paths between two word sequences, and the scores of
  a case and of a corpus. The Unicode tables of the standard library (\<open>to_lowercase\<close>,
  \<open>is_alphanumeric\<close>, \<open>is_whitespace\<close>) are a parameter. The counts of a path are at most the
  number of words and cannot overflow; the size of the table can exceed the largest
  allocation, which is a \<open>Panic\<close>. The theorems show that the words are the alphanumeric runs
  of the transcript and that the table yields the least alignment of all.
\<close>

section \<open>Counts and scores\<close>

record wer_edit_counts =
  wc_substitutions :: usize
  wc_insertions :: usize
  wc_deletions :: usize
  wc_reference_words :: usize

definition wer_errors :: "wer_edit_counts \<Rightarrow> usize" where
  "wer_errors c = wc_substitutions c + wc_insertions c + wc_deletions c"

definition word_error_rate :: "wer_edit_counts \<Rightarrow> f32 option" where
  "word_error_rate c =
     (if wc_reference_words c = 0 then None
      else Some (f32_div (f32_of_int (int (wer_errors c))) (f32_of_int (int (wc_reference_words c)))))"

definition wer_add_assign :: "wer_edit_counts \<Rightarrow> wer_edit_counts \<Rightarrow> wer_edit_counts" where
  "wer_add_assign c other =
     \<lparr>wc_substitutions = wc_substitutions c + wc_substitutions other,
      wc_insertions = wc_insertions c + wc_insertions other,
      wc_deletions = wc_deletions c + wc_deletions other,
      wc_reference_words = wc_reference_words c + wc_reference_words other\<rparr>"

record wer_score =
  ws_counts :: wer_edit_counts
  ws_wer :: f32

definition score_from_counts :: "wer_edit_counts \<Rightarrow> wer_score res" where
  "score_from_counts c =
     and_then (or_panic (word_error_rate c)) (\<lambda>wer. Ok \<lparr>ws_counts = c, ws_wer = wer\<rparr>)"

section \<open>Edit paths\<close>

record edit_path =
  ep_substitutions :: usize
  ep_insertions :: usize
  ep_deletions :: usize

definition default_path :: edit_path where
  "default_path = \<lparr>ep_substitutions = 0, ep_insertions = 0, ep_deletions = 0\<rparr>"

definition path_errors :: "edit_path \<Rightarrow> usize" where
  "path_errors p = ep_substitutions p + ep_insertions p + ep_deletions p"

definition with_substitution :: "edit_path \<Rightarrow> edit_path" where
  "with_substitution p = p\<lparr>ep_substitutions := ep_substitutions p + 1\<rparr>"

definition with_insertion :: "edit_path \<Rightarrow> edit_path" where
  "with_insertion p = p\<lparr>ep_insertions := ep_insertions p + 1\<rparr>"

definition with_deletion :: "edit_path \<Rightarrow> edit_path" where
  "with_deletion p = p\<lparr>ep_deletions := ep_deletions p + 1\<rparr>"

definition into_counts :: "edit_path \<Rightarrow> usize \<Rightarrow> wer_edit_counts" where
  "into_counts p reference_words =
     \<lparr>wc_substitutions = ep_substitutions p, wc_insertions = ep_insertions p,
      wc_deletions = ep_deletions p, wc_reference_words = reference_words\<rparr>"

definition edit_sort_key :: "edit_path \<Rightarrow> nat list" where
  "edit_sort_key p =
     [path_errors p, ep_insertions p + ep_deletions p, ep_substitutions p, ep_insertions p,
      ep_deletions p]"

text \<open>The order of tuples: the first difference decides.\<close>

fun tuple_le :: "nat list \<Rightarrow> nat list \<Rightarrow> bool" where
  "tuple_le (x # xs) (y # ys) = (if x = y then tuple_le xs ys else x < y)"
| "tuple_le _ _ = True"

definition best_path :: "edit_path \<Rightarrow> edit_path \<Rightarrow> edit_path" where
  "best_path a b = (if tuple_le (edit_sort_key a) (edit_sort_key b) then a else b)"

text \<open>The flat table, row by row; an index out of range panics.\<close>

definition cell :: "edit_path list \<Rightarrow> usize \<Rightarrow> edit_path res" where
  "cell cells i = (if i < length cells then Ok (cells ! i) else Panic)"

definition set_cell :: "edit_path list \<Rightarrow> usize \<Rightarrow> edit_path \<Rightarrow> edit_path list res" where
  "set_cell cells i p = (if i < length cells then Ok (cells[i := p]) else Panic)"

definition first_column_cell :: "usize \<Rightarrow> edit_path list \<Rightarrow> usize \<Rightarrow> edit_path list res" where
  "first_column_cell columns cells i =
     and_then (cell cells ((i - 1) * columns)) (\<lambda>previous.
       set_cell cells (i * columns) (with_deletion previous))"

definition first_row_cell :: "edit_path list \<Rightarrow> usize \<Rightarrow> edit_path list res" where
  "first_row_cell cells j =
     and_then (cell cells (j - 1)) (\<lambda>previous. set_cell cells j (with_insertion previous))"

definition inner_cell ::
    "'w list \<Rightarrow> 'w list \<Rightarrow> usize \<Rightarrow> usize \<Rightarrow> edit_path list \<Rightarrow> usize \<Rightarrow> edit_path list res" where
  "inner_cell reference_words hypothesis_words columns i cells j =
     (let idx = i * columns + j in
      if reference_words ! (i - 1) = hypothesis_words ! (j - 1) then
        and_then (cell cells ((i - 1) * columns + (j - 1))) (\<lambda>p. set_cell cells idx p)
      else
        and_then (cell cells ((i - 1) * columns + (j - 1))) (\<lambda>diagonal.
        and_then (cell cells (i * columns + (j - 1))) (\<lambda>left.
        and_then (cell cells ((i - 1) * columns + j)) (\<lambda>above.
          set_cell cells idx
            (best_path (with_substitution diagonal)
              (best_path (with_insertion left) (with_deletion above)))))))"

definition edit_path_of :: "'w list \<Rightarrow> 'w list \<Rightarrow> edit_path res" where
  "edit_path_of reference_words hypothesis_words =
     (let columns = length hypothesis_words + 1;
          rows = [1..<Suc (length reference_words)]; cols = [1..<Suc (length hypothesis_words)] in
      if 2 ^ 63 - 1 < 24 * ((length reference_words + 1) * columns) then Panic
      else
        and_then (try_fold (first_column_cell columns)
                   (replicate ((length reference_words + 1) * columns) default_path) rows) (\<lambda>cells.
        and_then (try_fold first_row_cell cells cols) (\<lambda>cells.
        and_then (try_fold (\<lambda>cells i.
                     try_fold (inner_cell reference_words hypothesis_words columns i) cells cols)
                   cells rows) (\<lambda>cells.
          cell cells (length reference_words * columns + length hypothesis_words)))))"

section \<open>Normalisation\<close>

type_synonym uchar = nat

record unicode =
  to_lowercase :: "uchar \<Rightarrow> uchar list"
  is_alphanumeric :: "uchar \<Rightarrow> bool"
  is_whitespace :: "uchar \<Rightarrow> bool"

definition push_lower :: "unicode \<Rightarrow> uchar list \<times> bool \<Rightarrow> uchar \<Rightarrow> uchar list \<times> bool" where
  "push_lower U state lower =
     (case state of (normalized, pending_space) \<Rightarrow>
        if is_alphanumeric U lower then
          ((if pending_space \<and> normalized \<noteq> [] then normalized @ [32] else normalized) @ [lower],
           False)
        else (normalized, True))"

definition normalize_transcript :: "unicode \<Rightarrow> uchar list \<Rightarrow> uchar list" where
  "normalize_transcript U transcript =
     fst (foldl (\<lambda>state ch. foldl (push_lower U) state (to_lowercase U ch)) ([], False) transcript)"

text \<open>\<open>split_whitespace\<close>: the words so far and the word being read.\<close>

definition split_step :: "(uchar \<Rightarrow> bool) \<Rightarrow> uchar list list \<times> uchar list \<Rightarrow> uchar \<Rightarrow>
    uchar list list \<times> uchar list" where
  "split_step sep state c =
     (case state of (done, word) \<Rightarrow>
        if sep c then (if word = [] then (done, []) else (done @ [word], []))
        else (done, word @ [c]))"

definition finish_split :: "uchar list list \<times> uchar list \<Rightarrow> uchar list list" where
  "finish_split state = (case state of (done, word) \<Rightarrow> if word = [] then done else done @ [word])"

definition split_on :: "(uchar \<Rightarrow> bool) \<Rightarrow> uchar list \<Rightarrow> uchar list list" where
  "split_on sep cs = finish_split (foldl (split_step sep) ([], []) cs)"

definition normalized_words :: "unicode \<Rightarrow> uchar list \<Rightarrow> uchar list list" where
  "normalized_words U transcript =
     split_on (is_whitespace U) (normalize_transcript U transcript)"

section \<open>Scoring\<close>

definition wer_counts_of :: "unicode \<Rightarrow> uchar list \<Rightarrow> uchar list \<Rightarrow> wer_edit_counts res" where
  "wer_counts_of U expected_transcript recognized_transcript =
     (let reference_words = normalized_words U expected_transcript in
      if reference_words = [] then Err (InvalidRequest ''reference_transcript'')
      else
        let hypothesis_words = normalized_words U recognized_transcript in
        and_then (edit_path_of reference_words hypothesis_words) (\<lambda>p.
          Ok (into_counts p (length reference_words))))"

definition wer_score_of :: "unicode \<Rightarrow> uchar list \<Rightarrow> uchar list \<Rightarrow> wer_score res" where
  "wer_score_of U expected_transcript recognized_transcript =
     and_then (wer_counts_of U expected_transcript recognized_transcript) score_from_counts"

record wer_corpus_case =
  wk_id :: "uchar list"
  wk_expected :: "uchar list"
  wk_recognized :: "uchar list"

record wer_corpus_case_score =
  wcs_id :: "uchar list"
  wcs_score :: wer_score

record wer_corpus_report =
  wr_cases :: "wer_corpus_case_score list"
  wr_aggregate :: wer_score

definition trim :: "(uchar \<Rightarrow> bool) \<Rightarrow> uchar list \<Rightarrow> uchar list" where
  "trim white cs = rev (dropWhile white (rev (dropWhile white cs)))"

definition score_case ::
    "unicode \<Rightarrow> wer_edit_counts \<times> wer_corpus_case_score list \<Rightarrow> wer_corpus_case \<Rightarrow>
      (wer_edit_counts \<times> wer_corpus_case_score list) res" where
  "score_case U state c =
     (case state of (aggregate_counts, case_scores) \<Rightarrow>
        if trim (is_whitespace U) (wk_id c) = [] then Err (InvalidRequest ''wer_corpus.cases[].id'')
        else
          and_then (wer_score_of U (wk_expected c) (wk_recognized c)) (\<lambda>score.
            Ok (wer_add_assign aggregate_counts (ws_counts score),
                case_scores @ [\<lparr>wcs_id = wk_id c, wcs_score = score\<rparr>])))"

definition score_wer_corpus :: "unicode \<Rightarrow> wer_corpus_case list \<Rightarrow> wer_corpus_report res" where
  "score_wer_corpus U cases =
     (if cases = [] then Err (InvalidRequest ''wer_corpus.cases'')
      else
        and_then (try_fold (score_case U)
                   (\<lparr>wc_substitutions = 0, wc_insertions = 0, wc_deletions = 0,
                     wc_reference_words = 0\<rparr>, []) cases) (\<lambda>(aggregate_counts, case_scores).
        and_then (score_from_counts aggregate_counts) (\<lambda>aggregate.
          Ok \<lparr>wr_cases = case_scores, wr_aggregate = aggregate\<rparr>)))"

section \<open>Alignments\<close>

text \<open>
  An alignment keeps, replaces, inserts and deletes words; its path counts the last three.
\<close>

inductive alignment :: "'w list \<Rightarrow> 'w list \<Rightarrow> edit_path \<Rightarrow> bool" where
  align_empty: "alignment [] [] default_path"
| align_match: "alignment xs ys p \<Longrightarrow> alignment (x # xs) (x # ys) p"
| align_substitute: "alignment xs ys p \<Longrightarrow> alignment (x # xs) (y # ys) (with_substitution p)"
| align_insert: "alignment xs ys p \<Longrightarrow> alignment xs (y # ys) (with_insertion p)"
| align_delete: "alignment xs ys p \<Longrightarrow> alignment (x # xs) ys (with_deletion p)"

inductive_cases align_Cons_Cons: "alignment (x # xs) (y # ys) p"
inductive_cases align_Nil_Nil: "alignment [] [] p"
inductive_cases align_Nil_Cons: "alignment [] (y # ys) p"
inductive_cases align_Cons_Nil: "alignment (x # xs) [] p"

definition path_le :: "edit_path \<Rightarrow> edit_path \<Rightarrow> bool" where
  "path_le p q \<longleftrightarrow> tuple_le (edit_sort_key p) (edit_sort_key q)"

lemmas path_defs = with_substitution_def with_insertion_def with_deletion_def default_path_def

lemma path_le_iff:
  "path_le p q \<longleftrightarrow>
     path_errors p < path_errors q \<or>
     path_errors p = path_errors q \<and>
       (ep_insertions p + ep_deletions p < ep_insertions q + ep_deletions q \<or>
        ep_insertions p + ep_deletions p = ep_insertions q + ep_deletions q \<and>
          ep_insertions p \<le> ep_insertions q)"
  by (auto simp: path_le_def edit_sort_key_def path_errors_def)

lemma path_le_refl [simp]: "path_le p p"
  by (simp add: path_le_iff)

lemma path_le_trans [trans]: "path_le p q \<Longrightarrow> path_le q r \<Longrightarrow> path_le p r"
  unfolding path_le_iff by linarith

lemma path_le_linear: "path_le p q \<or> path_le q p"
  unfolding path_le_iff by linarith

lemma path_le_antisym: "path_le p q \<Longrightarrow> path_le q p \<Longrightarrow> p = (q :: edit_path)"
  by (cases p; cases q) (auto simp: path_le_iff path_errors_def)

lemma path_le_step [simp]:
  "path_le (with_substitution p) (with_substitution q) \<longleftrightarrow> path_le p q"
  "path_le (with_insertion p) (with_insertion q) \<longleftrightarrow> path_le p q"
  "path_le (with_deletion p) (with_deletion q) \<longleftrightarrow> path_le p q"
  by (auto simp: path_le_iff path_defs path_errors_def)

lemma path_le_grow [simp]:
  "path_le p (with_substitution p)" "path_le p (with_insertion p)" "path_le p (with_deletion p)"
  by (auto simp: path_le_iff path_defs path_errors_def)

lemma best_path_le: "path_le (best_path p q) p" "path_le (best_path p q) q"
  using path_le_linear [of p q] unfolding best_path_def path_le_def [symmetric] by auto

lemma best_path_cases: "best_path p q = p \<or> best_path p q = q"
  by (simp add: best_path_def)

text \<open>An alignment without the first word of one side costs at most one step more.\<close>

lemma align_drop_reference:
  "alignment xs ys p \<Longrightarrow> xs = x # xs' \<Longrightarrow> \<exists>q. alignment xs' ys q \<and> path_le q (with_insertion p)"
proof (induction rule: alignment.induct)
  case (align_match xs ys p x)
  then show ?case by (auto intro!: exI [of _ "with_insertion p"] alignment.align_insert)
next
  case (align_substitute xs ys p x y)
  then show ?case
    by (auto intro!: exI [of _ "with_insertion p"] alignment.align_insert)
next
  case (align_insert xs ys p y)
  then obtain q where "alignment xs' ys q" "path_le q (with_insertion p)" by auto
  then show ?case
    by (intro exI [of _ "with_insertion q"]) (simp add: alignment.align_insert)
next
  case (align_delete xs ys p x)
  then show ?case using path_le_trans [OF path_le_grow(3) path_le_grow(2)] by auto
qed simp

lemma align_drop_hypothesis:
  "alignment xs ys p \<Longrightarrow> ys = y # ys' \<Longrightarrow> \<exists>q. alignment xs ys' q \<and> path_le q (with_deletion p)"
proof (induction rule: alignment.induct)
  case (align_match xs ys p x)
  then show ?case by (auto intro!: exI [of _ "with_deletion p"] alignment.align_delete)
next
  case (align_substitute xs ys p x y)
  then show ?case by (auto intro!: exI [of _ "with_deletion p"] alignment.align_delete)
next
  case (align_delete xs ys p x)
  then obtain q where "alignment xs ys' q" "path_le q (with_deletion p)" by auto
  then show ?case by (intro exI [of _ "with_deletion q"]) (simp add: alignment.align_delete)
next
  case (align_insert xs ys p y)
  then show ?case using path_le_trans [OF path_le_grow(2) path_le_grow(3)] by auto
qed simp

text \<open>So a first word both sides share can be kept.\<close>

lemma align_keep: "alignment (x # xs) (x # ys) p \<Longrightarrow> \<exists>q. alignment xs ys q \<and> path_le q p"
  using align_drop_reference [of "x # xs" ys _ x xs] align_drop_hypothesis [of xs "x # ys" _ x ys]
  by (elim align_Cons_Cons) (auto intro: path_le_grow)

definition least_alignment :: "'w list \<Rightarrow> 'w list \<Rightarrow> edit_path \<Rightarrow> bool" where
  "least_alignment xs ys p \<longleftrightarrow> alignment xs ys p \<and> (\<forall>q. alignment xs ys q \<longrightarrow> path_le p q)"

lemma least_empty: "least_alignment [] [] default_path"
  by (auto simp: least_alignment_def intro: align_empty elim: align_Nil_Nil)

lemma least_delete: "least_alignment xs [] p \<Longrightarrow> least_alignment (x # xs) [] (with_deletion p)"
  by (auto simp: least_alignment_def intro: align_delete elim!: align_Cons_Nil)

lemma least_insert: "least_alignment [] ys p \<Longrightarrow> least_alignment [] (y # ys) (with_insertion p)"
  by (auto simp: least_alignment_def intro: align_insert elim!: align_Nil_Cons)

lemma least_match: "least_alignment xs ys p \<Longrightarrow> least_alignment (x # xs) (x # ys) p"
proof -
  assume least: "least_alignment xs ys p"
  have "path_le p q" if q: "alignment (x # xs) (x # ys) q" for q
  proof -
    obtain r where "alignment xs ys r" "path_le r q" using align_keep [OF q] by blast
    then show ?thesis using least path_le_trans [of p r q] by (simp add: least_alignment_def)
  qed
  with least show ?thesis unfolding least_alignment_def by (blast intro: align_match)
qed

lemma least_step:
  assumes "x \<noteq> y" and d: "least_alignment xs ys d" and l: "least_alignment (x # xs) ys l"
    and a: "least_alignment xs (y # ys) a"
  shows "least_alignment (x # xs) (y # ys)
    (best_path (with_substitution d) (best_path (with_insertion l) (with_deletion a)))"
    (is "least_alignment _ _ ?p")
proof -
  let ?q = "best_path (with_insertion l) (with_deletion a)"
  have le: "path_le ?p (with_substitution d)" "path_le ?p (with_insertion l)"
    "path_le ?p (with_deletion a)"
    by (rule best_path_le, (rule path_le_trans [OF best_path_le(2)], rule best_path_le)+)
  have al: "alignment xs ys d" "alignment (x # xs) ys l" "alignment xs (y # ys) a"
    using d l a by (simp_all add: least_alignment_def)
  have "?p = with_substitution d \<or> ?p = with_insertion l \<or> ?p = with_deletion a"
    using best_path_cases [of "with_insertion l" "with_deletion a"]
      best_path_cases [of "with_substitution d" ?q] by auto
  then have "alignment (x # xs) (y # ys) ?p"
    using align_substitute [OF al(1)] align_insert [OF al(2)] align_delete [OF al(3)] by auto
  moreover have "path_le ?p q" if "alignment (x # xs) (y # ys) q" for q
  proof -
    have "path_le ?p (with_substitution r)" if "alignment xs ys r" for r
      using that d path_le_trans [OF le(1)] by (simp add: least_alignment_def)
    moreover have "path_le ?p (with_insertion r)" if "alignment (x # xs) ys r" for r
      using that l path_le_trans [OF le(2)] by (simp add: least_alignment_def)
    moreover have "path_le ?p (with_deletion r)" if "alignment xs (y # ys) r" for r
      using that a path_le_trans [OF le(3)] by (simp add: least_alignment_def)
    ultimately show ?thesis
      using \<open>x \<noteq> y\<close> \<open>alignment (x # xs) (y # ys) q\<close> by (elim align_Cons_Cons) simp_all
  qed
  ultimately show ?thesis by (simp add: least_alignment_def)
qed

section \<open>The table holds least alignments\<close>

lemma try_fold_from_1:
  assumes "\<And>k s. k < n \<Longrightarrow> P (Suc k) s \<Longrightarrow> \<exists>t. f s (Suc k) = Ok t \<and> P (Suc (Suc k)) t"
    and "P 1 s"
  shows "\<exists>t. try_fold f s [1..<Suc n] = Ok t \<and> P (Suc n) t"
  using assms(1)
proof (induction n)
  case 0
  then show ?case using assms(2) by simp
next
  case (Suc n)
  then obtain t where "try_fold f s [1..<Suc n] = Ok t" "P (Suc n) t" by force
  then show ?case using Suc.prems [of n t] by (auto simp: try_fold_append)
qed

lemma row_col: "j < c \<Longrightarrow> (i * c + j) div c = i" "j < c \<Longrightarrow> (i * c + j) mod c = (j :: nat)"
  by simp_all

text \<open>The cells of a set of positions hold the least alignments of the prefixes.\<close>

definition filled ::
    "'w list \<Rightarrow> 'w list \<Rightarrow> (nat \<Rightarrow> nat \<Rightarrow> bool) \<Rightarrow> edit_path list \<Rightarrow> bool" where
  "filled xs ys D cells \<longleftrightarrow>
     length cells = (length xs + 1) * (length ys + 1) \<and>
     (\<forall>i j. D i j \<longrightarrow> i \<le> length xs \<and> j \<le> length ys \<and>
        least_alignment (rev (take i xs)) (rev (take j ys)) (cells ! (i * (length ys + 1) + j)))"

lemma filledD:
  assumes "filled xs ys D cells" and "D i j"
  obtains p where "cell cells (i * (length ys + 1) + j) = Ok p"
    "least_alignment (rev (take i xs)) (rev (take j ys)) p"
proof -
  have le: "i \<le> length xs" "j \<le> length ys" using assms by (auto simp: filled_def)
  then have "i * (length ys + 1) + j < (length xs + 1) * (length ys + 1)"
    using mult_le_mono1 [of i "length xs" "length ys + 1"] by simp
  then show thesis using that assms by (auto simp: filled_def cell_def)
qed

lemma filled_set:
  assumes f: "filled xs ys D cells" and k: "k \<le> length xs" "l \<le> length ys"
    and p: "least_alignment (rev (take k xs)) (rev (take l ys)) p"
  shows "\<exists>cells'. set_cell cells (k * (length ys + 1) + l) p = Ok cells' \<and>
    filled xs ys (\<lambda>i j. D i j \<or> i = k \<and> j = l) cells'"
proof -
  let ?c = "length ys + 1"
  have n: "k * ?c + l < length cells"
    using k f mult_le_mono1 [of k "length xs" ?c] by (simp add: filled_def)
  have inj: "i = k \<and> j = l" if "i * ?c + j = k * ?c + l" "j \<le> length ys" for i j
  proof -
    have "j < ?c" "l < ?c" using that(2) k(2) by simp_all
    then show ?thesis using row_col [of j ?c i] row_col [of l ?c k] that(1) by (simp only:)
  qed
  have "filled xs ys (\<lambda>i j. D i j \<or> i = k \<and> j = l) (cells[k * ?c + l := p])"
    unfolding filled_def
  proof (intro conjI allI impI)
    fix i j
    assume "D i j \<or> i = k \<and> j = l"
    then show "i \<le> length xs" "j \<le> length ys"
      "least_alignment (rev (take i xs)) (rev (take j ys)) (cells[k * ?c + l := p] ! (i * ?c + j))"
      using f k p n inj [of i j] by (auto simp: filled_def nth_list_update)
  qed (use f in \<open>simp add: filled_def\<close>)
  then show ?thesis using n by (simp add: set_cell_def)
qed

lemma filled_cong: "filled xs ys D cells \<Longrightarrow> (\<And>i j. D' i j \<Longrightarrow> D i j) \<Longrightarrow> filled xs ys D' cells"
  by (auto simp: filled_def)

lemma rev_take_Suc: "k < length xs \<Longrightarrow> rev (take (Suc k) xs) = xs ! k # rev (take k xs)"
  by (simp add: take_Suc_conv_app_nth)

lemma first_column_filled:
  assumes "filled xs ys (\<lambda>i j. j = 0 \<and> i < Suc k) cells" and "k < length xs"
  shows "\<exists>t. first_column_cell (length ys + 1) cells (Suc k) = Ok t \<and>
    filled xs ys (\<lambda>i j. j = 0 \<and> i < Suc (Suc k)) t"
proof -
  obtain p where p: "cell cells (k * (length ys + 1) + 0) = Ok p"
    "least_alignment (rev (take k xs)) [] p" by (rule filledD [OF assms(1), where i = k and j = 0]) auto
  have "least_alignment (rev (take (Suc k) xs)) (rev (take 0 ys)) (with_deletion p)"
    using p(2) assms(2) by (simp only: rev_take_Suc take0 rev.simps least_delete)
  from filled_set [OF assms(1) _ _ this] assms(2) obtain t where
    "set_cell cells (Suc k * (length ys + 1) + 0) (with_deletion p) = Ok t"
    "filled xs ys (\<lambda>i j. j = 0 \<and> i < Suc k \<or> i = Suc k \<and> j = 0) t" by auto
  then show ?thesis using p(1)
    by (auto simp: first_column_cell_def elim!: filled_cong)
qed

lemma first_row_filled:
  assumes "filled xs ys (\<lambda>i j. i \<le> length xs \<and> j = 0 \<or> i = 0 \<and> j < Suc k) cells" and "k < length ys"
  shows "\<exists>t. first_row_cell cells (Suc k) = Ok t \<and>
    filled xs ys (\<lambda>i j. i \<le> length xs \<and> j = 0 \<or> i = 0 \<and> j < Suc (Suc k)) t"
proof -
  obtain p where p: "cell cells (0 * (length ys + 1) + k) = Ok p"
    "least_alignment [] (rev (take k ys)) p" by (rule filledD [OF assms(1), where i = 0 and j = k]) auto
  have "least_alignment (rev (take 0 xs)) (rev (take (Suc k) ys)) (with_insertion p)"
    using p(2) assms(2) by (simp only: rev_take_Suc take0 rev.simps least_insert)
  from filled_set [OF assms(1) _ _ this] assms(2) obtain t where
    "set_cell cells (0 * (length ys + 1) + Suc k) (with_insertion p) = Ok t"
    "filled xs ys (\<lambda>i j. (i \<le> length xs \<and> j = 0 \<or> i = 0 \<and> j < Suc k) \<or> i = 0 \<and> j = Suc k) t" by auto
  then show ?thesis using p(1)
    by (auto simp: first_row_cell_def elim!: filled_cong)
qed

text \<open>The cells known while row \<open>i\<close> is being filled, before column \<open>k\<close>.\<close>

definition known :: "nat \<Rightarrow> nat \<Rightarrow> nat \<Rightarrow> nat \<Rightarrow> nat \<Rightarrow> nat \<Rightarrow> bool" where
  "known n m row k i j \<longleftrightarrow>
     i \<le> n \<and> j \<le> m \<and> (j = 0 \<or> i = 0 \<or> i < row \<or> i = row \<and> j < k)"

lemma inner_filled:
  assumes f: "filled xs ys (known (length xs) (length ys) (Suc a) (Suc b)) cells"
    and a: "a < length xs" and b: "b < length ys"
  shows "\<exists>t. inner_cell xs ys (length ys + 1) (Suc a) cells (Suc b) = Ok t \<and>
    filled xs ys (known (length xs) (length ys) (Suc a) (Suc (Suc b))) t"
proof -
  let ?c = "length ys + 1"
  obtain d where d: "cell cells (a * ?c + b) = Ok d"
    "least_alignment (rev (take a xs)) (rev (take b ys)) d"
    by (rule filledD [OF f, where i = a and j = b]) (use a b in \<open>auto simp: known_def\<close>)
  obtain l where l: "cell cells (Suc a * ?c + b) = Ok l"
    "least_alignment (xs ! a # rev (take a xs)) (rev (take b ys)) l"
    by (rule filledD [OF f, where i = "Suc a" and j = b]) (use a b in \<open>auto simp: known_def rev_take_Suc\<close>)
  obtain u where u: "cell cells (a * ?c + Suc b) = Ok u"
    "least_alignment (rev (take a xs)) (ys ! b # rev (take b ys)) u"
    by (rule filledD [OF f, where i = a and j = "Suc b"]) (use a b in \<open>auto simp: known_def rev_take_Suc\<close>)
  let ?best = "best_path (with_substitution d) (best_path (with_insertion l) (with_deletion u))"
  let ?p = "if xs ! a = ys ! b then d else ?best"
  have "least_alignment (rev (take (Suc a) xs)) (rev (take (Suc b) ys)) ?p"
    unfolding rev_take_Suc [OF a] rev_take_Suc [OF b]
    using least_match [OF d(2)] least_step [OF _ d(2) l(2) u(2)] by auto
  from filled_set [OF f _ _ this] a b obtain t where
    t: "set_cell cells (Suc a * ?c + Suc b) ?p = Ok t"
    "filled xs ys (\<lambda>i j. known (length xs) (length ys) (Suc a) (Suc b) i j \<or> i = Suc a \<and> j = Suc b) t"
    by auto
  have "filled xs ys (known (length xs) (length ys) (Suc a) (Suc (Suc b))) t"
    using t(2) by (rule filled_cong) (auto simp: known_def less_Suc_eq)
  moreover have "inner_cell xs ys ?c (Suc a) cells (Suc b) = Ok t"
    using t(1) d(1) l(1) u(1)
    by (cases "xs ! a = ys ! b") (simp_all only: inner_cell_def diff_Suc_1 Let_def if_True if_False
        and_then.simps refl simp_thms)
  ultimately show ?thesis by blast
qed

lemma edit_path_least:
  assumes "24 * ((length xs + 1) * (length ys + 1)) < 2 ^ 63"
  shows "\<exists>p. edit_path_of xs ys = Ok p \<and> least_alignment (rev xs) (rev ys) p"
proof -
  let ?n = "length xs" and ?m = "length ys"
  let ?c = "?m + 1"
  let ?start = "replicate ((?n + 1) * ?c) default_path"
  have start: "filled xs ys (\<lambda>i j. j = 0 \<and> i < 1) ?start"
    using least_empty by (auto simp: filled_def)
  obtain c1 where c1: "try_fold (first_column_cell ?c) ?start [1..<Suc ?n] = Ok c1"
    "filled xs ys (\<lambda>i j. j = 0 \<and> i < Suc ?n) c1"
    using try_fold_from_1 [where f = "first_column_cell ?c" and n = ?n and
        P = "\<lambda>k. filled xs ys (\<lambda>i j. j = 0 \<and> i < k)", OF first_column_filled start] by blast
  have "filled xs ys (\<lambda>i j. i \<le> ?n \<and> j = 0 \<or> i = 0 \<and> j < 1) c1"
    using c1(2) by (rule filled_cong) auto
  then obtain c2 where c2: "try_fold first_row_cell c1 [1..<Suc ?m] = Ok c2"
    "filled xs ys (\<lambda>i j. i \<le> ?n \<and> j = 0 \<or> i = 0 \<and> j < Suc ?m) c2"
    using try_fold_from_1 [where f = first_row_cell and n = ?m and
        P = "\<lambda>k. filled xs ys (\<lambda>i j. i \<le> ?n \<and> j = 0 \<or> i = 0 \<and> j < k)", OF first_row_filled]
    by blast
  have row: "\<exists>t. try_fold (inner_cell xs ys ?c (Suc a)) s [1..<Suc ?m] = Ok t \<and>
      filled xs ys (known ?n ?m (Suc (Suc a)) 1) t"
    if s: "filled xs ys (known ?n ?m (Suc a) 1) s" and a: "a < ?n" for a s
  proof -
    obtain t where "try_fold (inner_cell xs ys ?c (Suc a)) s [1..<Suc ?m] = Ok t"
      "filled xs ys (known ?n ?m (Suc a) (Suc ?m)) t"
      using try_fold_from_1 [where f = "inner_cell xs ys ?c (Suc a)" and n = ?m and
          P = "\<lambda>k. filled xs ys (known ?n ?m (Suc a) k)", OF inner_filled [OF _ a] s] by blast
    moreover from this(2) have "filled xs ys (known ?n ?m (Suc (Suc a)) 1) t"
      by (rule filled_cong) (auto simp: known_def)
    ultimately show ?thesis by blast
  qed
  have "filled xs ys (known ?n ?m 1 1) c2"
    using c2(2) by (rule filled_cong) (auto simp: known_def)
  then obtain c3 where c3: "try_fold (\<lambda>cells i. try_fold (inner_cell xs ys ?c i) cells [1..<Suc ?m]) c2
      [1..<Suc ?n] = Ok c3" "filled xs ys (known ?n ?m (Suc ?n) 1) c3"
    using try_fold_from_1 [where n = ?n and P = "\<lambda>k. filled xs ys (known ?n ?m k 1)" and
        f = "\<lambda>cells i. try_fold (inner_cell xs ys ?c i) cells [1..<Suc ?m]", OF row]
    by blast
  obtain p where "cell c3 (?n * ?c + ?m) = Ok p" "least_alignment (rev xs) (rev ys) p"
    by (rule filledD [OF c3(2), where i = ?n and j = ?m]) (auto simp: known_def)
  moreover have "\<not> 2 ^ 63 - 1 < 24 * ((?n + 1) * ?c)" using assms by linarith
  ultimately show ?thesis
    unfolding edit_path_of_def Let_def using c1(1) c2(1) c3(1)
    by (simp only: if_False and_then.simps) blast
qed

lemma align_snoc:
  assumes "alignment xs ys p"
  shows "alignment (xs @ [x]) (ys @ [x]) p"
    and "alignment (xs @ [x]) (ys @ [y]) (with_substitution p)"
    and "alignment xs (ys @ [y]) (with_insertion p)"
    and "alignment (xs @ [x]) ys (with_deletion p)"
proof -
  have swap: "with_substitution (with_insertion q) = with_insertion (with_substitution q)"
    "with_substitution (with_deletion q) = with_deletion (with_substitution q)"
    "with_insertion (with_deletion q) = with_deletion (with_insertion q)" for q
    by (simp_all add: path_defs)
  show "alignment (xs @ [x]) (ys @ [x]) p"
    using assms by induction (auto intro: alignment.intros)
  show "alignment (xs @ [x]) (ys @ [y]) (with_substitution p)"
    using assms by induction (auto intro: alignment.intros simp: swap)
  show "alignment xs (ys @ [y]) (with_insertion p)"
    using assms by induction (auto intro: alignment.intros simp flip: swap(1) simp: swap(3))
  show "alignment (xs @ [x]) ys (with_deletion p)"
    using assms by induction (auto intro: alignment.intros simp flip: swap(2,3))
qed

lemma align_rev: "alignment (rev xs) (rev ys) p \<longleftrightarrow> alignment xs ys p"
proof -
  have "alignment xs ys p \<Longrightarrow> alignment (rev xs) (rev ys) p" for xs ys :: "'a list"
    by (induction rule: alignment.induct) (auto intro: align_empty align_snoc)
  from this [of xs ys] this [of "rev xs" "rev ys"] show ?thesis by auto
qed

lemma least_rev: "least_alignment (rev xs) (rev ys) p \<longleftrightarrow> least_alignment xs ys p"
  by (simp add: least_alignment_def align_rev)

lemma least_unique: "least_alignment xs ys p \<Longrightarrow> least_alignment xs ys q \<Longrightarrow> p = q"
  using path_le_antisym by (auto simp: least_alignment_def)

text \<open>
  C30. The word error counts are those of the least alignment of the reference words with the
  recognised words: no way of keeping, replacing, inserting and deleting words has fewer
  errors, and among those with as few errors none has fewer insertions and deletions, although
  the table takes a shared word without trying the other moves. The counts are returned exactly
  when the reference has a word.
\<close>

theorem wer_counts_least:
  assumes "24 * ((length (normalized_words U e) + 1) * (length (normalized_words U r) + 1)) < 2 ^ 63"
  shows "wer_counts_of U e r = Ok c \<longleftrightarrow>
      normalized_words U e \<noteq> [] \<and>
      (\<exists>p. least_alignment (normalized_words U e) (normalized_words U r) p \<and>
        c = into_counts p (length (normalized_words U e)))"
    (is "?lhs \<longleftrightarrow> ?rhs")
proof -
  obtain p where p: "edit_path_of (normalized_words U e) (normalized_words U r) = Ok p"
    "least_alignment (normalized_words U e) (normalized_words U r) p"
    using edit_path_least [OF assms] by (auto simp: least_rev)
  then have "?lhs \<longleftrightarrow> normalized_words U e \<noteq> [] \<and> c = into_counts p (length (normalized_words U e))"
    by (auto simp: wer_counts_of_def Let_def)
  with p(2) least_unique [OF p(2)] show ?thesis by blast
qed

section \<open>The words of a transcript\<close>

definition unicode_ok :: "unicode \<Rightarrow> bool" where
  "unicode_ok U \<longleftrightarrow> is_whitespace U 32 \<and> (\<forall>c. is_alphanumeric U c \<longrightarrow> \<not> is_whitespace U c)"

text \<open>
  Splitting what has been normalised so far and splitting the lowered characters read so far
  agree, up to the separator that is still pending.
\<close>

definition split_agrees :: "unicode \<Rightarrow> uchar list \<times> bool \<Rightarrow> uchar list list \<times> uchar list \<Rightarrow> bool" where
  "split_agrees U state spec \<longleftrightarrow>
     (let white = foldl (split_step (is_whitespace U)) ([], []) (fst state) in
      (fst state = [] \<longleftrightarrow> finish_split spec = []) \<and>
      (if snd state then snd spec = [] \<and> finish_split white = fst spec else white = spec))"

lemma split_agrees_step:
  assumes U: "unicode_ok U" and "split_agrees U state spec"
  shows "split_agrees U (push_lower U state c) (split_step (\<lambda>c. \<not> is_alphanumeric U c) spec c)"
proof (cases "is_alphanumeric U c")
  case True
  have w: "is_whitespace U 32" "\<not> is_whitespace U c" using U True by (simp_all add: unicode_ok_def)
  show ?thesis using assms(2) True w
    by (cases state; cases spec;
        cases "foldl (split_step (is_whitespace U)) ([], []) (fst state)")
      (auto simp: split_agrees_def push_lower_def split_step_def finish_split_def Let_def
        split: if_splits)
next
  case False
  then show ?thesis using assms(2)
    by (cases state; cases spec) (auto simp: split_agrees_def push_lower_def split_step_def
        finish_split_def Let_def split: if_splits)
qed

text \<open>
  The words that are compared are the longest runs of alphanumeric characters of the
  lower-cased transcript, in order: whatever separates them, how often and at the ends, counts
  as one separation.
\<close>

theorem words_are_runs:
  assumes "unicode_ok U"
  shows "normalized_words U transcript =
    split_on (\<lambda>c. \<not> is_alphanumeric U c) (concat (map (to_lowercase U) transcript))"
proof -
  let ?push = "push_lower U" and ?step = "split_step (\<lambda>c. \<not> is_alphanumeric U c)"
  have inner: "split_agrees U (foldl ?push st cs) (foldl ?step sp cs)" if "split_agrees U st sp" for st sp cs
    using that
  proof (induction cs arbitrary: st sp)
    case (Cons c cs)
    from Cons.IH [OF split_agrees_step [OF assms Cons.prems]] show ?case by simp
  qed simp
  have "foldl (\<lambda>st ch. foldl ?push st (to_lowercase U ch)) st t =
      foldl ?push st (concat (map (to_lowercase U) t))" for st t
    by (induction t arbitrary: st) auto
  moreover have "split_agrees U ([], False) ([], [])"
    by (simp add: split_agrees_def finish_split_def)
  ultimately have "split_agrees U
      (foldl (\<lambda>st ch. foldl ?push st (to_lowercase U ch)) ([], False) transcript)
      (foldl ?step ([], []) (concat (map (to_lowercase U) transcript)))" using inner by simp
  then show ?thesis
    unfolding normalized_words_def split_on_def normalize_transcript_def split_agrees_def
    by (auto simp: Let_def finish_split_def split: if_splits prod.splits)
qed

section \<open>Examples\<close>

text \<open>The ASCII part of the tables.\<close>

definition ascii :: unicode where
  "ascii =
     \<lparr>to_lowercase = (\<lambda>c. [if 65 \<le> c \<and> c \<le> 90 then c + 32 else c]),
      is_alphanumeric = (\<lambda>c. 48 \<le> c \<and> c \<le> 57 \<or> 65 \<le> c \<and> c \<le> 90 \<or> 97 \<le> c \<and> c \<le> 122),
      is_whitespace = (\<lambda>c. 9 \<le> c \<and> c \<le> 13 \<or> c = 32)\<rparr>"

text \<open>\<open>a, B\<close> against \<open>b c\<close>.\<close>

lemma example_words:
  "normalized_words ascii [97, 44, 32, 66] = [[97], [98]]"
  "normalized_words ascii [98, 32, 99] = [[98], [99]]"
  by (simp_all add: normalized_words_def normalize_transcript_def push_lower_def split_on_def
      split_step_def finish_split_def ascii_def)

theorem words_are_runs_witness:
  "split_on (\<lambda>c. \<not> is_alphanumeric ascii c) [97, 44, 32, 98] = [[97], [98]]"
  using words_are_runs [of ascii "[97, 44, 32, 66]"]
  by (simp add: unicode_ok_def example_words) (simp add: ascii_def)

theorem wer_counts_least_witness:
  "\<exists>p. least_alignment [[97], [98 :: uchar]] [[98], [99]] p \<and>
     p = \<lparr>ep_substitutions = 2, ep_insertions = 0, ep_deletions = 0\<rparr>"
proof -
  have "wer_counts_of ascii [97, 44, 32, 66] [98, 32, 99] =
      Ok (into_counts \<lparr>ep_substitutions = 2, ep_insertions = 0, ep_deletions = 0\<rparr> (Suc (Suc 0)))"
    by (simp add: wer_counts_of_def example_words edit_path_of_def Let_def upt_rec cell_def
        set_cell_def first_column_cell_def first_row_cell_def inner_cell_def path_defs
        best_path_def edit_sort_key_def path_errors_def into_counts_def)
  with wer_counts_least [where U = ascii and e = "[97, 44, 32, 66]" and r = "[98, 32, 99]" and
      c = "into_counts \<lparr>ep_substitutions = 2, ep_insertions = 0, ep_deletions = 0\<rparr> (Suc (Suc 0))"]
  obtain p where
    p: "least_alignment [[97], [98 :: uchar]] [[98], [99]] p"
    "into_counts p (Suc (Suc 0)) = into_counts \<lparr>ep_substitutions = 2, ep_insertions = 0, ep_deletions = 0\<rparr> (Suc (Suc 0))"
    by (auto simp: example_words)
  from p(2) have "p = \<lparr>ep_substitutions = 2, ep_insertions = 0, ep_deletions = 0\<rparr>"
    by (cases p) (simp add: into_counts_def)
  with p(1) show ?thesis by blast
qed

end
