(* ===== verification/Kernel_Base.thy ===== *)
theory Kernel_Base imports Core_Types F32_Arith
begin

text \<open>
  What the CPU kernels share (src/crates/kernels/src/lib.rs): the modes, the error constructor,
  the checked products of shapes, element-wise kernels, writes into an output buffer and the
  chunks that the thread pool works on. An output buffer is an argument and the result; after an
  error the caller's buffer is the one it passed. The bodies that take validated lengths read
  and write by index without further checks, as the lengths put every index in range.
\<close>

section \<open>Modes and errors\<close>

datatype cpu_kernel_mode = Mode_Scalar | Mode_Optimized | Mode_Avx2

fun cpu_kernel_mode_as_str :: "cpu_kernel_mode \<Rightarrow> string" where
  "cpu_kernel_mode_as_str Mode_Scalar = ''scalar''"
| "cpu_kernel_mode_as_str Mode_Optimized = ''optimized''"
| "cpu_kernel_mode_as_str Mode_Avx2 = ''avx2''"

definition kernel_err :: "string \<Rightarrow> 'a res" where
  "kernel_err message = Err (KernelError ''cpu'' message)"

lemma kernel_err_simps [simp]: "kernel_err m \<noteq> Ok x" "kernel_err m \<noteq> Panic"
  by (simp_all add: kernel_err_def)

lemma if_kernel_err [res_simps]:
  "(if b then kernel_err m else r) = Ok y \<longleftrightarrow> \<not> b \<and> r = Ok y"
  "(if b then kernel_err m else r) = Panic \<longleftrightarrow> \<not> b \<and> r = Panic"
  by auto

definition checked_len_product :: "string \<Rightarrow> string \<Rightarrow> usize list \<Rightarrow> usize res" where
  "checked_len_product kname label dims =
     ok_or (try_product 1 dims)
       (KernelError ''cpu'' (kname @ '' '' @ label @ '' shape product overflows usize: {:?}''))"

lemma checked_len_product_pair:
  "checked_len_product kname label [m, n] = Ok p \<longleftrightarrow> m \<le> max64 \<and> m * n \<le> max64 \<and> p = m * n"
  "checked_len_product kname label [m, n] \<noteq> Panic"
  by (auto simp: checked_len_product_def checked_mul_def split: if_splits)

definition div_ceil :: "nat \<Rightarrow> nat \<Rightarrow> nat" where
  "div_ceil a b = (if a mod b = 0 then a div b else a div b + 1)"

section \<open>Element-wise kernels\<close>

definition vec_add :: "f32 list \<Rightarrow> f32 list \<Rightarrow> f32 list \<Rightarrow> f32 list res" where
  "vec_add a b out =
     (if length a \<noteq> length b \<or> length a \<noteq> length out
      then kernel_err ''vec_add length mismatch: a.len={}, b.len={}, out.len={}''
      else Ok (foldl (\<lambda>out i. out[i := f32_add (a ! i) (b ! i)]) out [0..<length a]))"

definition dot :: "f32 list \<Rightarrow> f32 list \<Rightarrow> f32 res" where
  "dot a b =
     (if length a \<noteq> length b then kernel_err ''dot length mismatch: a.len={}, b.len={}''
      else Ok (foldl (\<lambda>acc i. f32_add acc (f32_mul (a ! i) (b ! i))) 0 [0..<length a]))"

section \<open>Writes into an output buffer\<close>

text \<open>
  \<open>fills g S out out'\<close>: the positions of \<open>S\<close> within the buffer now hold the values of \<open>g\<close> and
  the others what they held before.
\<close>

definition fills :: "(nat \<Rightarrow> 'a) \<Rightarrow> nat set \<Rightarrow> 'a list \<Rightarrow> 'a list \<Rightarrow> bool" where
  "fills g S out out' \<longleftrightarrow>
     length out' = length out \<and>
     (\<forall>i < length out. out' ! i = (if i \<in> S then g i else out ! i))"

lemma fills_nothing [simp]: "fills g {} out out"
  by (simp add: fills_def)

lemma fills_write: "fills g S out out' \<Longrightarrow> v = g i \<Longrightarrow> fills g (insert i S) out (out'[i := v])"
  by (cases "i < length out") (auto simp: fills_def nth_list_update list_update_beyond)

lemma fills_trans: "fills g S out out' \<Longrightarrow> fills g T out' out'' \<Longrightarrow> fills g (S \<union> T) out out''"
  by (auto simp: fills_def)

lemma fills_foldl:
  assumes "\<And>out x. x \<in> set xs \<Longrightarrow> fills g (S x) out (f out x)"
  shows "fills g (\<Union>x \<in> set xs. S x) out (foldl f out xs)"
  using assms
proof (induction xs arbitrary: out)
  case (Cons x xs)
  then have "fills g (S x) out (f out x)"
    "fills g (\<Union>x \<in> set xs. S x) (f out x) (foldl f (f out x) xs)" by simp_all
  from fills_trans [OF this] show ?case by simp
qed simp

lemma fills_all:
  "fills g S out out' \<Longrightarrow> {..<length out} \<subseteq> S \<Longrightarrow> out' = map g [0..<length out]"
  by (intro nth_equalityI) (auto simp: fills_def)

lemma fills_cong:
  "fills g S out out' \<Longrightarrow> (\<And>i. i < length out \<Longrightarrow> i \<in> S \<longleftrightarrow> i \<in> T) \<Longrightarrow> fills g T out out'"
  by (auto simp: fills_def)

text \<open>One write per position of a range.\<close>

lemma foldl_write: "foldl (\<lambda>out i. out[i := g i]) out [0..<n] = map g [0..<min n (length out)] @ drop n out"
proof (induction n)
  case (Suc n)
  then show ?case
    by (cases "n < length out") (auto simp: list_update_append Cons_nth_drop_Suc [symmetric] min_def
        list_update_beyond)
qed simp

lemma vec_add_Ok:
  "length a = length b \<Longrightarrow> length a = length out \<Longrightarrow>
    vec_add a b out = Ok (map (\<lambda>i. f32_add (a ! i) (b ! i)) [0..<length a])"
  by (simp add: vec_add_def foldl_write [where g = "\<lambda>i. f32_add (a ! i) (b ! i)"])

section \<open>Rows of a matrix\<close>

lemma row_position: "j < n \<Longrightarrow> (i * n + j) div n = i" "j < n \<Longrightarrow> (i * n + j) mod n = (j :: nat)"
  by simp_all

lemma rows_cover:
  assumes "length out = m * n" and "\<And>i j. i < m \<Longrightarrow> j < n \<Longrightarrow> i * n + j \<in> S"
    and "fills g S out out'"
  shows "out' = map g [0..<m * n]"
proof -
  have "x \<in> S" if "x < m * n" for x
  proof -
    have "0 < n" using that by (intro gr0I) auto
    then have "x div n < m" "x mod n < n" using that by (simp_all add: less_mult_imp_div_less)
    from assms(2) [OF this] show ?thesis by simp
  qed
  then show ?thesis using fills_all [OF assms(3)] assms(1) by auto
qed

text \<open>A row that is updated in place, once per position and step.\<close>

lemma foldl_row:
  assumes "base + n \<le> length out"
  shows "foldl (\<lambda>out j. out[base + j := h j (out ! (base + j))]) out [0..<n] =
    take base out @ map (\<lambda>j. h j (out ! (base + j))) [0..<n] @ drop (base + n) out"
  using assms
proof (induction n)
  case (Suc n)
  then have "out ! (base + n) # drop (Suc (base + n)) out = drop (base + n) out"
    by (simp add: Cons_nth_drop_Suc)
  then show ?case using Suc
    by (simp add: list_update_append nth_append flip: \<open>_ = drop (base + n) out\<close>)
qed simp

lemma foldl_row_steps:
  assumes "base + n \<le> length out"
  shows "foldl (\<lambda>out p. foldl (\<lambda>out j. out[base + j := h p j (out ! (base + j))]) out [0..<n]) out ps =
    take base out @ map (\<lambda>j. foldl (\<lambda>acc p. h p j acc) (out ! (base + j)) ps) [0..<n] @
      drop (base + n) out"
proof (induction ps rule: rev_induct)
  case Nil
  have "map (\<lambda>j. out ! (base + j)) [0..<n] = take n (drop base out)"
    using assms by (intro nth_equalityI) auto
  then show ?case using append_take_drop_id [of n "drop base out"] by (simp add: add.commute)
next
  case (snoc p ps)
  then show ?case using assms foldl_row [of base n _ "h p"] by (simp add: nth_append)
qed

lemma fills_row:
  assumes "base + n \<le> length out" and "\<And>j. j < n \<Longrightarrow> vs ! j = g (base + j)" and "length vs = n"
  shows "fills g {base..<base + n} out (take base out @ vs @ drop (base + n) out)"
  unfolding fills_def
proof (intro conjI allI impI)
  fix i
  assume "i < length out"
  then show "(take base out @ vs @ drop (base + n) out) ! i = (if i \<in> {base..<base + n} then g i else out ! i)"
    using assms assms(2) [of "i - base"] by (auto simp: nth_append)
qed (use assms in simp)

lemma fills_foldl_fresh:
  assumes "\<And>out x. x \<in> set xs \<Longrightarrow> length out = length init \<Longrightarrow>
      (\<forall>i \<in> S x. i < length init \<longrightarrow> out ! i = init ! i) \<Longrightarrow> fills g (S x) out (f out x)"
    and "distinct xs" and "\<And>x y. x \<in> set xs \<Longrightarrow> y \<in> set xs \<Longrightarrow> x \<noteq> y \<Longrightarrow> S x \<inter> S y = {}"
  shows "fills g (\<Union>x \<in> set xs. S x) init (foldl f init xs)"
  using assms
proof (induction xs rule: rev_induct)
  case (snoc x xs)
  let ?out = "foldl f init xs"
  have out: "fills g (\<Union>x \<in> set xs. S x) init ?out" using snoc by simp
  have "i \<notin> (\<Union>x \<in> set xs. S x)" if "i \<in> S x" for i
    using that snoc.prems(2) snoc.prems(3) [of x] by fastforce
  then have "fills g (S x) ?out (f ?out x)"
    using out by (intro snoc.prems(1)) (auto simp: fills_def)
  from fills_trans [OF out this] show ?case by (simp add: Un_commute)
qed simp

lemma row_ranges_disjoint: "i \<noteq> i' \<Longrightarrow> {i * n..<i * n + n} \<inter> {i' * n..<i' * n + n :: nat} = {}"
proof -
  have "i * n + n \<le> i' * n" if "i < i'" for i i' :: nat
    using mult_le_mono1 [of "Suc i" i' n] that by simp
  then show "i \<noteq> i' \<Longrightarrow> {i * n..<i * n + n} \<inter> {i' * n..<i' * n + n} = {}"
    by (cases i i' rule: linorder_cases) fastforce+
qed

lemma row_in_range: "i < m \<Longrightarrow> i * n + n \<le> m * (n :: nat)"
  using mult_le_mono1 [of "Suc i" m n] by simp

section \<open>Chunks of the thread pool\<close>

text \<open>
  \<open>out.par_chunks_mut(n).enumerate().for_each(f)\<close> of the rayon crate: the chunks are disjoint
  and \<open>f\<close> writes only its own, so the order of the threads does not matter; a size of zero
  panics.
\<close>

fun chunks :: "nat \<Rightarrow> 'a list \<Rightarrow> 'a list list" where
  "chunks n xs = (if n = 0 \<or> xs = [] then [] else take n xs # chunks n (drop n xs))"

declare chunks.simps [simp del]

definition par_chunks_mut :: "nat \<Rightarrow> (nat \<Rightarrow> 'a list \<Rightarrow> 'a list) \<Rightarrow> 'a list \<Rightarrow> 'a list res" where
  "par_chunks_mut n f out =
     (if n = 0 then Panic
      else Ok (concat (map (\<lambda>(idx, chunk). f idx chunk) (enumerate 0 (chunks n out)))))"

lemma chunks_concat_map:
  fixes out :: "'a list"
  assumes "0 < n"
    and "\<And>idx chunk. chunk \<noteq> [] \<Longrightarrow> idx * n + length chunk \<le> k + length out \<Longrightarrow>
      (length chunk = n \<or> idx * n + length chunk = k + length out) \<Longrightarrow>
      f idx chunk = map g [idx * n..<idx * n + length chunk]"
    and "k = j * n"
  shows "concat (map (\<lambda>(idx, chunk). f idx chunk) (enumerate j (chunks n out))) =
    map g [k..<k + length out]"
  using assms
proof (induction n out arbitrary: k j rule: chunks.induct)
  case (1 n out)
  show ?case
  proof (cases "out = []")
    case True
    then show ?thesis by (simp add: chunks.simps)
  next
    case False
    let ?head = "take n out" and ?rest = "drop n out"
    have split: "chunks n out = ?head # chunks n ?rest"
      using False 1(2) by (subst chunks.simps) simp
    have len: "length ?head = n \<or> length ?head = length out" by auto
    have head: "f j ?head = map g [k..<k + length ?head]"
      using False 1(2,4) len 1(3) [of ?head j] by auto
    show ?thesis
    proof (cases "length out \<le> n")
      case True
      then show ?thesis using split head by (simp add: chunks.simps [of n "[]"])
    next
      case False
      have kn: "k + n = Suc j * n" using 1(4) by simp
      have "concat (map (\<lambda>(idx, chunk). f idx chunk) (enumerate (Suc j) (chunks n ?rest))) =
          map g [k + n..<k + n + length ?rest]"
      proof (rule 1(1))
        fix idx and chunk :: "'a list"
        assume "chunk \<noteq> []" "idx * n + length chunk \<le> k + n + length ?rest"
          "length chunk = n \<or> idx * n + length chunk = k + n + length ?rest"
        then show "f idx chunk = map g [idx * n..<idx * n + length chunk]"
          using 1(3) [of chunk idx] False by simp
      qed (use \<open>out \<noteq> []\<close> 1(2) kn in simp_all)
      moreover have "[k..<k + length out] = [k..<k + n] @ [k + n..<k + n + length ?rest]"
        using upt_add_eq_append [of k "k + n" "length ?rest"] False by simp
      ultimately show ?thesis using split head False by simp
    qed
  qed
qed

text \<open>If every chunk is computed to the values of its positions, so is the buffer.\<close>

lemma par_chunks_mut_map:
  assumes "0 < n"
    and "\<And>idx chunk. chunk \<noteq> [] \<Longrightarrow> idx * n + length chunk \<le> length out \<Longrightarrow>
      (length chunk = n \<or> idx * n + length chunk = length out) \<Longrightarrow>
      f idx chunk = map g [idx * n..<idx * n + length chunk]"
  shows "par_chunks_mut n f out = Ok (map g [0..<length out])"
  using chunks_concat_map [of n 0 out f g 0] assms by (simp add: par_chunks_mut_def)

text \<open>A chunk of whole rows.\<close>

lemma chunk_rows:
  fixes idx rpc n l m :: nat
  assumes fits: "idx * (rpc * n) + l \<le> m * n" and n: "0 < n"
    and last: "l = rpc * n \<or> idx * (rpc * n) + l = m * n"
  obtains rows where "l = rows * n" "idx * rpc + rows \<le> m" "rows = rpc \<or> idx * rpc + rows = m"
proof -
  have "n dvd l"
  proof (cases "l = rpc * n")
    case False
    then have "l = m * n - idx * rpc * n" using last by simp
    then show ?thesis by (simp add: dvd_diff_nat)
  qed simp
  then obtain rows where rows: "l = n * rows" by (rule dvdE)
  have sum: "idx * (rpc * n) + l = (idx * rpc + rows) * n" by (simp add: rows algebra_simps)
  show ?thesis
  proof (rule that)
    show "l = rows * n" by (simp add: rows)
    show "idx * rpc + rows \<le> m" using fits n unfolding sum by simp
    show "rows = rpc \<or> idx * rpc + rows = m" using last n unfolding sum by (auto simp: rows)
  qed
qed

end
