(* ===== verification/Matmul_Kernels.thy ===== *)
theory Matmul_Kernels imports Kernel_Base
begin

text \<open>
  Matrix multiplication on the CPU (src/crates/kernels/src/lib.rs): the reference triple loop,
  the loop with the inner dimension outside, and the dispatcher over the thread pool. The
  lemmas show that the three give the same bits for every shape the pool accepts.
\<close>

section \<open>The kernels\<close>

definition validate_matmul ::
    "f32 list \<Rightarrow> usize \<times> usize \<Rightarrow> f32 list \<Rightarrow> usize \<times> usize \<Rightarrow> f32 list \<Rightarrow>
      (usize \<times> usize \<times> usize) res" where
  "validate_matmul a a_shape b b_shape out =
     (case (a_shape, b_shape) of ((m, k_a), (k_b, n)) \<Rightarrow>
        if k_a \<noteq> k_b
        then kernel_err ''matmul inner-dimension mismatch: a is {m}x{k_a}, b is {k_b}x{n}''
        else
          and_then (checked_len_product ''matmul'' ''a'' [m, k_a]) (\<lambda>a_expected.
          and_then (checked_len_product ''matmul'' ''b'' [k_b, n]) (\<lambda>b_expected.
          and_then (checked_len_product ''matmul'' ''out'' [m, n]) (\<lambda>out_expected.
          if length a \<noteq> a_expected
          then kernel_err ''matmul a slice length {} does not match shape {m}x{k_a}''
          else if length b \<noteq> b_expected
          then kernel_err ''matmul b slice length {} does not match shape {k_b}x{n}''
          else if length out \<noteq> out_expected
          then kernel_err ''matmul out slice length {} does not match shape {m}x{n}''
          else Ok (m, k_a, n)))))"

definition matmul_compute ::
    "f32 list \<Rightarrow> usize \<Rightarrow> usize \<Rightarrow> f32 list \<Rightarrow> usize \<Rightarrow> f32 list \<Rightarrow> f32 list" where
  "matmul_compute a m k b n out =
     foldl (\<lambda>out i.
       foldl (\<lambda>out j.
         let acc = foldl (\<lambda>acc p. f32_add acc (f32_mul (a ! (i * k + p)) (b ! (p * n + j)))) 0 [0..<k] in
         out[i * n + j := acc]) out [0..<n]) out [0..<m]"

text \<open>Position \<open>j\<close> of the slice of row \<open>i\<close> is position \<open>i * n + j\<close> of the buffer.\<close>

definition matmul_optimized_compute ::
    "f32 list \<Rightarrow> usize \<Rightarrow> usize \<Rightarrow> f32 list \<Rightarrow> usize \<Rightarrow> f32 list \<Rightarrow> f32 list" where
  "matmul_optimized_compute a m k b n out =
     foldl (\<lambda>out i.
       foldl (\<lambda>out p.
         let a_ip = a ! (i * k + p) in
         foldl (\<lambda>out j.
           out[i * n + j := f32_add (out ! (i * n + j)) (f32_mul a_ip (b ! (p * n + j)))]) out [0..<n])
         out [0..<k]) (map (\<lambda>_. 0) out) [0..<m]"

definition matmul_scalar ::
    "f32 list \<Rightarrow> usize \<times> usize \<Rightarrow> f32 list \<Rightarrow> usize \<times> usize \<Rightarrow> f32 list \<Rightarrow> f32 list res" where
  "matmul_scalar a a_shape b b_shape out =
     and_then (validate_matmul a a_shape b b_shape out) (\<lambda>(m, k, n).
       Ok (matmul_compute a m k b n out))"

definition matmul_optimized ::
    "f32 list \<Rightarrow> usize \<times> usize \<Rightarrow> f32 list \<Rightarrow> usize \<times> usize \<Rightarrow> f32 list \<Rightarrow> f32 list res" where
  "matmul_optimized a a_shape b b_shape out =
     and_then (validate_matmul a a_shape b b_shape out) (\<lambda>(m, k, n).
       Ok (matmul_optimized_compute a m k b n out))"

text \<open>
  The sizes of the chunks are products of at most the lengths of the buffers and cannot
  overflow.
\<close>

definition matmul_chunk ::
    "cpu_kernel_mode \<Rightarrow> f32 list \<Rightarrow> usize \<Rightarrow> f32 list \<Rightarrow> usize \<Rightarrow> usize \<Rightarrow> nat \<Rightarrow> f32 list \<Rightarrow> f32 list" where
  "matmul_chunk mode a k b n rows_per_chunk idx out_chunk =
     (let row_start = idx * rows_per_chunk;
          chunk_rows = length out_chunk div n;
          a_start = row_start * k;
          a_chunk = take (chunk_rows * k) (drop a_start a) in
      case mode of
        Mode_Scalar \<Rightarrow> matmul_compute a_chunk chunk_rows k b n out_chunk
      | Mode_Optimized \<Rightarrow> matmul_optimized_compute a_chunk chunk_rows k b n out_chunk
      | Mode_Avx2 \<Rightarrow> matmul_optimized_compute a_chunk chunk_rows k b n out_chunk)"

definition matmul_parallel ::
    "usize \<Rightarrow> cpu_kernel_mode \<Rightarrow> f32 list \<Rightarrow> usize \<times> usize \<Rightarrow> f32 list \<Rightarrow> usize \<times> usize \<Rightarrow> f32 list \<Rightarrow>
      f32 list res" where
  "matmul_parallel num_threads mode a a_shape b b_shape out =
     and_then (validate_matmul a a_shape b b_shape out) (\<lambda>(m, k, n).
       let threads = max num_threads 1;
           rows_per_chunk = max (div_ceil m threads) 1;
           chunk_out_len = rows_per_chunk * n in
       par_chunks_mut chunk_out_len (matmul_chunk mode a k b n rows_per_chunk) out)"

section \<open>One value per cell\<close>

definition matmul_cell :: "f32 list \<Rightarrow> nat \<Rightarrow> f32 list \<Rightarrow> nat \<Rightarrow> nat \<Rightarrow> nat \<Rightarrow> f32" where
  "matmul_cell a k b n i j =
     foldl (\<lambda>acc p. f32_add acc (f32_mul (a ! (i * k + p)) (b ! (p * n + j)))) 0 [0..<k]"

lemma matmul_compute_map:
  assumes "length out = m * n"
  shows "matmul_compute a m k b n out =
    map (\<lambda>x. matmul_cell a k b n (x div n) (x mod n)) [0..<m * n]"
proof (rule rows_cover [OF assms])
  let ?g = "\<lambda>x. matmul_cell a k b n (x div n) (x mod n)"
  show "fills ?g (\<Union>i \<in> set [0..<m]. \<Union>j \<in> set [0..<n]. {i * n + j}) out (matmul_compute a m k b n out)"
    unfolding matmul_compute_def Let_def
    by (intro fills_foldl) (rule fills_write [OF fills_nothing], simp add: matmul_cell_def row_position)
qed (auto intro!: bexI)

lemma matmul_optimized_map:
  assumes "length out = m * n"
  shows "matmul_optimized_compute a m k b n out =
    map (\<lambda>x. matmul_cell a k b n (x div n) (x mod n)) [0..<m * n]"
proof (rule rows_cover)
  let ?g = "\<lambda>x. matmul_cell a k b n (x div n) (x mod n)" and ?zero = "map (\<lambda>_. 0) out"
  show "length ?zero = m * n" using assms by simp
  show "fills ?g (\<Union>i \<in> set [0..<m]. {i * n..<i * n + n}) ?zero (matmul_optimized_compute a m k b n out)"
    unfolding matmul_optimized_compute_def Let_def
  proof (intro fills_foldl_fresh)
    fix out' :: "f32 list" and i
    assume "i \<in> set [0..<m]" and len: "length out' = length ?zero"
      and zero: "\<forall>x \<in> {i * n..<i * n + n}. x < length ?zero \<longrightarrow> out' ! x = ?zero ! x"
    then have base: "i * n + n \<le> length out'" using row_in_range [of i m n] assms by simp
    have start: "out' ! (i * n + j) = 0" if "j < n" for j using that zero len base by auto
    show "fills ?g {i * n..<i * n + n} out'
        (foldl (\<lambda>out p. foldl (\<lambda>out j. out[i * n + j :=
            f32_add (out ! (i * n + j)) (f32_mul (a ! (i * k + p)) (b ! (p * n + j)))]) out [0..<n])
          out' [0..<k])"
      unfolding foldl_row_steps [OF base, where
          h = "\<lambda>p j v. f32_add v (f32_mul (a ! (i * k + p)) (b ! (p * n + j)))"]
      by (rule fills_row [OF base]) (simp_all add: start matmul_cell_def row_position)
  qed (rule distinct_upt, erule row_ranges_disjoint)
qed (auto intro!: bexI)

lemma matmul_bodies:
  "length out = m * n \<Longrightarrow> matmul_compute a m k b n out = matmul_optimized_compute a m k b n out"
  by (simp add: matmul_compute_map matmul_optimized_map)

lemma matmul_chunk_body:
  "length out_chunk = length out_chunk div n * n \<Longrightarrow>
    matmul_chunk mode a k b n rows_per_chunk idx out_chunk =
      matmul_compute (take (length out_chunk div n * k) (drop (idx * rows_per_chunk * k) a))
        (length out_chunk div n) k b n out_chunk"
  using matmul_bodies [of out_chunk "length out_chunk div n" n]
  by (cases mode) (simp_all add: matmul_chunk_def Let_def)

lemma matmul_chunk_map:
  assumes len: "length chunk = rows * n" and n: "0 < n" and a: "(idx * rpc + rows) * k \<le> length a"
  shows "matmul_chunk mode a k b n rpc idx chunk =
    map (\<lambda>x. matmul_cell a k b n (x div n) (x mod n)) [idx * (rpc * n)..<idx * (rpc * n) + length chunk]"
proof -
  let ?a = "take (rows * k) (drop (idx * rpc * k) a)"
  have cell: "matmul_cell ?a k b n i j = matmul_cell a k b n (idx * rpc + i) j" if "i < rows" for i j
  proof -
    have "i * k + p < rows * k" if "p < k" for p
      using row_in_range [OF \<open>i < rows\<close>, of k] that by simp
    then show ?thesis using a unfolding matmul_cell_def
      by (intro foldl_cong) (simp_all add: algebra_simps)
  qed
  have "[idx * (rpc * n)..<idx * (rpc * n) + length chunk] =
      map (\<lambda>x. x + idx * (rpc * n)) [0..<length chunk]"
    using map_add_upt [of "idx * (rpc * n)" "length chunk"] by (simp add: add.commute)
  moreover have "(x + idx * (rpc * n)) div n = idx * rpc + x div n"
    "(x + idx * (rpc * n)) mod n = x mod n" for x
  proof -
    have "x + idx * (rpc * n) = x + (idx * rpc) * n" by simp
    then show "(x + idx * (rpc * n)) div n = idx * rpc + x div n"
      "(x + idx * (rpc * n)) mod n = x mod n" using n by (simp_all only: div_mult_self1 mod_mult_self1)
  qed
  moreover have "matmul_chunk mode a k b n rpc idx chunk =
      map (\<lambda>x. matmul_cell ?a k b n (x div n) (x mod n)) [0..<rows * n]"
    using matmul_chunk_body [of chunk n mode a k b rpc idx] matmul_compute_map [OF len, of ?a k b] len n
    by simp
  ultimately show ?thesis using cell len by (simp add: less_mult_imp_div_less)
qed

lemma validate_matmul_Ok:
  "validate_matmul a a_shape b b_shape out = Ok (m, k, n) \<longleftrightarrow>
    a_shape = (m, k) \<and> b_shape = (k, n) \<and> m \<le> max64 \<and> k \<le> max64 \<and>
    length a = m * k \<and> length b = k * n \<and> length out = m * n \<and>
    m * k \<le> max64 \<and> k * n \<le> max64 \<and> m * n \<le> max64"
  by (cases a_shape; cases b_shape)
    (auto simp: validate_matmul_def res_simps checked_len_product_pair split: if_splits)

lemma matmul_optimized_scalar:
  "matmul_optimized a a_shape b b_shape out = matmul_scalar a a_shape b b_shape out"
proof (cases "validate_matmul a a_shape b b_shape out")
  case (Ok r)
  moreover obtain m k n where "r = (m, k, n)" by (rule prod_cases3)
  moreover have "length out = m * n" using calculation by (simp add: validate_matmul_Ok)
  ultimately show ?thesis
    by (simp add: matmul_optimized_def matmul_scalar_def matmul_bodies)
qed (simp_all add: matmul_optimized_def matmul_scalar_def)

lemma matmul_parallel_scalar:
  "matmul_parallel num_threads mode a a_shape b b_shape out =
    (if snd b_shape = 0 \<and> is_ok (matmul_scalar a a_shape b b_shape out) then Panic
     else matmul_scalar a a_shape b b_shape out)"
proof (cases "validate_matmul a a_shape b b_shape out")
  case (Ok r)
  then obtain m k n where r: "r = (m, k, n)" "snd b_shape = n" and len: "length a = m * k" "length out = m * n"
    by (cases r) (simp add: validate_matmul_Ok)
  let ?rpc = "max (div_ceil m (max num_threads 1)) 1"
  have "par_chunks_mut (?rpc * n) (matmul_chunk mode a k b n ?rpc) out =
      Ok (map (\<lambda>x. matmul_cell a k b n (x div n) (x mod n)) [0..<length out])" if "n \<noteq> 0"
  proof (rule par_chunks_mut_map)
    show "0 < ?rpc * n" using that by simp
    fix idx and chunk :: "f32 list"
    assume fits: "idx * (?rpc * n) + length chunk \<le> length out"
      and last: "length chunk = ?rpc * n \<or> idx * (?rpc * n) + length chunk = length out"
    have n: "0 < n" using that by simp
    obtain rows where rows: "length chunk = rows * n" and "idx * ?rpc + rows \<le> m"
      by (rule chunk_rows [OF fits [unfolded len(2)] n last [unfolded len(2)]])
    then have "(idx * ?rpc + rows) * k \<le> length a" using len(1) by simp
    from matmul_chunk_map [OF rows _ this] that
    show "matmul_chunk mode a k b n ?rpc idx chunk =
        map (\<lambda>x. matmul_cell a k b n (x div n) (x mod n)) [idx * (?rpc * n)..<idx * (?rpc * n) + length chunk]"
      by simp
  qed
  then show ?thesis using Ok r len matmul_compute_map [OF len(2)]
    by (auto simp: matmul_scalar_def matmul_parallel_def par_chunks_mut_def Let_def)
qed (simp_all add: matmul_scalar_def matmul_parallel_def)

end
