(* ===== verification/Linear_Kernels.thy ===== *)
theory Linear_Kernels imports Matmul_Kernels
begin

text \<open>
  The linear layer on the CPU, \<open>linear_out_by_in\<close> (src/crates/kernels/src/lib.rs, cpu_avx2.rs):
  the scalar body that computes tiles of four rows by four outputs, the body that goes
  through the inputs one by one, the AVX2 body with eight-lane fused operations, and the two
  dispatchers over the thread pool, which split the rows or the outputs into chunks. Every
  body has lengths that were validated, so all indices are in range. The theorems give the
  value of every cell and show that the number of threads changes no bit in any mode, and that
  the scalar and the optimised mode agree.
\<close>

section \<open>Validation\<close>

definition bias_at :: "f32 list option \<Rightarrow> nat \<Rightarrow> f32" where
  "bias_at bias out_dim = (case bias of None \<Rightarrow> 0 | Some b \<Rightarrow> b ! out_dim)"

definition validate_linear_out_by_in ::
    "f32 list \<Rightarrow> usize \<Rightarrow> usize \<Rightarrow> f32 list \<Rightarrow> usize \<Rightarrow> f32 list option \<Rightarrow> f32 list \<Rightarrow> unit res" where
  "validate_linear_out_by_in x rows in_features weight out_features bias out =
     and_then (checked_len_product ''linear_out_by_in'' ''x'' [rows, in_features]) (\<lambda>x_expected.
     and_then (checked_len_product ''linear_out_by_in'' ''weight'' [out_features, in_features])
       (\<lambda>weight_expected.
     and_then (checked_len_product ''linear_out_by_in'' ''out'' [rows, out_features]) (\<lambda>out_expected.
       if length x \<noteq> x_expected
       then kernel_err ''linear_out_by_in x.len()={} does not match rows*in_features={}*{}={}''
       else if length weight \<noteq> weight_expected
       then kernel_err ''linear_out_by_in weight.len()={} does not match out_features*in_features={}*{}={}''
       else
         and_then
           (case bias of
              None \<Rightarrow> Ok ()
            | Some b \<Rightarrow>
                if length b \<noteq> out_features
                then kernel_err ''linear_out_by_in bias.len()={} does not match out_features={out_features}''
                else Ok ()) (\<lambda>_.
         if length out \<noteq> out_expected
         then kernel_err ''linear_out_by_in out.len()={} does not match rows*out_features={}*{}={}''
         else Ok ()))))"

section \<open>The scalar body\<close>

text \<open>\<open>(0..n).step_by(k)\<close>\<close>

definition step_by :: "nat \<Rightarrow> nat \<Rightarrow> nat list" where
  "step_by k n = map (\<lambda>i. k * i) [0..<div_ceil n k]"

text \<open>One tile: \<open>acc{output offset}{row offset}\<close>.\<close>

definition scalar_tile ::
    "f32 list \<Rightarrow> usize \<Rightarrow> f32 list \<Rightarrow> usize \<Rightarrow> f32 list option \<Rightarrow> usize \<Rightarrow> f32 list \<Rightarrow> usize \<Rightarrow> f32 list" where
  "scalar_tile x in_features weight out_features bias row out out_dim =
     (let bias0 = bias_at bias out_dim; bias1 = bias_at bias (out_dim + 1);
          bias2 = bias_at bias (out_dim + 2); bias3 = bias_at bias (out_dim + 3);
          w0 = out_dim * in_features; w1 = (out_dim + 1) * in_features;
          w2 = (out_dim + 2) * in_features; w3 = (out_dim + 3) * in_features in
      case foldl (\<lambda>(acc00, acc01, acc02, acc03,
         acc10, acc11, acc12, acc13,
         acc20, acc21, acc22, acc23,
         acc30, acc31, acc32, acc33) in_dim.
          let weight0 = weight ! (w0 + in_dim);
              weight1 = weight ! (w1 + in_dim);
              weight2 = weight ! (w2 + in_dim);
              weight3 = weight ! (w3 + in_dim);
              x0_value = x ! (row * in_features + in_dim);
              x1_value = x ! ((row + 1) * in_features + in_dim);
              x2_value = x ! ((row + 2) * in_features + in_dim);
              x3_value = x ! ((row + 3) * in_features + in_dim) in
          (f32_add acc00 (f32_mul x0_value weight0), f32_add acc01 (f32_mul x1_value weight0),
           f32_add acc02 (f32_mul x2_value weight0), f32_add acc03 (f32_mul x3_value weight0),
           f32_add acc10 (f32_mul x0_value weight1), f32_add acc11 (f32_mul x1_value weight1),
           f32_add acc12 (f32_mul x2_value weight1), f32_add acc13 (f32_mul x3_value weight1),
           f32_add acc20 (f32_mul x0_value weight2), f32_add acc21 (f32_mul x1_value weight2),
           f32_add acc22 (f32_mul x2_value weight2), f32_add acc23 (f32_mul x3_value weight2),
           f32_add acc30 (f32_mul x0_value weight3), f32_add acc31 (f32_mul x1_value weight3),
           f32_add acc32 (f32_mul x2_value weight3), f32_add acc33 (f32_mul x3_value weight3)))
        (bias0, bias0, bias0, bias0, bias1, bias1, bias1, bias1,
         bias2, bias2, bias2, bias2, bias3, bias3, bias3, bias3) [0..<in_features] of
      (acc00, acc01, acc02, acc03, acc10, acc11, acc12, acc13,
       acc20, acc21, acc22, acc23, acc30, acc31, acc32, acc33) \<Rightarrow>
        (let out0 = row * out_features + out_dim; out1 = (row + 1) * out_features + out_dim;
             out2 = (row + 2) * out_features + out_dim; out3 = (row + 3) * out_features + out_dim in
         out[out0 := acc00, out0 + 1 := acc10, out0 + 2 := acc20, out0 + 3 := acc30,
             out1 := acc01, out1 + 1 := acc11, out1 + 2 := acc21, out1 + 3 := acc31,
             out2 := acc02, out2 + 1 := acc12, out2 + 2 := acc22, out2 + 3 := acc32,
             out3 := acc03, out3 + 1 := acc13, out3 + 2 := acc23, out3 + 3 := acc33]))"

text \<open>One output of four rows, and the loops of a tile row.\<close>

definition scalar_tail_column ::
    "f32 list \<Rightarrow> usize \<Rightarrow> f32 list \<Rightarrow> usize \<Rightarrow> f32 list option \<Rightarrow> usize \<Rightarrow> f32 list \<Rightarrow> usize \<Rightarrow> f32 list" where
  "scalar_tail_column x in_features weight out_features bias row out tail_out =
     (let acc0 = bias_at bias tail_out; weight_start = tail_out * in_features in
      case foldl (\<lambda>(acc0, acc1, acc2, acc3) in_dim.
          let weight_value = weight ! (weight_start + in_dim) in
          (f32_add acc0 (f32_mul (x ! (row * in_features + in_dim)) weight_value),
           f32_add acc1 (f32_mul (x ! ((row + 1) * in_features + in_dim)) weight_value),
           f32_add acc2 (f32_mul (x ! ((row + 2) * in_features + in_dim)) weight_value),
           f32_add acc3 (f32_mul (x ! ((row + 3) * in_features + in_dim)) weight_value)))
        (acc0, acc0, acc0, acc0) [0..<in_features] of
      (acc0, acc1, acc2, acc3) \<Rightarrow>
        out[row * out_features + tail_out := acc0, (row + 1) * out_features + tail_out := acc1,
            (row + 2) * out_features + tail_out := acc2, (row + 3) * out_features + tail_out := acc3])"

text \<open>A single row: four outputs at a time, then one.\<close>

definition scalar_row_quad ::
    "f32 list \<Rightarrow> usize \<Rightarrow> f32 list \<Rightarrow> usize \<Rightarrow> f32 list option \<Rightarrow> usize \<Rightarrow> f32 list \<Rightarrow> usize \<Rightarrow> f32 list" where
  "scalar_row_quad x in_features weight out_features bias row out out_dim =
     (let w0 = out_dim * in_features; w1 = (out_dim + 1) * in_features;
          w2 = (out_dim + 2) * in_features; w3 = (out_dim + 3) * in_features in
      case foldl (\<lambda>(acc0, acc1, acc2, acc3) in_dim.
          let x_value = x ! (row * in_features + in_dim) in
          (f32_add acc0 (f32_mul x_value (weight ! (w0 + in_dim))),
           f32_add acc1 (f32_mul x_value (weight ! (w1 + in_dim))),
           f32_add acc2 (f32_mul x_value (weight ! (w2 + in_dim))),
           f32_add acc3 (f32_mul x_value (weight ! (w3 + in_dim)))))
        (bias_at bias out_dim, bias_at bias (out_dim + 1), bias_at bias (out_dim + 2),
         bias_at bias (out_dim + 3)) [0..<in_features] of
      (acc0, acc1, acc2, acc3) \<Rightarrow>
        out[row * out_features + out_dim := acc0, row * out_features + (out_dim + 1) := acc1,
            row * out_features + (out_dim + 2) := acc2, row * out_features + (out_dim + 3) := acc3])"

definition scalar_row_single ::
    "f32 list \<Rightarrow> usize \<Rightarrow> f32 list \<Rightarrow> usize \<Rightarrow> f32 list option \<Rightarrow> usize \<Rightarrow> f32 list \<Rightarrow> usize \<Rightarrow> f32 list" where
  "scalar_row_single x in_features weight out_features bias row out out_dim =
     (let acc = foldl (\<lambda>acc in_dim.
          f32_add acc (f32_mul (x ! (row * in_features + in_dim)) (weight ! (out_dim * in_features + in_dim))))
        (bias_at bias out_dim) [0..<in_features] in
      out[row * out_features + out_dim := acc])"

definition linear_out_by_in_compute ::
    "f32 list \<Rightarrow> usize \<Rightarrow> usize \<Rightarrow> f32 list \<Rightarrow> usize \<Rightarrow> f32 list option \<Rightarrow> f32 list \<Rightarrow> f32 list" where
  "linear_out_by_in_compute x rows in_features weight out_features bias out =
     (let tiled_rows = rows - rows mod 4; tiled_out = out_features - out_features mod 4;
          out = foldl (\<lambda>out row.
            foldl (scalar_tail_column x in_features weight out_features bias row)
              (foldl (scalar_tile x in_features weight out_features bias row) out (step_by 4 tiled_out))
              [tiled_out..<out_features]) out (step_by 4 tiled_rows) in
      foldl (\<lambda>out row.
        foldl (scalar_row_single x in_features weight out_features bias row)
          (foldl (scalar_row_quad x in_features weight out_features bias row) out (step_by 4 tiled_out))
          [tiled_out..<out_features]) out [tiled_rows..<rows])"

section \<open>The optimised body\<close>

definition linear_out_by_in_optimized_compute ::
    "f32 list \<Rightarrow> usize \<Rightarrow> usize \<Rightarrow> f32 list \<Rightarrow> usize \<Rightarrow> f32 list option \<Rightarrow> f32 list \<Rightarrow> f32 list" where
  "linear_out_by_in_optimized_compute x rows in_features weight out_features bias out =
     foldl (\<lambda>out row.
       let first = take (row * out_features) out; last = drop (row * out_features + out_features) out;
           out = first @ (case bias of Some b \<Rightarrow> b | None \<Rightarrow> replicate out_features 0) @ last in
       foldl (\<lambda>out in_dim.
         let x_value = x ! (row * in_features + in_dim) in
         foldl (\<lambda>out out_dim.
           out[row * out_features + out_dim :=
             f32_add (out ! (row * out_features + out_dim))
               (f32_mul x_value (weight ! (out_dim * in_features + in_dim)))]) out [0..<out_features])
         out [0..<in_features]) out [0..<rows]"

section \<open>The AVX2 body\<close>

text \<open>
  A vector register holds eight lanes. \<open>_mm256_fmadd_ps\<close> rounds once per lane; the horizontal
  sum adds the upper half to the lower, then lanes one and three to zero and two, then two to
  zero.
\<close>

definition loadu :: "f32 list \<Rightarrow> nat \<Rightarrow> f32 list" where
  "loadu xs base = map (\<lambda>lane. xs ! (base + lane)) [0..<8]"

definition fmadd :: "f32 list \<Rightarrow> f32 list \<Rightarrow> f32 list \<Rightarrow> f32 list" where
  "fmadd a b c = map (\<lambda>lane. f32_mul_add (a ! lane) (b ! lane) (c ! lane)) [0..<8]"

definition setzero :: "f32 list" where
  "setzero = replicate 8 0"

definition hsum_ps_avx :: "f32 list \<Rightarrow> f32" where
  "hsum_ps_avx v =
     (let sum128 = map (\<lambda>lane. f32_add (v ! (lane + 4)) (v ! lane)) [0..<4];
          low = f32_add (sum128 ! 0) (sum128 ! 1);
          high = f32_add (sum128 ! 2) (sum128 ! 3) in
      f32_add low high)"

text \<open>The tile: \<open>acc{row offset}{output offset}\<close>, the tail of the inputs, then the bias.\<close>

definition avx2_tile ::
    "f32 list \<Rightarrow> usize \<Rightarrow> f32 list \<Rightarrow> usize \<Rightarrow> f32 list option \<Rightarrow> usize \<Rightarrow> f32 list \<Rightarrow> usize \<Rightarrow> f32 list" where
  "avx2_tile x in_features weight out_features bias row out out_dim =
     (let k_simd = in_features - in_features mod 8;
          x0 = row * in_features; x1 = (row + 1) * in_features;
          x2 = (row + 2) * in_features; x3 = (row + 3) * in_features;
          w0 = out_dim * in_features; w1 = (out_dim + 1) * in_features;
          w2 = (out_dim + 2) * in_features; w3 = (out_dim + 3) * in_features in
      case foldl (\<lambda>(acc00, acc01, acc02, acc03, acc10, acc11, acc12, acc13,
         acc20, acc21, acc22, acc23, acc30, acc31, acc32, acc33) k.
          (fmadd (loadu x (x0 + k)) (loadu weight (w0 + k)) acc00,
           fmadd (loadu x (x0 + k)) (loadu weight (w1 + k)) acc01,
           fmadd (loadu x (x0 + k)) (loadu weight (w2 + k)) acc02,
           fmadd (loadu x (x0 + k)) (loadu weight (w3 + k)) acc03,
           fmadd (loadu x (x1 + k)) (loadu weight (w0 + k)) acc10,
           fmadd (loadu x (x1 + k)) (loadu weight (w1 + k)) acc11,
           fmadd (loadu x (x1 + k)) (loadu weight (w2 + k)) acc12,
           fmadd (loadu x (x1 + k)) (loadu weight (w3 + k)) acc13,
           fmadd (loadu x (x2 + k)) (loadu weight (w0 + k)) acc20,
           fmadd (loadu x (x2 + k)) (loadu weight (w1 + k)) acc21,
           fmadd (loadu x (x2 + k)) (loadu weight (w2 + k)) acc22,
           fmadd (loadu x (x2 + k)) (loadu weight (w3 + k)) acc23,
           fmadd (loadu x (x3 + k)) (loadu weight (w0 + k)) acc30,
           fmadd (loadu x (x3 + k)) (loadu weight (w1 + k)) acc31,
           fmadd (loadu x (x3 + k)) (loadu weight (w2 + k)) acc32,
           fmadd (loadu x (x3 + k)) (loadu weight (w3 + k)) acc33))
        (setzero, setzero, setzero, setzero, setzero, setzero, setzero, setzero,
         setzero, setzero, setzero, setzero, setzero, setzero, setzero, setzero)
        (step_by 8 k_simd) of
      (acc00, acc01, acc02, acc03, acc10, acc11, acc12, acc13,
       acc20, acc21, acc22, acc23, acc30, acc31, acc32, acc33) \<Rightarrow>
      (case foldl (\<lambda>(s00, s01, s02, s03, s10, s11, s12, s13,
                     s20, s21, s22, s23, s30, s31, s32, s33) k_tail.
          (f32_add s00 (f32_mul (x ! (x0 + k_tail)) (weight ! (w0 + k_tail))),
           f32_add s01 (f32_mul (x ! (x0 + k_tail)) (weight ! (w1 + k_tail))),
           f32_add s02 (f32_mul (x ! (x0 + k_tail)) (weight ! (w2 + k_tail))),
           f32_add s03 (f32_mul (x ! (x0 + k_tail)) (weight ! (w3 + k_tail))),
           f32_add s10 (f32_mul (x ! (x1 + k_tail)) (weight ! (w0 + k_tail))),
           f32_add s11 (f32_mul (x ! (x1 + k_tail)) (weight ! (w1 + k_tail))),
           f32_add s12 (f32_mul (x ! (x1 + k_tail)) (weight ! (w2 + k_tail))),
           f32_add s13 (f32_mul (x ! (x1 + k_tail)) (weight ! (w3 + k_tail))),
           f32_add s20 (f32_mul (x ! (x2 + k_tail)) (weight ! (w0 + k_tail))),
           f32_add s21 (f32_mul (x ! (x2 + k_tail)) (weight ! (w1 + k_tail))),
           f32_add s22 (f32_mul (x ! (x2 + k_tail)) (weight ! (w2 + k_tail))),
           f32_add s23 (f32_mul (x ! (x2 + k_tail)) (weight ! (w3 + k_tail))),
           f32_add s30 (f32_mul (x ! (x3 + k_tail)) (weight ! (w0 + k_tail))),
           f32_add s31 (f32_mul (x ! (x3 + k_tail)) (weight ! (w1 + k_tail))),
           f32_add s32 (f32_mul (x ! (x3 + k_tail)) (weight ! (w2 + k_tail))),
           f32_add s33 (f32_mul (x ! (x3 + k_tail)) (weight ! (w3 + k_tail)))))
        (hsum_ps_avx acc00, hsum_ps_avx acc01, hsum_ps_avx acc02, hsum_ps_avx acc03,
         hsum_ps_avx acc10, hsum_ps_avx acc11, hsum_ps_avx acc12, hsum_ps_avx acc13,
         hsum_ps_avx acc20, hsum_ps_avx acc21, hsum_ps_avx acc22, hsum_ps_avx acc23,
         hsum_ps_avx acc30, hsum_ps_avx acc31, hsum_ps_avx acc32, hsum_ps_avx acc33)
        [k_simd..<in_features] of
      (s00, s01, s02, s03, s10, s11, s12, s13,
       s20, s21, s22, s23, s30, s31, s32, s33) \<Rightarrow>
        (let b0 = bias_at bias out_dim; b1 = bias_at bias (out_dim + 1);
             b2 = bias_at bias (out_dim + 2); b3 = bias_at bias (out_dim + 3);
             o0 = row * out_features + out_dim; o1 = (row + 1) * out_features + out_dim;
             o2 = (row + 2) * out_features + out_dim; o3 = (row + 3) * out_features + out_dim in
         out[o0 := f32_add s00 b0, o0 + 1 := f32_add s01 b1, o0 + 2 := f32_add s02 b2, o0 + 3 := f32_add s03 b3,
             o1 := f32_add s10 b0, o1 + 1 := f32_add s11 b1, o1 + 2 := f32_add s12 b2, o1 + 3 := f32_add s13 b3,
             o2 := f32_add s20 b0, o2 + 1 := f32_add s21 b1, o2 + 2 := f32_add s22 b2, o2 + 3 := f32_add s23 b3,
             o3 := f32_add s30 b0, o3 + 1 := f32_add s31 b1, o3 + 2 := f32_add s32 b2, o3 + 3 := f32_add s33 b3])))"

text \<open>The scalar fallback for one output of four rows.\<close>

definition avx2_tail_column ::
    "f32 list \<Rightarrow> usize \<Rightarrow> f32 list \<Rightarrow> usize \<Rightarrow> f32 list option \<Rightarrow> usize \<Rightarrow> f32 list \<Rightarrow> usize \<Rightarrow> f32 list" where
  "avx2_tail_column x in_features weight out_features bias row out tail_out =
     (let w_base = tail_out * in_features; bias_v = bias_at bias tail_out in
      case foldl (\<lambda>(sum0, sum1, sum2, sum3) k_dim.
          let w = weight ! (w_base + k_dim) in
          (f32_add sum0 (f32_mul (x ! (row * in_features + k_dim)) w),
           f32_add sum1 (f32_mul (x ! ((row + 1) * in_features + k_dim)) w),
           f32_add sum2 (f32_mul (x ! ((row + 2) * in_features + k_dim)) w),
           f32_add sum3 (f32_mul (x ! ((row + 3) * in_features + k_dim)) w)))
        (bias_v, bias_v, bias_v, bias_v) [0..<in_features] of
      (sum0, sum1, sum2, sum3) \<Rightarrow>
        out[row * out_features + tail_out := sum0, (row + 1) * out_features + tail_out := sum1,
            (row + 2) * out_features + tail_out := sum2, (row + 3) * out_features + tail_out := sum3])"

definition avx2_row_quad ::
    "f32 list \<Rightarrow> usize \<Rightarrow> f32 list \<Rightarrow> usize \<Rightarrow> f32 list option \<Rightarrow> usize \<Rightarrow> f32 list \<Rightarrow> usize \<Rightarrow> f32 list" where
  "avx2_row_quad x in_features weight out_features bias row out out_dim =
     (let k_simd = in_features - in_features mod 8; x_base = row * in_features;
          w_base = out_dim * in_features; w1_base = (out_dim + 1) * in_features;
          w2_base = (out_dim + 2) * in_features; w3_base = (out_dim + 3) * in_features in
      case foldl (\<lambda>(acc0, acc1, acc2, acc3) k.
          let xv = loadu x (x_base + k) in
          (fmadd xv (loadu weight (w_base + k)) acc0, fmadd xv (loadu weight (w1_base + k)) acc1,
           fmadd xv (loadu weight (w2_base + k)) acc2, fmadd xv (loadu weight (w3_base + k)) acc3))
        (setzero, setzero, setzero, setzero) (step_by 8 k_simd) of
      (acc0, acc1, acc2, acc3) \<Rightarrow>
      (case foldl (\<lambda>(s0, s1, s2, s3) k_tail.
          let x_value = x ! (x_base + k_tail) in
          (f32_add s0 (f32_mul x_value (weight ! (w_base + k_tail))),
           f32_add s1 (f32_mul x_value (weight ! (w1_base + k_tail))),
           f32_add s2 (f32_mul x_value (weight ! (w2_base + k_tail))),
           f32_add s3 (f32_mul x_value (weight ! (w3_base + k_tail)))))
        (hsum_ps_avx acc0, hsum_ps_avx acc1, hsum_ps_avx acc2, hsum_ps_avx acc3)
        [k_simd..<in_features] of
      (s0, s1, s2, s3) \<Rightarrow>
        (let out_base = row * out_features + out_dim in
         out[out_base := f32_add s0 (bias_at bias out_dim),
             out_base + 1 := f32_add s1 (bias_at bias (out_dim + 1)),
             out_base + 2 := f32_add s2 (bias_at bias (out_dim + 2)),
             out_base + 3 := f32_add s3 (bias_at bias (out_dim + 3))])))"

definition avx2_row_single ::
    "f32 list \<Rightarrow> usize \<Rightarrow> f32 list \<Rightarrow> usize \<Rightarrow> f32 list option \<Rightarrow> usize \<Rightarrow> f32 list \<Rightarrow> usize \<Rightarrow> f32 list" where
  "avx2_row_single x in_features weight out_features bias row out tail_out =
     (let k_simd = in_features - in_features mod 8; x_base = row * in_features;
          w_base = tail_out * in_features;
          acc = foldl (\<lambda>acc k. fmadd (loadu x (x_base + k)) (loadu weight (w_base + k)) acc) setzero
            (step_by 8 k_simd);
          sum = foldl (\<lambda>sum k_tail.
            f32_add sum (f32_mul (x ! (x_base + k_tail)) (weight ! (w_base + k_tail))))
            (hsum_ps_avx acc) [k_simd..<in_features] in
      out[row * out_features + tail_out := f32_add sum (bias_at bias tail_out)])"

definition linear_out_by_in_compute_avx2 ::
    "f32 list \<Rightarrow> usize \<Rightarrow> usize \<Rightarrow> f32 list \<Rightarrow> usize \<Rightarrow> f32 list option \<Rightarrow> f32 list \<Rightarrow> f32 list" where
  "linear_out_by_in_compute_avx2 x rows in_features weight out_features bias out =
     (let tiled_rows = rows - rows mod 4; tiled_out = out_features - out_features mod 4;
          out = foldl (\<lambda>out row.
            foldl (avx2_tail_column x in_features weight out_features bias row)
              (foldl (avx2_tile x in_features weight out_features bias row) out (step_by 4 tiled_out))
              [tiled_out..<out_features]) out (step_by 4 tiled_rows) in
      foldl (\<lambda>out row.
        foldl (avx2_row_single x in_features weight out_features bias row)
          (foldl (avx2_row_quad x in_features weight out_features bias row) out (step_by 4 tiled_out))
          [tiled_out..<out_features]) out [tiled_rows..<rows])"

section \<open>Entry points and dispatchers\<close>

definition linear_body ::
    "cpu_kernel_mode \<Rightarrow> f32 list \<Rightarrow> usize \<Rightarrow> usize \<Rightarrow> f32 list \<Rightarrow> usize \<Rightarrow> f32 list option \<Rightarrow> f32 list \<Rightarrow> f32 list" where
  "linear_body mode =
     (case mode of
        Mode_Scalar \<Rightarrow> linear_out_by_in_compute
      | Mode_Optimized \<Rightarrow> linear_out_by_in_optimized_compute
      | Mode_Avx2 \<Rightarrow> linear_out_by_in_compute_avx2)"

definition linear_out_by_in ::
    "f32 list \<Rightarrow> usize \<Rightarrow> usize \<Rightarrow> f32 list \<Rightarrow> usize \<Rightarrow> f32 list option \<Rightarrow> f32 list \<Rightarrow> f32 list res" where
  "linear_out_by_in x rows in_features weight out_features bias out =
     and_then (validate_linear_out_by_in x rows in_features weight out_features bias out) (\<lambda>_.
       Ok (linear_out_by_in_compute x rows in_features weight out_features bias out))"

definition linear_out_by_in_optimized ::
    "f32 list \<Rightarrow> usize \<Rightarrow> usize \<Rightarrow> f32 list \<Rightarrow> usize \<Rightarrow> f32 list option \<Rightarrow> f32 list \<Rightarrow> f32 list res" where
  "linear_out_by_in_optimized x rows in_features weight out_features bias out =
     and_then (validate_linear_out_by_in x rows in_features weight out_features bias out) (\<lambda>_.
       Ok (linear_out_by_in_optimized_compute x rows in_features weight out_features bias out))"

definition linear_out_by_in_avx2 ::
    "f32 list \<Rightarrow> usize \<Rightarrow> usize \<Rightarrow> f32 list \<Rightarrow> usize \<Rightarrow> f32 list option \<Rightarrow> f32 list \<Rightarrow> f32 list res" where
  "linear_out_by_in_avx2 x rows in_features weight out_features bias out =
     and_then (validate_linear_out_by_in x rows in_features weight out_features bias out) (\<lambda>_.
       Ok (linear_out_by_in_compute_avx2 x rows in_features weight out_features bias out))"

text \<open>
  The sizes of the chunks are products of at most about the lengths of the buffers and cannot
  overflow.
\<close>

definition linear_row_chunk ::
    "cpu_kernel_mode \<Rightarrow> f32 list \<Rightarrow> usize \<Rightarrow> f32 list \<Rightarrow> usize \<Rightarrow> f32 list option \<Rightarrow> usize \<Rightarrow> nat \<Rightarrow>
      f32 list \<Rightarrow> f32 list" where
  "linear_row_chunk mode x in_features weight out_features bias rows_per_chunk idx out_chunk =
     (let row_start = idx * rows_per_chunk;
          chunk_rows = length out_chunk div out_features;
          x_start = row_start * in_features;
          x_chunk = take (chunk_rows * in_features) (drop x_start x) in
      linear_body mode x_chunk chunk_rows in_features weight out_features bias out_chunk)"

definition linear_out_by_in_parallel ::
    "usize \<Rightarrow> cpu_kernel_mode \<Rightarrow> f32 list \<Rightarrow> usize \<Rightarrow> usize \<Rightarrow> f32 list \<Rightarrow> usize \<Rightarrow> f32 list option \<Rightarrow>
      f32 list \<Rightarrow> f32 list res" where
  "linear_out_by_in_parallel num_threads mode x rows in_features weight out_features bias out =
     and_then (validate_linear_out_by_in x rows in_features weight out_features bias out) (\<lambda>_.
       let threads = max num_threads 1;
           tiles_total = div_ceil rows 4;
           tiles_per_chunk = max (div_ceil tiles_total threads) 1;
           rows_per_chunk = tiles_per_chunk * 4;
           chunk_out_len = rows_per_chunk * out_features in
       par_chunks_mut chunk_out_len
         (linear_row_chunk mode x in_features weight out_features bias rows_per_chunk) out)"

definition linear_output_chunk ::
    "cpu_kernel_mode \<Rightarrow> f32 list \<Rightarrow> usize \<Rightarrow> f32 list \<Rightarrow> f32 list option \<Rightarrow> usize \<Rightarrow> nat \<Rightarrow>
      f32 list \<Rightarrow> f32 list" where
  "linear_output_chunk mode x in_features weight bias outputs_per_chunk idx out_chunk =
     (let out_start = idx * outputs_per_chunk;
          chunk_out = length out_chunk;
          w_start = out_start * in_features;
          weight_chunk = take (chunk_out * in_features) (drop w_start weight);
          bias_chunk = map_option (\<lambda>b. take chunk_out (drop out_start b)) bias in
      linear_body mode x 1 in_features weight_chunk chunk_out bias_chunk out_chunk)"

definition linear_out_by_in_output_parallel ::
    "usize \<Rightarrow> cpu_kernel_mode \<Rightarrow> f32 list \<Rightarrow> usize \<Rightarrow> f32 list \<Rightarrow> usize \<Rightarrow> f32 list option \<Rightarrow>
      f32 list \<Rightarrow> f32 list res" where
  "linear_out_by_in_output_parallel num_threads mode x in_features weight out_features bias out =
     and_then (validate_linear_out_by_in x 1 in_features weight out_features bias out) (\<lambda>_.
       let threads = max num_threads 1;
           tiles_total = div_ceil out_features 4;
           tiles_per_chunk = max (div_ceil tiles_total threads) 1;
           outputs_per_chunk = tiles_per_chunk * 4 in
       par_chunks_mut outputs_per_chunk
         (linear_output_chunk mode x in_features weight bias outputs_per_chunk) out)"

section \<open>One value per cell\<close>

text \<open>
  The two ways a cell is computed: from the bias on, one input after the other, or in eight
  lanes with the bias last.
\<close>

definition scalar_cell ::
    "f32 list \<Rightarrow> usize \<Rightarrow> f32 list \<Rightarrow> f32 list option \<Rightarrow> nat \<Rightarrow> nat \<Rightarrow> f32" where
  "scalar_cell x in_features weight bias row out_dim =
     foldl (\<lambda>acc i. f32_add acc (f32_mul (x ! (row * in_features + i)) (weight ! (out_dim * in_features + i))))
       (bias_at bias out_dim) [0..<in_features]"

definition lane_cell ::
    "f32 list \<Rightarrow> usize \<Rightarrow> f32 list \<Rightarrow> f32 list option \<Rightarrow> nat \<Rightarrow> nat \<Rightarrow> f32" where
  "lane_cell x in_features weight bias row out_dim =
     (let k_simd = in_features - in_features mod 8 in
      f32_add
        (foldl (\<lambda>sum i. f32_add sum (f32_mul (x ! (row * in_features + i)) (weight ! (out_dim * in_features + i))))
          (hsum_ps_avx (foldl (\<lambda>acc k. fmadd (loadu x (row * in_features + k))
             (loadu weight (out_dim * in_features + k)) acc) setzero (step_by 8 k_simd)))
          [k_simd..<in_features])
        (bias_at bias out_dim))"

lemma foldl_16:
  "foldl (\<lambda>(a0, a1, a2, a3, a4, a5, a6, a7, a8, a9, a10, a11, a12, a13, a14, a15) i.
       (f0 a0 i, f1 a1 i, f2 a2 i, f3 a3 i, f4 a4 i, f5 a5 i, f6 a6 i, f7 a7 i,
        f8 a8 i, f9 a9 i, f10 a10 i, f11 a11 i, f12 a12 i, f13 a13 i, f14 a14 i, f15 a15 i))
     (s0, s1, s2, s3, s4, s5, s6, s7, s8, s9, s10, s11, s12, s13, s14, s15) xs =
   (foldl f0 s0 xs, foldl f1 s1 xs, foldl f2 s2 xs, foldl f3 s3 xs, foldl f4 s4 xs, foldl f5 s5 xs, foldl f6 s6 xs, foldl f7 s7 xs,
    foldl f8 s8 xs, foldl f9 s9 xs, foldl f10 s10 xs, foldl f11 s11 xs, foldl f12 s12 xs, foldl f13 s13 xs, foldl f14 s14 xs, foldl f15 s15 xs)"
  by (induction xs arbitrary: s0 s1 s2 s3 s4 s5 s6 s7 s8 s9 s10 s11 s12 s13 s14 s15) simp_all

lemma foldl_4:
  "foldl (\<lambda>(a0, a1, a2, a3) i. (f0 a0 i, f1 a1 i, f2 a2 i, f3 a3 i)) (s0, s1, s2, s3) xs =
    (foldl f0 s0 xs, foldl f1 s1 xs, foldl f2 s2 xs, foldl f3 s3 xs)"
  by (induction xs arbitrary: s0 s1 s2 s3) simp_all

section \<open>The bodies write the cells\<close>

definition write_cells ::
    "(nat \<Rightarrow> nat \<Rightarrow> 'a) \<Rightarrow> nat \<Rightarrow> nat list \<Rightarrow> nat list \<Rightarrow> 'a list \<Rightarrow> 'a list" where
  "write_cells c n rs os out = foldl (\<lambda>out (r, k). out[r * n + k := c r k]) out (List.product rs os)"

lemma fills_cells:
  assumes "\<And>r k. r \<in> set rs \<Longrightarrow> k \<in> set os \<Longrightarrow> g (r * n + k) = c r k"
  shows "fills g {r * n + k | r k. r \<in> set rs \<and> k \<in> set os} out (write_cells c n rs os out)"
proof -
  have "fills g (\<Union>p \<in> set (List.product rs os). {fst p * n + snd p}) out (write_cells c n rs os out)"
    unfolding write_cells_def
    by (rule fills_foldl) (use assms in \<open>auto intro!: fills_write [OF fills_nothing]\<close>)
  then show ?thesis by (rule fills_cong) auto
qed

lemmas write_quads = write_cells_def List.product.simps list.map append.simps foldl.simps prod.case

lemma scalar_tile_cells:
  "scalar_tile x k weight n bias row out c =
    write_cells (scalar_cell x k weight bias) n [row, row + 1, row + 2, row + 3] [c, c + 1, c + 2, c + 3] out"
  unfolding scalar_tile_def scalar_cell_def Let_def foldl_16 prod.case write_quads
  by (simp only: add.assoc)

lemma scalar_tail_column_cells:
  "scalar_tail_column x k weight n bias row out c =
    write_cells (scalar_cell x k weight bias) n [row, row + 1, row + 2, row + 3] [c] out"
  unfolding scalar_tail_column_def scalar_cell_def Let_def foldl_4 prod.case write_quads
  by (simp only: add.assoc)

lemma scalar_row_quad_cells:
  "scalar_row_quad x k weight n bias row out c =
    write_cells (scalar_cell x k weight bias) n [row] [c, c + 1, c + 2, c + 3] out"
  unfolding scalar_row_quad_def scalar_cell_def Let_def foldl_4 prod.case write_quads
  by (simp only: add.assoc)

lemma scalar_row_single_cells:
  "scalar_row_single x k weight n bias row out c =
    write_cells (scalar_cell x k weight bias) n [row] [c] out"
  unfolding scalar_row_single_def scalar_cell_def Let_def prod.case write_quads
  by (simp only: add.assoc)

lemma avx2_tile_cells:
  "avx2_tile x k weight n bias row out c =
    write_cells (lane_cell x k weight bias) n [row, row + 1, row + 2, row + 3] [c, c + 1, c + 2, c + 3] out"
  unfolding avx2_tile_def lane_cell_def Let_def foldl_16 prod.case write_quads
  by (simp only: add.assoc)

lemma avx2_tail_column_cells:
  "avx2_tail_column x k weight n bias row out c =
    write_cells (scalar_cell x k weight bias) n [row, row + 1, row + 2, row + 3] [c] out"
  unfolding avx2_tail_column_def scalar_cell_def Let_def foldl_4 prod.case write_quads
  by (simp only: add.assoc)

lemma avx2_row_quad_cells:
  "avx2_row_quad x k weight n bias row out c =
    write_cells (lane_cell x k weight bias) n [row] [c, c + 1, c + 2, c + 3] out"
  unfolding avx2_row_quad_def lane_cell_def Let_def foldl_4 prod.case write_quads
  by (simp only: add.assoc)

lemma avx2_row_single_cells:
  "avx2_row_single x k weight n bias row out c =
    write_cells (lane_cell x k weight bias) n [row] [c] out"
  unfolding avx2_row_single_def lane_cell_def Let_def prod.case write_quads
  by (simp only: add.assoc)

lemma set_step_by: "0 < k \<Longrightarrow> k dvd n \<Longrightarrow> set (step_by k n) = {i. k dvd i \<and> i < n}"
  by (auto simp: step_by_def div_ceil_def elim!: dvdE)

text \<open>The loops of a tiled body, with what the four pieces write left open.\<close>

lemma tiled_loops:
  fixes c d :: "nat \<Rightarrow> nat \<Rightarrow> 'a"
  assumes len: "length out = rows * n"
    and tile: "\<And>row out j. f1 row out j =
      write_cells c n [row, row + 1, row + 2, row + 3] [j, j + 1, j + 2, j + 3] out"
    and column: "\<And>row out j. f2 row out j = write_cells d n [row, row + 1, row + 2, row + 3] [j] out"
    and quad: "\<And>row out j. f3 row out j = write_cells c n [row] [j, j + 1, j + 2, j + 3] out"
    and single: "\<And>row out j. f4 row out j = write_cells c n [row] [j] out"
  defines "tr \<equiv> rows - rows mod 4" and "tc \<equiv> n - n mod 4"
  shows "foldl (\<lambda>out row. foldl (f4 row) (foldl (f3 row) out (step_by 4 tc)) [tc..<n])
      (foldl (\<lambda>out row. foldl (f2 row) (foldl (f1 row) out (step_by 4 tc)) [tc..<n]) out (step_by 4 tr))
      [tr..<rows] =
    map (\<lambda>i. if i div n < tr \<and> tc \<le> i mod n then d (i div n) (i mod n) else c (i div n) (i mod n))
      [0..<rows * n]"
    (is "foldl ?rest (foldl ?tiles out _) _ = map ?g _")
proof (rule rows_cover [OF len])
  have dvd: "4 dvd tr" "4 dvd tc" by (simp_all add: tr_def tc_def dvd_minus_mod)
  have g: "?g (r * n + k) = (if r < tr \<and> tc \<le> k then d r k else c r k)" if "k < n" for r k
    using that by simp
  let ?q = "\<lambda>j. [j, j + 1, j + 2, j + 3 :: nat]"
  let ?S = "\<lambda>rs os. {r * n + k | r k. r \<in> set rs \<and> k \<in> set os}"
  have below: "\<forall>k \<in> set (?q j). k < tc \<and> k < n" if "j \<in> set (step_by 4 tc)" for j
  proof -
    have "\<forall>k \<in> set (?q j). k < tc" using that dvd(2) by (auto simp: set_step_by elim!: dvdE)
    moreover have "tc \<le> n" by (simp add: tc_def)
    ultimately show ?thesis by auto
  qed
  have below_row: "\<forall>r \<in> set (?q j). r < tr" if "j \<in> set (step_by 4 tr)" for j
    using that dvd(1) by (auto simp: set_step_by elim!: dvdE)
  have col: "tc \<le> j \<and> j < n" if "j \<in> set [tc..<n]" for j using that by simp
  have row: "\<not> j < tr" if "j \<in> set [tr..<rows]" for j using that by simp
  have cells: "fills ?g (?S rs os) out (write_cells c n rs os out)"
    if "\<forall>k \<in> set os. k < n" "\<And>r k. r \<in> set rs \<Longrightarrow> k \<in> set os \<Longrightarrow> r < tr \<Longrightarrow> k < tc" for rs os out
  proof (rule fills_cells)
    fix r k
    assume "r \<in> set rs" "k \<in> set os"
    then show "?g (r * n + k) = c r k" using that(1) that(2) [of r k] g [of k r] by auto
  qed
  have cells_d: "fills ?g (?S rs os) out (write_cells d n rs os out)"
    if "\<forall>k \<in> set os. tc \<le> k \<and> k < n" "\<forall>r \<in> set rs. r < tr" for rs os out
  proof (rule fills_cells)
    fix r k
    assume "r \<in> set rs" "k \<in> set os"
    then show "?g (r * n + k) = d r k" using that g [of k r] by auto
  qed
  have tiles: "fills ?g ((\<Union>j \<in> set (step_by 4 tc). ?S (?q r) (?q j)) \<union> (\<Union>j \<in> set [tc..<n]. ?S (?q r) [j]))
      out (?tiles out r)" if r: "r \<in> set (step_by 4 tr)" for r out
  proof (rule fills_trans; rule fills_foldl; unfold tile column)
    show "fills ?g (?S (?q r) (?q j)) out (write_cells c n (?q r) (?q j) out)"
      if "j \<in> set (step_by 4 tc)" for out j
      using below [OF that] by (intro cells) blast+
    show "fills ?g (?S (?q r) [j]) out (write_cells d n (?q r) [j] out)"
      if "j \<in> set [tc..<n]" for out j
      using below_row [OF r] col [OF that] by (intro cells_d) simp_all
  qed
  have rest: "fills ?g ((\<Union>j \<in> set (step_by 4 tc). ?S [r] (?q j)) \<union> (\<Union>j \<in> set [tc..<n]. ?S [r] [j]))
      out (?rest out r)" if r: "r \<in> set [tr..<rows]" for r out
  proof (rule fills_trans; rule fills_foldl; unfold quad single)
    show "fills ?g (?S [r] (?q j)) out (write_cells c n [r] (?q j) out)"
      if "j \<in> set (step_by 4 tc)" for out j
      using below [OF that] row [OF r] by (intro cells) auto
    show "fills ?g (?S [r] [j]) out (write_cells c n [r] [j] out)" if "j \<in> set [tc..<n]" for out j
      using col [OF that] row [OF r] by (intro cells) simp_all
  qed
  show "fills ?g ((\<Union>r \<in> set (step_by 4 tr). (\<Union>j \<in> set (step_by 4 tc). ?S (?q r) (?q j)) \<union>
        (\<Union>j \<in> set [tc..<n]. ?S (?q r) [j])) \<union>
      (\<Union>r \<in> set [tr..<rows]. (\<Union>j \<in> set (step_by 4 tc). ?S [r] (?q j)) \<union> (\<Union>j \<in> set [tc..<n]. ?S [r] [j])))
    out (foldl ?rest (foldl ?tiles out (step_by 4 tr)) [tr..<rows])"
    by (rule fills_trans; rule fills_foldl; erule tiles rest)
  have find: "\<exists>j \<in> set (step_by 4 t). k \<in> set (?q j)" if "k < t" "4 dvd t" for k t
  proof -
    define a m where "a = k div 4" and "m = k mod 4"
    have k: "k = 4 * a + m" "m < 4" by (simp_all add: a_def m_def)
    then have "m = 0 \<or> m = 1 \<or> m = 2 \<or> m = 3" by linarith
    then have "k \<in> set (?q (4 * a))" unfolding k(1) by (elim disjE) simp_all
    moreover have "4 * a < t" using that(1) k by linarith
    then have "4 * a \<in> set (step_by 4 t)" using that(2) by (simp add: set_step_by)
    ultimately show ?thesis by blast
  qed
  fix r k
  assume rk: "r < rows" "k < n"
  have k: "(\<exists>j \<in> set (step_by 4 tc). k \<in> set (?q j)) \<or> k \<in> set [tc..<n]"
    using find [OF _ dvd(2)] rk by (cases "k < tc") auto
  have r: "(\<exists>j \<in> set (step_by 4 tr). r \<in> set (?q j)) \<or> r \<in> set [tr..<rows]"
    using find [OF _ dvd(1)] rk by (cases "r < tr") auto
  show "r * n + k \<in> (\<Union>r \<in> set (step_by 4 tr). (\<Union>j \<in> set (step_by 4 tc). ?S (?q r) (?q j)) \<union>
        (\<Union>j \<in> set [tc..<n]. ?S (?q r) [j])) \<union>
      (\<Union>r \<in> set [tr..<rows]. (\<Union>j \<in> set (step_by 4 tc). ?S [r] (?q j)) \<union> (\<Union>j \<in> set [tc..<n]. ?S [r] [j]))"
  proof -
    have mem: "r * n + k \<in> ?S rs os" if "r \<in> set rs" "k \<in> set os" for rs os using that by blast
    have single: "r \<in> set [r]" "k \<in> set [k]" by simp_all
    from r show ?thesis
    proof
      assume "\<exists>j \<in> set (step_by 4 tr). r \<in> set (?q j)"
      then obtain a where a: "a \<in> set (step_by 4 tr)" "r \<in> set (?q a)" by (rule bexE)
      from k show ?thesis
      proof
        assume "\<exists>j \<in> set (step_by 4 tc). k \<in> set (?q j)"
        then obtain b where b: "b \<in> set (step_by 4 tc)" "k \<in> set (?q b)" by (rule bexE)
        show ?thesis
          by (rule UnI1, rule UN_I [OF a(1)], rule UnI1, rule UN_I [OF b(1)], rule mem [OF a(2) b(2)])
      next
        assume "k \<in> set [tc..<n]"
        then show ?thesis
          by - (rule UnI1, rule UN_I [OF a(1)], rule UnI2, erule UN_I, rule mem [OF a(2) single(2)])
      qed
    next
      assume r: "r \<in> set [tr..<rows]"
      from k show ?thesis
      proof
        assume "\<exists>j \<in> set (step_by 4 tc). k \<in> set (?q j)"
        then obtain b where b: "b \<in> set (step_by 4 tc)" "k \<in> set (?q b)" by (rule bexE)
        show ?thesis by (rule UnI2, rule UN_I [OF r], rule UnI1, rule UN_I [OF b(1)], rule mem [OF single(1) b(2)])
      next
        assume "k \<in> set [tc..<n]"
        show ?thesis
          by (rule UnI2, rule UN_I [OF r], rule UnI2, rule UN_I [OF \<open>k \<in> set [tc..<n]\<close>], rule mem [OF single])
      qed
    qed
  qed
qed

definition linear_cell ::
    "cpu_kernel_mode \<Rightarrow> usize \<Rightarrow> usize \<Rightarrow> f32 list \<Rightarrow> usize \<Rightarrow> f32 list \<Rightarrow> f32 list option \<Rightarrow>
      nat \<Rightarrow> nat \<Rightarrow> f32" where
  "linear_cell mode rows n x k weight bias r c =
     (if mode = Mode_Avx2 \<and> (rows - rows mod 4 \<le> r \<or> c < n - n mod 4) then lane_cell x k weight bias r c
      else scalar_cell x k weight bias r c)"

definition linear_cells ::
    "cpu_kernel_mode \<Rightarrow> f32 list \<Rightarrow> usize \<Rightarrow> usize \<Rightarrow> f32 list \<Rightarrow> usize \<Rightarrow> f32 list option \<Rightarrow> f32 list" where
  "linear_cells mode x rows k weight n bias =
     map (\<lambda>i. linear_cell mode rows n x k weight bias (i div n) (i mod n)) [0..<rows * n]"

lemma linear_scalar_cells:
  "length out = rows * n \<Longrightarrow>
    linear_out_by_in_compute x rows k weight n bias out = linear_cells Mode_Scalar x rows k weight n bias"
  unfolding linear_out_by_in_compute_def Let_def linear_cells_def
  by (subst tiled_loops [OF _ scalar_tile_cells scalar_tail_column_cells scalar_row_quad_cells
        scalar_row_single_cells]) (simp_all add: linear_cell_def)

lemma linear_avx2_cells:
  "length out = rows * n \<Longrightarrow>
    linear_out_by_in_compute_avx2 x rows k weight n bias out = linear_cells Mode_Avx2 x rows k weight n bias"
  unfolding linear_out_by_in_compute_avx2_def Let_def linear_cells_def
  by (subst tiled_loops [OF _ avx2_tile_cells avx2_tail_column_cells avx2_row_quad_cells
        avx2_row_single_cells]) (simp_all add: linear_cell_def not_less not_le)

lemma linear_optimized_cells:
  assumes len: "length out = rows * n" and bias: "\<And>b. bias = Some b \<Longrightarrow> length b = n"
  shows "linear_out_by_in_optimized_compute x rows k weight n bias out =
    linear_cells Mode_Optimized x rows k weight n bias"
  unfolding linear_cells_def
proof (rule rows_cover [OF len])
  let ?g = "\<lambda>i. linear_cell Mode_Optimized rows n x k weight bias (i div n) (i mod n)"
  define start where "start = (case bias of Some b \<Rightarrow> b | None \<Rightarrow> replicate n 0)"
  have start: "length start = n" "\<And>j. j < n \<Longrightarrow> start ! j = bias_at bias j"
    using bias by (auto simp: start_def bias_at_def split: option.splits)
  show "fills ?g (\<Union>row \<in> set [0..<rows]. {row * n..<row * n + n}) out
      (linear_out_by_in_optimized_compute x rows k weight n bias out)"
    unfolding linear_out_by_in_optimized_compute_def Let_def start_def [symmetric]
  proof (intro fills_foldl_fresh)
    fix out' :: "f32 list" and row
    assume "row \<in> set [0..<rows]" "length out' = length out"
    then have base: "row * n + n \<le> length out'" using row_in_range [of row rows n] len by simp
    let ?out = "take (row * n) out' @ start @ drop (row * n + n) out'"
    have base': "row * n + n \<le> length ?out" using base start(1) by simp
    have at: "?out ! (row * n + j) = bias_at bias j" if "j < n" for j
      using that base start by (simp add: nth_append)
    show "fills ?g {row * n..<row * n + n} out'
        (foldl (\<lambda>out in_dim. foldl (\<lambda>out c. out[row * n + c := f32_add (out ! (row * n + c))
            (f32_mul (x ! (row * k + in_dim)) (weight ! (c * k + in_dim)))]) out [0..<n]) ?out [0..<k])"
      unfolding foldl_row_steps [OF base', where
          h = "\<lambda>i c v. f32_add v (f32_mul (x ! (row * k + i)) (weight ! (c * k + i)))"]
      using fills_row [OF base, of "map (\<lambda>j. foldl (\<lambda>acc i. f32_add acc (f32_mul (x ! (row * k + i))
          (weight ! (j * k + i)))) (?out ! (row * n + j)) [0..<k]) [0..<n]" ?g] base start(1)
      by (simp add: at linear_cell_def scalar_cell_def)
  qed (rule distinct_upt, erule row_ranges_disjoint)
qed (auto intro!: bexI)

lemma linear_body_cells:
  assumes "length out = rows * n" and "\<And>b. bias = Some b \<Longrightarrow> length b = n"
  shows "linear_body mode x rows k weight n bias out = linear_cells mode x rows k weight n bias"
  using linear_scalar_cells [OF assms(1)] linear_optimized_cells [OF assms] linear_avx2_cells [OF assms(1)]
  by (cases mode) (simp_all add: linear_body_def)

lemma cell_cong:
  assumes "\<And>i. i < k \<Longrightarrow> x ! (r * k + i) = x' ! (r' * k + i)"
    and "\<And>i. i < k \<Longrightarrow> weight ! (c * k + i) = weight' ! (c' * k + i)"
    and "bias_at bias c = bias_at bias' c'"
  shows "scalar_cell x k weight bias r c = scalar_cell x' k weight' bias' r' c'"
    and "lane_cell x k weight bias r c = lane_cell x' k weight' bias' r' c'"
proof -
  show "scalar_cell x k weight bias r c = scalar_cell x' k weight' bias' r' c'"
    unfolding scalar_cell_def assms(3) by (rule foldl_cong) (simp_all add: assms(1,2))
  have lanes: "loadu x (r * k + j) = loadu x' (r' * k + j)" "loadu weight (c * k + j) = loadu weight' (c' * k + j)"
    if "j \<in> set (step_by 8 (k - k mod 8))" for j
  proof -
    have "8 dvd k - k mod 8" by (simp add: dvd_minus_mod)
    then obtain q where q: "k - k mod 8 = 8 * q" by (rule dvdE)
    have "j + 8 \<le> k - k mod 8" using that unfolding q by (auto simp: set_step_by elim!: dvdE)
    then have "j + lane < k" if "lane < 8" for lane using that by linarith
    then show "loadu x (r * k + j) = loadu x' (r' * k + j)" "loadu weight (c * k + j) = loadu weight' (c' * k + j)"
      using assms(1) [of "j + _"] assms(2) [of "j + _"] by (simp_all add: loadu_def add.assoc)
  qed
  have simd: "foldl (\<lambda>acc j. fmadd (loadu x (r * k + j)) (loadu weight (c * k + j)) acc) setzero
        (step_by 8 (k - k mod 8)) =
      foldl (\<lambda>acc j. fmadd (loadu x' (r' * k + j)) (loadu weight' (c' * k + j)) acc) setzero
        (step_by 8 (k - k mod 8))"
    by (rule foldl_cong) (simp_all add: lanes)
  have tail: "foldl (\<lambda>sum i. f32_add sum (f32_mul (x ! (r * k + i)) (weight ! (c * k + i)))) s
        [k - k mod 8..<k] =
      foldl (\<lambda>sum i. f32_add sum (f32_mul (x' ! (r' * k + i)) (weight' ! (c' * k + i)))) s
        [k - k mod 8..<k]" for s
    by (rule foldl_cong) (simp_all add: assms(1,2))
  show "lane_cell x k weight bias r c = lane_cell x' k weight' bias' r' c'"
    unfolding lane_cell_def Let_def simd tail assms(3) ..
qed

section \<open>Chunks compute the cells of the whole\<close>

lemma bias_at_chunk:
  "c < m \<Longrightarrow> (\<And>b. bias = Some b \<Longrightarrow> s + m \<le> length b) \<Longrightarrow>
    bias_at (map_option (\<lambda>b. take m (drop s b)) bias) c = bias_at bias (s + c)"
  by (cases bias) (auto simp: bias_at_def)

lemma window_row:
  "i < k \<Longrightarrow> r < m \<Longrightarrow> (s + m) * k \<le> length xs \<Longrightarrow>
    take (m * k) (drop (s * k) xs) ! (r * k + i) = xs ! ((s + r) * k + i)"
proof -
  assume "i < k" "r < m" "(s + m) * k \<le> length xs"
  moreover have "r * k + i < m * k" using \<open>i < k\<close> row_in_range [OF \<open>r < m\<close>, of k] by linarith
  moreover have "s * k + (r * k + i) = (s + r) * k + i" by (simp add: algebra_simps)
  ultimately show ?thesis by (simp add: algebra_simps)
qed

lemma linear_row_chunk_cells:
  assumes len: "length chunk = m * n" and n: "0 < n" and rpc: "4 dvd rpc"
    and x: "(idx * rpc + m) * k \<le> length x" and bias: "\<And>b. bias = Some b \<Longrightarrow> length b = n"
    and last: "m = rpc \<and> idx * rpc + rpc \<le> rows \<or> idx * rpc + m = rows"
  shows "linear_row_chunk mode x k weight n bias rpc idx chunk =
    map (\<lambda>i. linear_cell mode rows n x k weight bias (i div n) (i mod n))
      [idx * (rpc * n)..<idx * (rpc * n) + length chunk]"
proof -
  let ?s = "idx * rpc" and ?x = "take (m * k) (drop (idx * rpc * k) x)"
  obtain q where q: "rpc = 4 * q" using rpc by (rule dvdE)
  have tile: "m - m mod 4 \<le> r \<longleftrightarrow> rows - rows mod 4 \<le> ?s + r" if "r < m" for r
    using last
  proof
    assume "m = rpc \<and> idx * rpc + rpc \<le> rows"
    moreover have "4 dvd ?s + rpc" using rpc by (simp add: dvd_add)
    then have "?s + rpc \<le> rows - rows mod 4" if "?s + rpc \<le> rows"
      using that by (auto elim!: dvdE simp: minus_mod_eq_mult_div)
    ultimately show ?thesis using that rpc by (auto simp: q)
  next
    assume rows: "idx * rpc + m = rows"
    then have "rows mod 4 = m mod 4" using rpc by (auto simp: q mod_add_left_eq [symmetric])
    then have "rows - rows mod 4 = ?s + (m - m mod 4)"
      using rows mod_less_eq_dividend [of m 4] by linarith
    then show ?thesis by (simp only: add_le_cancel_left)
  qed
  have cell: "linear_cell mode m n ?x k weight bias r c = linear_cell mode rows n x k weight bias (?s + r) c"
    if "r < m" for r c
    using cell_cong [where x = ?x and r = r and x' = x and r' = "?s + r" and k = k and weight = weight
        and weight' = weight and c = c and c' = c and bias = bias and bias' = bias]
      window_row [OF _ that x] tile [OF that] by (auto simp: linear_cell_def)
  have "[idx * (rpc * n)..<idx * (rpc * n) + length chunk] = map (\<lambda>i. i + ?s * n) [0..<m * n]"
    using map_add_upt [of "?s * n" "m * n"] len by (simp add: add.commute mult.assoc)
  moreover have "(i + ?s * n) div n = ?s + i div n" "(i + ?s * n) mod n = i mod n" for i
    using n by (simp_all only: div_mult_self1 mod_mult_self1)
  moreover have "linear_row_chunk mode x k weight n bias rpc idx chunk = linear_cells mode ?x m k weight n bias"
    using linear_body_cells [where mode = mode and x = ?x and k = k and weight = weight and bias = bias, OF len bias] len n
    by (simp add: linear_row_chunk_def Let_def)
  ultimately show ?thesis using cell n
    by (simp add: linear_cells_def less_mult_imp_div_less)
qed

lemma linear_output_chunk_cells:
  assumes w: "(idx * opc + length chunk) * k \<le> length weight"
    and bias: "\<And>b. bias = Some b \<Longrightarrow> idx * opc + length chunk \<le> length b"
    and n: "idx * opc + length chunk \<le> n"
  shows "linear_output_chunk mode x k weight bias opc idx chunk =
    map (\<lambda>i. linear_cell mode 1 n x k weight bias (i div n) (i mod n))
      [idx * opc..<idx * opc + length chunk]"
proof -
  let ?s = "idx * opc" and ?m = "length chunk"
  let ?w = "take (?m * k) (drop (?s * k) weight)" and ?b = "map_option (\<lambda>b. take ?m (drop ?s b)) bias"
  have cell: "linear_cell mode 1 ?m x k ?w ?b 0 c = linear_cell mode 1 n x k weight bias 0 (?s + c)"
    if "c < ?m" for c
    using cell_cong [where x = x and r = 0 and x' = x and r' = 0 and k = k and weight = ?w
        and weight' = weight and c = c and c' = "?s + c" and bias = ?b and bias' = bias]
      window_row [OF _ that w] bias_at_chunk [OF that bias] by (simp add: linear_cell_def)
  have "linear_output_chunk mode x k weight bias opc idx chunk = linear_cells mode x 1 k ?w ?m ?b"
    using bias by (auto simp: linear_output_chunk_def Let_def intro!: linear_body_cells)
  moreover have "[?s..<?s + ?m] = map (\<lambda>i. i + ?s) [0..<?m]"
    using map_add_upt [of ?s ?m] by (simp add: add.commute)
  ultimately show ?thesis using cell n by (simp add: linear_cells_def add.commute)
qed

section \<open>The dispatchers agree with the serial bodies\<close>

definition linear_serial ::
    "cpu_kernel_mode \<Rightarrow> f32 list \<Rightarrow> usize \<Rightarrow> usize \<Rightarrow> f32 list \<Rightarrow> usize \<Rightarrow> f32 list option \<Rightarrow>
      f32 list \<Rightarrow> f32 list res" where
  "linear_serial mode x rows k weight n bias out =
     and_then (validate_linear_out_by_in x rows k weight n bias out) (\<lambda>_.
       Ok (linear_body mode x rows k weight n bias out))"

lemma linear_serial_modes:
  "linear_out_by_in = linear_serial Mode_Scalar"
  "linear_out_by_in_optimized = linear_serial Mode_Optimized"
  "linear_out_by_in_avx2 = linear_serial Mode_Avx2"
  by (simp_all add: fun_eq_iff linear_serial_def linear_body_def linear_out_by_in_def
      linear_out_by_in_optimized_def linear_out_by_in_avx2_def)

definition linear_shapes ::
    "f32 list \<Rightarrow> usize \<Rightarrow> usize \<Rightarrow> f32 list \<Rightarrow> usize \<Rightarrow> f32 list option \<Rightarrow> f32 list \<Rightarrow> bool" where
  "linear_shapes x rows k weight n bias out \<longleftrightarrow>
     rows \<le> max64 \<and> n \<le> max64 \<and> rows * k \<le> max64 \<and> n * k \<le> max64 \<and> rows * n \<le> max64 \<and>
     length x = rows * k \<and> length weight = n * k \<and> length out = rows * n \<and>
     (case bias of None \<Rightarrow> True | Some b \<Rightarrow> length b = n)"

lemma validate_linear_Ok:
  "validate_linear_out_by_in x rows k weight n bias out = Ok u \<longleftrightarrow>
    linear_shapes x rows k weight n bias out"
  by (cases bias) (auto simp: validate_linear_out_by_in_def linear_shapes_def res_simps
      checked_len_product_pair split: if_splits)

lemma validate_linear_no_panic: "validate_linear_out_by_in x rows k weight n bias out \<noteq> Panic"
  by (cases bias) (auto simp: validate_linear_out_by_in_def res_simps
      checked_len_product_pair split: if_splits)

lemma linear_serial_cells:
  "linear_serial mode x rows k weight n bias out = Ok out' \<longleftrightarrow>
    linear_shapes x rows k weight n bias out \<and> out' = linear_cells mode x rows k weight n bias"
  using linear_body_cells [of out rows n bias mode x k weight]
  by (cases "linear_shapes x rows k weight n bias out")
    (auto simp: linear_serial_def res_simps validate_linear_Ok linear_shapes_def split: option.splits)

lemma linear_parallel_serial:
  "linear_out_by_in_parallel num_threads mode x rows k weight n bias out =
    (if n = 0 \<and> is_ok (linear_serial mode x rows k weight n bias out) then Panic
     else linear_serial mode x rows k weight n bias out)"
proof (cases "validate_linear_out_by_in x rows k weight n bias out")
  case (Ok u)
  then have shapes: "linear_shapes x rows k weight n bias out" by (simp add: validate_linear_Ok)
  then have len: "length x = rows * k" "length out = rows * n" by (simp_all add: linear_shapes_def)
  have bias: "length b = n" if "bias = Some b" for b using shapes that by (simp add: linear_shapes_def)
  let ?rpc = "max (div_ceil (div_ceil rows 4) (max num_threads 1)) 1 * 4"
  have "par_chunks_mut (?rpc * n) (linear_row_chunk mode x k weight n bias ?rpc) out =
      Ok (map (\<lambda>i. linear_cell mode rows n x k weight bias (i div n) (i mod n)) [0..<length out])"
    if "n \<noteq> 0"
  proof (rule par_chunks_mut_map)
    show "0 < ?rpc * n" using that by simp
    fix idx and chunk :: "f32 list"
    assume fits: "idx * (?rpc * n) + length chunk \<le> length out"
      and last: "length chunk = ?rpc * n \<or> idx * (?rpc * n) + length chunk = length out"
    have n: "0 < n" using that by simp
    obtain m where m: "length chunk = m * n" and le: "idx * ?rpc + m \<le> rows"
      and last': "m = ?rpc \<or> idx * ?rpc + m = rows"
      by (rule chunk_rows [OF fits [unfolded len(2)] n last [unfolded len(2)]])
    have x: "(idx * ?rpc + m) * k \<le> length x" using le len(1) by simp
    have "m = ?rpc \<and> idx * ?rpc + ?rpc \<le> rows \<or> idx * ?rpc + m = rows" using le last' by blast
    from linear_row_chunk_cells [OF m n _ x bias this]
    show "linear_row_chunk mode x k weight n bias ?rpc idx chunk =
        map (\<lambda>i. linear_cell mode rows n x k weight bias (i div n) (i mod n))
          [idx * (?rpc * n)..<idx * (?rpc * n) + length chunk]" by simp
  qed
  moreover have "linear_serial mode x rows k weight n bias out = Ok (linear_cells mode x rows k weight n bias)"
    using shapes by (simp add: linear_serial_cells)
  ultimately show ?thesis using Ok len(2)
    by (auto simp: linear_out_by_in_parallel_def linear_cells_def par_chunks_mut_def Let_def)
qed (simp_all add: linear_serial_def linear_out_by_in_parallel_def)

lemma linear_output_parallel_serial:
  "linear_out_by_in_output_parallel num_threads mode x k weight n bias out =
    linear_serial mode x 1 k weight n bias out"
proof (cases "validate_linear_out_by_in x 1 k weight n bias out")
  case (Ok u)
  then have shapes: "linear_shapes x 1 k weight n bias out" by (simp add: validate_linear_Ok)
  then have len: "length weight = n * k" "length out = n" by (simp_all add: linear_shapes_def)
  have bias: "length b = n" if "bias = Some b" for b using shapes that by (simp add: linear_shapes_def)
  let ?opc = "max (div_ceil (div_ceil n 4) (max num_threads 1)) 1 * 4"
  have "par_chunks_mut ?opc (linear_output_chunk mode x k weight bias ?opc) out =
      Ok (map (\<lambda>i. linear_cell mode 1 n x k weight bias (i div n) (i mod n)) [0..<length out])"
  proof (rule par_chunks_mut_map)
    fix idx and chunk :: "f32 list"
    assume fits: "idx * ?opc + length chunk \<le> length out"
    then have "(idx * ?opc + length chunk) * k \<le> length weight" using len by simp
    then show "linear_output_chunk mode x k weight bias ?opc idx chunk =
        map (\<lambda>i. linear_cell mode 1 n x k weight bias (i div n) (i mod n))
          [idx * ?opc..<idx * ?opc + length chunk]"
      by (rule linear_output_chunk_cells) (use fits len(2) bias in auto)
  qed simp
  moreover have "linear_serial mode x 1 k weight n bias out = Ok (linear_cells mode x 1 k weight n bias)"
    using shapes by (simp add: linear_serial_cells)
  ultimately show ?thesis using Ok len(2)
    by (simp add: linear_out_by_in_output_parallel_def linear_cells_def Let_def)
qed (simp_all add: linear_serial_def linear_out_by_in_output_parallel_def)

end
