(* ===== verification/Cpu_Backend.thy ===== *)
theory Cpu_Backend imports Matmul_Kernels Linear_Kernels
begin

text \<open>
  The CPU backend (src/crates/kernels/src/cpu_backend.rs): its constructors, which refuse the
  vector mode on a host without it, and the choice of the serial or the threaded kernel. The
  host's processor and the thread pool of the rayon crate are parameters: \<open>host\<close> is the pair of
  the features avx2 and fma on x86-64 and \<open>None\<close> on another target, and \<open>build_pool n\<close> is the
  number of threads of the pool or the text of the builder's error. The theorems show that a
  pool changes no bit of a result, with the one exception where it panics, and what each cell of
  a linear layer holds.
\<close>

record kernel_context =
  context_device :: device

record cpu_kernel_backend =
  backend_context :: kernel_context
  backend_mode :: cpu_kernel_mode
  backend_pool :: "usize option"

definition validate_mode_supported :: "(bool \<times> bool) option \<Rightarrow> cpu_kernel_mode \<Rightarrow> unit res" where
  "validate_mode_supported host mode =
     (case mode of
        Mode_Scalar \<Rightarrow> Ok ()
      | Mode_Optimized \<Rightarrow> Ok ()
      | Mode_Avx2 \<Rightarrow>
          (case host of
             Some (avx2, fma) \<Rightarrow>
               if avx2 \<and> fma then Ok ()
               else kernel_err ''CpuKernelMode::Avx2 requires runtime avx2 + fma support; this host advertises neither or only one''
           | None \<Rightarrow>
               kernel_err ''CpuKernelMode::Avx2 is x86_64-only; rebuild with a Scalar or Optimized mode on this target''))"

definition new_supported_mode :: "cpu_kernel_mode \<Rightarrow> cpu_kernel_backend" where
  "new_supported_mode mode =
     \<lparr>backend_context = \<lparr>context_device = Cpu\<rparr>, backend_mode = mode, backend_pool = None\<rparr>"

definition cpu_scalar :: cpu_kernel_backend where
  "cpu_scalar = new_supported_mode Mode_Scalar"

definition cpu_optimized :: cpu_kernel_backend where
  "cpu_optimized = new_supported_mode Mode_Optimized"

definition cpu_default :: cpu_kernel_backend where
  "cpu_default = cpu_scalar"

definition with_mode :: "(bool \<times> bool) option \<Rightarrow> cpu_kernel_mode \<Rightarrow> cpu_kernel_backend res" where
  "with_mode host mode =
     and_then (validate_mode_supported host mode) (\<lambda>_. Ok (new_supported_mode mode))"

definition with_mode_checked :: "(bool \<times> bool) option \<Rightarrow> cpu_kernel_mode \<Rightarrow> cpu_kernel_backend res" where
  "with_mode_checked host mode = with_mode host mode"

definition with_mode_and_threads ::
    "(bool \<times> bool) option \<Rightarrow> (usize \<Rightarrow> string + usize) \<Rightarrow> cpu_kernel_mode \<Rightarrow> usize \<Rightarrow>
      cpu_kernel_backend res" where
  "with_mode_and_threads host build_pool mode threads =
     and_then (validate_mode_supported host mode) (\<lambda>_.
       if threads \<le> 1 then Ok (new_supported_mode mode)
       else
         case build_pool threads of
           Inl err \<Rightarrow> kernel_err (''failed to build rayon thread pool: '' @ err)
         | Inr pool \<Rightarrow>
             Ok \<lparr>backend_context = \<lparr>context_device = Cpu\<rparr>, backend_mode = mode,
               backend_pool = Some pool\<rparr>)"

definition num_threads :: "cpu_kernel_backend \<Rightarrow> usize" where
  "num_threads self = (case backend_pool self of None \<Rightarrow> 1 | Some threads \<Rightarrow> threads)"

definition parallel_linear_min_rows :: usize where "parallel_linear_min_rows = 32"
definition parallel_linear_min_outputs :: usize where "parallel_linear_min_outputs = 1024"
definition parallel_matmul_min_rows :: usize where "parallel_matmul_min_rows = 32"

definition cpu_matmul ::
    "cpu_kernel_backend \<Rightarrow> f32 list \<Rightarrow> usize \<times> usize \<Rightarrow> f32 list \<Rightarrow> usize \<times> usize \<Rightarrow> f32 list \<Rightarrow>
      f32 list res" where
  "cpu_matmul self a a_shape b b_shape out =
     (let m = fst a_shape;
          serial =
            (case backend_mode self of
               Mode_Scalar \<Rightarrow> matmul_scalar a a_shape b b_shape out
             | Mode_Optimized \<Rightarrow> matmul_optimized a a_shape b b_shape out
             | Mode_Avx2 \<Rightarrow> matmul_optimized a a_shape b b_shape out) in
      case backend_pool self of
        Some pool \<Rightarrow>
          if parallel_matmul_min_rows \<le> m
          then matmul_parallel pool (backend_mode self) a a_shape b b_shape out
          else serial
      | None \<Rightarrow> serial)"

definition cpu_linear_out_by_in ::
    "cpu_kernel_backend \<Rightarrow> f32 list \<Rightarrow> usize \<Rightarrow> usize \<Rightarrow> f32 list \<Rightarrow> usize \<Rightarrow> f32 list option \<Rightarrow>
      f32 list \<Rightarrow> f32 list res" where
  "cpu_linear_out_by_in self x rows in_features weight out_features bias out =
     (let serial =
            (case backend_mode self of
               Mode_Scalar \<Rightarrow> linear_out_by_in x rows in_features weight out_features bias out
             | Mode_Optimized \<Rightarrow> linear_out_by_in_optimized x rows in_features weight out_features bias out
             | Mode_Avx2 \<Rightarrow> linear_out_by_in_avx2 x rows in_features weight out_features bias out) in
      case backend_pool self of
        Some pool \<Rightarrow>
          if rows = 1 \<and> parallel_linear_min_outputs \<le> out_features
          then linear_out_by_in_output_parallel pool (backend_mode self) x in_features weight out_features bias out
          else if parallel_linear_min_rows \<le> rows
          then linear_out_by_in_parallel pool (backend_mode self) x rows in_features weight out_features bias out
          else serial
      | None \<Rightarrow> serial)"

section \<open>The linear layer as the models see it\<close>

text \<open>
  What the models use of \<open>KernelBackend::linear_out_by_in\<close>: on matching shapes with at least one
  output it returns, and it never changes the length of the output buffer.
\<close>

type_synonym linear_kernel =
  "f32 list \<Rightarrow> usize \<Rightarrow> usize \<Rightarrow> f32 list \<Rightarrow> usize \<Rightarrow> f32 list option \<Rightarrow> f32 list \<Rightarrow> f32 list res"

locale linear_backend =
  fixes lin :: linear_kernel
  assumes returns: "linear_shapes x rows k weight n bias out \<Longrightarrow> 0 < n \<Longrightarrow>
      is_ok (lin x rows k weight n bias out)"
    and keeps_length: "lin x rows k weight n bias out = Ok out' \<Longrightarrow> length out' = length out"
    and accepts_shapes: "lin x rows k weight n bias out = Ok out' \<Longrightarrow>
      linear_shapes x rows k weight n bias out"
begin

lemma obtains_output:
  assumes "length x = rows * k" "length weight = n * k" "length bias = n" "length out = rows * n" "0 < n"
    and "n \<le> max64" "rows * k \<le> max64" "n * k \<le> max64" "rows * n \<le> max64"
  obtains out' where "lin x rows k weight n (Some bias) out = Ok out'" "length out' = rows * n"
proof -
  have "rows * 1 \<le> rows * n" using assms(5) by (intro mult_le_mono2) simp
  then have "rows \<le> max64" using assms(9) by linarith
  then have "is_ok (lin x rows k weight n (Some bias) out)"
    using assms \<open>rows \<le> max64\<close> by (intro returns) (simp_all add: linear_shapes_def)
  then show thesis using that keeps_length assms(4) by (auto simp: is_ok_iff)
qed

end

section \<open>Properties\<close>

lemma cpu_linear_serial:
  "backend_pool self = None \<Longrightarrow>
    cpu_linear_out_by_in self x rows k weight n bias out =
      linear_serial (backend_mode self) x rows k weight n bias out"
  by (simp add: cpu_linear_out_by_in_def linear_serial_modes Let_def split: cpu_kernel_mode.split)

lemma cpu_linear_dispatch:
  "cpu_linear_out_by_in self x rows k weight n bias out =
    (if backend_pool self \<noteq> None \<and> 32 \<le> rows \<and> n = 0 \<and>
        is_ok (linear_serial (backend_mode self) x rows k weight n bias out) then Panic
     else linear_serial (backend_mode self) x rows k weight n bias out)"
proof (cases "backend_pool self")
  case (Some pool)
  have serial: "(case backend_mode self of
       Mode_Scalar \<Rightarrow> linear_out_by_in x rows k weight n bias out
     | Mode_Optimized \<Rightarrow> linear_out_by_in_optimized x rows k weight n bias out
     | Mode_Avx2 \<Rightarrow> linear_out_by_in_avx2 x rows k weight n bias out) =
     linear_serial (backend_mode self) x rows k weight n bias out"
    by (cases "backend_mode self") (simp_all add: linear_serial_modes)
  consider "rows = 1 \<and> 1024 \<le> n" | "\<not> (rows = 1 \<and> 1024 \<le> n)" "32 \<le> rows" | "\<not> (rows = 1 \<and> 1024 \<le> n)" "\<not> 32 \<le> rows"
    by blast
  then show ?thesis
    unfolding cpu_linear_out_by_in_def serial Let_def Some option.case parallel_linear_min_rows_def
      parallel_linear_min_outputs_def linear_parallel_serial linear_output_parallel_serial
    by cases simp_all
qed (simp add: cpu_linear_serial)

lemma cpu_linear_cells:
  "cpu_linear_out_by_in self x rows k weight n bias out = Ok out' \<Longrightarrow>
    linear_shapes x rows k weight n bias out \<and> out' = linear_cells (backend_mode self) x rows k weight n bias"
  by (simp add: cpu_linear_dispatch linear_serial_cells split: if_splits)

interpretation cpu: linear_backend "cpu_linear_out_by_in self" for self
proof
  fix x weight out :: "f32 list" and rows k n bias
  assume "linear_shapes x rows k weight n bias out" "0 < n"
  then show "is_ok (cpu_linear_out_by_in self x rows k weight n bias out)"
    by (simp add: cpu_linear_dispatch is_ok_iff linear_serial_cells)
next
  fix x weight out out' :: "f32 list" and rows k n bias
  assume "cpu_linear_out_by_in self x rows k weight n bias out = Ok out'"
  from cpu_linear_cells [OF this]
  show "length out' = length out" "linear_shapes x rows k weight n bias out"
    by (simp_all add: linear_cells_def linear_shapes_def)
qed

text \<open>
  C9. A thread pool changes no bit of a linear layer: for every mode, every number of threads
  and every shape, the backend with a pool returns the very result or error of the same backend
  without one. The one exception is a layer without outputs over 32 rows or more, which the
  serial backend accepts and for which the pool panics, as it asks rayon for chunks of length 0.
\<close>

theorem linear_pool_same_bits:
  "cpu_linear_out_by_in (self\<lparr>backend_pool := Some pool\<rparr>) x rows k weight n bias out =
    (if 32 \<le> rows \<and> n = 0 \<and>
        is_ok (cpu_linear_out_by_in (self\<lparr>backend_pool := None\<rparr>) x rows k weight n bias out)
     then Panic
     else cpu_linear_out_by_in (self\<lparr>backend_pool := None\<rparr>) x rows k weight n bias out)"
  by (cases "n = 0") (simp_all add: cpu_linear_dispatch)

text \<open>
  C31. What a linear layer computes without a pool, on every shape: it succeeds exactly when
  every length is the product of its shape, and then output \<open>c\<close> of row \<open>r\<close> is the bias of \<open>c\<close>
  plus the products of row \<open>r\<close> of the input and row \<open>c\<close> of the weights, added from the first
  input to the last; only the vector mode adds in eight lanes, with the bias last, and it does
  so at the same cells for every blocking: all but those of its four-row tiles in the columns
  that are left over.
\<close>

theorem linear_layer_cells:
  "cpu_linear_out_by_in (self\<lparr>backend_pool := None\<rparr>) x rows k weight n bias out = Ok out' \<longleftrightarrow>
    linear_shapes x rows k weight n bias out \<and>
    out' = map (\<lambda>i. let r = i div n; c = i mod n in
        if backend_mode self = Mode_Avx2 \<and> (rows - rows mod 4 \<le> r \<or> c < n - n mod 4)
        then lane_cell x k weight bias r c
        else foldl (\<lambda>sum i. f32_add sum (f32_mul (x ! (r * k + i)) (weight ! (c * k + i))))
          (bias_at bias c) [0..<k]) [0..<rows * n]"
  by (simp add: cpu_linear_serial linear_serial_cells linear_cells_def linear_cell_def [abs_def]
      scalar_cell_def [abs_def] Let_def cong: if_cong)

text \<open>
  C32. Neither the mode nor a thread pool changes a bit of a matrix product: for every backend
  the result is that of the reference loops, or their error, except that a product without
  columns over 32 rows or more makes a pool panic where the serial backend returns.
\<close>

theorem matmul_same_bits:
  "cpu_matmul self a a_shape b b_shape out =
    (if backend_pool self \<noteq> None \<and> 32 \<le> fst a_shape \<and> snd b_shape = 0 \<and>
        is_ok (matmul_scalar a a_shape b b_shape out) then Panic
     else matmul_scalar a a_shape b b_shape out)"
  by (auto simp: cpu_matmul_def matmul_parallel_scalar matmul_optimized_scalar
      parallel_matmul_min_rows_def Let_def split: cpu_kernel_mode.split option.split)

section \<open>The public constructors\<close>

text \<open>
  The modes a host runs, and the backends that code outside the crate can hold: the fields are
  private, so each comes from one of the public constructors.
\<close>

definition mode_runs :: "(bool \<times> bool) option \<Rightarrow> cpu_kernel_mode \<Rightarrow> bool" where
  "mode_runs host mode = (mode \<noteq> Mode_Avx2 \<or> host = Some (True, True))"

inductive public_backend ::
    "(bool \<times> bool) option \<Rightarrow> (usize \<Rightarrow> string + usize) \<Rightarrow> cpu_kernel_backend \<Rightarrow> bool"
  for host build_pool where
  scalar: "public_backend host build_pool cpu_scalar"
| optimized: "public_backend host build_pool cpu_optimized"
| default: "public_backend host build_pool cpu_default"
| with_mode: "with_mode host mode = Ok self \<Longrightarrow> public_backend host build_pool self"
| with_mode_checked: "with_mode_checked host mode = Ok self \<Longrightarrow> public_backend host build_pool self"
| with_mode_and_threads:
    "with_mode_and_threads host build_pool mode threads = Ok self \<Longrightarrow>
      public_backend host build_pool self"

lemma validate_mode_supported_iff: "validate_mode_supported host mode = Ok u \<longleftrightarrow> mode_runs host mode"
  by (auto simp: validate_mode_supported_def mode_runs_def res_simps split: cpu_kernel_mode.split option.split)

lemma new_supported_mode_simps [simp]:
  "context_device (backend_context (new_supported_mode mode)) = Cpu"
  "backend_mode (new_supported_mode mode) = mode" "backend_pool (new_supported_mode mode) = None"
  by (simp_all add: new_supported_mode_def)

lemma with_mode_iff: "with_mode host mode = Ok self \<longleftrightarrow> mode_runs host mode \<and> self = new_supported_mode mode"
  by (auto simp: with_mode_def validate_mode_supported_iff res_simps)

lemma with_mode_and_threads_iff:
  "with_mode_and_threads host build_pool mode threads = Ok self \<longleftrightarrow> mode_runs host mode \<and>
     (if threads \<le> 1 then self = new_supported_mode mode
      else \<exists>pool. build_pool threads = Inr pool \<and>
        self = (new_supported_mode mode)\<lparr>backend_pool := Some pool\<rparr>)"
  by (auto simp: with_mode_and_threads_def validate_mode_supported_iff new_supported_mode_def res_simps
      split: sum.splits)

lemma public_backend_iff:
  "public_backend host build_pool self \<longleftrightarrow>
     context_device (backend_context self) = Cpu \<and> mode_runs host (backend_mode self) \<and>
     (backend_pool self = None \<or>
       (\<exists>threads pool. 1 < threads \<and> build_pool threads = Inr pool \<and> backend_pool self = Some pool))"
  (is "?P = ?Q")
proof
  assume ?P
  then show ?Q
    by cases (auto simp: cpu_scalar_def cpu_optimized_def cpu_default_def with_mode_checked_def
        with_mode_iff with_mode_and_threads_iff mode_runs_def split: if_splits)
next
  assume Q: ?Q
  then have runs: "mode_runs host (backend_mode self)" by blast
  show ?P
  proof (cases "backend_pool self")
    case None
    with Q have "self = new_supported_mode (backend_mode self)" by (simp add: new_supported_mode_def)
    with runs show ?thesis using public_backend.with_mode with_mode_iff by blast
  next
    case (Some pool)
    with Q obtain threads where "1 < threads" "build_pool threads = Inr pool" by auto
    moreover from Q Some have "self = (new_supported_mode (backend_mode self))\<lparr>backend_pool := Some pool\<rparr>"
      by (simp add: new_supported_mode_def)
    ultimately have "with_mode_and_threads host build_pool (backend_mode self) threads = Ok self"
      using runs by (simp add: with_mode_and_threads_iff)
    then show ?thesis by (rule public_backend.with_mode_and_threads)
  qed
qed

text \<open>
  C33. No backend with the vector mode exists on a host without both of its features, whichever
  public constructor built it, and a backend has a pool only if two threads or more were asked
  for: \<open>with_mode\<close>, its checked alias and \<open>with_mode_and_threads\<close> return exactly the backends of
  the modes the host runs, the others are fixed to the scalar and the optimized mode, and
  together they build every CPU backend of a supported mode, without a pool or with one the
  builder gave for two threads or more.
\<close>

theorem backend_mode_supported:
  "(with_mode host mode = Ok self \<longleftrightarrow> mode_runs host mode \<and> self = new_supported_mode mode) \<and>
   (with_mode_checked host mode = Ok self \<longleftrightarrow> mode_runs host mode \<and> self = new_supported_mode mode) \<and>
   (with_mode_and_threads host build_pool mode threads = Ok self \<longleftrightarrow> mode_runs host mode \<and>
     (if threads \<le> 1 then self = new_supported_mode mode
      else \<exists>pool. build_pool threads = Inr pool \<and>
        self = (new_supported_mode mode)\<lparr>backend_pool := Some pool\<rparr>)) \<and>
   backend_mode cpu_scalar = Mode_Scalar \<and> backend_mode cpu_optimized = Mode_Optimized \<and>
   backend_mode cpu_default = Mode_Scalar \<and>
   (public_backend host build_pool self \<longleftrightarrow>
     context_device (backend_context self) = Cpu \<and> mode_runs host (backend_mode self) \<and>
     (backend_pool self = None \<or>
       (\<exists>threads pool. 1 < threads \<and> build_pool threads = Inr pool \<and> backend_pool self = Some pool)))"
  unfolding with_mode_checked_def with_mode_iff with_mode_and_threads_iff public_backend_iff
  by (simp add: cpu_scalar_def cpu_optimized_def cpu_default_def)

end
