(* ===== verification/Recurrent_Kernel.thy ===== *)
theory Recurrent_Kernel imports Linear_Kernels
begin

text \<open>
  The activations and the LSTM cell of the transducer (src/crates/kernels/src/activation.rs and
  recurrent.rs). The exponential and the hyperbolic tangent of the standard library, whose last
  bits depend on the platform, are parameters.
\<close>

section \<open>Activations\<close>

definition relu_inplace :: "f32 list \<Rightarrow> f32 list" where
  "relu_inplace x = map (\<lambda>v. if f32_lt v 0 then 0 else v) x"

definition sigmoid :: "(f32 \<Rightarrow> f32) \<Rightarrow> f32 \<Rightarrow> f32" where
  "sigmoid expf z =
     (if f32_ge z 0 then f32_div f32_one (f32_add f32_one (expf (f32_neg z)))
      else let e = expf z in f32_div e (f32_add f32_one e))"

lemma length_relu_inplace [simp]: "length (relu_inplace x) = length x"
  by (simp add: relu_inplace_def)

section \<open>One step of an LSTM\<close>

definition check_bias :: "string \<Rightarrow> f32 list option \<Rightarrow> usize \<Rightarrow> unit res" where
  "check_bias name b gates_len =
     (case b of
        None \<Rightarrow> Ok ()
      | Some b \<Rightarrow>
          if length b \<noteq> gates_len
          then kernel_err (''lstm_step '' @ name @ ''.len()={} does not match 4*hidden={gates_len}'')
          else Ok ())"

definition lstm_gates ::
    "(f32 \<Rightarrow> f32) \<Rightarrow> (f32 \<Rightarrow> f32) \<Rightarrow> f32 list \<Rightarrow> f32 list \<Rightarrow> usize \<Rightarrow> f32 list \<times> f32 list \<Rightarrow> nat \<Rightarrow>
      f32 list \<times> f32 list" where
  "lstm_gates expf tanhf gates c hidden = (\<lambda>(h_out, c_out) idx.
     let i = sigmoid expf (gates ! idx);
         f = sigmoid expf (gates ! (hidden + idx));
         g = tanhf (gates ! (2 * hidden + idx));
         ou = sigmoid expf (gates ! (3 * hidden + idx));
         next_c = f32_add (f32_mul f (c ! idx)) (f32_mul i g) in
     (h_out[idx := f32_mul ou (tanhf next_c)], c_out[idx := next_c]))"

definition lstm_step ::
    "(f32 \<Rightarrow> f32) \<Rightarrow> (f32 \<Rightarrow> f32) \<Rightarrow> f32 list \<Rightarrow> f32 list \<Rightarrow> f32 list \<Rightarrow> f32 list \<Rightarrow> f32 list \<Rightarrow>
      f32 list option \<Rightarrow> f32 list option \<Rightarrow> usize \<Rightarrow> f32 list \<Rightarrow> f32 list \<Rightarrow> (f32 list \<times> f32 list) res" where
  "lstm_step expf tanhf x h c weight_ih weight_hh bias_ih bias_hh hidden h_out c_out =
     (if hidden = 0 then kernel_err ''lstm_step hidden must be non-zero''
      else
        let input_size = length x in
        and_then (times_u64 4 hidden) (\<lambda>gates_len.
        if length h \<noteq> hidden \<or> length c \<noteq> hidden
        then kernel_err ''lstm_step state length mismatch: h={} c={} expected {hidden}''
        else if length h_out \<noteq> hidden \<or> length c_out \<noteq> hidden
        then kernel_err ''lstm_step output length mismatch: h_out={} c_out={} expected {hidden}''
        else
          and_then (times_u64 gates_len input_size) (\<lambda>ih_len.
          if length weight_ih \<noteq> ih_len
          then kernel_err ''lstm_step weight_ih.len()={} does not match 4*hidden*input_size={}''
          else
            and_then (times_u64 gates_len hidden) (\<lambda>hh_len.
            if length weight_hh \<noteq> hh_len
            then kernel_err ''lstm_step weight_hh.len()={} does not match 4*hidden*hidden={}''
            else
              and_then (check_bias ''bias_ih'' bias_ih gates_len) (\<lambda>_.
              and_then (check_bias ''bias_hh'' bias_hh gates_len) (\<lambda>_.
              and_then (zeroed_vec gates_len) (\<lambda>gates.
              and_then (linear_out_by_in x 1 input_size weight_ih gates_len bias_ih gates) (\<lambda>gates.
              and_then (zeroed_vec gates_len) (\<lambda>from_h.
              and_then (linear_out_by_in h 1 hidden weight_hh gates_len bias_hh from_h) (\<lambda>from_h.
              let gates = map2 f32_add gates from_h in
              Ok (foldl (lstm_gates expf tanhf gates c hidden) (h_out, c_out) [0..<hidden])))))))))))"

text \<open>The cell of well-shaped operands succeeds and keeps the lengths of its state.\<close>

lemma lstm_gates_lengths:
  "foldl (lstm_gates expf tanhf gates c hidden) (h, c') ks = (h', c'') \<Longrightarrow>
    length h' = length h \<and> length c'' = length c'"
  by (induction ks arbitrary: h c') (auto simp: lstm_gates_def Let_def)

lemma lstm_step_lengths:
  "lstm_step expf tanhf x h c wi wh bi bh hidden h_out c_out = Ok (h', c') \<Longrightarrow>
    length h' = hidden \<and> length c' = hidden"
  by (auto simp: lstm_step_def res_simps Let_def dest!: lstm_gates_lengths split: if_splits)

lemma lstm_step_returns:
  assumes "0 < hidden" and "4 * hidden * length x \<le> max64" and "4 * hidden * hidden < 2 ^ 59"
    and "length h = hidden" "length c = hidden" "length h_out = hidden" "length c_out = hidden"
    and "length wi = 4 * hidden * length x" "length wh = 4 * hidden * hidden"
    and "length bi = 4 * hidden" "length bh = 4 * hidden"
  obtains h' c' where
    "lstm_step expf tanhf x h c wi wh (Some bi) (Some bh) hidden h_out c_out = Ok (h', c')"
    "length h' = hidden" "length c' = hidden"
proof -
  have "4 * hidden \<le> 4 * hidden * hidden" using assms(1) by simp
  then have small: "4 * hidden < 2 ^ 59" using assms(3) by linarith
  have linear: "\<exists>out'. linear_out_by_in y 1 k w (4 * hidden) (Some b) (replicate (4 * hidden) 0) = Ok out'"
    if "length y = k" "length w = 4 * hidden * k" "length b = 4 * hidden" "4 * hidden * k \<le> max64" for y k w b
  proof -
    have "k \<le> max64" using that(4) assms(1) by (cases hidden) (simp_all add: algebra_simps)
    then show ?thesis using that small
      by (simp add: linear_serial_modes linear_serial_cells linear_shapes_def max64_def)
  qed
  have "\<exists>r. lstm_step expf tanhf x h c wi wh (Some bi) (Some bh) hidden h_out c_out = Ok r"
    using linear [of x "length x" wi bi] linear [of h hidden wh bh] assms small
    by (auto simp: lstm_step_def check_bias_def zeroed_vec_def times_u64_def max64_def Let_def)
  then obtain h' c' where "lstm_step expf tanhf x h c wi wh (Some bi) (Some bh) hidden h_out c_out = Ok (h', c')"
    by auto
  with lstm_step_lengths [OF this] show thesis using that by blast
qed

end
