(* ===== verification/Parakeet_Decoder.thy ===== *)
theory Parakeet_Decoder imports Recurrent_Kernel Cpu_Backend Sampling
begin

text \<open>
  The token-and-duration transducer (src/crates/models/src/parakeet/decoder.rs): the prediction
  network, the joint network and the greedy loop, whose step chooses a token and the number of
  frames to advance. The linear layer of the backend is an argument. The theorems bound the
  number of steps, show that well-shaped weights always yield a transcript, and that long inputs
  never do.
\<close>

section \<open>Shapes and weights\<close>

definition pred_hidden :: usize where "pred_hidden = 640"
definition pred_layers :: usize where "pred_layers = 2"
definition joint_hidden :: usize where "joint_hidden = 640"
definition enc_hidden :: usize where "enc_hidden = 1024"
definition vocab_size :: usize where "vocab_size = 8193"
definition blank_id :: "32 word" where "blank_id = 8192"
definition num_durations :: usize where "num_durations = 5"
definition joint_width :: usize where "joint_width = vocab_size + num_durations"
definition durations :: "usize list" where "durations = [0, 1, 2, 3, 4]"
definition max_tokens_per_step :: usize where "max_tokens_per_step = 10"

lemmas parakeet_sizes =
  pred_hidden_def pred_layers_def joint_hidden_def enc_hidden_def vocab_size_def num_durations_def
  joint_width_def

record lstm_layer_weights =
  weight_ih :: "f32 list"
  weight_hh :: "f32 list"
  bias_ih :: "f32 list"
  bias_hh :: "f32 list"

record pred_net_weights =
  embedding :: "f32 list"
  pn_layers :: "lstm_layer_weights list"

record joint_weights =
  enc_proj_w :: "f32 list"
  enc_proj_b :: "f32 list"
  pred_proj_w :: "f32 list"
  pred_proj_b :: "f32 list"
  head_w :: "f32 list"
  head_b :: "f32 list"

record pred_net_state =
  state_h :: "f32 list"
  state_c :: "f32 list"

definition state_zeros :: "usize \<Rightarrow> usize \<Rightarrow> pred_net_state res" where
  "state_zeros layers hidden =
     and_then (times_u64 layers hidden) (\<lambda>n.
     and_then (zeroed_vec n) (\<lambda>h.
     and_then (zeroed_vec n) (\<lambda>c.
     Ok \<lparr>state_h = h, state_c = c\<rparr>)))"

section \<open>The prediction network\<close>

definition prednet_layer ::
    "(f32 \<Rightarrow> f32) \<Rightarrow> (f32 \<Rightarrow> f32) \<Rightarrow> pred_net_state \<Rightarrow> f32 list \<times> pred_net_state \<Rightarrow>
      nat \<times> lstm_layer_weights \<Rightarrow> (f32 list \<times> pred_net_state) res" where
  "prednet_layer expf tanhf state = (\<lambda>(x, next_state) (i, layer).
     let lo = i * pred_hidden; hi = lo + pred_hidden in
     and_then (slice (state_h state) lo hi) (\<lambda>h.
     and_then (slice (state_c state) lo hi) (\<lambda>c.
     and_then (slice (state_h next_state) lo hi) (\<lambda>next_h.
     and_then (slice (state_c next_state) lo hi) (\<lambda>next_c.
     and_then (lstm_step expf tanhf x h c (weight_ih layer) (weight_hh layer) (Some (bias_ih layer))
       (Some (bias_hh layer)) pred_hidden next_h next_c) (\<lambda>(next_h, next_c).
     and_then (copy_into (state_h next_state) lo hi next_h) (\<lambda>h'.
     and_then (copy_into (state_c next_state) lo hi next_c) (\<lambda>c'.
     and_then (copy_into x 0 (length x) next_h) (\<lambda>x'.
     Ok (x', \<lparr>state_h = h', state_c = c'\<rparr>))))))))))"

definition prednet_step ::
    "(f32 \<Rightarrow> f32) \<Rightarrow> (f32 \<Rightarrow> f32) \<Rightarrow> 32 word \<Rightarrow> pred_net_weights \<Rightarrow> pred_net_state \<Rightarrow>
      (f32 list \<times> pred_net_state) res" where
  "prednet_step expf tanhf token weights state =
     (let hidden = pred_hidden; layers = length (pn_layers weights) in
      if layers = 0 then runtime_err ''prednet has no LSTM layers''
      else if length (embedding weights) \<noteq> vocab_size * hidden
      then runtime_err ''prednet embedding has {} values, expected {}x{hidden}''
      else if vocab_size \<le> unat token
      then runtime_err ''prednet token {token} is outside the vocabulary of {}''
      else
        and_then (times_u64 layers hidden) (\<lambda>n.
        if length (state_h state) \<noteq> n \<or> length (state_c state) \<noteq> n
        then runtime_err ''prednet state is h={} c={}, expected {}''
        else
          let start = unat token * hidden in
          and_then (slice (embedding weights) start (start + hidden)) (\<lambda>x.
          and_then (state_zeros layers hidden) (\<lambda>next_state.
          try_fold (prednet_layer expf tanhf state) (x, next_state) (enumerate 0 (pn_layers weights))))))"

section \<open>The joint network\<close>

definition project_encoder ::
    "linear_kernel \<Rightarrow> f32 list \<Rightarrow> usize \<Rightarrow> joint_weights \<Rightarrow> f32 list res" where
  "project_encoder lin encoder frames weights =
     and_then (times_u64 frames enc_hidden) (\<lambda>n.
     if length encoder \<noteq> n
     then runtime_err ''encoder output has {} values, expected {frames}x{ENC_HIDDEN}''
     else
       and_then (times_u64 frames joint_hidden) (\<lambda>m.
       and_then (zeroed_vec m) (\<lambda>out.
       lin encoder frames enc_hidden (enc_proj_w weights) joint_hidden (Some (enc_proj_b weights)) out)))"

definition joint_step ::
    "linear_kernel \<Rightarrow> f32 list \<Rightarrow> f32 list \<Rightarrow> joint_weights \<Rightarrow> f32 list \<Rightarrow> f32 list res" where
  "joint_step lin enc_projected pred_out weights logits =
     (if length enc_projected \<noteq> joint_hidden
      then runtime_err ''joint encoder row has {} values, expected {JOINT_HIDDEN}''
      else if length pred_out \<noteq> pred_hidden
      then runtime_err ''joint prediction row has {} values, expected {PRED_HIDDEN}''
      else if length logits \<noteq> joint_width
      then runtime_err ''joint output buffer has {} values, expected {JOINT_WIDTH}''
      else
        and_then (zeroed_vec joint_hidden) (\<lambda>hidden.
        and_then (lin pred_out 1 pred_hidden (pred_proj_w weights) joint_hidden
          (Some (pred_proj_b weights)) hidden) (\<lambda>hidden.
        let hidden = relu_inplace (map2 f32_add hidden enc_projected) in
        lin hidden 1 joint_hidden (head_w weights) joint_width (Some (head_b weights)) logits)))"

section \<open>The greedy loop\<close>

record tdt_step =
  ts_frame :: usize
  ts_prev_token :: "32 word"
  ts_token :: "32 word"
  ts_duration_index :: usize
  ts_duration :: usize

record tdt_decode =
  td_tokens :: "32 word list"
  td_frames :: "usize list"
  td_steps :: "tdt_step list"

record tdt_config =
  tc_durations :: "usize list"
  tc_blank :: "32 word"
  tc_max_tokens_per_step :: usize
  tc_max_steps :: usize

definition default_tdt_config :: tdt_config where
  "default_tdt_config = \<lparr>tc_durations = durations, tc_blank = blank_id,
     tc_max_tokens_per_step = max_tokens_per_step, tc_max_steps = 100000\<rparr>"

text \<open>
  The variables of the loop. The numbers of tokens emitted at one frame and of the frames stay
  below the lengths of vectors; only the advance by a configured duration can overflow.
\<close>

record tdt_state =
  ls_t :: usize
  ls_emitted :: usize
  ls_state :: pred_net_state
  ls_logits :: "f32 list"
  ls_out :: tdt_decode

definition step_limit_error :: "'a res" where
  "step_limit_error =
     runtime_err ''TDT decode exceeded {} steps at frame {t} of {frames}: the duration head is predicting 0 without terminating''"

definition tdt_step_at ::
    "linear_kernel \<Rightarrow> (f32 \<Rightarrow> f32) \<Rightarrow> (f32 \<Rightarrow> f32) \<Rightarrow> f32 list \<Rightarrow> pred_net_weights \<Rightarrow> joint_weights \<Rightarrow>
      tdt_config \<Rightarrow> tdt_state \<Rightarrow> tdt_state res" where
  "tdt_step_at lin expf tanhf enc_projected prednet joint config s =
     (let t = ls_t s; out = ls_out s;
          prev = (if td_tokens out = [] then tc_blank config else last (td_tokens out)) in
      and_then (prednet_step expf tanhf prev prednet (ls_state s)) (\<lambda>(pred_out, next_state).
      and_then (slice enc_projected (t * joint_hidden) ((t + 1) * joint_hidden)) (\<lambda>row.
      and_then (joint_step lin row pred_out joint (ls_logits s)) (\<lambda>logits.
      let token = word_of_nat (argmax (take vocab_size logits));
          duration_index = argmax (drop vocab_size logits) in
      and_then (or_panic (if duration_index < length (tc_durations config)
          then Some (tc_durations config ! duration_index) else None)) (\<lambda>duration.
      let step = \<lparr>ts_frame = t, ts_prev_token = prev, ts_token = token,
            ts_duration_index = duration_index, ts_duration = duration\<rparr>;
          out = out\<lparr>td_steps := td_steps out @ [step]\<rparr>;
          (state, out, emitted) =
            (if token \<noteq> tc_blank config
             then (next_state, out\<lparr>td_tokens := td_tokens out @ [token],
               td_frames := td_frames out @ [t]\<rparr>, ls_emitted s + 1)
             else (ls_state s, out, ls_emitted s)) in
      and_then
        (if 0 < duration then and_then (plus_u64 t duration) (\<lambda>t'. Ok (t', 0))
         else if token = tc_blank config \<or> emitted = tc_max_tokens_per_step config then Ok (t + 1, 0)
         else Ok (t, emitted)) (\<lambda>(t', emitted').
      Ok \<lparr>ls_t = t', ls_emitted = emitted', ls_state = state, ls_logits = logits, ls_out = out\<rparr>))))))"

lemma tdt_step_records:
  "tdt_step_at lin expf tanhf enc_projected prednet joint config s = Ok s' \<Longrightarrow>
    length (td_steps (ls_out s')) = length (td_steps (ls_out s)) + 1"
  by (auto simp: tdt_step_at_def res_simps Let_def split: prod.splits if_splits)

function tdt_loop ::
    "linear_kernel \<Rightarrow> (f32 \<Rightarrow> f32) \<Rightarrow> (f32 \<Rightarrow> f32) \<Rightarrow> f32 list \<Rightarrow> usize \<Rightarrow> pred_net_weights \<Rightarrow>
      joint_weights \<Rightarrow> tdt_config \<Rightarrow> tdt_state \<Rightarrow> tdt_decode res" where
  "tdt_loop lin expf tanhf enc_projected frames prednet joint config s =
     (if ls_t s < frames then
        if tc_max_steps config \<le> length (td_steps (ls_out s)) then step_limit_error
        else
          case tdt_step_at lin expf tanhf enc_projected prednet joint config s of
            Ok s' \<Rightarrow> tdt_loop lin expf tanhf enc_projected frames prednet joint config s'
          | Err e \<Rightarrow> Err e
          | Panic \<Rightarrow> Panic
      else Ok (ls_out s))"
  by pat_completeness auto
termination
  by (relation "measure (\<lambda>(_, _, _, _, _, _, _, config, s). tc_max_steps config - length (td_steps (ls_out s)))")
    (auto dest!: tdt_step_records)

declare tdt_loop.simps [simp del]

definition loop_start :: "pred_net_state \<Rightarrow> f32 list \<Rightarrow> tdt_state" where
  "loop_start state logits =
     \<lparr>ls_t = 0, ls_emitted = 0, ls_state = state, ls_logits = logits,
      ls_out = \<lparr>td_tokens = [], td_frames = [], td_steps = []\<rparr>\<rparr>"

definition greedy_decode ::
    "linear_kernel \<Rightarrow> (f32 \<Rightarrow> f32) \<Rightarrow> (f32 \<Rightarrow> f32) \<Rightarrow> f32 list \<Rightarrow> usize \<Rightarrow> pred_net_weights \<Rightarrow>
      joint_weights \<Rightarrow> tdt_config \<Rightarrow> tdt_decode res" where
  "greedy_decode lin expf tanhf encoder frames prednet joint config =
     (if tc_max_tokens_per_step config = 0 then runtime_err ''max_tokens_per_step must be non-zero''
      else
        and_then (project_encoder lin encoder frames joint) (\<lambda>enc_projected.
        and_then (state_zeros (length (pn_layers prednet)) pred_hidden) (\<lambda>state.
        and_then (zeroed_vec joint_width) (\<lambda>logits.
        tdt_loop lin expf tanhf enc_projected frames prednet joint config (loop_start state logits)))))"

section \<open>Invariants of the loop\<close>

lemma tdt_loop_invariant:
  assumes "tdt_loop lin expf tanhf enc frames prednet joint config s = Ok out" and "I s"
    and "\<And>s s'. I s \<Longrightarrow> ls_t s < frames \<Longrightarrow> length (td_steps (ls_out s)) < tc_max_steps config \<Longrightarrow>
      tdt_step_at lin expf tanhf enc prednet joint config s = Ok s' \<Longrightarrow> I s'"
  shows "\<exists>s'. I s' \<and> frames \<le> ls_t s' \<and> out = ls_out s'"
  using assms
proof (induction lin expf tanhf enc frames prednet joint config s rule: tdt_loop.induct)
  case (1 lin expf tanhf enc frames prednet joint config s)
  show ?case
  proof (cases "ls_t s < frames")
    case True
    with 1(2) have room: "\<not> tc_max_steps config \<le> length (td_steps (ls_out s))"
      by (auto simp: tdt_loop.simps step_limit_error_def)
    with True 1(2) obtain s' where s': "tdt_step_at lin expf tanhf enc prednet joint config s = Ok s'"
      and rest: "tdt_loop lin expf tanhf enc frames prednet joint config s' = Ok out"
      by (subst (asm) tdt_loop.simps) (auto split: outcome.splits)
    have "I s'" using 1(4) [OF 1(3) True _ s'] room by simp
    from 1(1) [OF True room s' rest this 1(4)] show ?thesis .
  next
    case False
    with 1(2,3) show ?thesis by (auto simp: tdt_loop.simps)
  qed
qed

lemma tdt_loop_result:
  assumes "I s"
    and "\<And>s. I s \<Longrightarrow> ls_t s < frames \<Longrightarrow>
      \<exists>s'. tdt_step_at lin expf tanhf enc prednet joint config s = Ok s' \<and> I s'"
  shows "is_ok (tdt_loop lin expf tanhf enc frames prednet joint config s) \<or>
    tdt_loop lin expf tanhf enc frames prednet joint config s = step_limit_error \<and>
    (\<exists>s. I s \<and> ls_t s < frames \<and> tc_max_steps config \<le> length (td_steps (ls_out s)))"
  using assms
proof (induction lin expf tanhf enc frames prednet joint config s rule: tdt_loop.induct)
  case (1 lin expf tanhf enc frames prednet joint config s)
  show ?case
  proof (cases "ls_t s < frames \<and> length (td_steps (ls_out s)) < tc_max_steps config")
    case True
    then obtain s' where s': "tdt_step_at lin expf tanhf enc prednet joint config s = Ok s'" and "I s'"
      using 1(3) [OF 1(2)] by blast
    have "tdt_loop lin expf tanhf enc frames prednet joint config s =
        tdt_loop lin expf tanhf enc frames prednet joint config s'"
      using True s' by (subst tdt_loop.simps) simp
    then show ?thesis using 1(1) [OF _ _ s' \<open>I s'\<close> 1(3)] True by simp
  next
    case False
    then show ?thesis using 1(2) by (subst (1 2) tdt_loop.simps) auto
  qed
qed

text \<open>What one step does to the variables of the loop, whatever the networks say.\<close>

lemma tdt_step_cases:
  assumes "tdt_step_at lin expf tanhf enc prednet joint config s = Ok s'"
  obtains step emitted where
    "td_steps (ls_out s') = td_steps (ls_out s) @ [step]" "ts_frame step = ls_t s"
    "unat (ts_token step) < vocab_size" "ts_duration step \<in> set (tc_durations config)"
    "ts_token step \<noteq> tc_blank config \<and> emitted = ls_emitted s + 1 \<and>
       td_tokens (ls_out s') = td_tokens (ls_out s) @ [ts_token step] \<and>
       td_frames (ls_out s') = td_frames (ls_out s) @ [ls_t s] \<or>
     ts_token step = tc_blank config \<and> emitted = ls_emitted s \<and>
       td_tokens (ls_out s') = td_tokens (ls_out s) \<and> td_frames (ls_out s') = td_frames (ls_out s) \<and>
       ls_state s' = ls_state s"
    "0 < ts_duration step \<and> ls_t s' = ls_t s + ts_duration step \<and> ls_emitted s' = 0 \<or>
     ts_duration step = 0 \<and> (ts_token step = tc_blank config \<or> emitted = tc_max_tokens_per_step config) \<and>
       ls_t s' = ls_t s + 1 \<and> ls_emitted s' = 0 \<or>
     ts_duration step = 0 \<and> ts_token step \<noteq> tc_blank config \<and>
       emitted \<noteq> tc_max_tokens_per_step config \<and> ls_t s' = ls_t s \<and> ls_emitted s' = emitted"
proof -
  obtain next_state logits duration t' emitted' where
    duration: "argmax (drop vocab_size logits) < length (tc_durations config)"
      "duration = tc_durations config ! argmax (drop vocab_size logits)" and
    s': "s' = (let prev = (if td_tokens (ls_out s) = [] then tc_blank config else last (td_tokens (ls_out s)));
        token = word_of_nat (argmax (take vocab_size logits));
        step = \<lparr>ts_frame = ls_t s, ts_prev_token = prev, ts_token = token,
            ts_duration_index = argmax (drop vocab_size logits), ts_duration = duration\<rparr>;
        out = (ls_out s)\<lparr>td_steps := td_steps (ls_out s) @ [step]\<rparr> in
      if token \<noteq> tc_blank config
      then \<lparr>ls_t = t', ls_emitted = emitted', ls_state = next_state, ls_logits = logits,
        ls_out = out\<lparr>td_tokens := td_tokens out @ [token], td_frames := td_frames out @ [ls_t s]\<rparr>\<rparr>
      else \<lparr>ls_t = t', ls_emitted = emitted', ls_state = ls_state s, ls_logits = logits, ls_out = out\<rparr>)" and
    move: "let token = word_of_nat (argmax (take vocab_size logits));
        emitted = (if token \<noteq> tc_blank config then ls_emitted s + 1 else ls_emitted s) in
      if 0 < duration then t' = ls_t s + duration \<and> emitted' = 0
      else if token = tc_blank config \<or> emitted = tc_max_tokens_per_step config
      then t' = ls_t s + 1 \<and> emitted' = 0
      else t' = ls_t s \<and> emitted' = emitted"
    using assms
    by (auto simp: tdt_step_at_def res_simps Let_def split: prod.splits if_splits)
  have token: "unat (word_of_nat (argmax (take vocab_size logits)) :: 32 word) < vocab_size"
    using argmax_less [of "take vocab_size logits"]
    by (cases "take vocab_size logits = []") (auto simp: vocab_size_def argmax_def unat_of_nat)
  define token where "token = (word_of_nat (argmax (take vocab_size logits)) :: 32 word)"
  define step where "step = \<lparr>ts_frame = ls_t s,
    ts_prev_token = (if td_tokens (ls_out s) = [] then tc_blank config else last (td_tokens (ls_out s))),
    ts_token = token, ts_duration_index = argmax (drop vocab_size logits), ts_duration = duration\<rparr>"
  show thesis
  proof (rule that)
    show "td_steps (ls_out s') = td_steps (ls_out s) @ [step]"
      by (simp add: s' step_def token_def Let_def)
    show "ts_frame step = ls_t s" "ts_duration step \<in> set (tc_durations config)"
      "unat (ts_token step) < vocab_size"
      using duration token by (simp_all add: step_def token_def)
    show "ts_token step \<noteq> tc_blank config \<and>
        (if token \<noteq> tc_blank config then ls_emitted s + 1 else ls_emitted s) = ls_emitted s + 1 \<and>
        td_tokens (ls_out s') = td_tokens (ls_out s) @ [ts_token step] \<and>
        td_frames (ls_out s') = td_frames (ls_out s) @ [ls_t s] \<or>
      ts_token step = tc_blank config \<and>
        (if token \<noteq> tc_blank config then ls_emitted s + 1 else ls_emitted s) = ls_emitted s \<and>
        td_tokens (ls_out s') = td_tokens (ls_out s) \<and> td_frames (ls_out s') = td_frames (ls_out s) \<and>
        ls_state s' = ls_state s"
      by (simp add: s' step_def Let_def flip: token_def)
  qed (use move in \<open>auto simp: s' step_def Let_def simp flip: token_def split: if_splits\<close>)
qed

lemma greedy_decode_OkD:
  "greedy_decode lin expf tanhf encoder frames prednet joint config = Ok out \<Longrightarrow>
    0 < tc_max_tokens_per_step config \<and>
    (\<exists>enc state logits. tdt_loop lin expf tanhf enc frames prednet joint config
      (loop_start state logits) = Ok out)"
  by (auto simp: greedy_decode_def loop_start_def res_simps)

text \<open>The bookkeeping of the transcript, at the head of the loop.\<close>

definition transcript_ok :: "tdt_config \<Rightarrow> usize \<Rightarrow> tdt_state \<Rightarrow> bool" where
  "transcript_ok config frames s \<longleftrightarrow>
     (let out = ls_out s; emissions = filter (\<lambda>step. ts_token step \<noteq> tc_blank config) (td_steps out) in
      td_tokens out = map ts_token emissions \<and> td_frames out = map ts_frame emissions \<and>
      (\<forall>step \<in> set (td_steps out). unat (ts_token step) < vocab_size) \<and>
      sorted (map ts_frame (td_steps out)) \<and>
      (\<forall>f \<in> set (map ts_frame (td_steps out)). f \<le> ls_t s \<and> f < frames) \<and>
      (\<forall>f. count_list (td_frames out) f \<le> tc_max_tokens_per_step config) \<and>
      count_list (td_frames out) (ls_t s) = ls_emitted s \<and>
      ls_emitted s < tc_max_tokens_per_step config \<and>
      length (td_steps out) \<le> tc_max_tokens_per_step config * min (ls_t s) frames +
        (if ls_t s < frames then ls_emitted s else 0))"

lemma count_list_zero: "(\<And>x. x \<in> set xs \<Longrightarrow> x < (f :: nat)) \<Longrightarrow> count_list xs f = 0"
  by (metis count_list_0_iff less_irrefl)

lemma transcript_ok_step:
  assumes ok: "transcript_ok config frames s" and t: "ls_t s < frames"
    and "tdt_step_at lin expf tanhf enc prednet joint config s = Ok s'"
  shows "transcript_ok config frames s'"
  using assms(3)
proof (rule tdt_step_cases)
  fix step emitted
  assume steps: "td_steps (ls_out s') = td_steps (ls_out s) @ [step]" "ts_frame step = ls_t s"
      "unat (ts_token step) < vocab_size"
    and emit: "ts_token step \<noteq> tc_blank config \<and> emitted = ls_emitted s + 1 \<and>
         td_tokens (ls_out s') = td_tokens (ls_out s) @ [ts_token step] \<and>
         td_frames (ls_out s') = td_frames (ls_out s) @ [ls_t s] \<or>
       ts_token step = tc_blank config \<and> emitted = ls_emitted s \<and>
         td_tokens (ls_out s') = td_tokens (ls_out s) \<and> td_frames (ls_out s') = td_frames (ls_out s) \<and>
         ls_state s' = ls_state s"
    and move: "0 < ts_duration step \<and> ls_t s' = ls_t s + ts_duration step \<and> ls_emitted s' = 0 \<or>
       ts_duration step = 0 \<and> (ts_token step = tc_blank config \<or> emitted = tc_max_tokens_per_step config) \<and>
         ls_t s' = ls_t s + 1 \<and> ls_emitted s' = 0 \<or>
       ts_duration step = 0 \<and> ts_token step \<noteq> tc_blank config \<and>
         emitted \<noteq> tc_max_tokens_per_step config \<and> ls_t s' = ls_t s \<and> ls_emitted s' = emitted"
  let ?max = "tc_max_tokens_per_step config" and ?n = "length (td_steps (ls_out s))"
  have early: "ts_frame x \<le> ls_t s" if "x \<in> set (td_steps (ls_out s))" for x
    using ok that by (simp add: transcript_ok_def Let_def)
  have old: "td_frames (ls_out s) = map ts_frame (filter (\<lambda>step. ts_token step \<noteq> tc_blank config) (td_steps (ls_out s)))"
      "count_list (td_frames (ls_out s)) (ls_t s) = ls_emitted s" "ls_emitted s < ?max"
      "count_list (td_frames (ls_out s)) f \<le> ?max" for f
    using ok unfolding transcript_ok_def Let_def by blast+
  have time: "ls_t s < ls_t s' \<and> ls_emitted s' = 0 \<or>
      ls_t s' = ls_t s \<and> ls_emitted s' = emitted \<and> emitted = ls_emitted s + 1 \<and> emitted < ?max"
    using move emit old(3) by (elim disjE conjE) simp_all
  have n: "?n \<le> ?max * ls_t s + ls_emitted s" using ok t by (simp add: transcript_ok_def Let_def min_def)
  have "?max * ls_t s + ?max \<le> ?max * min (ls_t s') frames" if "ls_t s < ls_t s'"
  proof -
    have "?max * (ls_t s + 1) \<le> ?max * min (ls_t s') frames" using that t by (intro mult_le_mono2) simp
    then show ?thesis by simp
  qed
  then have count: "?n + 1 \<le> ?max * min (ls_t s') frames + (if ls_t s' < frames then ls_emitted s' else 0)"
    using time n t ok by (auto simp: transcript_ok_def Let_def)
  have "f \<le> ls_t s" if "f \<in> set (td_frames (ls_out s'))" for f
    using emit that early by (elim disjE conjE) (auto simp: old(1))
  then have frames: "f < ls_t s'" if "f \<in> set (td_frames (ls_out s')) " "ls_t s < ls_t s'" for f
    using that by (meson le_less_trans)
  have here: "count_list (td_frames (ls_out s')) (ls_t s') = ls_emitted s'"
    using time
  proof
    assume "ls_t s < ls_t s' \<and> ls_emitted s' = 0"
    then show ?thesis using frames by (simp add: count_list_zero)
  next
    assume "ls_t s' = ls_t s \<and> ls_emitted s' = emitted \<and> emitted = ls_emitted s + 1 \<and> emitted < ?max"
    then show ?thesis using emit old(2) by (elim disjE conjE) simp_all
  qed
  have each: "count_list (td_frames (ls_out s')) f \<le> ?max" for f
    using emit
  proof (elim disjE conjE)
    assume "td_frames (ls_out s') = td_frames (ls_out s) @ [ls_t s]"
    then show ?thesis using old(2,3) old(4) [of f] by (cases "f = ls_t s") simp_all
  qed (simp_all add: old(4))
  have "ls_emitted s' < ?max" using time old(3) by linarith
  moreover have "ls_t s \<le> ls_t s'" using time by linarith
  moreover have "ts_frame x \<le> ls_t s'" if "x \<in> set (td_steps (ls_out s))" for x
    using early [OF that] \<open>ls_t s \<le> ls_t s'\<close> by (rule le_trans)
  ultimately show ?thesis
    using emit ok t here each count steps early
    unfolding transcript_ok_def Let_def by (elim disjE conjE) (simp_all add: sorted_append)
qed

lemma tdt_time_step:
  assumes "\<forall>d \<in> set (tc_durations config). d \<le> D" and "0 < D"
    and "ls_t s \<le> D * length (td_steps (ls_out s))"
    and "tdt_step_at lin expf tanhf enc prednet joint config s = Ok s'"
  shows "ls_t s' \<le> D * length (td_steps (ls_out s'))"
  using assms(4)
proof (rule tdt_step_cases)
  fix step emitted
  assume steps: "td_steps (ls_out s') = td_steps (ls_out s) @ [step]" "ts_duration step \<in> set (tc_durations config)"
    and move: "0 < ts_duration step \<and> ls_t s' = ls_t s + ts_duration step \<and> ls_emitted s' = 0 \<or>
       ts_duration step = 0 \<and> (ts_token step = tc_blank config \<or> emitted = tc_max_tokens_per_step config) \<and>
         ls_t s' = ls_t s + 1 \<and> ls_emitted s' = 0 \<or>
       ts_duration step = 0 \<and> ts_token step \<noteq> tc_blank config \<and>
         emitted \<noteq> tc_max_tokens_per_step config \<and> ls_t s' = ls_t s \<and> ls_emitted s' = emitted"
  have "ts_duration step \<le> D" using steps(2) assms(1) by blast
  then have "ls_t s' \<le> ls_t s + D" using move assms(2) by linarith
  then show ?thesis using assms(3) by (simp add: steps(1))
qed

text \<open>
  C34. The greedy transducer loop ends within its budget for every input, all weights and every
  duration table, durations of 0 included: a transcript of \<open>frames\<close> encoder frames takes at most
  \<open>frames * max_tokens_per_step\<close> steps, no frame emits more than \<open>max_tokens_per_step\<close> tokens, the
  frames of the steps never decrease and stay within the input, and tokens and frames are those
  of the steps with a token other than the blank, all within the vocabulary.
\<close>

theorem tdt_decode_budget:
  assumes "greedy_decode lin expf tanhf encoder frames prednet joint config = Ok out"
  shows "length (td_steps out) \<le> frames * tc_max_tokens_per_step config \<and>
    (\<forall>f. count_list (td_frames out) f \<le> tc_max_tokens_per_step config) \<and>
    sorted (map ts_frame (td_steps out)) \<and>
    (\<forall>step \<in> set (td_steps out). ts_frame step < frames \<and> unat (ts_token step) < vocab_size) \<and>
    td_tokens out = map ts_token (filter (\<lambda>step. ts_token step \<noteq> tc_blank config) (td_steps out)) \<and>
    td_frames out = map ts_frame (filter (\<lambda>step. ts_token step \<noteq> tc_blank config) (td_steps out))"
proof -
  obtain enc state logits where max: "0 < tc_max_tokens_per_step config"
    and loop: "tdt_loop lin expf tanhf enc frames prednet joint config (loop_start state logits) = Ok out"
    using greedy_decode_OkD [OF assms] by blast
  have "transcript_ok config frames (loop_start state logits)"
    using max by (simp add: transcript_ok_def loop_start_def)
  with loop have "\<exists>s. transcript_ok config frames s \<and> frames \<le> ls_t s \<and> out = ls_out s"
    by (rule tdt_loop_invariant) (rule transcript_ok_step)
  then show ?thesis by (auto simp: transcript_ok_def Let_def mult.commute)
qed

section \<open>Well-shaped weights\<close>

definition prednet_shaped :: "pred_net_weights \<Rightarrow> bool" where
  "prednet_shaped w \<longleftrightarrow>
     pn_layers w \<noteq> [] \<and> length (pn_layers w) < 2 ^ 32 \<and>
     length (embedding w) = vocab_size * pred_hidden \<and>
     (\<forall>layer \<in> set (pn_layers w).
        length (weight_ih layer) = 4 * pred_hidden * pred_hidden \<and>
        length (weight_hh layer) = 4 * pred_hidden * pred_hidden \<and>
        length (bias_ih layer) = 4 * pred_hidden \<and> length (bias_hh layer) = 4 * pred_hidden)"

definition joint_shaped :: "joint_weights \<Rightarrow> bool" where
  "joint_shaped w \<longleftrightarrow>
     length (enc_proj_w w) = joint_hidden * enc_hidden \<and> length (enc_proj_b w) = joint_hidden \<and>
     length (pred_proj_w w) = joint_hidden * pred_hidden \<and> length (pred_proj_b w) = joint_hidden \<and>
     length (head_w w) = joint_width * joint_hidden \<and> length (head_b w) = joint_width"

lemma try_fold_returns:
  assumes "P s" and "\<And>s x. P s \<Longrightarrow> x \<in> set xs \<Longrightarrow> \<exists>t. f s x = Ok t \<and> P t"
  shows "\<exists>t. try_fold f s xs = Ok t \<and> P t"
  using assms
proof (induction xs arbitrary: s)
  case (Cons x xs)
  then obtain t where "f s x = Ok t" "P t" by (meson list.set_intros(1))
  moreover have "\<exists>u. try_fold f t xs = Ok u \<and> P u" using Cons \<open>P t\<close> by (meson list.set_intros(2))
  ultimately show ?case by simp
qed simp

lemma prednet_step_returns:
  assumes shaped: "prednet_shaped w" and token: "unat token < vocab_size"
    and state: "length (state_h st) = length (pn_layers w) * pred_hidden"
      "length (state_c st) = length (pn_layers w) * pred_hidden"
  obtains x st' where "prednet_step expf tanhf token w st = Ok (x, st')" "length x = pred_hidden"
    "length (state_h st') = length (pn_layers w) * pred_hidden"
    "length (state_c st') = length (pn_layers w) * pred_hidden"
proof -
  let ?n = "length (pn_layers w) * pred_hidden"
  let ?P = "\<lambda>(x, next_state). length x = pred_hidden \<and> length (state_h next_state) = ?n \<and>
      length (state_c next_state) = ?n"
  have layer: "\<exists>t. prednet_layer expf tanhf st s il = Ok t \<and> ?P t"
    if P: "?P s" and il: "il \<in> set (enumerate 0 (pn_layers w))" for s il
  proof -
    obtain x next_state where s: "s = (x, next_state)" by (cases s)
    from il have "fst il < length (pn_layers w)" "pn_layers w ! fst il = snd il"
      by (simp_all add: in_set_enumerate_eq)
    then obtain i l where i: "il = (i, l)" "i < length (pn_layers w)" and l: "l \<in> set (pn_layers w)"
      by (cases il) auto
    have hi: "i * pred_hidden + pred_hidden \<le> ?n" using row_in_range [OF i(2)] .
    have "length (weight_ih l) = 4 * pred_hidden * pred_hidden" "length (weight_hh l) = 4 * pred_hidden * pred_hidden"
      "length (bias_ih l) = 4 * pred_hidden" "length (bias_hh l) = 4 * pred_hidden"
      using shaped l by (simp_all add: prednet_shaped_def)
    then obtain h' c' where "lstm_step expf tanhf x (take pred_hidden (drop (i * pred_hidden) (state_h st)))
        (take pred_hidden (drop (i * pred_hidden) (state_c st))) (weight_ih l) (weight_hh l)
        (Some (bias_ih l)) (Some (bias_hh l)) pred_hidden
        (take pred_hidden (drop (i * pred_hidden) (state_h next_state)))
        (take pred_hidden (drop (i * pred_hidden) (state_c next_state))) = Ok (h', c')"
      "length h' = pred_hidden" "length c' = pred_hidden"
      using P hi state
      by (elim lstm_step_returns [rotated -1]) (simp_all add: s pred_hidden_def max64_def)
    then show ?thesis using P hi state
      by (simp add: prednet_layer_def s i slice_def copy_into_def Let_def)
  qed
  have n: "?n \<le> max64" "4 * ?n \<le> 2 ^ 63 - 1"
    using shaped by (simp_all add: prednet_shaped_def pred_hidden_def max64_def)
  have "unat token * pred_hidden + pred_hidden \<le> vocab_size * pred_hidden"
    using row_in_range [OF token] .
  moreover have "\<exists>t. try_fold (prednet_layer expf tanhf st)
      (take pred_hidden (drop (unat token * pred_hidden) (embedding w)),
       \<lparr>state_h = replicate ?n 0, state_c = replicate ?n 0\<rparr>) (enumerate 0 (pn_layers w)) = Ok t \<and> ?P t"
    using calculation shaped by (intro try_fold_returns layer) (simp_all add: prednet_shaped_def)
  ultimately have "\<exists>t. prednet_step expf tanhf token w st = Ok t \<and> ?P t"
    using shaped token state n
    by (auto simp: prednet_step_def prednet_shaped_def state_zeros_def zeroed_vec_def times_u64_def
        slice_def Let_def)
  then show thesis using that by auto
qed

definition config_ok :: "tdt_config \<Rightarrow> usize \<Rightarrow> bool" where
  "config_ok config frames \<longleftrightarrow>
     0 < tc_max_tokens_per_step config \<and> unat (tc_blank config) < vocab_size \<and>
     length (tc_durations config) = num_durations \<and>
     (\<forall>d \<in> set (tc_durations config). frames + d \<le> max64)"

definition decoder_ok :: "pred_net_weights \<Rightarrow> tdt_state \<Rightarrow> bool" where
  "decoder_ok prednet s \<longleftrightarrow>
     length (state_h (ls_state s)) = length (pn_layers prednet) * pred_hidden \<and>
     length (state_c (ls_state s)) = length (pn_layers prednet) * pred_hidden \<and>
     length (ls_logits s) = joint_width \<and>
     (\<forall>token \<in> set (td_tokens (ls_out s)). unat token < vocab_size)"

text \<open>The decoder as a client of the backend's linear layer.\<close>

context linear_backend
begin

lemma project_encoder_returns:
  assumes "joint_shaped w" and "length encoder = frames * enc_hidden" "4 * length encoder \<le> 2 ^ 63 - 1"
  obtains enc where "project_encoder lin encoder frames w = Ok enc" "length enc = frames * joint_hidden"
proof -
  have small: "frames * 1024 \<le> max64" "frames * 640 \<le> max64" "4 * (frames * 640) \<le> 2 ^ 63 - 1"
    using assms(2,3) by (simp_all add: enc_hidden_def max64_def)
  obtain enc where "lin encoder frames enc_hidden (enc_proj_w w) joint_hidden (Some (enc_proj_b w))
      (replicate (frames * joint_hidden) 0) = Ok enc" "length enc = frames * joint_hidden"
    using assms small
    by (elim obtains_output [rotated -1]) (simp_all add: joint_shaped_def parakeet_sizes max64_def)
  then show thesis using that assms(2) small
    by (simp add: project_encoder_def times_u64_def zeroed_vec_def parakeet_sizes)
qed

lemma joint_step_returns:
  assumes "joint_shaped w" and "length row = joint_hidden" "length pred = pred_hidden"
    "length logits = joint_width"
  obtains logits' where "joint_step lin row pred w logits = Ok logits'" "length logits' = joint_width"
proof -
  obtain hidden where hidden: "lin pred 1 pred_hidden (pred_proj_w w) joint_hidden (Some (pred_proj_b w))
      (replicate joint_hidden 0) = Ok hidden" "length hidden = 1 * joint_hidden"
    using assms by (elim obtains_output [rotated -1]) (simp_all add: joint_shaped_def parakeet_sizes max64_def)
  let ?hidden = "relu_inplace (map2 f32_add hidden row)"
  obtain logits' where "lin ?hidden 1 joint_hidden (head_w w) joint_width (Some (head_b w)) logits = Ok logits'"
    "length logits' = 1 * joint_width"
    using assms hidden(2)
    by (elim obtains_output [rotated -1]) (simp_all add: joint_shaped_def parakeet_sizes max64_def)
  then show thesis using that assms hidden
    by (simp add: joint_step_def zeroed_vec_def joint_hidden_def Let_def)
qed

lemma tdt_step_returns:
  assumes shaped: "prednet_shaped prednet" "joint_shaped joint" and config: "config_ok config frames"
    and enc: "length enc = frames * joint_hidden" and ok: "decoder_ok prednet s" and t: "ls_t s < frames"
  shows "\<exists>s'. tdt_step_at lin expf tanhf enc prednet joint config s = Ok s' \<and> decoder_ok prednet s'"
proof -
  define prev where "prev = (if td_tokens (ls_out s) = [] then tc_blank config else last (td_tokens (ls_out s)))"
  have prev: "unat prev < vocab_size"
    using ok config by (auto simp: prev_def decoder_ok_def config_ok_def)
  have st: "length (state_h (ls_state s)) = length (pn_layers prednet) * pred_hidden"
    "length (state_c (ls_state s)) = length (pn_layers prednet) * pred_hidden"
    and width: "length (ls_logits s) = joint_width"
    using ok by (auto simp: decoder_ok_def)
  obtain pred_out next_state where
    pred: "prednet_step expf tanhf prev prednet (ls_state s) = Ok (pred_out, next_state)"
      "length pred_out = pred_hidden"
    and next_state: "length (state_h next_state) = length (pn_layers prednet) * pred_hidden"
      "length (state_c next_state) = length (pn_layers prednet) * pred_hidden"
    by (rule prednet_step_returns [OF shaped(1) prev st])
  let ?row = "take joint_hidden (drop (ls_t s * joint_hidden) enc)"
  have row: "(slice enc (ls_t s * joint_hidden) ((ls_t s + 1) * joint_hidden) :: f32 list res) = Ok ?row"
      "length ?row = joint_hidden"
    using row_in_range [OF t, of joint_hidden] enc by (simp_all add: slice_def)
  obtain logits where logits: "joint_step lin ?row pred_out joint (ls_logits s) = Ok logits"
      "length logits = joint_width"
    by (rule joint_step_returns [OF shaped(2) row(2) pred(2) width])
  define i where "i = argmax (drop vocab_size logits)"
  have "i < num_durations"
    using argmax_less [of "drop vocab_size logits"] logits(2) by (simp add: i_def joint_width_def num_durations_def)
  then have i: "i < length (tc_durations config)" "tc_durations config ! i \<in> set (tc_durations config)"
    using config by (simp_all add: config_ok_def)
  have "frames + tc_durations config ! i \<le> max64" using config i(2) by (simp add: config_ok_def)
  then have advance: "ls_t s + tc_durations config ! i \<le> max64" using t by linarith
  have "\<exists>s'. tdt_step_at lin expf tanhf enc prednet joint config s = Ok s' \<and>
      ls_logits s' = logits \<and> (ls_state s' = next_state \<or> ls_state s' = ls_state s)"
    using pred(1) row(1) logits(1) i advance unfolding prev_def i_def
    by (cases "td_tokens (ls_out s) = []";
        cases "word_of_nat (argmax (take vocab_size logits)) = tc_blank config";
        cases "0 < tc_durations config ! argmax (drop vocab_size logits)")
      (simp_all add: tdt_step_at_def Let_def plus_u64_def)
  then obtain s' where s': "tdt_step_at lin expf tanhf enc prednet joint config s = Ok s'"
    "ls_logits s' = logits" "ls_state s' = next_state \<or> ls_state s' = ls_state s" by blast
  have tokens: "\<forall>token \<in> set (td_tokens (ls_out s')). unat token < vocab_size"
    using s'(1) by (rule tdt_step_cases) (use ok in \<open>auto simp: decoder_ok_def\<close>)
  have "decoder_ok prednet s'"
    using s'(2,3) next_state ok logits(2) tokens unfolding decoder_ok_def by (elim disjE) simp_all
  with s'(1) show ?thesis by blast
qed

lemma greedy_decode_result:
  assumes shaped: "prednet_shaped prednet" "joint_shaped joint" and config: "config_ok config frames"
    and encoder: "length encoder = frames * enc_hidden" "4 * length encoder \<le> 2 ^ 63 - 1"
  shows "is_ok (greedy_decode lin expf tanhf encoder frames prednet joint config) \<or>
    greedy_decode lin expf tanhf encoder frames prednet joint config = step_limit_error \<and>
    tc_max_steps config < frames * tc_max_tokens_per_step config"
proof -
  obtain enc where enc: "project_encoder lin encoder frames joint = Ok enc" "length enc = frames * joint_hidden"
    using project_encoder_returns [OF shaped(2) encoder] .
  let ?n = "length (pn_layers prednet) * pred_hidden" and ?max = "tc_max_tokens_per_step config"
  have n: "?n \<le> max64" "4 * ?n \<le> 2 ^ 63 - 1"
    using shaped(1) by (simp_all add: prednet_shaped_def pred_hidden_def max64_def)
  let ?s = "loop_start \<lparr>state_h = replicate ?n 0, state_c = replicate ?n 0\<rparr> (replicate joint_width 0)"
  let ?I = "\<lambda>s. decoder_ok prednet s \<and> transcript_ok config frames s"
  have start: "?I ?s" using config by (simp add: decoder_ok_def transcript_ok_def loop_start_def config_ok_def)
  have step: "\<exists>s'. tdt_step_at lin expf tanhf enc prednet joint config s = Ok s' \<and> ?I s'"
    if "?I s" "ls_t s < frames" for s
    using tdt_step_returns [OF shaped config enc(2) _ that(2)] transcript_ok_step [OF _ that(2)] that(1)
    by blast
  have "tc_max_steps config < frames * ?max"
    if "?I s" "ls_t s < frames" "tc_max_steps config \<le> length (td_steps (ls_out s))" for s
  proof -
    have "length (td_steps (ls_out s)) < ?max * ls_t s + ?max"
      using that(1,2) by (simp add: transcript_ok_def Let_def min_def)
    also have "\<dots> \<le> ?max * frames" using mult_le_mono2 [of "Suc (ls_t s)" frames ?max] that(2) by simp
    finally show ?thesis using that(3) by (simp add: mult.commute)
  qed
  moreover have "greedy_decode lin expf tanhf encoder frames prednet joint config =
      tdt_loop lin expf tanhf enc frames prednet joint config ?s"
    using config n enc(1)
    by (simp add: greedy_decode_def config_ok_def state_zeros_def zeroed_vec_def times_u64_def
        joint_width_def vocab_size_def num_durations_def)
  moreover have "is_ok (tdt_loop lin expf tanhf enc frames prednet joint config ?s) \<or>
      tdt_loop lin expf tanhf enc frames prednet joint config ?s = step_limit_error \<and>
      (\<exists>s. ?I s \<and> ls_t s < frames \<and> tc_max_steps config \<le> length (td_steps (ls_out s)))"
    using start by (rule tdt_loop_result) (rule step)
  ultimately show ?thesis by auto
qed

text \<open>A blank id outside the vocabulary fails in the first prediction step, if there is one.\<close>

lemma greedy_decode_start:
  assumes "prednet_shaped prednet" "joint_shaped joint" and "0 < tc_max_tokens_per_step config"
    and "length encoder = frames * enc_hidden" "4 * length encoder \<le> 2 ^ 63 - 1"
  obtains enc state logits where "greedy_decode lin expf tanhf encoder frames prednet joint config =
    tdt_loop lin expf tanhf enc frames prednet joint config (loop_start state logits)"
proof -
  obtain enc where enc: "project_encoder lin encoder frames joint = Ok enc"
    using project_encoder_returns [OF assms(2,4,5)] .
  let ?n = "length (pn_layers prednet) * pred_hidden"
  have "?n \<le> max64" "4 * ?n \<le> 2 ^ 63 - 1"
    using assms(1) by (simp_all add: prednet_shaped_def pred_hidden_def max64_def)
  then have "greedy_decode lin expf tanhf encoder frames prednet joint config =
      tdt_loop lin expf tanhf enc frames prednet joint config
        (loop_start \<lparr>state_h = replicate ?n 0, state_c = replicate ?n 0\<rparr> (replicate joint_width 0))"
    using assms(3) enc
    by (simp add: greedy_decode_def state_zeros_def zeroed_vec_def times_u64_def
        joint_width_def vocab_size_def num_durations_def)
  then show thesis by (rule that)
qed

lemma blank_outside_vocabulary:
  assumes "prednet_shaped prednet" and "vocab_size \<le> unat (tc_blank config)" and "0 < frames"
    and "0 < tc_max_steps config"
  shows "\<exists>e. tdt_loop lin expf tanhf enc frames prednet joint config (loop_start state logits) = Err e"
proof -
  have "\<exists>e. prednet_step expf tanhf (tc_blank config) prednet state = Err e"
    using assms(1,2) by (simp add: prednet_step_def prednet_shaped_def err_defs)
  then show ?thesis
    using assms(3,4) by (subst tdt_loop.simps) (auto simp: loop_start_def tdt_step_at_def Let_def)
qed

lemma greedy_decode_within_budget:
  assumes "prednet_shaped prednet" "joint_shaped joint" and "length (tc_durations config) = num_durations"
    and "list_all (\<lambda>d. frames + d \<le> max64) (tc_durations config)"
    and "length encoder = frames * enc_hidden" "4 * length encoder \<le> 2 ^ 63 - 1"
    and "frames * tc_max_tokens_per_step config \<le> tc_max_steps config"
  shows "greedy_decode lin expf tanhf encoder frames prednet joint config \<noteq> Panic \<and>
    (is_ok (greedy_decode lin expf tanhf encoder frames prednet joint config) \<longleftrightarrow>
      0 < tc_max_tokens_per_step config \<and> (frames = 0 \<or> unat (tc_blank config) < vocab_size))"
proof (cases "0 < tc_max_tokens_per_step config")
  case tokens: True
  obtain enc state logits where start: "greedy_decode lin expf tanhf encoder frames prednet joint config =
      tdt_loop lin expf tanhf enc frames prednet joint config (loop_start state logits)"
    using greedy_decode_start [OF assms(1,2) tokens assms(5,6)] .
  consider (no_frames) "frames = 0" | (coherent) "0 < frames" "unat (tc_blank config) < vocab_size"
    | (blank) "0 < frames" "vocab_size \<le> unat (tc_blank config)" by linarith
  then show ?thesis
  proof cases
    case no_frames
    with tokens show ?thesis unfolding start by (subst (1 2) tdt_loop.simps) (simp add: loop_start_def)
  next
    case coherent
    with tokens assms(3,4) have "config_ok config frames" by (simp add: config_ok_def list_all_iff)
    from greedy_decode_result [OF assms(1,2) this assms(5,6)] assms(7)
    have "is_ok (greedy_decode lin expf tanhf encoder frames prednet joint config)" by (meson not_less)
    with tokens coherent show ?thesis by (auto simp: is_ok_iff)
  next
    case blank
    from tokens blank(1) have "0 < frames * tc_max_tokens_per_step config" by simp
    with assms(7) have "0 < tc_max_steps config" by linarith
    from blank_outside_vocabulary [OF assms(1) blank(2,1) this] obtain e where
      "tdt_loop lin expf tanhf enc frames prednet joint config (loop_start state logits) = Err e" by blast
    with blank show ?thesis unfolding start by (simp add: is_ok_iff)
  qed
qed (simp add: greedy_decode_def err_defs is_ok_iff)

end

section \<open>Returning and refusing\<close>

lemma tdt_steps_of_start:
  assumes "tdt_loop lin expf tanhf enc frames prednet joint config (loop_start state logits) = Ok out"
    and "\<forall>d \<in> set (tc_durations config). d \<le> D" and "0 < D"
  shows "frames \<le> D * tc_max_steps config"
proof -
  let ?I = "\<lambda>s :: tdt_state. ls_t s \<le> D * length (td_steps (ls_out s)) \<and>
      length (td_steps (ls_out s)) \<le> tc_max_steps config"
  have start: "?I (loop_start state logits)" by (simp add: loop_start_def)
  have "\<exists>s. ?I s \<and> frames \<le> ls_t s \<and> out = ls_out s"
  proof (rule tdt_loop_invariant [where I = ?I, OF assms(1) start])
    fix s s'
    assume I: "?I s" and room: "length (td_steps (ls_out s)) < tc_max_steps config"
      and step: "tdt_step_at lin expf tanhf enc prednet joint config s = Ok s'"
    show "?I s'"
      using tdt_time_step [OF assms(2,3) _ step] tdt_step_records [OF step] I room by simp
  qed
  then obtain s where "?I s" "frames \<le> ls_t s" by blast
  then have "frames \<le> D * length (td_steps (ls_out s))" by linarith
  also have "\<dots> \<le> D * tc_max_steps config" using \<open>?I s\<close> by (intro mult_le_mono2) simp
  finally show ?thesis .
qed

text \<open>
  C35. With weights of the right shapes, the code's array of five durations and inputs within the
  step budget the decoder never panics,
  and it gives a transcript exactly when its configuration is coherent: on every backend, whatever
  the values of the weights, for every encoder output that fits into memory, whose frames times
  \<open>max_tokens_per_step\<close> stay within \<open>max_steps\<close> and whose frames plus any configured duration stay
  within \<open>usize\<close>. A configuration that allows no token per frame, or whose blank id is outside the
  vocabulary when there is a frame to decode, is answered by an error.
\<close>

theorem tdt_decode_returns:
  assumes "prednet_shaped prednet" "joint_shaped joint" and "length (tc_durations config) = num_durations"
    and "list_all (\<lambda>d. frames + d \<le> max64) (tc_durations config)"
    and "length encoder = frames * enc_hidden" "4 * length encoder \<le> 2 ^ 63 - 1"
    and "frames * tc_max_tokens_per_step config \<le> tc_max_steps config"
  shows "greedy_decode (cpu_linear_out_by_in self) expf tanhf encoder frames prednet joint config \<noteq> Panic \<and>
    (is_ok (greedy_decode (cpu_linear_out_by_in self) expf tanhf encoder frames prednet joint config) \<longleftrightarrow>
      0 < tc_max_tokens_per_step config \<and> (frames = 0 \<or> unat (tc_blank config) < vocab_size))"
  using assms by (rule cpu.greedy_decode_within_budget)

text \<open>
  C36. Long inputs are refused whatever the weights say: with the default configuration no
  encoder output of more than 400000 frames yields a transcript. With weights of the right
  shapes the answer is then the step limit, whose message blames a duration head that predicts
  0, even when the durations never are.
\<close>

theorem tdt_long_inputs_refused:
  assumes "400000 < frames" and "prednet_shaped prednet" "joint_shaped joint"
    and "length encoder = frames * enc_hidden" "4 * length encoder \<le> 2 ^ 63 - 1"
  shows "greedy_decode (cpu_linear_out_by_in self) expf tanhf encoder frames prednet joint default_tdt_config =
    step_limit_error"
proof -
  have "config_ok default_tdt_config frames"
    using assms(4,5)
    by (simp add: config_ok_def default_tdt_config_def durations_def num_durations_def blank_id_def
        vocab_size_def max_tokens_per_step_def enc_hidden_def max64_def)
  from cpu.greedy_decode_result [OF assms(2,3) this assms(4,5)]
  show ?thesis
  proof
    assume "is_ok (greedy_decode (cpu_linear_out_by_in self) expf tanhf encoder frames prednet joint
      default_tdt_config)"
    then obtain out where out: "greedy_decode (cpu_linear_out_by_in self) expf tanhf encoder frames
        prednet joint default_tdt_config = Ok out"
      by (auto simp: is_ok_iff)
    then obtain enc state logits where loop: "tdt_loop (cpu_linear_out_by_in self) expf tanhf enc frames
        prednet joint default_tdt_config (loop_start state logits) = Ok out"
      using greedy_decode_OkD by blast
    from tdt_steps_of_start [OF loop, of 4] have "frames \<le> 4 * 100000"
      by (simp add: default_tdt_config_def durations_def)
    with assms(1) show ?thesis by simp
  qed simp
qed

section \<open>An example\<close>

definition example_prednet :: pred_net_weights where
  "example_prednet = \<lparr>embedding = replicate (vocab_size * pred_hidden) 0,
     pn_layers = replicate pred_layers
       \<lparr>weight_ih = replicate (4 * pred_hidden * pred_hidden) 0,
        weight_hh = replicate (4 * pred_hidden * pred_hidden) 0,
        bias_ih = replicate (4 * pred_hidden) 0, bias_hh = replicate (4 * pred_hidden) 0\<rparr>\<rparr>"

definition example_joint :: joint_weights where
  "example_joint = \<lparr>enc_proj_w = replicate (joint_hidden * enc_hidden) 0, enc_proj_b = replicate joint_hidden 0,
     pred_proj_w = replicate (joint_hidden * pred_hidden) 0, pred_proj_b = replicate joint_hidden 0,
     head_w = replicate (joint_width * joint_hidden) 0, head_b = replicate joint_width 0\<rparr>"

lemma example_shaped: "prednet_shaped example_prednet" "joint_shaped example_joint"
  by (simp_all add: prednet_shaped_def example_prednet_def joint_shaped_def example_joint_def pred_layers_def)

lemma example_config: "frames \<le> 500000 \<Longrightarrow> config_ok default_tdt_config frames"
  by (simp add: config_ok_def default_tdt_config_def durations_def num_durations_def blank_id_def
      vocab_size_def max_tokens_per_step_def max64_def)

theorem tdt_decode_budget_witness:
  "\<exists>out. greedy_decode (cpu_linear_out_by_in cpu_scalar) id id (replicate (25 * enc_hidden) 0) 25
      example_prednet example_joint default_tdt_config = Ok out \<and>
    length (td_steps out) \<le> 25 * tc_max_tokens_per_step default_tdt_config"
proof -
  have "is_ok (greedy_decode (cpu_linear_out_by_in cpu_scalar) id id (replicate (25 * enc_hidden) 0) 25
      example_prednet example_joint default_tdt_config)"
    using cpu.greedy_decode_result [OF example_shaped example_config, of 25 "replicate (25 * enc_hidden) 0"
        cpu_scalar id id]
    by (simp add: enc_hidden_def default_tdt_config_def max_tokens_per_step_def)
  then obtain out where out: "greedy_decode (cpu_linear_out_by_in cpu_scalar) id id
      (replicate (25 * enc_hidden) 0) 25 example_prednet example_joint default_tdt_config = Ok out"
    by (auto simp: is_ok_iff)
  with tdt_decode_budget [OF out] show ?thesis by blast
qed

theorem tdt_decode_returns_witness:
  "is_ok (greedy_decode (cpu_linear_out_by_in cpu_scalar) id id (replicate (25 * enc_hidden) 0) 25
    example_prednet example_joint default_tdt_config)"
proof -
  have "list_all (\<lambda>d. 25 + d \<le> max64) (tc_durations default_tdt_config)"
    by (simp add: default_tdt_config_def durations_def max64_def)
  from tdt_decode_returns [OF example_shaped _ this, of "replicate (25 * enc_hidden) 0" cpu_scalar id id]
  show ?thesis
    by (simp add: enc_hidden_def default_tdt_config_def max_tokens_per_step_def durations_def
        num_durations_def blank_id_def vocab_size_def)
qed

theorem tdt_long_inputs_refused_witness:
  "greedy_decode (cpu_linear_out_by_in cpu_scalar) id id (replicate (400001 * enc_hidden) 0) 400001
    example_prednet example_joint default_tdt_config = step_limit_error"
  by (rule tdt_long_inputs_refused [OF _ example_shaped]) (simp_all add: enc_hidden_def)

end
