(* ===== verification/Conv_Kernels.thy ===== *)
theory Conv_Kernels imports Linear_Kernels
begin

text \<open>
  The convolutions of the transducer's frontend (src/crates/kernels/src/conv.rs): the dense one,
  which copies patches of the image into a matrix and calls the linear layer, and the depthwise
  ones, which loop over their cells. The theorem shows that the dense one computes the direct
  convolution of the zero-padded image, cell by cell.
\<close>

section \<open>The kernels\<close>

text \<open>A product of extents, multiplied from the left; it panics where it overflows.\<close>

definition extent :: "usize list \<Rightarrow> usize res" where
  "extent dims = or_panic (try_product 1 dims)"

definition conv_out_len :: "usize \<Rightarrow> usize \<Rightarrow> usize \<Rightarrow> usize \<Rightarrow> usize res" where
  "conv_out_len input kernel_len stride padding =
     and_then (times_u64 2 padding) (\<lambda>p.
     and_then (plus_u64 input p) (\<lambda>l.
     if stride = 0 then Panic else plus_u64 ((l - kernel_len) div stride) 1))"

text \<open>
  The coordinates are those of buffers, far below the range of \<open>isize\<close>, so the casts are exact.
\<close>

definition im2col ::
    "f32 list \<Rightarrow> usize \<Rightarrow> usize \<Rightarrow> usize \<Rightarrow> usize \<times> usize \<Rightarrow> usize \<times> usize \<Rightarrow> usize \<times> usize \<Rightarrow> usize \<Rightarrow> usize \<Rightarrow>
      f32 list \<Rightarrow> f32 list" where
  "im2col input in_channels height width = (\<lambda>(kh, kw) (sh, sw) (ph, pw) oh ow cols.
     let patch = in_channels * kh * kw in
     foldl (\<lambda>cols oy. foldl (\<lambda>cols ox.
       let dst = (oy * ow + ox) * patch in
       foldl (\<lambda>cols ic. foldl (\<lambda>cols ky.
         let iy = int (oy * sh + ky) - int ph in
         if iy < 0 \<or> int height \<le> iy then cols
         else
           foldl (\<lambda>cols kx.
             let ix = int (ox * sw + kx) - int pw in
             if ix < 0 \<or> int width \<le> ix then cols
             else cols[dst + (ic * kh + ky) * kw + kx := input ! ((ic * height + nat iy) * width + nat ix)])
           cols [0..<kw]) cols [0..<kh]) cols [0..<in_channels]) cols [0..<ow]) cols [0..<oh])"

definition conv2d ::
    "f32 list \<Rightarrow> usize \<Rightarrow> usize \<Rightarrow> usize \<Rightarrow> f32 list \<Rightarrow> f32 list option \<Rightarrow> usize \<Rightarrow> usize \<times> usize \<Rightarrow>
      usize \<times> usize \<Rightarrow> usize \<times> usize \<Rightarrow> f32 list \<Rightarrow> f32 list res" where
  "conv2d input in_channels height width weight bias out_channels kernel_len stride padding out =
     (let (kh, kw) = kernel_len; (sh, sw) = stride; (ph, pw) = padding in
      if kh = 0 \<or> kw = 0 \<or> sh = 0 \<or> sw = 0 then kernel_err ''conv2d kernel and stride must be non-zero''
      else
        and_then (extent [in_channels, height, width]) (\<lambda>input_len.
        if length input \<noteq> input_len
        then kernel_err ''conv2d input.len()={} does not match in_channels*height*width={}''
        else
          and_then (extent [in_channels, kh, kw]) (\<lambda>patch.
          and_then (extent [out_channels, patch]) (\<lambda>weight_len.
          if length weight \<noteq> weight_len
          then kernel_err ''conv2d weight.len()={} does not match out_channels*in_channels*kh*kw={}''
          else
            and_then (conv_out_len height kh sh ph) (\<lambda>oh.
            and_then (conv_out_len width kw sw pw) (\<lambda>ow.
            and_then (extent [out_channels, oh, ow]) (\<lambda>out_len.
            if length out \<noteq> out_len
            then kernel_err ''conv2d out.len()={} does not match out_channels*out_h*out_w={}''
            else
              and_then (extent [oh, ow]) (\<lambda>cells.
              and_then (extent [cells, patch]) (\<lambda>cols_len.
              and_then (zeroed_vec cols_len) (\<lambda>cols.
              let cols = im2col input in_channels height width (kh, kw) (sh, sw) (ph, pw) oh ow cols in
              and_then (extent [cells, out_channels]) (\<lambda>cell_major_len.
              and_then (zeroed_vec cell_major_len) (\<lambda>cell_major.
              and_then (linear_out_by_in cols cells patch weight out_channels bias cell_major) (\<lambda>cell_major.
              Ok (foldl (\<lambda>out cell. foldl (\<lambda>out oc.
                    out[oc * cells + cell := cell_major ! (cell * out_channels + oc)]) out [0..<out_channels])
                  out [0..<cells]))))))))))))))"

definition check_channel_bias :: "string \<Rightarrow> f32 list option \<Rightarrow> usize \<Rightarrow> unit res" where
  "check_channel_bias message bias channels =
     (case bias of
        None \<Rightarrow> Ok ()
      | Some b \<Rightarrow> if length b \<noteq> channels then kernel_err message else Ok ())"

text \<open>One output of a depthwise convolution: terms outside the image are left out.\<close>

definition depthwise_cell ::
    "f32 list \<Rightarrow> usize \<Rightarrow> usize \<Rightarrow> f32 list \<Rightarrow> f32 list option \<Rightarrow> usize \<times> usize \<Rightarrow> usize \<times> usize \<Rightarrow>
      usize \<times> usize \<Rightarrow> nat \<Rightarrow> nat \<Rightarrow> nat \<Rightarrow> f32" where
  "depthwise_cell input height width weight bias = (\<lambda>(kh, kw) (sh, sw) (ph, pw) c oy ox.
     foldl (\<lambda>acc ky.
       let iy = int (oy * sh + ky) - int ph in
       if iy < 0 \<or> int height \<le> iy then acc
       else
         foldl (\<lambda>acc kx.
           let ix = int (ox * sw + kx) - int pw in
           if ix < 0 \<or> int width \<le> ix then acc
           else f32_add acc (f32_mul (input ! (c * height * width + nat iy * width + nat ix))
             (weight ! (c * kh * kw + ky * kw + kx)))) acc [0..<kw]) (bias_at bias c) [0..<kh])"

definition depthwise_conv2d ::
    "f32 list \<Rightarrow> usize \<Rightarrow> usize \<Rightarrow> usize \<Rightarrow> f32 list \<Rightarrow> f32 list option \<Rightarrow> usize \<times> usize \<Rightarrow>
      usize \<times> usize \<Rightarrow> usize \<times> usize \<Rightarrow> f32 list \<Rightarrow> f32 list res" where
  "depthwise_conv2d input channels height width weight bias kernel_len stride padding out =
     (let (kh, kw) = kernel_len; (sh, sw) = stride; (ph, pw) = padding in
      if kh = 0 \<or> kw = 0 \<or> sh = 0 \<or> sw = 0
      then kernel_err ''depthwise_conv2d kernel and stride must be non-zero''
      else
        and_then (extent [channels, height, width]) (\<lambda>input_len.
        if length input \<noteq> input_len
        then kernel_err ''depthwise_conv2d input.len()={} does not match channels*height*width={}''
        else
          and_then (extent [channels, kh, kw]) (\<lambda>weight_len.
          if length weight \<noteq> weight_len
          then kernel_err ''depthwise_conv2d weight.len()={} does not match channels*kh*kw={}''
          else
            and_then (check_channel_bias ''depthwise_conv2d bias.len()={} does not match channels={channels}''
              bias channels) (\<lambda>_.
            and_then (conv_out_len height kh sh ph) (\<lambda>oh.
            and_then (conv_out_len width kw sw pw) (\<lambda>ow.
            and_then (extent [channels, oh, ow]) (\<lambda>out_len.
            if length out \<noteq> out_len
            then kernel_err ''depthwise_conv2d out.len()={} does not match channels*out_h*out_w={}''
            else
              Ok (foldl (\<lambda>out c. foldl (\<lambda>out oy. foldl (\<lambda>out ox.
                    out[c * oh * ow + oy * ow + ox :=
                      depthwise_cell input height width weight bias (kh, kw) (sh, sw) (ph, pw) c oy ox])
                  out [0..<ow]) out [0..<oh]) out [0..<channels]))))))))"

definition depthwise_conv1d ::
    "f32 list \<Rightarrow> usize \<Rightarrow> usize \<Rightarrow> f32 list \<Rightarrow> f32 list option \<Rightarrow> usize \<Rightarrow> usize \<Rightarrow> usize \<Rightarrow>
      f32 list \<Rightarrow> f32 list res" where
  "depthwise_conv1d input channels time weight bias kernel_len stride padding out =
     (if kernel_len = 0 \<or> stride = 0 then kernel_err ''depthwise_conv1d kernel and stride must be non-zero''
      else
        and_then (extent [channels, time]) (\<lambda>input_len.
        if length input \<noteq> input_len
        then kernel_err ''depthwise_conv1d input.len()={} does not match channels*time={}''
        else
          and_then (extent [channels, kernel_len]) (\<lambda>weight_len.
          if length weight \<noteq> weight_len
          then kernel_err ''depthwise_conv1d weight.len()={} does not match channels*kernel={}''
          else
            and_then (conv_out_len time kernel_len stride padding) (\<lambda>ot.
            and_then (extent [channels, ot]) (\<lambda>out_len.
            if length out \<noteq> out_len
            then kernel_err ''depthwise_conv1d out.len()={} does not match channels*out_time={}''
            else
              try_fold (\<lambda>out c. try_fold (\<lambda>out ou.
                  and_then
                    (case bias of None \<Rightarrow> Ok 0 | Some b \<Rightarrow> or_panic (if c < length b then Some (b ! c) else None))
                    (\<lambda>start.
                  let acc = foldl (\<lambda>acc k.
                        let i = int (ou * stride + k) - int padding in
                        if i < 0 \<or> int time \<le> i then acc
                        else f32_add acc (f32_mul (input ! (c * time + nat i)) (weight ! (c * kernel_len + k))))
                      start [0..<kernel_len] in
                  Ok (out[c * ot + ou := acc]))) out [0..<ot]) out [0..<channels])))))"

section \<open>Patches of the padded image\<close>

definition conv_pixel :: "f32 list \<Rightarrow> usize \<Rightarrow> usize \<Rightarrow> nat \<Rightarrow> int \<Rightarrow> int \<Rightarrow> f32" where
  "conv_pixel input height width ic iy ix =
     (if 0 \<le> iy \<and> iy < int height \<and> 0 \<le> ix \<and> ix < int width
      then input ! ((ic * height + nat iy) * width + nat ix) else 0)"

text \<open>Position \<open>p\<close> of the patch of the cell \<open>(oy, ox)\<close>.\<close>

definition patch_pixel ::
    "f32 list \<Rightarrow> usize \<Rightarrow> usize \<Rightarrow> usize \<times> usize \<Rightarrow> usize \<times> usize \<Rightarrow> usize \<times> usize \<Rightarrow> nat \<Rightarrow> nat \<Rightarrow> nat \<Rightarrow> f32" where
  "patch_pixel input height width = (\<lambda>(kh, kw) (sh, sw) (ph, pw) oy ox p.
     conv_pixel input height width (p div kw div kh) (int (oy * sh + p div kw mod kh) - int ph)
       (int (ox * sw + p mod kw) - int pw))"

lemma row_major_less: "a < m \<Longrightarrow> b < n \<Longrightarrow> a * n + b < m * (n :: nat)"
  using row_in_range [of a m n] by linarith

lemma row_major_div: "b < n \<Longrightarrow> (a * n + b) div n = a" "b < n \<Longrightarrow> (a * n + b) mod n = (b :: nat)"
  by simp_all

lemma im2col_pixels:
  assumes len: "length cols = oh * ow * (in_channels * kh * kw)" and zero: "\<And>i. i < length cols \<Longrightarrow> cols ! i = 0"
  shows "im2col input in_channels height width (kh, kw) (sh, sw) (ph, pw) oh ow cols =
    map (\<lambda>i. let cell = i div (in_channels * kh * kw); p = i mod (in_channels * kh * kw) in
      patch_pixel input height width (kh, kw) (sh, sw) (ph, pw) (cell div ow) (cell mod ow) p)
      [0..<oh * ow * (in_channels * kh * kw)]"
proof -
  let ?patch = "in_channels * kh * kw"
  let ?iy = "\<lambda>oy ky. int (oy * sh + ky) - int ph" and ?ix = "\<lambda>ox kx. int (ox * sw + kx) - int pw"
  let ?at = "\<lambda>oy ox ic ky kx. (oy * ow + ox) * ?patch + (ic * kh + ky) * kw + kx"
  define g where "g i = patch_pixel input height width (kh, kw) (sh, sw) (ph, pw)
      (i div ?patch div ow) (i div ?patch mod ow) (i mod ?patch)" for i
  have g: "g (?at oy ox ic ky kx) = conv_pixel input height width ic (?iy oy ky) (?ix ox kx)"
    if "ox < ow" "ic < in_channels" "ky < kh" "kx < kw" for oy ox ic ky kx
  proof -
    have "(ic * kh + ky) * kw + kx < ?patch" using that by (intro row_major_less)
    then have "?at oy ox ic ky kx div ?patch = oy * ow + ox" "?at oy ox ic ky kx mod ?patch = (ic * kh + ky) * kw + kx"
      using row_major_div [of "(ic * kh + ky) * kw + kx" ?patch "oy * ow + ox"] by (simp_all only: add.assoc)
    then show ?thesis using that by (simp add: g_def patch_pixel_def row_major_div)
  qed
  let ?X = "\<lambda>oy ox ic ky. \<Union>kx \<in> set [0..<kw].
      if ?ix ox kx < 0 \<or> int width \<le> ?ix ox kx then {} else {?at oy ox ic ky kx}"
  let ?Y = "\<lambda>oy ox ic. \<Union>ky \<in> set [0..<kh].
      if ?iy oy ky < 0 \<or> int height \<le> ?iy oy ky then {} else ?X oy ox ic ky"
  let ?S = "\<Union>oy \<in> set [0..<oh]. \<Union>ox \<in> set [0..<ow]. \<Union>ic \<in> set [0..<in_channels]. ?Y oy ox ic"
  have "fills g ?S cols (im2col input in_channels height width (kh, kw) (sh, sw) (ph, pw) oh ow cols)"
    unfolding im2col_def prod.case Let_def
  proof (intro fills_foldl)
    fix cols oy ox ic ky
    assume loops: "ox \<in> set [0..<ow]" "ic \<in> set [0..<in_channels]" "ky \<in> set [0..<kh]"
    have written: "fills g (if ?ix ox kx < 0 \<or> int width \<le> ?ix ox kx then {} else {?at oy ox ic ky kx}) cols
        (if ?ix ox kx < 0 \<or> int width \<le> ?ix ox kx then cols
         else cols[?at oy ox ic ky kx :=
           input ! ((ic * height + nat (?iy oy ky)) * width + nat (?ix ox kx))])"
      if "kx \<in> set [0..<kw]" "\<not> (?iy oy ky < 0 \<or> int height \<le> ?iy oy ky)" for cols kx
    proof (cases "?ix ox kx < 0 \<or> int width \<le> ?ix ox kx")
      case False
      have v: "input ! ((ic * height + nat (?iy oy ky)) * width + nat (?ix ox kx)) = g (?at oy ox ic ky kx)"
        using g [of ox ic ky kx oy] loops that False by (simp add: conv_pixel_def)
      show ?thesis unfolding if_not_P [OF False]
        by (rule fills_write [OF fills_nothing]) (rule v)
    qed simp
    show "fills g (if ?iy oy ky < 0 \<or> int height \<le> ?iy oy ky then {} else ?X oy ox ic ky) cols
        (if ?iy oy ky < 0 \<or> int height \<le> ?iy oy ky then cols
         else foldl (\<lambda>cols kx. if ?ix ox kx < 0 \<or> int width \<le> ?ix ox kx then cols
           else cols[?at oy ox ic ky kx :=
             input ! ((ic * height + nat (?iy oy ky)) * width + nat (?ix ox kx))]) cols [0..<kw])"
    proof (cases "?iy oy ky < 0 \<or> int height \<le> ?iy oy ky")
      case False
      then show ?thesis unfolding if_not_P [OF False] by (intro fills_foldl written)
    qed simp
  qed
  then have cols: "length (im2col input in_channels height width (kh, kw) (sh, sw) (ph, pw) oh ow cols) = length cols"
    "i < length cols \<Longrightarrow> im2col input in_channels height width (kh, kw) (sh, sw) (ph, pw) oh ow cols ! i =
      (if i \<in> ?S then g i else cols ! i)" for i
    by (simp_all only: fills_def)
  have outside: "g i = 0" if i: "i < oh * ow * ?patch" "i \<notin> ?S" for i
  proof (rule ccontr)
    assume "g i \<noteq> 0"
    define oy ox ic ky kx where "oy = i div ?patch div ow" and "ox = i div ?patch mod ow"
      and "ic = i mod ?patch div kw div kh" and "ky = i mod ?patch div kw mod kh" and "kx = i mod ?patch mod kw"
    have patch: "0 < ?patch" "0 < ow" using i(1) by (auto intro!: gr0I)
    have "i div ?patch < oh * ow" "i mod ?patch < ?patch"
      using i(1) patch by (simp_all add: less_mult_imp_div_less)
    then have bounds: "oy < oh" "ox < ow" "ic < in_channels" "ky < kh" "kx < kw"
      using patch by (simp_all add: oy_def ox_def ic_def ky_def kx_def less_mult_imp_div_less mult.assoc)
    have pos: "i = ?at oy ox ic ky kx"
      by (simp only: oy_def ox_def ic_def ky_def kx_def add.assoc div_mult_mod_eq)
    have inside: "\<not> (?iy oy ky < 0 \<or> int height \<le> ?iy oy ky)" "\<not> (?ix ox kx < 0 \<or> int width \<le> ?ix ox kx)"
      using \<open>g i \<noteq> 0\<close> g [OF bounds(2-5), of oy] unfolding pos by (auto simp: conv_pixel_def split: if_splits)
    have "i \<in> (if ?ix ox kx < 0 \<or> int width \<le> ?ix ox kx then {} else {?at oy ox ic ky kx})"
      unfolding if_not_P [OF inside(2)] using pos by blast
    with bounds(5) have "i \<in> ?X oy ox ic ky" by - (rule UN_I [of kx], simp, assumption)
    with inside(1) bounds(4) have "i \<in> ?Y oy ox ic" by - (rule UN_I [of ky], simp, simp only: if_False)
    with bounds(3) have "i \<in> (\<Union>ic \<in> set [0..<in_channels]. ?Y oy ox ic)" by - (rule UN_I [of ic], simp, assumption)
    with bounds(2) have "i \<in> (\<Union>ox \<in> set [0..<ow]. \<Union>ic \<in> set [0..<in_channels]. ?Y oy ox ic)"
      by - (rule UN_I [of ox], simp, assumption)
    with bounds(1) have "i \<in> ?S" by - (rule UN_I [of oy], simp, assumption)
    with i(2) show False by contradiction
  qed
  have entry: "im2col input in_channels height width (kh, kw) (sh, sw) (ph, pw) oh ow cols ! i = g i"
    if "i < oh * ow * ?patch" for i
  proof (cases "i \<in> ?S")
    case True
    with cols(2) [of i] that show ?thesis by (simp only: len if_True)
  next
    case False
    from outside [OF that this] False cols(2) [of i] zero [of i] that
    show ?thesis by (simp only: len if_False)
  qed
  show ?thesis
    by (rule nth_equalityI) (simp_all add: cols(1) len entry g_def Let_def)
qed

definition conv_cell ::
    "f32 list \<Rightarrow> usize \<Rightarrow> usize \<Rightarrow> usize \<Rightarrow> f32 list \<Rightarrow> f32 list option \<Rightarrow> usize \<times> usize \<Rightarrow> usize \<times> usize \<Rightarrow>
      usize \<times> usize \<Rightarrow> nat \<Rightarrow> nat \<Rightarrow> nat \<Rightarrow> f32" where
  "conv_cell input in_channels height width weight bias kernel_len stride padding oc oy ox =
     (let patch = in_channels * fst kernel_len * snd kernel_len in
      foldl (\<lambda>acc p. f32_add acc (f32_mul (patch_pixel input height width kernel_len stride padding oy ox p)
          (weight ! (oc * patch + p)))) (bias_at bias oc) [0..<patch])"

definition out_extent :: "usize \<Rightarrow> usize \<Rightarrow> usize \<Rightarrow> usize \<Rightarrow> usize" where
  "out_extent n kernel_len stride padding = (n + 2 * padding - kernel_len) div stride + 1"

lemma conv_out_len_Ok:
  "conv_out_len n kernel_len stride padding = Ok l \<Longrightarrow> l = out_extent n kernel_len stride padding"
  by (auto simp: conv_out_len_def out_extent_def res_simps split: if_splits)

lemma extent_Ok: "extent dims = Ok n \<Longrightarrow> n = prod_list dims"
  by (auto simp: extent_def dest: try_product_SomeD)

lemma transposed:
  assumes "length out = oc * cells"
  shows "foldl (\<lambda>out cell. foldl (\<lambda>out c. out[c * cells + cell := xs ! (cell * oc + c)]) out [0..<oc])
      out [0..<cells] = map (\<lambda>i. xs ! (i mod cells * oc + i div cells)) [0..<oc * cells]"
proof (rule rows_cover [OF assms])
  show "fills (\<lambda>i. xs ! (i mod cells * oc + i div cells))
      (\<Union>cell \<in> set [0..<cells]. \<Union>c \<in> set [0..<oc]. {c * cells + cell}) out
      (foldl (\<lambda>out cell. foldl (\<lambda>out c. out[c * cells + cell := xs ! (cell * oc + c)]) out [0..<oc])
        out [0..<cells])"
    by (intro fills_foldl) (rule fills_write [OF fills_nothing], simp add: row_major_div)
qed (auto intro!: bexI)

text \<open>
  C37. The dense convolution through patches and the linear layer is the direct convolution:
  whenever it returns, output channel \<open>oc\<close> at \<open>(oy, ox)\<close> is the bias of the channel plus the
  products of its weights and the pixels of the zero-padded image under the kernel, added in the
  order of the weights, for every kernel, stride and padding; and the buffer has one value per
  channel and position.
\<close>

theorem conv2d_direct:
  assumes "conv2d input in_channels height width weight bias out_channels (kh, kw) (sh, sw) (ph, pw) out = Ok out'"
  shows "let oh = out_extent height kh sh ph; ow = out_extent width kw sw pw in
    out' = map (\<lambda>i. conv_cell input in_channels height width weight bias (kh, kw) (sh, sw) (ph, pw)
        (i div (oh * ow)) (i mod (oh * ow) div ow) (i mod (oh * ow) mod ow)) [0..<out_channels * (oh * ow)]"
proof -
  let ?patch = "in_channels * kh * kw"
  define oh ow where "oh = out_extent height kh sh ph" and "ow = out_extent width kw sw pw"
  obtain cell_major where len: "length out = out_channels * (oh * ow)"
    and linear: "linear_out_by_in (im2col input in_channels height width (kh, kw) (sh, sw) (ph, pw) oh ow
        (replicate (oh * ow * ?patch) 0)) (oh * ow) ?patch weight out_channels bias
        (replicate (oh * ow * out_channels) 0) = Ok cell_major"
    and out': "out' = foldl (\<lambda>out cell. foldl (\<lambda>out oc.
        out[oc * (oh * ow) + cell := cell_major ! (cell * out_channels + oc)]) out [0..<out_channels])
        out [0..<oh * ow]"
    using assms
    by (auto simp: conv2d_def res_simps Let_def zeroed_vec_def mult.assoc oh_def ow_def
        dest!: conv_out_len_Ok extent_Ok split: if_splits)
  have "cell_major ! (cell * out_channels + oc) = conv_cell input in_channels height width weight bias
      (kh, kw) (sh, sw) (ph, pw) oc (cell div ow) (cell mod ow)"
    if "cell < oh * ow" "oc < out_channels" for cell oc
  proof -
    have "cell * out_channels + oc < oh * ow * out_channels" using that by (intro row_major_less)
    then have by_row: "cell_major ! (cell * out_channels + oc) =
        scalar_cell (im2col input in_channels height width (kh, kw) (sh, sw) (ph, pw) oh ow
          (replicate (oh * ow * ?patch) 0)) ?patch weight bias cell oc"
      using linear that unfolding linear_serial_modes linear_serial_cells linear_cells_def
      by (simp add: linear_cell_def)
    have pixel: "im2col input in_channels height width (kh, kw) (sh, sw) (ph, pw) oh ow
          (replicate (oh * ow * ?patch) 0) ! (cell * ?patch + p) =
        patch_pixel input height width (kh, kw) (sh, sw) (ph, pw) (cell div ow) (cell mod ow) p"
      if "p < ?patch" for p
      using row_major_less [OF \<open>cell < oh * ow\<close> that] that
      by (subst im2col_pixels) (simp_all add: row_major_div Let_def)
    show ?thesis
      unfolding by_row scalar_cell_def conv_cell_def Let_def fst_conv snd_conv
      by (rule foldl_cong) (simp_all add: pixel)
  qed
  moreover have "i mod (oh * ow) < oh * ow" "i div (oh * ow) < out_channels" if "i < out_channels * (oh * ow)" for i
    using that by (auto simp: less_mult_imp_div_less intro!: mod_less_divisor gr0I)
  ultimately show ?thesis
    unfolding out' transposed [OF len] Let_def oh_def [symmetric] ow_def [symmetric]
    by simp
qed

text \<open>An image of two by two pixels under a kernel of three by three, with stride 2 and padding 1.\<close>

theorem conv2d_direct_witness:
  "conv2d [0x3F800000, 0x40000000, 0x40400000, 0x40800000] 1 2 2 (replicate 9 0x3F800000) None 1 (3, 3) (2, 2)
      (1, 1) [0] =
    Ok [conv_cell [0x3F800000, 0x40000000, 0x40400000, 0x40800000] 1 2 2 (replicate 9 0x3F800000) None (3, 3)
      (2, 2) (1, 1) 0 0 0]"
proof -
  let ?image = "[0x3F800000, 0x40000000, 0x40400000, 0x40800000] :: f32 list"
  have cols: "length (im2col ?image 1 2 2 (3, 3) (2, 2) (1, 1) 1 1 (replicate 9 0)) = 9"
    using im2col_pixels [of "replicate 9 0" 1 1 1 3 3] by simp
  then have "\<exists>out. linear_out_by_in (im2col ?image 1 2 2 (3, 3) (2, 2) (1, 1) 1 1 (replicate 9 0)) 1 9
      (replicate 9 0x3F800000) 1 None (replicate 1 0) = Ok out"
    by (simp add: linear_serial_modes linear_serial_cells linear_shapes_def max64_def)
  then have "\<exists>out. conv2d ?image 1 2 2 (replicate 9 0x3F800000) None 1 (3, 3) (2, 2) (1, 1) [0] = Ok out"
    by (auto simp: conv2d_def extent_def conv_out_len_def times_u64_def plus_u64_def checked_mul_def
        zeroed_vec_def max64_def Let_def simp del: One_nat_def)
  then obtain out where out: "conv2d ?image 1 2 2 (replicate 9 0x3F800000) None 1 (3, 3) (2, 2) (1, 1) [0] = Ok out" ..
  from conv2d_direct [OF out] show ?thesis unfolding out by (simp add: out_extent_def)
qed

end
