(* ===== verification/Parakeet_Chunk.thy ===== *)
theory Parakeet_Chunk imports Conv_Kernels Recurrent_Kernel Cpu_Backend
begin

text \<open>
  Long-form transcription (src/crates/models/src/parakeet: chunk.rs, subsample.rs, the features
  of audio.rs and the chunked encoder of model.rs): the plan of overlapping windows, the slices
  of the features, the subsampler and the stitching of the kept frames. The log-mel frontend and
  the Conformer blocks are not modelled: the features, and the in-place encoder of the rows that
  the subsampler gives, are arguments.
\<close>

section \<open>Features\<close>

text \<open>\<open>values[mel * frames + frame]\<close>; both places that build features keep that length.\<close>

record parakeet_features =
  pf_frames :: usize
  pf_mel_bins :: usize
  pf_values :: "f32 list"

definition features_ok :: "parakeet_features \<Rightarrow> bool" where
  "features_ok f \<longleftrightarrow> length (pf_values f) = pf_mel_bins f * pf_frames f"

definition frame_count :: "usize \<Rightarrow> usize" where
  "frame_count samples = samples div 160 + 1"

definition slice_frames :: "parakeet_features \<Rightarrow> usize \<times> usize \<Rightarrow> parakeet_features res" where
  "slice_frames self rng =
     (let start = min (fst rng) (pf_frames self);
          end' = max (min (snd rng) (pf_frames self)) start;
          frames = end' - start in
      and_then (times_u64 (pf_mel_bins self) frames) (\<lambda>n.
      and_then (zeroed_vec n) (\<lambda>values.
      and_then (try_fold (\<lambda>values mel.
          and_then (slice (pf_values self) (mel * pf_frames self + start) (mel * pf_frames self + end')) (\<lambda>src.
          copy_into values (mel * frames) ((mel + 1) * frames) src))
        values [0..<pf_mel_bins self]) (\<lambda>values.
      Ok \<lparr>pf_frames = frames, pf_mel_bins = pf_mel_bins self, pf_values = values\<rparr>))))"

section \<open>The subsampler\<close>

definition subsample_channels :: usize where "subsample_channels = 256"

definition stage_len :: "usize \<Rightarrow> usize res" where
  "stage_len n = conv_out_len n 3 2 1"

definition subsampled_frames :: "usize \<Rightarrow> usize res" where
  "subsampled_frames frames =
     and_then (stage_len frames) (\<lambda>t. and_then (stage_len t) (\<lambda>t. stage_len t))"

definition total_frames_for_samples :: "usize \<Rightarrow> usize res" where
  "total_frames_for_samples samples = subsampled_frames (frame_count samples)"

record subsample_weights =
  conv0_w :: "f32 list"
  conv0_b :: "f32 list"
  dw1_w :: "f32 list"
  dw1_b :: "f32 list"
  pw1_w :: "f32 list"
  pw1_b :: "f32 list"
  dw2_w :: "f32 list"
  dw2_b :: "f32 list"
  pw2_w :: "f32 list"
  pw2_b :: "f32 list"
  linear_w :: "f32 list"
  linear_b :: "f32 list"

record subsampled =
  ss_frames :: usize
  ss_d_model :: usize
  ss_values :: "f32 list"

definition pointwise ::
    "linear_kernel \<Rightarrow> f32 list \<Rightarrow> usize \<Rightarrow> usize \<Rightarrow> f32 list \<Rightarrow> f32 list \<Rightarrow> f32 list \<Rightarrow> f32 list res" where
  "pointwise lin input channels positions weight bias out =
     and_then (extent [positions, channels]) (\<lambda>n.
     and_then (zeroed_vec n) (\<lambda>pos_major.
     let pos_major = foldl (\<lambda>pos_major ch. foldl (\<lambda>pos_major p.
           pos_major[p * channels + ch := input ! (ch * positions + p)]) pos_major [0..<positions])
         pos_major [0..<channels] in
     and_then (zeroed_vec n) (\<lambda>result.
     and_then (lin pos_major positions channels weight channels (Some bias) result) (\<lambda>result.
     Ok (foldl (\<lambda>out ch. foldl (\<lambda>out p.
           out[ch * positions + p := result ! (p * channels + ch)]) out [0..<positions])
         out [0..<channels])))))"

definition subsample ::
    "linear_kernel \<Rightarrow> parakeet_features \<Rightarrow> subsample_weights \<Rightarrow> usize \<Rightarrow> subsampled res" where
  "subsample lin features weights d_model =
     (let time = pf_frames features; freq = pf_mel_bins features; c = subsample_channels in
      and_then (extent [time, freq]) (\<lambda>n.
      and_then (zeroed_vec n) (\<lambda>image.
      let image = foldl (\<lambda>image m. foldl (\<lambda>image t.
            image[t * freq + m := pf_values features ! (m * time + t)]) image [0..<time]) image [0..<freq] in
      and_then (stage_len time) (\<lambda>t1. and_then (stage_len freq) (\<lambda>f1.
      and_then (extent [c, t1, f1]) (\<lambda>n.
      and_then (zeroed_vec n) (\<lambda>buf1.
      and_then (conv2d image 1 time freq (conv0_w weights) (Some (conv0_b weights)) c (3, 3) (2, 2) (1, 1) buf1) (\<lambda>buf1.
      let buf1 = relu_inplace buf1 in
      and_then (stage_len t1) (\<lambda>t2. and_then (stage_len f1) (\<lambda>f2.
      and_then (extent [c, t2, f2]) (\<lambda>n.
      and_then (zeroed_vec n) (\<lambda>dw.
      and_then (depthwise_conv2d buf1 c t1 f1 (dw1_w weights) (Some (dw1_b weights)) (3, 3) (2, 2) (1, 1) dw) (\<lambda>dw.
      and_then (zeroed_vec n) (\<lambda>buf2.
      and_then (pointwise lin dw c (t2 * f2) (pw1_w weights) (pw1_b weights) buf2) (\<lambda>buf2.
      let buf2 = relu_inplace buf2 in
      and_then (stage_len t2) (\<lambda>t3. and_then (stage_len f2) (\<lambda>f3.
      and_then (extent [c, t3, f3]) (\<lambda>n.
      and_then (zeroed_vec n) (\<lambda>dw2.
      and_then (depthwise_conv2d buf2 c t2 f2 (dw2_w weights) (Some (dw2_b weights)) (3, 3) (2, 2) (1, 1) dw2) (\<lambda>dw2.
      and_then (zeroed_vec n) (\<lambda>buf3.
      and_then (pointwise lin dw2 c (t3 * f3) (pw2_w weights) (pw2_b weights) buf3) (\<lambda>buf3.
      let buf3 = relu_inplace buf3; flat = c * f3 in
      and_then (extent [d_model, flat]) (\<lambda>linear_len.
      if length (linear_w weights) \<noteq> linear_len
      then runtime_err ''subsample linear weight len {} does not match d_model*channels*freq = {}*{}''
      else
        and_then (extent [t3, flat]) (\<lambda>n.
        and_then (zeroed_vec n) (\<lambda>rows.
        let rows = foldl (\<lambda>rows t. foldl (\<lambda>rows ch. foldl (\<lambda>rows f.
              rows[t * flat + ch * f3 + f := buf3 ! ((ch * t3 + t) * f3 + f)]) rows [0..<f3])
            rows [0..<c]) rows [0..<t3] in
        and_then (extent [t3, d_model]) (\<lambda>n.
        and_then (zeroed_vec n) (\<lambda>values.
        and_then (lin rows t3 flat (linear_w weights) d_model (Some (linear_b weights)) values) (\<lambda>values.
        Ok \<lparr>ss_frames = t3, ss_d_model = d_model, ss_values = values\<rparr>))))))))))))))))))))))))))))"

section \<open>The plan\<close>

record chunk_window =
  ctx_start :: usize
  ctx_end :: usize
  body_start :: usize
  body_end :: usize

definition encoded_frames :: "chunk_window \<Rightarrow> usize res" where
  "encoded_frames self = minus_u64 (ctx_end self) (ctx_start self)"

definition kept_frames :: "chunk_window \<Rightarrow> usize res" where
  "kept_frames self = minus_u64 (body_end self) (body_start self)"

definition keep_range :: "chunk_window \<Rightarrow> (usize \<times> usize) res" where
  "keep_range self =
     and_then (minus_u64 (body_start self) (ctx_start self)) (\<lambda>s.
     and_then (minus_u64 (body_end self) (ctx_start self)) (\<lambda>e. Ok (s, e)))"

definition mel_range :: "chunk_window \<Rightarrow> usize \<Rightarrow> (usize \<times> usize) res" where
  "mel_range self total_mel_frames =
     and_then (times_u64 (ctx_start self) 8) (\<lambda>s.
     and_then (times_u64 (ctx_end self) 8) (\<lambda>e.
     let start = min s total_mel_frames; end' = min e total_mel_frames in Ok (start, max end' start)))"

text \<open>The loop of \<open>plan_chunks\<close>, which has checked that \<open>chunk_frames\<close> is not 0.\<close>

function plan_from :: "usize \<Rightarrow> usize \<Rightarrow> usize \<Rightarrow> usize \<Rightarrow> chunk_window list res" where
  "plan_from total_frames chunk_frames context_frames start =
     (if 0 < chunk_frames \<and> start < total_frames then
        and_then (plus_u64 start chunk_frames) (\<lambda>e.
        let end' = min e total_frames in
        and_then (plus_u64 end' context_frames) (\<lambda>ctx.
        case plan_from total_frames chunk_frames context_frames (min (start + chunk_frames) total_frames) of
          Ok windows \<Rightarrow>
            Ok (\<lparr>ctx_start = start - context_frames, ctx_end = min ctx total_frames,
              body_start = start, body_end = end'\<rparr> # windows)
        | Err e \<Rightarrow> Err e
        | Panic \<Rightarrow> Panic))
      else Ok [])"
  by pat_completeness auto
termination
  by (relation "measure (\<lambda>(total_frames, _, _, start). total_frames - start)") auto

declare plan_from.simps [simp del]

definition plan_chunks :: "usize \<Rightarrow> usize \<Rightarrow> usize \<Rightarrow> chunk_window list res" where
  "plan_chunks total_frames chunk_frames context_frames =
     (if chunk_frames = 0 then runtime_err ''chunk_frames must be non-zero''
      else if total_frames = 0 then Ok []
      else plan_from total_frames chunk_frames context_frames 0)"

section \<open>The chunked encoder\<close>

text \<open>The model's width; \<open>encode\<close> rewrites the rows of the subsampler in place.\<close>

definition d_model :: usize where "d_model = 1024"

definition encode_features ::
    "linear_kernel \<Rightarrow> (f32 list \<Rightarrow> usize \<Rightarrow> f32 list res) \<Rightarrow> subsample_weights \<Rightarrow> parakeet_features \<Rightarrow>
      (f32 list \<times> usize) res" where
  "encode_features lin encode weights features =
     and_then (subsample lin features weights d_model) (\<lambda>s.
     and_then (encode (ss_values s) (ss_frames s)) (\<lambda>hidden.
     Ok (hidden, ss_frames s)))"

definition encode_window ::
    "linear_kernel \<Rightarrow> (f32 list \<Rightarrow> usize \<Rightarrow> f32 list res) \<Rightarrow> subsample_weights \<Rightarrow> parakeet_features \<Rightarrow>
      f32 list \<Rightarrow> chunk_window \<Rightarrow> f32 list res" where
  "encode_window lin encode weights features out window =
     and_then (mel_range window (pf_frames features)) (\<lambda>rng.
     and_then (slice_frames features rng) (\<lambda>slice'.
     and_then (encode_features lin encode weights slice') (\<lambda>(hidden, produced).
     and_then (keep_range window) (\<lambda>(s, e).
     if produced < e
     then runtime_err ''chunk [{}, {}) needed local frames {keep:?} but the encoder produced only {produced} from {} mel frames: the frame arithmetic and the encoder disagree''
     else
       and_then (times_u64 s d_model) (\<lambda>lo.
       and_then (times_u64 e d_model) (\<lambda>hi.
       and_then (slice hidden lo hi) (\<lambda>kept.
       Ok (out @ kept))))))))"

text \<open>\<open>Vec::with_capacity(total * d)\<close> panics as \<open>zeroed_vec\<close> does, and starts empty.\<close>

definition encode_audio_chunked ::
    "linear_kernel \<Rightarrow> (f32 list \<Rightarrow> usize \<Rightarrow> f32 list res) \<Rightarrow> subsample_weights \<Rightarrow> parakeet_features res \<Rightarrow>
      usize \<Rightarrow> usize \<Rightarrow> (f32 list \<times> usize) res" where
  "encode_audio_chunked lin encode weights log_mel chunk_frames context_frames =
     and_then log_mel (\<lambda>features.
     and_then (subsampled_frames (pf_frames features)) (\<lambda>total.
     and_then (plan_chunks total chunk_frames context_frames) (\<lambda>plan.
     and_then (times_u64 total d_model) (\<lambda>capacity.
     and_then (zeroed_vec capacity) (\<lambda>_.
     and_then (try_fold (encode_window lin encode weights features) [] plan) (\<lambda>out.
     let frames = length out div d_model in
     if frames \<noteq> total then runtime_err ''stitched {frames} frames but planned {total}''
     else Ok (out, frames)))))))"

section \<open>Frames survive the subsampler in eighths\<close>

lemma stage_len_Ok: "stage_len n = Ok t \<Longrightarrow> 0 < n \<Longrightarrow> t = (n + 1) div 2"
  by (auto simp: stage_len_def out_extent_def dest!: conv_out_len_Ok)

lemma stage_len_returns: "n + 2 \<le> max64 \<Longrightarrow> 0 < n \<Longrightarrow> stage_len n = Ok ((n + 1) div 2)"
  by (auto simp: stage_len_def conv_out_len_def times_u64_def plus_u64_def)

lemma subsampled_frames_exact:
  assumes "0 < frames" and "frames + 2 \<le> max64"
  shows "subsampled_frames frames = Ok ((frames + 7) div 8)"
proof -
  have "0 < (frames + 1) div 2" "(frames + 1) div 2 + 2 \<le> max64" using assms by (simp_all add: max64_def)
  moreover from this have "0 < ((frames + 1) div 2 + 1) div 2" "((frames + 1) div 2 + 1) div 2 + 2 \<le> max64"
    by (simp_all add: max64_def)
  moreover have "(((frames + 1) div 2 + 1) div 2 + 1) div 2 = (frames + 7) div 8" by linarith
  ultimately show ?thesis using assms by (simp add: subsampled_frames_def stage_len_returns)
qed

context linear_backend
begin

lemma subsample_frames:
  assumes "subsample lin features weights d = Ok s" and "0 < pf_frames features"
  shows "ss_frames s = (pf_frames features + 7) div 8 \<and> length (ss_values s) = ss_frames s * d"
proof -
  let ?F = "pf_frames features"
  obtain t1 t2 t3 where t: "stage_len ?F = Ok t1" "stage_len t1 = Ok t2" "stage_len t2 = Ok t3"
    and s: "ss_frames s = t3" "length (ss_values s) = t3 * d"
    using assms(1) by (auto simp: subsample_def res_simps Let_def zeroed_vec_def dest!: keeps_length
        extent_Ok split: if_splits)
  have t1: "t1 = (?F + 1) div 2" using stage_len_Ok [OF t(1) assms(2)] .
  moreover have t2: "t2 = (t1 + 1) div 2" using stage_len_Ok [OF t(2)] t1 assms(2) by simp
  moreover have "t3 = (t2 + 1) div 2" using stage_len_Ok [OF t(3)] t1 t2 assms(2) by simp
  ultimately have "t3 = (?F + 7) div 8" by linarith
  with s show ?thesis by simp
qed

end

section \<open>The plan tiles the frames\<close>

definition window_ok :: "usize \<Rightarrow> usize \<Rightarrow> usize \<Rightarrow> chunk_window \<Rightarrow> bool" where
  "window_ok total_frames chunk_frames context_frames w \<longleftrightarrow>
     ctx_start w = body_start w - context_frames \<and> body_start w < body_end w \<and>
     body_end w \<le> body_start w + chunk_frames \<and> body_end w \<le> total_frames \<and>
     ctx_end w = min (body_end w + context_frames) total_frames"

lemma plan_from_tiles:
  assumes "0 < chunk_frames" and "start \<le> total_frames"
  shows "case plan_from total_frames chunk_frames context_frames start of
      Ok windows \<Rightarrow>
        concat (map (\<lambda>w. [body_start w..<body_end w]) windows) = [start..<total_frames] \<and>
        (\<forall>w \<in> set windows. window_ok total_frames chunk_frames context_frames w)
    | Err e \<Rightarrow> False
    | Panic \<Rightarrow> max64 < total_frames + context_frames \<or> max64 < total_frames + chunk_frames"
  using assms
proof (induction total_frames chunk_frames context_frames start rule: plan_from.induct)
  case (1 total chunk ctx start)
  let ?stop = "min (start + chunk) total"
  show ?case
  proof (cases "start < total")
    case True
    show ?thesis
    proof (cases "max64 < start + chunk \<or> max64 < ?stop + ctx")
      case True
      then show ?thesis using \<open>start < total\<close> 1(2)
        by (subst plan_from.simps) (auto simp: plus_u64_def)
    next
      case False
      then have step: "plan_from total chunk ctx start =
          (case plan_from total chunk ctx ?stop of
             Ok windows \<Rightarrow> Ok (\<lparr>ctx_start = start - ctx, ctx_end = min (?stop + ctx) total,
               body_start = start, body_end = ?stop\<rparr> # windows)
           | Err e \<Rightarrow> Err e | Panic \<Rightarrow> Panic)"
        using True 1(2) by (subst plan_from.simps) (simp add: plus_u64_def Let_def)
      have rest: "case plan_from total chunk ctx ?stop of
          Ok windows \<Rightarrow> concat (map (\<lambda>w. [body_start w..<body_end w]) windows) = [?stop..<total] \<and>
            (\<forall>w \<in> set windows. window_ok total chunk ctx w)
        | Err e \<Rightarrow> False
        | Panic \<Rightarrow> max64 < total + ctx \<or> max64 < total + chunk"
        by (rule 1(1)) (use True False 1(2) in auto)
      have "[start..<?stop + (total - ?stop)] = [start..<?stop] @ [?stop..<?stop + (total - ?stop)]"
        using True by (intro upt_add_eq_append) simp
      then have upt: "[start..<?stop] @ [?stop..<total] = [start..<total]" by simp
      have "window_ok total chunk ctx \<lparr>ctx_start = start - ctx, ctx_end = min (?stop + ctx) total,
          body_start = start, body_end = ?stop\<rparr>"
        using True 1(2) by (simp add: window_ok_def)
      then show ?thesis
        using rest upt unfolding step by (cases "plan_from total chunk ctx ?stop") simp_all
    qed
  next
    case False
    then show ?thesis using 1(3) by (simp add: plan_from.simps)
  qed
qed

text \<open>
  C38. The plan of a long transcription covers every frame exactly once: the kept bodies, one
  after the other, are the frames from 0 on with no gap and no overlap, each non-empty and at
  most \<open>chunk_frames\<close> long, and each is encoded with \<open>context_frames\<close> more frames on both sides as
  far as the audio goes. The only error is a chunk length of 0, and the plan panics only if the
  number of frames and one of the two lengths overflow together.
\<close>

theorem plan_chunks_tiles:
  "case plan_chunks total_frames chunk_frames context_frames of
     Ok windows \<Rightarrow>
       0 < chunk_frames \<and>
       concat (map (\<lambda>w. [body_start w..<body_end w]) windows) = [0..<total_frames] \<and>
       (\<forall>w \<in> set windows. window_ok total_frames chunk_frames context_frames w)
   | Err e \<Rightarrow> chunk_frames = 0
   | Panic \<Rightarrow> max64 < total_frames + context_frames \<or> max64 < total_frames + chunk_frames"
  using plan_from_tiles [of chunk_frames 0 total_frames context_frames]
  by (cases "chunk_frames = 0") (auto simp: plan_chunks_def runtime_err_def split: outcome.splits)

text \<open>
  Five frames in chunks of two with one frame of context; and a context meant to be the whole
  audio, which overflows in its end where its start saturates.
\<close>

theorem plan_chunks_tiles_witness:
  "\<exists>windows. plan_chunks 5 2 1 = Ok windows \<and> length windows = 3 \<and>
     concat (map (\<lambda>w. [body_start w..<body_end w]) windows) = [0..<5] \<and>
     list_all (window_ok 5 2 1) windows \<and>
     plan_chunks 5 2 max64 = Panic"
proof -
  have "(case plan_chunks 5 2 1 of Ok ws \<Rightarrow> length ws = 3 | _ \<Rightarrow> False) \<and>
      plan_chunks 5 2 max64 = Panic"
    by (simp add: plan_chunks_def plan_from.simps plus_u64_def max64_def)
  then show ?thesis
    using plan_chunks_tiles [where total_frames = 5 and chunk_frames = 2 and context_frames = 1]
    by (auto simp: list_all_iff split: outcome.splits)
qed

section \<open>The slice of a window\<close>

definition window_features :: "parakeet_features \<Rightarrow> chunk_window \<Rightarrow> parakeet_features" where
  "window_features features w =
     (let start = 8 * ctx_start w; n = min (8 * ctx_end w) (pf_frames features) - start in
      \<lparr>pf_frames = n, pf_mel_bins = pf_mel_bins features,
       pf_values = map (\<lambda>i. pf_values features ! (i div n * pf_frames features + start + i mod n))
         [0..<pf_mel_bins features * n]\<rparr>)"

lemma window_geometry:
  assumes w: "window_ok ((frames + 7) div 8) chunk ctx w" and "0 < frames"
  shows "8 * ctx_start w < min (8 * ctx_end w) frames"
    and "(min (8 * ctx_end w) frames - 8 * ctx_start w + 7) div 8 = ctx_end w - ctx_start w"
    and "ctx_start w \<le> body_start w" "body_start w < body_end w" "body_end w \<le> ctx_end w"
      "ctx_end w \<le> (frames + 7) div 8"
proof -
  show order: "ctx_start w \<le> body_start w" "body_start w < body_end w" "body_end w \<le> ctx_end w"
      "ctx_end w \<le> (frames + 7) div 8"
    using w by (simp_all add: window_ok_def)
  have "ctx_start w < (frames + 7) div 8" "ctx_start w < ctx_end w" using order by linarith+
  then show less: "8 * ctx_start w < min (8 * ctx_end w) frames" by (simp add: min_def) linarith
  show "(min (8 * ctx_end w) frames - 8 * ctx_start w + 7) div 8 = ctx_end w - ctx_start w"
  proof (cases "8 * ctx_end w \<le> frames")
    case True
    have "8 * ctx_end w - 8 * ctx_start w + 7 = 7 + 8 * (ctx_end w - ctx_start w)"
      by (simp add: diff_mult_distrib2)
    with True show ?thesis by (simp add: min_def)
  next
    case False
    then have "ctx_end w = (frames + 7) div 8" using order(4) by linarith
    moreover have "(frames - 8 * a + 7) div 8 = (frames + 7) div 8 - a" if "8 * a < frames" for a
    proof -
      obtain c where "frames = 8 * a + c" using \<open>8 * a < frames\<close> less_imp_add_positive by blast
      then have "frames + 7 = c + 7 + a * 8" "frames - 8 * a + 7 = c + 7" by simp_all
      then show ?thesis by (simp add: div_mult_self1)
    qed
    ultimately show ?thesis using False less by (simp add: min_def)
  qed
qed

lemma slice_frames_rows:
  assumes ok: "features_ok f" and range: "start < stop" "stop \<le> pf_frames f"
    and fits: "4 * length (pf_values f) \<le> 2 ^ 63 - 1"
  shows "slice_frames f (start, stop) = Ok \<lparr>pf_frames = stop - start, pf_mel_bins = pf_mel_bins f,
    pf_values = map (\<lambda>i. pf_values f ! (i div (stop - start) * pf_frames f + start + i mod (stop - start)))
      [0..<pf_mel_bins f * (stop - start)]\<rparr>"
proof -
  let ?n = "stop - start" and ?F = "pf_frames f" and ?mel = "pf_mel_bins f"
  let ?g = "\<lambda>i. pf_values f ! (i div ?n * ?F + start + i mod ?n)"
  let ?step = "\<lambda>values mel. and_then (slice (pf_values f) (mel * ?F + start) (mel * ?F + stop))
      (\<lambda>src. copy_into values (mel * ?n) ((mel + 1) * ?n) src)"
  have len: "length (pf_values f) = ?mel * ?F" using ok by (simp add: features_ok_def)
  have rows: "(try_fold ?step (replicate (?mel * ?n) 0) [0..<k] :: f32 list res) =
      Ok (map ?g [0..<k * ?n] @ replicate ((?mel - k) * ?n) 0)" if "k \<le> ?mel" for k
    using that
  proof (induction k)
    case (Suc k)
    have fit: "k * ?F + ?F \<le> ?mel * ?F" using Suc.prems row_in_range [of k ?mel ?F] by simp
    have src: "take ?n (drop (k * ?F + start) (pf_values f)) = map ?g [k * ?n..<k * ?n + ?n]"
    proof (rule nth_equalityI)
      show "length (take ?n (drop (k * ?F + start) (pf_values f))) = length (map ?g [k * ?n..<k * ?n + ?n])"
        using fit range len by simp
      fix i
      assume "i < length (take ?n (drop (k * ?F + start) (pf_values f)))"
      then show "take ?n (drop (k * ?F + start) (pf_values f)) ! i = map ?g [k * ?n..<k * ?n + ?n] ! i"
        using fit range len by (simp add: row_position)
    qed
    have slice: "(slice (pf_values f) (k * ?F + start) (k * ?F + stop) :: f32 list res) =
        Ok (map ?g [k * ?n..<k * ?n + ?n])"
      using fit range len by (simp add: slice_def src)
    have left: "(?mel - k) * ?n = ?n + (?mel - Suc k) * ?n" using Suc.prems
      by (simp add: Suc_diff_Suc flip: mult_Suc)
    have copied: "(copy_into (map ?g [0..<k * ?n] @ replicate ((?mel - k) * ?n) 0) (k * ?n) ((k + 1) * ?n)
        (map ?g [k * ?n..<k * ?n + ?n]) :: f32 list res) =
        Ok (map ?g [0..<Suc k * ?n] @ replicate ((?mel - Suc k) * ?n) 0)"
    proof -
      have "[0..<Suc k * ?n] = [0..<k * ?n] @ [k * ?n..<k * ?n + ?n]"
        using upt_add_eq_append [of 0 "k * ?n" ?n] by (simp add: add.commute)
      then have "map ?g [0..<Suc k * ?n] = map ?g [0..<k * ?n] @ map ?g [k * ?n..<k * ?n + ?n]"
        by (simp only: map_append)
      then show ?thesis unfolding left by (simp add: copy_into_def replicate_add)
    qed
    show ?case using Suc slice copied by (simp add: try_fold_append)
  qed simp
  have "?mel * ?n \<le> ?mel * ?F" using range by (intro mult_le_mono2) simp
  then have fit: "4 * (?mel * ?n) \<le> 2 ^ 63 - 1" using fits unfolding len by linarith
  moreover have "(2 :: nat) ^ 63 - 1 \<le> max64" by (simp add: max64_def)
  ultimately have "?mel * ?n \<le> max64" by linarith
  then show ?thesis using rows [of ?mel] range fit
    by (simp add: slice_frames_def times_u64_def zeroed_vec_def Let_def max_def min_def)
qed

section \<open>Well-shaped weights\<close>

lemma extent_pair: "a \<le> max64 \<Longrightarrow> a * b \<le> max64 \<Longrightarrow> extent [a, b] = Ok (a * b)"
  by (simp add: extent_def checked_mul_def)

lemma extent_triple:
  "a \<le> max64 \<Longrightarrow> a * b \<le> max64 \<Longrightarrow> a * b * c \<le> max64 \<Longrightarrow> extent [a, b, c] = Ok (a * b * c)"
  by (simp add: extent_def checked_mul_def)

lemma conv2d_returns:
  assumes "length input = height * width" "length weight = c * 9" "length bias = c" "0 < c" "c \<le> 2 ^ 8"
    and "stage_len height = Ok oh" "stage_len width = Ok ow" "length out = c * oh * ow"
    and "0 < height" "0 < width" "height \<le> 2 ^ 40" "width \<le> 2 ^ 8"
  obtains out' where "conv2d input 1 height width weight (Some bias) c (3, 3) (2, 2) (1, 1) out = Ok out'"
    "length out' = c * oh * ow"
proof -
  have "oh \<le> 2 ^ 40" "ow \<le> 2 ^ 8"
    using stage_len_Ok [OF assms(6,9)] stage_len_Ok [OF assms(7,10)] assms(11,12) by simp_all
  then have area: "oh * ow \<le> 2 ^ 48" using mult_le_mono [of oh "2 ^ 40" ow "2 ^ 8"] by simp
  have co: "c * oh \<le> 2 ^ 48" using mult_le_mono [of c "2 ^ 8" oh "2 ^ 40"] assms(5) \<open>oh \<le> 2 ^ 40\<close> by simp
  have volume: "c * (oh * ow) \<le> 2 ^ 56" using mult_le_mono [of c "2 ^ 8" "oh * ow" "2 ^ 48"] assms(5) area by simp
  then have volume': "oh * ow * c \<le> 2 ^ 56" by (subst mult.commute)
  have hw: "height * width \<le> 2 ^ 48" using mult_le_mono [of height "2 ^ 40" width "2 ^ 8"] assms(11,12) by simp
  define cols where "cols = im2col input 1 height width (3, 3) (2, 2) (1, 1) oh ow (replicate (oh * ow * 9) 0)"
  have "length cols = oh * ow * 9"
    using im2col_pixels [of "replicate (oh * ow * 9) 0" oh ow 1 3 3] by (simp add: cols_def)
  then obtain cell_major where cell_major: "linear_out_by_in cols (oh * ow) 9 weight c (Some bias)
      (replicate (oh * ow * c) 0) = Ok cell_major"
    using assms(2-5) area volume
    by (auto simp: linear_serial_modes linear_serial_cells linear_shapes_def max64_def mult.commute)
  have extents: "extent [1, height, width] = Ok (height * width)" "extent [1, 3, 3] = Ok 9"
      "extent [c, 9] = Ok (c * 9)" "extent [c, oh, ow] = Ok (c * (oh * ow))" "extent [oh, ow] = Ok (oh * ow)"
      "extent [oh * ow, 9] = Ok (oh * ow * 9)" "extent [oh * ow, c] = Ok (oh * ow * c)"
    using assms(5,11) area volume volume' hw co \<open>oh \<le> 2 ^ 40\<close>
    by (simp_all add: extent_def checked_mul_def max64_def mult.assoc [of c])
  have zeros: "(zeroed_vec (oh * ow * 9) :: f32 list res) = Ok (replicate (oh * ow * 9) 0)"
      "(zeroed_vec (oh * ow * c) :: f32 list res) = Ok (replicate (oh * ow * c) 0)"
    using area volume' by (simp_all add: zeroed_vec_def)
  have "\<exists>out'. conv2d input 1 height width weight (Some bias) c (3, 3) (2, 2) (1, 1) out = Ok out'"
    using assms(1-8) cell_major
    by (simp add: conv2d_def extents zeros Let_def cols_def stage_len_def mult.assoc [of c] del: One_nat_def)
  then obtain out' where out': "conv2d input 1 height width weight (Some bias) c (3, 3) (2, 2) (1, 1) out = Ok out'" ..
  have "oh = out_extent height 3 2 1" "ow = out_extent width 3 2 1"
    using assms(6,7) by (simp_all add: stage_len_def conv_out_len_Ok)
  then have "length out' = c * (oh * ow)" using conv2d_direct [OF out'] by (simp add: Let_def)
  with out' that show thesis by (simp add: mult.assoc)
qed

lemma length_foldl_same: "(\<And>out x. length (f out x) = length out) \<Longrightarrow> length (foldl f out xs) = length out"
  by (induction xs arbitrary: out) simp_all

lemma depthwise_returns:
  assumes "length input = c * height * width" "length weight = c * 9" "length bias = c" "c \<le> 2 ^ 8"
    and "stage_len height = Ok oh" "stage_len width = Ok ow" "length out = c * oh * ow"
    and "c * height \<le> max64" "c * height * width \<le> max64" "c * oh \<le> max64" "c * oh * ow \<le> max64"
  obtains out' where
    "depthwise_conv2d input c height width weight (Some bias) (3, 3) (2, 2) (1, 1) out = Ok out'"
    "length out' = c * oh * ow"
proof -
  have "c \<le> max64" "c * 3 \<le> max64" "c * 3 * 3 = c * 9" using assms(4) by (simp_all add: max64_def)
  moreover have "c * 9 \<le> max64" using assms(4) by (simp add: max64_def)
  ultimately have "extent [c, 3, 3] = Ok (c * 9)" using extent_triple [of c 3 3] by simp
  moreover have "extent [c, height, width] = Ok (c * height * width)" "extent [c, oh, ow] = Ok (c * oh * ow)"
    using assms(8-11) \<open>c \<le> max64\<close> by (simp_all add: extent_triple)
  ultimately have "\<exists>out'. depthwise_conv2d input c height width weight (Some bias) (3, 3) (2, 2) (1, 1) out = Ok out' \<and>
      length out' = length out"
    using assms(1-7)
    by (simp add: depthwise_conv2d_def check_channel_bias_def stage_len_def Let_def length_foldl_same
        del: One_nat_def)
  then show thesis using that assms(7) by auto
qed

context linear_backend
begin

lemma pointwise_returns:
  assumes "length weight = c * c" "length bias = c" "0 < c" "c \<le> 2 ^ 8"
    and "positions * c \<le> 2 ^ 56"
  obtains out' where "pointwise lin input c positions weight bias out = Ok out'" "length out' = length out"
proof -
  have "positions * 1 \<le> positions * c" using assms(3) by (intro mult_le_mono2) simp
  then have p: "positions \<le> 2 ^ 56" using assms(5) by linarith
  have "c * c \<le> 2 ^ 16" using mult_le_mono [OF assms(4) assms(4)] by simp
  define pos_major where "pos_major = foldl (\<lambda>pos_major ch. foldl (\<lambda>pos_major p.
      pos_major[p * c + ch := input ! (ch * positions + p)]) pos_major [0..<positions])
      (replicate (positions * c) 0) [0..<c]"
  have len: "length pos_major = positions * c" by (simp add: pos_major_def length_foldl_same)
  obtain result where "lin pos_major positions c weight c (Some bias) (replicate (positions * c) 0) = Ok result"
      "length result = positions * c"
    using len assms \<open>c * c \<le> 2 ^ 16\<close> p
    by (elim obtains_output [rotated -1]) (simp_all add: max64_def)
  then have "\<exists>out'. pointwise lin input c positions weight bias out = Ok out' \<and> length out' = length out"
    using assms(5) p
    by (simp add: pointwise_def extent_pair zeroed_vec_def max64_def Let_def pos_major_def length_foldl_same)
  then show thesis using that by blast
qed

end

lemma pair_buffer:
  assumes "a \<le> 2 ^ 40" and "a * b \<le> 2 ^ 56"
  shows "extent [a, b] = Ok (a * b)" "(zeroed_vec (a * b) :: f32 list res) = Ok (replicate (a * b) 0)" "a * b \<le> max64"
  using assms by (simp_all add: extent_def checked_mul_def zeroed_vec_def max64_def)

lemma stage_buffer:
  assumes "t \<le> 2 ^ 40" and "g \<le> 2 ^ 8"
  shows "extent [256, t, g] = Ok (256 * t * g)" "(zeroed_vec (256 * t * g) :: f32 list res) = Ok (replicate (256 * t * g) 0)"
    "256 * t \<le> max64" "256 * t * g \<le> max64" "t * g * 256 \<le> 2 ^ 56"
proof -
  have area: "t * g \<le> 2 ^ 48" using mult_le_mono [OF assms] by simp
  show "extent [256, t, g] = Ok (256 * t * g)"
    "(zeroed_vec (256 * t * g) :: f32 list res) = Ok (replicate (256 * t * g) 0)"
    "256 * t \<le> max64" "256 * t * g \<le> max64"
    using assms area by (simp_all add: extent_def checked_mul_def zeroed_vec_def max64_def mult.assoc [of 256])
  show "t * g * 256 \<le> 2 ^ 56" using mult_le_mono1 [OF area, of 256] by simp
qed

definition subsample_shaped :: "subsample_weights \<Rightarrow> usize \<Rightarrow> usize \<Rightarrow> bool" where
  "subsample_shaped w freq d \<longleftrightarrow>
     length (conv0_w w) = 256 * 9 \<and> length (conv0_b w) = 256 \<and>
     length (dw1_w w) = 256 * 9 \<and> length (dw1_b w) = 256 \<and>
     length (pw1_w w) = 256 * 256 \<and> length (pw1_b w) = 256 \<and>
     length (dw2_w w) = 256 * 9 \<and> length (dw2_b w) = 256 \<and>
     length (pw2_w w) = 256 * 256 \<and> length (pw2_b w) = 256 \<and>
     length (linear_w w) = d * (256 * ((freq + 7) div 8)) \<and> length (linear_b w) = d"

context linear_backend
begin

lemma subsample_returns:
  assumes shaped: "subsample_shaped w (pf_mel_bins f) d" and d: "0 < d" "d \<le> 2 ^ 12"
    and size: "0 < pf_frames f" "pf_frames f \<le> 2 ^ 40" "0 < pf_mel_bins f" "pf_mel_bins f \<le> 2 ^ 8"
  obtains s where "subsample lin f w d = Ok s"
proof -
  let ?F = "pf_frames f" and ?M = "pf_mel_bins f"
  define t1 t2 t3 f1 f2 f3 where "t1 = (?F + 1) div 2" and "t2 = (t1 + 1) div 2" and "t3 = (t2 + 1) div 2"
    and "f1 = (?M + 1) div 2" and "f2 = (f1 + 1) div 2" and "f3 = (f2 + 1) div 2"
  have pos: "0 < t1" "0 < t2" "0 < t3" "0 < f1" "0 < f2" "0 < f3"
    using size by (simp_all add: t1_def t2_def t3_def f1_def f2_def f3_def)
  have le: "t1 \<le> 2 ^ 40" "t2 \<le> 2 ^ 40" "t3 \<le> 2 ^ 40" "f1 \<le> 2 ^ 8" "f2 \<le> 2 ^ 8" "f3 \<le> 2 ^ 8"
    using size pos by (simp_all add: t1_def t2_def t3_def f1_def f2_def f3_def)
  have stages: "stage_len ?F = Ok t1" "stage_len t1 = Ok t2" "stage_len t2 = Ok t3"
    "stage_len ?M = Ok f1" "stage_len f1 = Ok f2" "stage_len f2 = Ok f3"
    using size pos le by (simp_all add: stage_len_returns t1_def t2_def t3_def f1_def f2_def f3_def max64_def)
  have f3: "f3 = (?M + 7) div 8" unfolding f3_def f2_def f1_def by linarith
  have image: "extent [?F, ?M] = Ok (?F * ?M)" "(zeroed_vec (?F * ?M) :: f32 list res) = Ok (replicate (?F * ?M) 0)"
    using mult_le_mono [OF size(2,4)] size(2)
    by (simp_all add: extent_def checked_mul_def zeroed_vec_def max64_def)
  define im where "im = foldl (\<lambda>image m. foldl (\<lambda>image t. image[t * ?M + m := pf_values f ! (m * ?F + t)])
      image [0..<?F]) (replicate (?F * ?M) 0) [0..<?M]"
  have im: "length im = ?F * ?M" by (simp add: im_def length_foldl_same)
  have w: "length (conv0_w w) = 256 * 9" "length (conv0_b w) = 256" "length (dw1_w w) = 256 * 9"
      "length (dw1_b w) = 256" "length (pw1_w w) = 256 * 256" "length (pw1_b w) = 256"
      "length (dw2_w w) = 256 * 9" "length (dw2_b w) = 256" "length (pw2_w w) = 256 * 256"
      "length (pw2_b w) = 256" "length (linear_w w) = d * (256 * f3)" "length (linear_b w) = d"
    using shaped by (simp_all add: subsample_shaped_def f3)
  have c: "(256 :: nat) \<le> 2 ^ 8" and c0: "(0 :: nat) < 256" by simp_all
  note b1 = stage_buffer [OF le(1,4)] and b2 = stage_buffer [OF le(2,5)] and b3 = stage_buffer [OF le(3,6)]
  obtain buf1 where buf1: "conv2d im 1 ?F ?M (conv0_w w) (Some (conv0_b w)) 256 (3, 3) (2, 2) (1, 1)
      (replicate (256 * t1 * f1) 0) = Ok buf1" "length buf1 = 256 * t1 * f1"
    by (rule conv2d_returns [OF im w(1,2) c0 c stages(1,4) length_replicate size(1,3,2,4)])
  have r1: "length (relu_inplace buf1) = 256 * t1 * f1" using buf1(2) by simp
  obtain dw where dw: "depthwise_conv2d (relu_inplace buf1) 256 t1 f1 (dw1_w w) (Some (dw1_b w)) (3, 3) (2, 2) (1, 1)
      (replicate (256 * t2 * f2) 0) = Ok dw" "length dw = 256 * t2 * f2"
    by (rule depthwise_returns [OF r1 w(3,4) c stages(2,5) length_replicate b1(3,4) b2(3,4)])
  obtain buf2 where buf2: "pointwise lin dw 256 (t2 * f2) (pw1_w w) (pw1_b w) (replicate (256 * t2 * f2) 0) = Ok buf2"
      "length buf2 = 256 * t2 * f2"
    by (rule pointwise_returns [OF w(5,6) c0 c b2(5), of dw "replicate (256 * t2 * f2) 0"]) (simp only: length_replicate)
  have r2: "length (relu_inplace buf2) = 256 * t2 * f2" using buf2(2) by simp
  obtain dw2 where dw2: "depthwise_conv2d (relu_inplace buf2) 256 t2 f2 (dw2_w w) (Some (dw2_b w)) (3, 3) (2, 2) (1, 1)
      (replicate (256 * t3 * f3) 0) = Ok dw2" "length dw2 = 256 * t3 * f3"
    by (rule depthwise_returns [OF r2 w(7,8) c stages(3,6) length_replicate b2(3,4) b3(3,4)])
  obtain buf3 where buf3: "pointwise lin dw2 256 (t3 * f3) (pw2_w w) (pw2_b w) (replicate (256 * t3 * f3) 0) = Ok buf3"
      "length buf3 = 256 * t3 * f3"
    by (rule pointwise_returns [OF w(9,10) c0 c b3(5), of dw2 "replicate (256 * t3 * f3) 0"]) (simp only: length_replicate)
  define rows where "rows = foldl (\<lambda>rows t. foldl (\<lambda>rows ch. foldl (\<lambda>rows i.
      rows[t * (256 * f3) + ch * f3 + i := relu_inplace buf3 ! ((ch * t3 + t) * f3 + i)]) rows [0..<f3])
      rows [0..<256]) (replicate (t3 * (256 * f3)) 0) [0..<t3]"
  have rows: "length rows = t3 * (256 * f3)" by (simp add: rows_def length_foldl_same)
  have flat: "d * (256 * f3) \<le> 2 ^ 28" using mult_le_mono [OF d(2), of "256 * f3" "2 ^ 16"] le(6) by simp
  have "t3 * (256 * f3) \<le> 2 ^ 56" using b3(5) by (simp add: ac_simps)
  note rows_buffer = pair_buffer [OF le(3) this]
  have "t3 * d \<le> 2 ^ 56" using mult_le_mono [OF le(3) d(2)] by simp
  note values_buffer = pair_buffer [OF le(3) this]
  have "d \<le> 2 ^ 40" "d * (256 * f3) \<le> 2 ^ 56" using d flat by simp_all
  note weight_extent = pair_buffer(1,3) [OF this]
  obtain vals where "lin rows t3 (256 * f3) (linear_w w) d (Some (linear_b w)) (replicate (t3 * d) 0) = Ok vals"
      "length vals = t3 * d"
    by (rule obtains_output [OF rows w(11,12) length_replicate d(1) _ rows_buffer(3) weight_extent(2)
          values_buffer(3)]) (use d(2) in \<open>auto simp: max64_def\<close>)
  then show thesis
    using that image stages b1(1,2) b2(1,2) b3(1,2) buf1(1) dw(1) buf2(1) dw2(1) buf3(1) w(11)
      rows_buffer(1,2) values_buffer(1,2) weight_extent(1)
    unfolding subsample_def subsample_channels_def Let_def im_def rows_def by simp
qed

end

section \<open>Stitching\<close>

text \<open>The encoder writes into a borrowed slice, whose length it cannot change.\<close>

definition keeps_rows :: "(f32 list \<Rightarrow> usize \<Rightarrow> f32 list res) \<Rightarrow> bool" where
  "keeps_rows encode \<longleftrightarrow> (\<forall>x n y. encode x n = Ok y \<longrightarrow> length y = length x)"

context linear_backend
begin

lemma encode_window_step:
  assumes ok: "features_ok features" "0 < pf_frames features" "4 * length (pf_values features) \<le> 2 ^ 63 - 1"
    and small: "4 * ((pf_frames features + 7) div 8 * d_model) \<le> 2 ^ 63 - 1"
    and keeps: "keeps_rows encode"
    and w: "window_ok ((pf_frames features + 7) div 8) chunk ctx w"
    and encoded: "encode_features lin encode weights (window_features features w) = Ok (hidden, produced)"
  shows "produced = ctx_end w - ctx_start w \<and> length hidden = produced * d_model \<and>
    encode_window lin encode weights features out w =
      Ok (out @ take ((body_end w - body_start w) * d_model)
        (drop ((body_start w - ctx_start w) * d_model) hidden))"
proof -
  note geo = window_geometry [OF w ok(2)]
  let ?F = "pf_frames features" and ?f = "window_features features w"
  have frames: "pf_frames ?f = min (8 * ctx_end w) ?F - 8 * ctx_start w"
    by (simp add: window_features_def Let_def)
  obtain s where s: "subsample lin ?f weights d_model = Ok s" "encode (ss_values s) (ss_frames s) = Ok hidden"
      "ss_frames s = produced"
    using encoded by (auto simp: encode_features_def res_simps)
  have produced: "produced = ctx_end w - ctx_start w" and hidden: "length hidden = produced * d_model"
    using subsample_frames [OF s(1)] geo(1,2) keeps s(2,3) by (simp_all add: frames keeps_rows_def)
  have "(ctx_start w * 8) \<le> max64" "(ctx_end w * 8) \<le> max64"
    using geo small by (simp_all add: d_model_def max64_def)
  then have "mel_range w ?F = Ok (8 * ctx_start w, min (8 * ctx_end w) ?F)"
    using geo(1) min_absorb1 [of "8 * ctx_start w" ?F] max_absorb1 [of "8 * ctx_start w" "min (8 * ctx_end w) ?F"]
    by (simp add: mel_range_def times_u64_def Let_def mult.commute [of _ 8])
  moreover have "slice_frames features (8 * ctx_start w, min (8 * ctx_end w) ?F) = Ok ?f"
    using slice_frames_rows [OF ok(1) geo(1) _ ok(3)] by (simp add: window_features_def Let_def)
  moreover have "keep_range w = Ok (body_start w - ctx_start w, body_end w - ctx_start w)"
    using geo(3,4) by (simp add: keep_range_def minus_u64_def)
  moreover have "body_end w - ctx_start w \<le> produced" unfolding produced using geo(5) by simp
  moreover from this have "(body_end w - ctx_start w) * d_model \<le> length hidden"
    unfolding hidden by (rule mult_le_mono1)
  moreover have le: "(body_start w - ctx_start w) * d_model \<le> (body_end w - ctx_start w) * d_model"
    using geo(4) by (intro mult_le_mono1) simp
  moreover have max: "(body_end w - ctx_start w) * d_model \<le> max64"
    using geo(5,6) small by (simp add: d_model_def max64_def)
  moreover have "(body_start w - ctx_start w) * d_model \<le> max64" using le max by (rule le_trans)
  moreover have "(body_end w - ctx_start w) * d_model - (body_start w - ctx_start w) * d_model =
      (body_end w - body_start w) * d_model"
    using geo(3,4) by (simp flip: diff_mult_distrib)
  ultimately have "encode_window lin encode weights features out w =
      Ok (out @ take ((body_end w - body_start w) * d_model)
        (drop ((body_start w - ctx_start w) * d_model) hidden))"
    using encoded by (simp add: encode_window_def times_u64_def slice_def)
  with produced hidden show ?thesis by blast
qed

lemma encode_audio_chunked_stitched:
  fixes total :: usize
  assumes total_def: "total = (pf_frames features + 7) div 8"
    and ok: "features_ok features" "0 < pf_frames features" "4 * length (pf_values features) \<le> 2 ^ 63 - 1"
    and small: "4 * (total * d_model) \<le> 2 ^ 63 - 1"
    and keeps: "keeps_rows encode"
    and plan: "plan_chunks total chunk ctx = Ok plan"
    and encoded: "\<And>w. w \<in> set plan \<Longrightarrow>
      encode_features lin encode weights (window_features features w) = Ok (hidden w, produced w)"
  shows "encode_audio_chunked lin encode weights (Ok features) chunk ctx =
    Ok (concat (map (\<lambda>w. take ((body_end w - body_start w) * d_model)
      (drop ((body_start w - ctx_start w) * d_model) (hidden w))) plan), total)"
proof -
  let ?piece = "\<lambda>w. take ((body_end w - body_start w) * d_model)
      (drop ((body_start w - ctx_start w) * d_model) (hidden w))"
  let ?step = "encode_window lin encode weights features"
  have chunk: "0 < chunk" using plan by (auto simp: plan_chunks_def res_simps)
  have tiles: "concat (map (\<lambda>w. [body_start w..<body_end w]) plan) = [0..<total]"
    "\<And>w. w \<in> set plan \<Longrightarrow> window_ok total chunk ctx w"
    using plan_from_tiles [OF chunk, of 0 total ctx] plan
    by (auto simp: plan_chunks_def split: if_splits)
  have step: "?step out w = Ok (out @ ?piece w)" "length (?piece w) = (body_end w - body_start w) * d_model"
    if w: "w \<in> set plan" for out w
  proof -
    note geo = window_geometry [OF tiles(2) [OF w, unfolded total_def] ok(2)]
    note result = encode_window_step [where out = out, OF ok small [unfolded total_def] keeps
        tiles(2) [OF w, unfolded total_def] encoded [OF w]]
    from result show "?step out w = Ok (out @ ?piece w)" by blast
    have "(body_start w - ctx_start w + (body_end w - body_start w)) * d_model \<le> length (hidden w)"
      using geo(3-5) result by (simp only: mult_le_mono1)
    then show "length (?piece w) = (body_end w - body_start w) * d_model"
      by (simp add: add_mult_distrib)
  qed
  have fold: "try_fold ?step out ws = Ok (out @ concat (map ?piece ws))" if "set ws \<subseteq> set plan" for out ws
    using that
  proof (induction ws arbitrary: out)
    case (Cons w ws)
    then show ?case using step(1) [of w out] by simp
  qed simp
  have "length (concat (map ?piece ws)) = length (concat (map (\<lambda>w. [body_start w..<body_end w]) ws)) * d_model"
    if "set ws \<subseteq> set plan" for ws
    using that
  proof (induction ws)
    case (Cons w ws)
    then show ?case using step(2) [of w] by (simp add: add_mult_distrib)
  qed simp
  from this [OF subset_refl] have len: "length (concat (map ?piece plan)) = total * d_model"
    unfolding tiles(1) by simp
  have "subsampled_frames (pf_frames features) = Ok total"
    unfolding total_def using small
    by (intro subsampled_frames_exact ok(2)) (simp add: total_def d_model_def max64_def)
  moreover have "total * d_model \<le> max64" using small by (simp add: max64_def)
  moreover have "total * d_model div d_model = total" by (simp add: d_model_def)
  ultimately show ?thesis
    using plan fold [OF subset_refl, of "[]"] len small
    by (simp add: encode_audio_chunked_def times_u64_def zeroed_vec_def Let_def)
qed

end

text \<open>The encoder succeeds on rows of the model's width.\<close>

definition encoder_returns :: "(f32 list \<Rightarrow> usize \<Rightarrow> f32 list res) \<Rightarrow> bool" where
  "encoder_returns encode \<longleftrightarrow> (\<forall>x n. length x = n * d_model \<and> 0 < n \<longrightarrow> is_ok (encode x n))"

text \<open>
  C39. Chunked encoding keeps the time axis: for features of at least one frame, weights of the
  right shapes and an encoder that succeeds, every chunk and context length whose sum with the
  number of frames does not overflow gives exactly one row per encoder frame, the number an
  unchunked encoding has. The rows of each window's body are the rows that the encoder gives for
  the slice of the features from 8 times the window's first frame on, so neither the error about
  the frame arithmetic nor the one about the stitched length can occur.
\<close>

theorem chunked_encoding_stitches:
  assumes "features_ok features" and frames: "0 < pf_frames features" "pf_frames features \<le> 2 ^ 40"
    and mel: "0 < pf_mel_bins features" "pf_mel_bins features \<le> 2 ^ 8"
    and shaped: "subsample_shaped weights (pf_mel_bins features) d_model"
    and encoder: "keeps_rows encode" "encoder_returns encode"
    and lengths: "0 < chunk" "(pf_frames features + 7) div 8 + chunk \<le> max64"
      "(pf_frames features + 7) div 8 + ctx \<le> max64"
  shows "\<exists>plan hidden. plan_chunks ((pf_frames features + 7) div 8) chunk ctx = Ok plan \<and>
    (\<forall>w \<in> set plan. encode_features (cpu_linear_out_by_in self) encode weights (window_features features w) =
      Ok (hidden w, ctx_end w - ctx_start w)) \<and>
    encode_audio_chunked (cpu_linear_out_by_in self) encode weights (Ok features) chunk ctx =
      Ok (concat (map (\<lambda>w. take ((body_end w - body_start w) * d_model)
        (drop ((body_start w - ctx_start w) * d_model) (hidden w))) plan), (pf_frames features + 7) div 8)"
proof -
  let ?F = "pf_frames features" and ?M = "pf_mel_bins features"
  let ?total = "(?F + 7) div 8" and ?lin = "cpu_linear_out_by_in self"
  have size: "4 * length (pf_values features) \<le> 2 ^ 63 - 1"
    using assms(1) mult_le_mono [OF mel(2) frames(2)] by (simp add: features_ok_def)
  have small: "4 * (?total * d_model) \<le> 2 ^ 63 - 1" using frames(2) by (simp add: d_model_def)
  have "plan_chunks ?total chunk ctx = plan_from ?total chunk ctx 0"
    using lengths(1) by (simp add: plan_chunks_def plan_from.simps [of 0 chunk ctx 0])
  moreover obtain plan where "plan_from ?total chunk ctx 0 = Ok plan"
    and windows: "\<And>w. w \<in> set plan \<Longrightarrow> window_ok ?total chunk ctx w"
    using plan_from_tiles [OF lengths(1), of 0 ?total ctx] lengths(2,3)
    by (cases "plan_from ?total chunk ctx 0") auto
  ultimately have plan: "plan_chunks ?total chunk ctx = Ok plan" by simp
  have "\<exists>hidden produced. encode_features ?lin encode weights (window_features features w) = Ok (hidden, produced)"
    if w: "w \<in> set plan" for w
  proof -
    note geo = window_geometry [OF windows [OF w] frames(1)]
    let ?f = "window_features features w"
    have f: "0 < pf_frames ?f" "pf_frames ?f \<le> 2 ^ 40" "pf_mel_bins ?f = ?M"
      using geo(1) frames(2) by (simp_all add: window_features_def Let_def)
    obtain s where s: "subsample ?lin ?f weights d_model = Ok s"
      by (rule cpu.subsample_returns [where f = ?f and w = weights and d = d_model])
        (use f mel shaped in \<open>simp_all add: d_model_def\<close>)
    have "is_ok (encode (ss_values s) (ss_frames s))"
      using cpu.subsample_frames [OF s f(1)] encoder(2) f(1) by (simp add: encoder_returns_def)
    with s show ?thesis by (auto simp: encode_features_def is_ok_iff)
  qed
  then obtain hidden produced where encoded: "\<And>w. w \<in> set plan \<Longrightarrow>
      encode_features ?lin encode weights (window_features features w) = Ok (hidden w, produced w)"
    by metis
  have "produced w = ctx_end w - ctx_start w" if "w \<in> set plan" for w
    using cpu.encode_window_step [OF assms(1) frames(1) size small encoder(1) windows [OF that] encoded [OF that]]
    by blast
  then show ?thesis
    using plan encoded
      cpu.encode_audio_chunked_stitched [OF refl assms(1) frames(1) size small encoder(1) plan encoded]
    by auto
qed

section \<open>An example\<close>

definition example_subsample :: subsample_weights where
  "example_subsample =
     \<lparr>conv0_w = replicate (256 * 9) 0, conv0_b = replicate 256 0, dw1_w = replicate (256 * 9) 0,
      dw1_b = replicate 256 0, pw1_w = replicate (256 * 256) 0, pw1_b = replicate 256 0,
      dw2_w = replicate (256 * 9) 0, dw2_b = replicate 256 0, pw2_w = replicate (256 * 256) 0,
      pw2_b = replicate 256 0, linear_w = replicate (d_model * 256) 0, linear_b = replicate d_model 0\<rparr>"

definition example_features :: parakeet_features where
  "example_features = \<lparr>pf_frames = 100, pf_mel_bins = 8, pf_values = replicate 800 0\<rparr>"

theorem chunked_encoding_stitches_witness:
  "\<exists>out. encode_audio_chunked (cpu_linear_out_by_in cpu_scalar) (\<lambda>x n. Ok x) example_subsample
    (Ok example_features) 5 2 = Ok (out, 13)"
proof -
  have "subsample_shaped example_subsample (pf_mel_bins example_features) d_model"
    by (simp add: subsample_shaped_def example_subsample_def example_features_def)
  from chunked_encoding_stitches [OF _ _ _ _ _ this, of "\<lambda>x n. Ok x" 5 2 cpu_scalar]
  show ?thesis
    by (auto simp: features_ok_def example_features_def keeps_rows_def encoder_returns_def max64_def)
qed

end
