(* ===== verification/Row_Major.thy ===== *)
theory Row_Major imports Kernel_Base
begin

text \<open>
  Row-major buffers as lists of rows: a kernel that works row by row is stated on the rows, and
  a buffer is their concatenation. The lemmas are the indexing of such a buffer and the slices
  that are its rows.
\<close>

definition row_list :: "nat \<Rightarrow> 'a list list \<Rightarrow> bool" where
  "row_list w R \<longleftrightarrow> (\<forall>r \<in> set R. length r = w)"

lemma row_list_simps [simp]:
  "row_list w []" "row_list w (r # R) \<longleftrightarrow> length r = w \<and> row_list w R"
  "row_list w (R @ S) \<longleftrightarrow> row_list w R \<and> row_list w S"
  by (auto simp: row_list_def)

lemma row_list_map [simp]: "row_list w (map f xs) \<longleftrightarrow> (\<forall>x \<in> set xs. length (f x) = w)"
  by (simp add: row_list_def)

lemma row_list_take [simp]: "row_list w R \<Longrightarrow> row_list w (take n R)"
  by (auto simp: row_list_def dest: in_set_takeD)

lemma row_list_nth [simp]: "row_list w R \<Longrightarrow> i < length R \<Longrightarrow> length (R ! i) = w"
  by (simp add: row_list_def)

lemma length_concat_rows [simp]: "row_list w R \<Longrightarrow> length (concat R) = length R * w"
  by (induction R) simp_all

lemma nth_concat_rows:
  "row_list w R \<Longrightarrow> i < length R \<Longrightarrow> j < w \<Longrightarrow> concat R ! (i * w + j) = R ! i ! j"
proof (induction R arbitrary: i)
  case (Cons r R)
  then show ?case by (cases i) (simp_all add: nth_append add.assoc)
qed simp

lemma drop_concat_rows: "row_list w R \<Longrightarrow> drop (i * w) (concat R) = concat (drop i R)"
proof (induction R arbitrary: i)
  case (Cons r R)
  then show ?case by (cases i) simp_all
qed simp

lemma take_concat_rows: "row_list w R \<Longrightarrow> take (i * w) (concat R) = concat (take i R)"
proof (induction R arbitrary: i)
  case (Cons r R)
  then show ?case by (cases i) simp_all
qed simp

lemma slice_concat_row:
  assumes "row_list w R" "i < length R"
  shows "slice (concat R) (i * w) (i * w + w) = Ok (R ! i)"
proof -
  have "concat (drop i R) = R ! i @ concat (drop (Suc i) R)"
    using assms(2) by (simp flip: Cons_nth_drop_Suc)
  then show ?thesis
    using assms row_in_range [of i "length R" w]
    by (simp add: slice_def drop_concat_rows [OF assms(1)])
qed

text \<open>A buffer is read back as rows, and a row is replaced in place.\<close>

definition rows_of :: "nat \<Rightarrow> nat \<Rightarrow> 'a list \<Rightarrow> 'a list list" where
  "rows_of m w xs = map (\<lambda>i. take w (drop (i * w) xs)) [0..<m]"

lemma rows_of_concat: "row_list w R \<Longrightarrow> rows_of (length R) w (concat R) = R"
proof (rule nth_equalityI)
  fix i
  assume R: "row_list w R" and "i < length (rows_of (length R) w (concat R))"
  then have i: "i < length R" by (simp add: rows_of_def)
  then have "concat (drop i R) = R ! i @ concat (drop (Suc i) R)"
    by (simp flip: Cons_nth_drop_Suc)
  then show "rows_of (length R) w (concat R) ! i = R ! i"
    using R i by (simp add: rows_of_def drop_concat_rows [OF R])
qed (simp add: rows_of_def)

lemma row_list_rows_of: "length xs = m * w \<Longrightarrow> row_list w (rows_of m w xs)"
  using row_in_range [of _ m w] by (fastforce simp: rows_of_def)

lemma concat_rows_of: "length xs = m * w \<Longrightarrow> concat (rows_of m w xs) = xs"
proof -
  have "concat (rows_of m w xs) = take (m * w) xs" if "m * w \<le> length xs" for m
    using that
  proof (induction m)
    case (Suc m)
    have "take (Suc m * w) xs = take (m * w) xs @ take w (drop (m * w) xs)"
      using take_add [of "m * w" w xs] by (simp add: add.commute)
    with Suc show ?case by (simp add: rows_of_def)
  qed (simp add: rows_of_def)
  then show "length xs = m * w \<Longrightarrow> concat (rows_of m w xs) = xs" by simp
qed

lemma length_rows_of [simp]: "length (rows_of m w xs) = m"
  by (simp add: rows_of_def)

lemma concat_map_upt: "concat (map (\<lambda>i. f (R ! i)) [0..<length R]) = concat (map f R)"
  by (rule arg_cong [where f = concat]) (rule nth_equalityI, simp_all)

lemma concat_update_row:
  assumes "row_list w R" "i < length R" "length r = w"
  shows "take (i * w) (concat R) @ r @ drop (i * w + w) (concat R) = concat (R[i := r])"
proof -
  have "drop (i * w + w) (concat R) = concat (drop (Suc i) R)"
    using drop_concat_rows [OF assms(1), of "Suc i"] by (simp add: add.commute)
  then show ?thesis using assms by (simp add: take_concat_rows upd_conv_take_nth_drop)
qed

section \<open>Loops over rows\<close>

lemma nth_row_slice: "base + n \<le> length xs \<Longrightarrow> d < n \<Longrightarrow> take n (drop base xs) ! d = xs ! (base + d)"
  by simp

lemma upt_shift: "[b..<b + n] = map ((+) b) [0..<n]"
  by (rule nth_equalityI) simp_all

lemma foldl_cong_inv:
  assumes "P s" and "\<And>s x. P s \<Longrightarrow> x \<in> set xs \<Longrightarrow> f s x = g s x \<and> P (g s x)"
  shows "foldl f s xs = foldl g s xs \<and> P (foldl g s xs)"
  using assms
proof (induction xs arbitrary: s)
  case (Cons x xs)
  then have "f s x = g s x" "P (g s x)" by simp_all
  then show ?case using Cons.IH [of "g s x"] Cons.prems(2) by simp
qed simp

lemma concat_rows_map:
  assumes "0 < w"
  shows "concat (map (\<lambda>i. map (f i) [0..<w]) [a..<a + r]) =
    map (\<lambda>x. f (x div w) (x mod w)) [a * w..<a * w + r * (w :: nat)]"
proof (induction r)
  case (Suc r)
  have "[a * w..<a * w + Suc r * w] = [a * w..<a * w + r * w] @ map ((+) ((a + r) * w)) [0..<w]"
    using upt_add_eq_append [of "a * w" "a * w + r * w" w] upt_shift [of "(a + r) * w" w]
    by (simp add: algebra_simps)
  then show ?case using Suc assms by simp
qed simp

lemma le_product: "0 < b \<Longrightarrow> a * b \<le> c \<Longrightarrow> a \<le> (c :: nat)"
  by (metis One_nat_def Suc_leI le_trans mult.right_neutral mult_le_mono2)

text \<open>A loop that overwrites one row after the other.\<close>

lemma foldl_rows:
  assumes "length out = m * w"
    and "\<And>i out. i < m \<Longrightarrow> length out = m * w \<Longrightarrow>
      step out i = take (i * w) out @ g i @ drop (i * w + w) out"
    and "\<And>i. i < m \<Longrightarrow> length (g i) = w"
  shows "foldl step out [0..<m] = concat (map g [0..<m])"
proof -
  have "foldl step out [0..<n] = concat (map g [0..<n]) @ drop (n * w) out" if "n \<le> m" for n
    using that
  proof (induction n)
    case (Suc n)
    let ?done = "concat (map g [0..<n])"
    have len: "length ?done = n * w"
      using length_concat_rows [of w "map g [0..<n]"] assms(3) Suc.prems by simp
    have "n * w + w \<le> m * w" using row_in_range [of n m w] Suc.prems by simp
    then have "step (?done @ drop (n * w) out) n = ?done @ g n @ drop (Suc n * w) out"
      using assms(2) [of n "?done @ drop (n * w) out"] Suc.prems len assms(1) by (simp add: add.commute)
    then show ?case using Suc by simp
  qed simp
  from this [of m] show ?thesis using assms(1) by simp
qed

end
