(* ===== verification/F64_Arith.thy ===== *)
theory F64_Arith imports F32_Arith
begin

text \<open>
  The double-precision operations of the reductions and the conversions between \<open>f32\<close>, \<open>f64\<close>
  and machine integers, and the square root of \<open>f32\<close>: as in \<open>F32_Arith\<close> each is the exact result
  rounded to the nearest number with ties to even. The lemmas give the integer square root its
  meaning.
\<close>

section \<open>Double precision\<close>

definition f64_magnitude :: "f64 \<Rightarrow> nat" where
  "f64_magnitude x = unat x mod 2 ^ 63"

definition f64_negative :: "f64 \<Rightarrow> bool" where
  "f64_negative x \<longleftrightarrow> 2 ^ 63 \<le> unat x"

definition f64_is_infinite :: "f64 \<Rightarrow> bool" where
  "f64_is_infinite x \<longleftrightarrow> f64_magnitude x = 2047 * 2 ^ 52"

definition f64_nan :: f64 where
  "f64_nan = 0x7FF8000000000000"

definition f64_rat :: "f64 \<Rightarrow> rat" where
  "f64_rat x =
     (let e = f64_magnitude x div 2 ^ 52; m = f64_magnitude x mod 2 ^ 52;
          v = (if e = 0 then of_nat m else of_nat ((2 ^ 52 + m) * 2 ^ (e - 1))) / 2 ^ 1074
      in if f64_negative x then - v else v)"

text \<open>The binary places dropped to keep 53 significant bits.\<close>

fun f64_excess_bits :: "nat \<Rightarrow> nat" where
  "f64_excess_bits n = (if n < 2 ^ 53 then 0 else Suc (f64_excess_bits (n div 2)))"

declare f64_excess_bits.simps [simp del]

definition f64_with_sign :: "bool \<Rightarrow> nat \<Rightarrow> f64" where
  "f64_with_sign s code = word_of_nat ((if s then 2 ^ 63 else 0) + code)"

definition f64_round :: "bool \<Rightarrow> rat \<Rightarrow> f64" where
  "f64_round zero_sign r =
     (if r = 0 then f64_with_sign zero_sign 0
      else
        let q = \<bar>r\<bar> * 2 ^ 1074;
            e = f64_excess_bits (nat \<lfloor>q\<rfloor>);
            code = e * 2 ^ 52 + round_half_even (q / 2 ^ e) in
        f64_with_sign (r < 0) (if 2047 * 2 ^ 52 \<le> code then 2047 * 2 ^ 52 else code))"

definition f64_add :: "f64 \<Rightarrow> f64 \<Rightarrow> f64" where
  "f64_add x y =
     (if f64_is_nan x \<or> f64_is_nan y then f64_nan
      else if f64_is_infinite x then
        if f64_is_infinite y \<and> f64_negative x \<noteq> f64_negative y then f64_nan else x
      else if f64_is_infinite y then y
      else f64_round (f64_negative x \<and> f64_negative y) (f64_rat x + f64_rat y))"

definition f64_div :: "f64 \<Rightarrow> f64 \<Rightarrow> f64" where
  "f64_div x y =
     (let s = (f64_negative x \<noteq> f64_negative y) in
      if f64_is_nan x \<or> f64_is_nan y then f64_nan
      else if f64_is_infinite x then
        if f64_is_infinite y then f64_nan else f64_with_sign s (2047 * 2 ^ 52)
      else if f64_is_infinite y then f64_with_sign s 0
      else if f64_magnitude y = 0 then
        if f64_magnitude x = 0 then f64_nan else f64_with_sign s (2047 * 2 ^ 52)
      else f64_round s (f64_rat x / f64_rat y))"

section \<open>Conversions\<close>

text \<open>\<open>f64::from(x)\<close>, \<open>x as f32\<close>, \<open>n as f64\<close> and \<open>n as f32\<close> for a \<open>usize\<close> \<open>n\<close>.\<close>

definition f64_of_f32 :: "f32 \<Rightarrow> f64" where
  "f64_of_f32 x =
     (if f32_is_nan x then f64_nan
      else if f32_is_infinite x then f64_with_sign (f32_negative x) (2047 * 2 ^ 52)
      else f64_round (f32_negative x) (f32_rat x))"

definition f32_of_f64 :: "f64 \<Rightarrow> f32" where
  "f32_of_f64 x =
     (if f64_is_nan x then f32_nan
      else if f64_is_infinite x then f32_infinity (f64_negative x)
      else f32_round (f64_negative x) (f64_rat x))"

definition f64_of_usize :: "nat \<Rightarrow> f64" where
  "f64_of_usize n = f64_round False (of_nat n)"

definition f32_of_usize :: "nat \<Rightarrow> f32" where
  "f32_of_usize n = f32_round False (of_nat n)"

section \<open>The square root\<close>

fun isqrt :: "nat \<Rightarrow> nat" where
  "isqrt n =
     (if n = 0 then 0
      else let r = 2 * isqrt (n div 4) in if (r + 1) * (r + 1) \<le> n then r + 1 else r)"

declare isqrt.simps [simp del]

lemma isqrt_bounds: "isqrt n * isqrt n \<le> n \<and> n < (isqrt n + 1) * (isqrt n + 1)"
proof (induction n rule: isqrt.induct)
  case (1 n)
  show ?case
  proof (cases "n = 0")
    case True
    then show ?thesis by (simp add: isqrt.simps)
  next
    case False
    define s where "s = isqrt (n div 4)"
    have s: "s * s \<le> n div 4" "n div 4 < (s + 1) * (s + 1)" using 1 False by (simp_all add: s_def)
    have low: "(2 * s) * (2 * s) \<le> n" using s(1) by simp
    have "n div 4 + 1 \<le> (s + 1) * (s + 1)" using s(2) by simp
    then have "4 * (n div 4) + 4 \<le> 4 * ((s + 1) * (s + 1))" by simp
    then have "n < 4 * ((s + 1) * (s + 1))" by linarith
    then have high: "n < (2 * s + 1 + 1) * (2 * s + 1 + 1)" by (simp add: algebra_simps)
    have "isqrt n = (if (2 * s + 1) * (2 * s + 1) \<le> n then 2 * s + 1 else 2 * s)"
      using False by (simp add: isqrt.simps [of n] s_def Let_def)
    then show ?thesis using low high by (simp split: if_splits)
  qed
qed

lemma isqrt_square [simp]: "isqrt (n * n) = n"
proof (rule ccontr)
  let ?r = "isqrt (n * n)"
  assume "?r \<noteq> n"
  then consider "Suc ?r \<le> n" | "Suc n \<le> ?r" by linarith
  then show False
  proof cases
    case 1
    from mult_le_mono [OF this this] show False using isqrt_bounds [of "n * n"] by simp
  next
    case 2
    from mult_le_mono [OF this this] show False using isqrt_bounds [of "n * n"] by simp
  qed
qed

text \<open>
  A positive number is \<open>u\<close> units of \<open>2^-149\<close>, and its root the root of \<open>u * 2^149\<close> of them. That
  is at least \<open>2^74\<close>, so the halfway points of the rounding are whole units, and a root
  that is not whole rounds as any number between the same two units.
\<close>

definition f32_sqrt :: "f32 \<Rightarrow> f32" where
  "f32_sqrt x =
     (if f32_is_nan x then f32_nan
      else if f32_is_zero x then x
      else if f32_negative x then f32_nan
      else if f32_is_infinite x then x
      else
        let n = f32_units (f32_magnitude x) * 2 ^ 149; s = isqrt n in
        f32_with_sign False (f32_code_of_units (if s * s = n then of_nat s else of_nat s + 1 / 2)))"

end
