(* ===== verification/Attention_Kernels.thy ===== *)
theory Attention_Kernels imports Row_Major F64_Arith
begin

text \<open>
  Scaled dot-product attention over grouped heads (src/crates/kernels/src/attention.rs, and
  softmax of lib.rs): the causal, windowed, bidirectional and incremental kernels, with the
  scalar and the optimized body of each and the dispatcher over the thread pool. The
  exponential of the platform is the parameter \<open>expf\<close>. A body keeps the scores of one head in a
  scratch buffer, which is part of its state. The lemmas show that every body gives the
  same values cell by cell.
\<close>

section \<open>Softmax\<close>

definition softmax :: "(f32 \<Rightarrow> f32) \<Rightarrow> f32 list \<Rightarrow> f32 list" where
  "softmax expf x =
     (if x = [] then []
      else
        let mx = foldl (\<lambda>mx v. if f32_gt v mx then v else mx) (x ! 0) (drop 1 x);
            e = map (\<lambda>v. expf (f32_sub v mx)) x;
            sum = foldl f32_add 0 e;
            inv_sum = f32_div f32_one sum in
        map (\<lambda>v. f32_mul v inv_sum) e)"

lemma length_softmax [simp]: "length (softmax expf x) = length x"
  by (simp add: softmax_def Let_def)

section \<open>Validation\<close>

definition validate_scaled_dot_product_attention ::
    "f32 list \<Rightarrow> f32 list \<Rightarrow> f32 list \<Rightarrow> usize \<Rightarrow> usize \<Rightarrow> usize \<Rightarrow> usize \<Rightarrow> f32 list \<Rightarrow> usize res" where
  "validate_scaled_dot_product_attention q k v seq_len num_q_heads num_kv_heads head_dim out =
     (if head_dim = 0 then kernel_err ''scaled_dot_product_attention head_dim must be non-zero''
      else if seq_len = 0 then kernel_err ''scaled_dot_product_attention seq_len must be non-zero''
      else if num_q_heads = 0
      then kernel_err ''scaled_dot_product_attention num_q_heads must be non-zero''
      else if num_kv_heads = 0
      then kernel_err ''scaled_dot_product_attention num_kv_heads must be non-zero''
      else if num_q_heads mod num_kv_heads \<noteq> 0
      then kernel_err ''scaled_dot_product_attention num_q_heads ({num_q_heads}) must be a positive multiple of num_kv_heads ({num_kv_heads})''
      else
        and_then (checked_len_product ''scaled_dot_product_attention'' ''q/out''
            [seq_len, num_q_heads, head_dim]) (\<lambda>q_total.
        and_then (checked_len_product ''scaled_dot_product_attention'' ''k/v''
            [seq_len, num_kv_heads, head_dim]) (\<lambda>kv_total.
        if length q \<noteq> q_total
        then kernel_err ''scaled_dot_product_attention q.len()={} does not match seq_len*num_q_heads*head_dim={}*{}*{}={}''
        else if length k \<noteq> kv_total
        then kernel_err ''scaled_dot_product_attention k.len()={} does not match seq_len*num_kv_heads*head_dim={}*{}*{}={}''
        else if length v \<noteq> kv_total
        then kernel_err ''scaled_dot_product_attention v.len()={} does not match seq_len*num_kv_heads*head_dim={}*{}*{}={}''
        else if length out \<noteq> q_total
        then kernel_err ''scaled_dot_product_attention out.len()={} does not match seq_len*num_q_heads*head_dim={}*{}*{}={}''
        else Ok (num_q_heads div num_kv_heads))))"

definition validate_scaled_dot_product_attention_windowed ::
    "f32 list \<Rightarrow> f32 list \<Rightarrow> f32 list \<Rightarrow> usize \<Rightarrow> usize \<Rightarrow> usize \<Rightarrow> usize \<Rightarrow> usize \<Rightarrow> f32 list \<Rightarrow>
      usize res" where
  "validate_scaled_dot_product_attention_windowed q k v seq_len num_q_heads num_kv_heads head_dim
       sliding_window out =
     (if sliding_window = 0
      then kernel_err ''scaled_dot_product_attention_windowed sliding_window must be non-zero''
      else validate_scaled_dot_product_attention q k v seq_len num_q_heads num_kv_heads head_dim out)"

definition validate_attention_scale :: "string \<Rightarrow> f32 \<Rightarrow> unit res" where
  "validate_attention_scale kname scale =
     (if \<not> f32_is_finite scale then kernel_err (kname @ '' scale must be finite, got {scale}'') else Ok ())"

definition default_attention_scale :: "usize \<Rightarrow> f32" where
  "default_attention_scale head_dim = f32_div f32_one (f32_sqrt (f32_of_usize head_dim))"

section \<open>The bodies\<close>

text \<open>
  The scores of one head for the keys from \<open>start\<close> on, written into the first \<open>n\<close> positions of
  the scratch buffer, and the weighted sum of the values. The scalar bodies index the whole
  buffers; the optimized ones first borrow the row of a head as a slice.
\<close>

definition score_head ::
    "f32 list \<Rightarrow> f32 list \<Rightarrow> usize \<Rightarrow> usize \<Rightarrow> f32 \<Rightarrow> nat \<Rightarrow> nat \<Rightarrow> nat \<Rightarrow> nat \<Rightarrow> f32 list \<Rightarrow> f32 list" where
  "score_head q k num_kv_heads head_dim scale q_base kh start n scores =
     foldl (\<lambda>scores j.
       let k_base = ((start + j) * num_kv_heads + kh) * head_dim;
           acc = foldl (\<lambda>acc d. f32_add acc (f32_mul (q ! (q_base + d)) (k ! (k_base + d)))) 0 [0..<head_dim] in
       scores[j := f32_mul acc scale]) scores [0..<min n (length scores)]"

definition score_head_rows ::
    "f32 list \<Rightarrow> f32 list \<Rightarrow> usize \<Rightarrow> usize \<Rightarrow> f32 \<Rightarrow> nat \<Rightarrow> nat \<Rightarrow> nat \<Rightarrow> nat \<Rightarrow> f32 list \<Rightarrow> f32 list" where
  "score_head_rows q k num_kv_heads head_dim scale q_base kh start n scores =
     (let q_row = take head_dim (drop q_base q) in
      foldl (\<lambda>scores j.
        let k_base = ((start + j) * num_kv_heads + kh) * head_dim;
            k_row = take head_dim (drop k_base k);
            acc = foldl (\<lambda>acc d. f32_add acc (f32_mul (q_row ! d) (k_row ! d))) 0 [0..<head_dim] in
        scores[j := f32_mul acc scale]) scores [0..<min n (length scores)])"

definition weigh_head ::
    "f32 list \<Rightarrow> usize \<Rightarrow> usize \<Rightarrow> nat \<Rightarrow> nat \<Rightarrow> nat \<Rightarrow> f32 list \<Rightarrow> nat \<Rightarrow> f32 list \<Rightarrow> f32 list" where
  "weigh_head v num_kv_heads head_dim kh start n scores out_base out =
     (let out = foldl (\<lambda>out d. out[out_base + d := 0]) out [0..<head_dim] in
      foldl (\<lambda>out j.
        let p = scores ! j; v_base = ((start + j) * num_kv_heads + kh) * head_dim in
        foldl (\<lambda>out d. out[out_base + d := f32_add (out ! (out_base + d)) (f32_mul p (v ! (v_base + d)))])
          out [0..<head_dim]) out [0..<min n (length scores)])"

definition weigh_head_rows ::
    "f32 list \<Rightarrow> usize \<Rightarrow> usize \<Rightarrow> nat \<Rightarrow> nat \<Rightarrow> nat \<Rightarrow> f32 list \<Rightarrow> nat \<Rightarrow> f32 list \<Rightarrow> f32 list" where
  "weigh_head_rows v num_kv_heads head_dim kh start n scores out_base out =
     (let out_row = map (\<lambda>_. 0) (take head_dim (drop out_base out));
          out_row = foldl (\<lambda>out_row j.
            let p = scores ! j; v_base = ((start + j) * num_kv_heads + kh) * head_dim;
                v_row = take head_dim (drop v_base v) in
            foldl (\<lambda>out_row d. out_row[d := f32_add (out_row ! d) (f32_mul p (v_row ! d))])
              out_row [0..<head_dim]) out_row [0..<min n (length scores)] in
      take out_base out @ out_row @ drop (out_base + head_dim) out)"

text \<open>One head of one query position: scores, softmax over the visible ones, weighted sum.\<close>

definition attend_head ::
    "(f32 \<Rightarrow> f32) \<Rightarrow> f32 list \<Rightarrow> f32 list \<Rightarrow> f32 list \<Rightarrow> usize \<Rightarrow> usize \<Rightarrow> f32 \<Rightarrow> nat \<Rightarrow> nat \<Rightarrow> nat \<Rightarrow> nat \<Rightarrow> nat \<Rightarrow>
      f32 list \<times> f32 list \<Rightarrow> f32 list \<times> f32 list" where
  "attend_head expf q k v num_kv_heads head_dim scale q_base kh start n out_base = (\<lambda>(scores, out).
     let scores = score_head q k num_kv_heads head_dim scale q_base kh start n scores;
         scores = softmax expf (take n scores) @ drop n scores in
     (scores, weigh_head v num_kv_heads head_dim kh start n scores out_base out))"

definition attend_head_rows ::
    "(f32 \<Rightarrow> f32) \<Rightarrow> f32 list \<Rightarrow> f32 list \<Rightarrow> f32 list \<Rightarrow> usize \<Rightarrow> usize \<Rightarrow> f32 \<Rightarrow> nat \<Rightarrow> nat \<Rightarrow> nat \<Rightarrow> nat \<Rightarrow> nat \<Rightarrow>
      f32 list \<times> f32 list \<Rightarrow> f32 list \<times> f32 list" where
  "attend_head_rows expf q k v num_kv_heads head_dim scale q_base kh start n out_base = (\<lambda>(scores, out).
     let scores = score_head_rows q k num_kv_heads head_dim scale q_base kh start n scores;
         scores = softmax expf (take n scores) @ drop n scores in
     (scores, weigh_head_rows v num_kv_heads head_dim kh start n scores out_base out))"

text \<open>
  The four bodies loop over query positions and heads. A causal position \<open>i\<close> sees the keys up to
  \<open>i\<close>, a windowed one the last \<open>sliding_window\<close> of them; the saturating sums of the window
  cannot saturate below the length of a buffer.
\<close>

definition scaled_dot_product_attention_compute ::
    "(f32 \<Rightarrow> f32) \<Rightarrow> f32 list \<Rightarrow> f32 list \<Rightarrow> f32 list \<Rightarrow> nat \<Rightarrow> nat \<Rightarrow> usize \<Rightarrow> usize \<Rightarrow> usize \<Rightarrow> usize \<Rightarrow> f32 \<Rightarrow>
      f32 list \<Rightarrow> f32 list \<Rightarrow> f32 list" where
  "scaled_dot_product_attention_compute expf q k v i_start i_end num_q_heads num_kv_heads head_dim
       group_size scale scores out_chunk =
     snd (foldl (\<lambda>s i.
       let out_row_base = (i - i_start) * num_q_heads * head_dim in
       foldl (\<lambda>s h.
         let kh = h div group_size; q_base = (i * num_q_heads + h) * head_dim in
         attend_head expf q k v num_kv_heads head_dim scale q_base kh 0 (i + 1)
           (out_row_base + h * head_dim) s) s [0..<num_q_heads])
       (scores, out_chunk) [i_start..<i_end])"

definition scaled_dot_product_attention_windowed_compute ::
    "(f32 \<Rightarrow> f32) \<Rightarrow> f32 list \<Rightarrow> f32 list \<Rightarrow> f32 list \<Rightarrow> nat \<Rightarrow> nat \<Rightarrow> usize \<Rightarrow> usize \<Rightarrow> usize \<Rightarrow> usize \<Rightarrow> usize \<Rightarrow>
      f32 \<Rightarrow> f32 list \<Rightarrow> f32 list \<Rightarrow> f32 list" where
  "scaled_dot_product_attention_windowed_compute expf q k v i_start i_end num_q_heads num_kv_heads
       head_dim group_size sliding_window scale scores out_chunk =
     snd (foldl (\<lambda>s i.
       let out_row_base = (i - i_start) * num_q_heads * head_dim;
           visible_end = i + 1;
           visible_start = visible_end - sliding_window;
           visible_len = visible_end - visible_start in
       foldl (\<lambda>s h.
         let kh = h div group_size; q_base = (i * num_q_heads + h) * head_dim in
         attend_head expf q k v num_kv_heads head_dim scale q_base kh visible_start visible_len
           (out_row_base + h * head_dim) s) s [0..<num_q_heads])
       (scores, out_chunk) [i_start..<i_end])"

definition scaled_dot_product_attention_optimized_compute ::
    "(f32 \<Rightarrow> f32) \<Rightarrow> f32 list \<Rightarrow> f32 list \<Rightarrow> f32 list \<Rightarrow> nat \<Rightarrow> nat \<Rightarrow> usize \<Rightarrow> usize \<Rightarrow> usize \<Rightarrow> usize \<Rightarrow> f32 \<Rightarrow>
      f32 list \<Rightarrow> f32 list \<Rightarrow> f32 list" where
  "scaled_dot_product_attention_optimized_compute expf q k v i_start i_end num_q_heads num_kv_heads
       head_dim group_size scale scores out_chunk =
     snd (foldl (\<lambda>s i.
       let out_row_base = (i - i_start) * num_q_heads * head_dim in
       foldl (\<lambda>s h.
         let kh = h div group_size; q_base = (i * num_q_heads + h) * head_dim in
         attend_head_rows expf q k v num_kv_heads head_dim scale q_base kh 0 (i + 1)
           (out_row_base + h * head_dim) s) s [0..<num_q_heads])
       (scores, out_chunk) [i_start..<i_end])"

definition scaled_dot_product_attention_windowed_optimized_compute ::
    "(f32 \<Rightarrow> f32) \<Rightarrow> f32 list \<Rightarrow> f32 list \<Rightarrow> f32 list \<Rightarrow> nat \<Rightarrow> nat \<Rightarrow> usize \<Rightarrow> usize \<Rightarrow> usize \<Rightarrow> usize \<Rightarrow> usize \<Rightarrow>
      f32 \<Rightarrow> f32 list \<Rightarrow> f32 list \<Rightarrow> f32 list" where
  "scaled_dot_product_attention_windowed_optimized_compute expf q k v i_start i_end num_q_heads
       num_kv_heads head_dim group_size sliding_window scale scores out_chunk =
     snd (foldl (\<lambda>s i.
       let out_row_base = (i - i_start) * num_q_heads * head_dim;
           visible_end = i + 1;
           visible_start = visible_end - sliding_window;
           visible_len = visible_end - visible_start in
       foldl (\<lambda>s h.
         let kh = h div group_size; q_base = (i * num_q_heads + h) * head_dim in
         attend_head_rows expf q k v num_kv_heads head_dim scale q_base kh visible_start visible_len
           (out_row_base + h * head_dim) s) s [0..<num_q_heads])
       (scores, out_chunk) [i_start..<i_end])"

section \<open>The kernels\<close>

definition scaled_dot_product_attention ::
    "(f32 \<Rightarrow> f32) \<Rightarrow> f32 list \<Rightarrow> f32 list \<Rightarrow> f32 list \<Rightarrow> usize \<Rightarrow> usize \<Rightarrow> usize \<Rightarrow> usize \<Rightarrow> f32 list \<Rightarrow> f32 list res" where
  "scaled_dot_product_attention expf q k v seq_len num_q_heads num_kv_heads head_dim out =
     and_then (validate_scaled_dot_product_attention q k v seq_len num_q_heads num_kv_heads head_dim out) (\<lambda>group_size.
     let scale = default_attention_scale head_dim in
     and_then (zeroed_vec seq_len) (\<lambda>scores.
     Ok (scaled_dot_product_attention_compute expf q k v 0 seq_len num_q_heads
       num_kv_heads head_dim group_size scale scores out)))"

definition scaled_dot_product_attention_with_scale ::
    "(f32 \<Rightarrow> f32) \<Rightarrow> f32 list \<Rightarrow> f32 list \<Rightarrow> f32 list \<Rightarrow> usize \<Rightarrow> usize \<Rightarrow> usize \<Rightarrow> usize \<Rightarrow> f32 \<Rightarrow> f32 list \<Rightarrow> f32 list res" where
  "scaled_dot_product_attention_with_scale expf q k v seq_len num_q_heads num_kv_heads head_dim scale out =
     and_then (validate_scaled_dot_product_attention q k v seq_len num_q_heads num_kv_heads head_dim out) (\<lambda>group_size.
     and_then (validate_attention_scale ''scaled_dot_product_attention_with_scale'' scale) (\<lambda>_.
     and_then (zeroed_vec seq_len) (\<lambda>scores.
     Ok (scaled_dot_product_attention_compute expf q k v 0 seq_len num_q_heads
       num_kv_heads head_dim group_size scale scores out))))"

definition scaled_dot_product_attention_optimized ::
    "(f32 \<Rightarrow> f32) \<Rightarrow> f32 list \<Rightarrow> f32 list \<Rightarrow> f32 list \<Rightarrow> usize \<Rightarrow> usize \<Rightarrow> usize \<Rightarrow> usize \<Rightarrow> f32 list \<Rightarrow> f32 list res" where
  "scaled_dot_product_attention_optimized expf q k v seq_len num_q_heads num_kv_heads head_dim out =
     and_then (validate_scaled_dot_product_attention q k v seq_len num_q_heads num_kv_heads head_dim out) (\<lambda>group_size.
     let scale = default_attention_scale head_dim in
     and_then (zeroed_vec seq_len) (\<lambda>scores.
     Ok (scaled_dot_product_attention_optimized_compute expf q k v 0 seq_len num_q_heads
       num_kv_heads head_dim group_size scale scores out)))"

definition scaled_dot_product_attention_optimized_with_scale ::
    "(f32 \<Rightarrow> f32) \<Rightarrow> f32 list \<Rightarrow> f32 list \<Rightarrow> f32 list \<Rightarrow> usize \<Rightarrow> usize \<Rightarrow> usize \<Rightarrow> usize \<Rightarrow> f32 \<Rightarrow> f32 list \<Rightarrow> f32 list res" where
  "scaled_dot_product_attention_optimized_with_scale expf q k v seq_len num_q_heads num_kv_heads head_dim scale out =
     and_then (validate_scaled_dot_product_attention q k v seq_len num_q_heads num_kv_heads head_dim out) (\<lambda>group_size.
     and_then (validate_attention_scale ''scaled_dot_product_attention_optimized_with_scale'' scale) (\<lambda>_.
     and_then (zeroed_vec seq_len) (\<lambda>scores.
     Ok (scaled_dot_product_attention_optimized_compute expf q k v 0 seq_len num_q_heads
       num_kv_heads head_dim group_size scale scores out))))"

definition scaled_dot_product_attention_windowed ::
    "(f32 \<Rightarrow> f32) \<Rightarrow> f32 list \<Rightarrow> f32 list \<Rightarrow> f32 list \<Rightarrow> usize \<Rightarrow> usize \<Rightarrow> usize \<Rightarrow> usize \<Rightarrow> usize \<Rightarrow> f32 list \<Rightarrow> f32 list res" where
  "scaled_dot_product_attention_windowed expf q k v seq_len num_q_heads num_kv_heads head_dim sliding_window out =
     and_then (validate_scaled_dot_product_attention_windowed q k v seq_len num_q_heads num_kv_heads head_dim sliding_window out) (\<lambda>group_size.
     let scale = default_attention_scale head_dim in
     and_then (zeroed_vec (min sliding_window seq_len)) (\<lambda>scores.
     Ok (scaled_dot_product_attention_windowed_compute expf q k v 0 seq_len num_q_heads
       num_kv_heads head_dim group_size sliding_window scale scores out)))"

definition scaled_dot_product_attention_windowed_with_scale ::
    "(f32 \<Rightarrow> f32) \<Rightarrow> f32 list \<Rightarrow> f32 list \<Rightarrow> f32 list \<Rightarrow> usize \<Rightarrow> usize \<Rightarrow> usize \<Rightarrow> usize \<Rightarrow> usize \<Rightarrow> f32 \<Rightarrow> f32 list \<Rightarrow> f32 list res" where
  "scaled_dot_product_attention_windowed_with_scale expf q k v seq_len num_q_heads num_kv_heads head_dim sliding_window scale out =
     and_then (validate_scaled_dot_product_attention_windowed q k v seq_len num_q_heads num_kv_heads head_dim sliding_window out) (\<lambda>group_size.
     and_then (validate_attention_scale ''scaled_dot_product_attention_windowed_with_scale'' scale) (\<lambda>_.
     and_then (zeroed_vec (min sliding_window seq_len)) (\<lambda>scores.
     Ok (scaled_dot_product_attention_windowed_compute expf q k v 0 seq_len num_q_heads
       num_kv_heads head_dim group_size sliding_window scale scores out))))"

definition scaled_dot_product_attention_windowed_optimized ::
    "(f32 \<Rightarrow> f32) \<Rightarrow> f32 list \<Rightarrow> f32 list \<Rightarrow> f32 list \<Rightarrow> usize \<Rightarrow> usize \<Rightarrow> usize \<Rightarrow> usize \<Rightarrow> usize \<Rightarrow> f32 list \<Rightarrow> f32 list res" where
  "scaled_dot_product_attention_windowed_optimized expf q k v seq_len num_q_heads num_kv_heads head_dim sliding_window out =
     and_then (validate_scaled_dot_product_attention_windowed q k v seq_len num_q_heads num_kv_heads head_dim sliding_window out) (\<lambda>group_size.
     let scale = default_attention_scale head_dim in
     and_then (zeroed_vec (min sliding_window seq_len)) (\<lambda>scores.
     Ok (scaled_dot_product_attention_windowed_optimized_compute expf q k v 0 seq_len num_q_heads
       num_kv_heads head_dim group_size sliding_window scale scores out)))"

definition scaled_dot_product_attention_windowed_optimized_with_scale ::
    "(f32 \<Rightarrow> f32) \<Rightarrow> f32 list \<Rightarrow> f32 list \<Rightarrow> f32 list \<Rightarrow> usize \<Rightarrow> usize \<Rightarrow> usize \<Rightarrow> usize \<Rightarrow> usize \<Rightarrow> f32 \<Rightarrow> f32 list \<Rightarrow> f32 list res" where
  "scaled_dot_product_attention_windowed_optimized_with_scale expf q k v seq_len num_q_heads num_kv_heads head_dim sliding_window scale out =
     and_then (validate_scaled_dot_product_attention_windowed q k v seq_len num_q_heads num_kv_heads head_dim sliding_window out) (\<lambda>group_size.
     and_then (validate_attention_scale ''scaled_dot_product_attention_windowed_optimized_with_scale'' scale) (\<lambda>_.
     and_then (zeroed_vec (min sliding_window seq_len)) (\<lambda>scores.
     Ok (scaled_dot_product_attention_windowed_optimized_compute expf q k v 0 seq_len num_q_heads
       num_kv_heads head_dim group_size sliding_window scale scores out))))"

text \<open>Every query sees every key.\<close>

definition scaled_dot_product_attention_bidirectional_with_scale ::
    "(f32 \<Rightarrow> f32) \<Rightarrow> f32 list \<Rightarrow> f32 list \<Rightarrow> f32 list \<Rightarrow> usize \<Rightarrow> usize \<Rightarrow> usize \<Rightarrow> usize \<Rightarrow> f32 \<Rightarrow> f32 list \<Rightarrow> f32 list res" where
  "scaled_dot_product_attention_bidirectional_with_scale expf q k v seq_len num_q_heads num_kv_heads
       head_dim scale out =
     and_then (validate_scaled_dot_product_attention q k v seq_len num_q_heads num_kv_heads head_dim out)
       (\<lambda>group_size.
     and_then (zeroed_vec seq_len) (\<lambda>scores.
     Ok (snd (foldl (\<lambda>s i.
       foldl (\<lambda>s h.
         let kh = h div group_size; q_base = (i * num_q_heads + h) * head_dim;
             out_base = (i * num_q_heads + h) * head_dim in
         attend_head expf q k v num_kv_heads head_dim scale q_base kh 0 (length (fst s)) out_base s)
         s [0..<num_q_heads]) (scores, out) [0..<seq_len]))))"

definition scaled_dot_product_attention_bidirectional ::
    "(f32 \<Rightarrow> f32) \<Rightarrow> f32 list \<Rightarrow> f32 list \<Rightarrow> f32 list \<Rightarrow> usize \<Rightarrow> usize \<Rightarrow> usize \<Rightarrow> usize \<Rightarrow> f32 list \<Rightarrow> f32 list res" where
  "scaled_dot_product_attention_bidirectional expf q k v seq_len num_q_heads num_kv_heads head_dim out =
     scaled_dot_product_attention_bidirectional_with_scale expf q k v seq_len num_q_heads num_kv_heads
       head_dim (default_attention_scale head_dim) out"

text \<open>One query row over the rows of a cache.\<close>

definition scaled_dot_product_attention_incremental ::
    "(f32 \<Rightarrow> f32) \<Rightarrow> f32 list \<Rightarrow> f32 list \<Rightarrow> f32 list \<Rightarrow> usize \<Rightarrow> usize \<Rightarrow> usize \<Rightarrow> usize \<Rightarrow> f32 list \<Rightarrow> f32 list res" where
  "scaled_dot_product_attention_incremental expf q k v seq_len num_q_heads num_kv_heads head_dim out =
     (if head_dim = 0
      then kernel_err ''scaled_dot_product_attention_incremental head_dim must be non-zero''
      else if seq_len = 0
      then kernel_err ''scaled_dot_product_attention_incremental seq_len must be non-zero''
      else if num_q_heads = 0 \<or> num_kv_heads = 0
      then kernel_err ''scaled_dot_product_attention_incremental head counts must be non-zero''
      else if num_q_heads mod num_kv_heads \<noteq> 0
      then kernel_err ''scaled_dot_product_attention_incremental num_q_heads ({num_q_heads}) must be a positive multiple of num_kv_heads ({num_kv_heads})''
      else
        and_then (checked_len_product ''scaled_dot_product_attention_incremental'' ''q/out''
            [num_q_heads, head_dim]) (\<lambda>q_width.
        and_then (checked_len_product ''scaled_dot_product_attention_incremental'' ''k/v''
            [seq_len, num_kv_heads, head_dim]) (\<lambda>kv_total.
        if length q \<noteq> q_width
        then kernel_err ''scaled_dot_product_attention_incremental q.len()={actual} does not match expected {expected}''
        else if length k \<noteq> kv_total
        then kernel_err ''scaled_dot_product_attention_incremental k.len()={actual} does not match expected {expected}''
        else if length v \<noteq> kv_total
        then kernel_err ''scaled_dot_product_attention_incremental v.len()={actual} does not match expected {expected}''
        else if length out \<noteq> q_width
        then kernel_err ''scaled_dot_product_attention_incremental out.len()={actual} does not match expected {expected}''
        else
          let group_size = num_q_heads div num_kv_heads; scale = default_attention_scale head_dim in
          and_then (zeroed_vec seq_len) (\<lambda>scores.
          Ok (snd (foldl (\<lambda>s h.
            let kh = h div group_size; q_base = h * head_dim; out_base = h * head_dim in
            attend_head expf q k v num_kv_heads head_dim scale q_base kh 0 (length (fst s)) out_base s)
            (scores, out) [0..<num_q_heads]))))))"

text \<open>
  The dispatcher over the thread pool. Every chunk has its own scratch buffer of the same length,
  and a validated call has a chunk. The products of the chunk size are at most the length of
  the output and cannot overflow.
\<close>

definition attention_chunk ::
    "(f32 \<Rightarrow> f32) \<Rightarrow> cpu_kernel_mode \<Rightarrow> f32 list \<Rightarrow> f32 list \<Rightarrow> f32 list \<Rightarrow> usize \<Rightarrow> usize \<Rightarrow> usize \<Rightarrow> usize \<Rightarrow>
      f32 \<Rightarrow> f32 list \<Rightarrow> usize \<Rightarrow> nat \<Rightarrow> f32 list \<Rightarrow> f32 list" where
  "attention_chunk expf mode q k v num_q_heads num_kv_heads head_dim group_size scale scores
       rows_per_chunk idx out_chunk =
     (let i_start = idx * rows_per_chunk;
          chunk_rows = length out_chunk div (num_q_heads * head_dim);
          i_end = i_start + chunk_rows in
      case mode of
        Mode_Scalar \<Rightarrow>
          scaled_dot_product_attention_compute expf q k v i_start i_end num_q_heads num_kv_heads
            head_dim group_size scale scores out_chunk
      | Mode_Optimized \<Rightarrow>
          scaled_dot_product_attention_optimized_compute expf q k v i_start i_end num_q_heads
            num_kv_heads head_dim group_size scale scores out_chunk
      | Mode_Avx2 \<Rightarrow>
          scaled_dot_product_attention_optimized_compute expf q k v i_start i_end num_q_heads
            num_kv_heads head_dim group_size scale scores out_chunk)"

definition scaled_dot_product_attention_parallel ::
    "(f32 \<Rightarrow> f32) \<Rightarrow> usize \<Rightarrow> cpu_kernel_mode \<Rightarrow> f32 list \<Rightarrow> f32 list \<Rightarrow> f32 list \<Rightarrow> usize \<Rightarrow> usize \<Rightarrow>
      usize \<Rightarrow> usize \<Rightarrow> f32 list \<Rightarrow> f32 list res" where
  "scaled_dot_product_attention_parallel expf num_threads mode q k v seq_len num_q_heads num_kv_heads
       head_dim out =
     and_then (validate_scaled_dot_product_attention q k v seq_len num_q_heads num_kv_heads head_dim out)
       (\<lambda>group_size.
     let scale = default_attention_scale head_dim;
         threads = max num_threads 1;
         rows_per_chunk = max (div_ceil seq_len threads) 1;
         chunk_out_len = rows_per_chunk * num_q_heads * head_dim in
     and_then (zeroed_vec seq_len) (\<lambda>scores.
     par_chunks_mut chunk_out_len
       (attention_chunk expf mode q k v num_q_heads num_kv_heads head_dim group_size scale scores
         rows_per_chunk) out))"

section \<open>One value per cell\<close>

definition head_probs ::
    "(f32 \<Rightarrow> f32) \<Rightarrow> f32 list \<Rightarrow> f32 list \<Rightarrow> usize \<Rightarrow> usize \<Rightarrow> f32 \<Rightarrow> nat \<Rightarrow> nat \<Rightarrow> nat \<Rightarrow> nat \<Rightarrow> f32 list" where
  "head_probs expf q k nkv hdim scale q_base kh start n =
     softmax expf (map (\<lambda>j. f32_mul
       (foldl (\<lambda>acc d. f32_add acc (f32_mul (q ! (q_base + d)) (k ! (((start + j) * nkv + kh) * hdim + d)))) 0 [0..<hdim])
       scale) [0..<n])"

definition head_value :: "f32 list \<Rightarrow> usize \<Rightarrow> usize \<Rightarrow> nat \<Rightarrow> nat \<Rightarrow> f32 list \<Rightarrow> nat \<Rightarrow> f32" where
  "head_value v nkv hdim kh start probs d =
     foldl (\<lambda>acc j. f32_add acc (f32_mul (probs ! j) (v ! (((start + j) * nkv + kh) * hdim + d)))) 0
       [0..<length probs]"

lemma score_head_map:
  "n \<le> length scores \<Longrightarrow>
    score_head q k nkv hdim scale q_base kh start n scores =
      map (\<lambda>j. f32_mul (foldl (\<lambda>acc d. f32_add acc
        (f32_mul (q ! (q_base + d)) (k ! (((start + j) * nkv + kh) * hdim + d)))) 0 [0..<hdim]) scale) [0..<n] @
      drop n scores"
  unfolding score_head_def Let_def
  by (subst foldl_write) (simp add: min_def)

lemma head_value_take:
  "n \<le> length scores \<Longrightarrow> head_value v nkv hdim kh start (take n scores) d =
    foldl (\<lambda>acc j. f32_add acc (f32_mul (scores ! j) (v ! (((start + j) * nkv + kh) * hdim + d)))) 0 [0..<n]"
  unfolding head_value_def by (intro foldl_cong) auto

lemma weigh_head_map:
  assumes "out_base + hdim \<le> length out" and "n \<le> length scores"
  shows "weigh_head v nkv hdim kh start n scores out_base out =
    take out_base out @ map (head_value v nkv hdim kh start (take n scores)) [0..<hdim] @ drop (out_base + hdim) out"
proof -
  let ?z = "foldl (\<lambda>out d. out[out_base + d := 0]) out [0..<hdim]"
  have z: "?z = take out_base out @ map (\<lambda>_. 0) [0..<hdim] @ drop (out_base + hdim) out"
    using foldl_row [OF assms(1), of "\<lambda>_ _. 0"] by simp
  have len: "out_base + hdim \<le> length ?z" unfolding z using assms(1) by simp
  have zero: "?z ! (out_base + d) = 0" if "d < hdim" for d
    unfolding z using that assms(1) by (simp add: nth_append)
  have "min n (length scores) = n" using assms(2) by simp
  then show ?thesis
    unfolding weigh_head_def Let_def
    using foldl_row_steps [OF len, where h = "\<lambda>j d v'. f32_add v' (f32_mul (scores ! j) (v ! (((start + j) * nkv + kh) * hdim + d)))"
        and ps = "[0..<n]"] zero assms
    by (simp add: z head_value_take cong: map_cong)
qed

lemma attend_head_eq:
  assumes "out_base + hdim \<le> length out" and "n \<le> length scores"
  shows "attend_head expf q k v nkv hdim scale q_base kh start n out_base (scores, out) =
    (head_probs expf q k nkv hdim scale q_base kh start n @ drop n scores,
     take out_base out @
       map (head_value v nkv hdim kh start (head_probs expf q k nkv hdim scale q_base kh start n)) [0..<hdim] @
       drop (out_base + hdim) out)"
proof -
  let ?p = "head_probs expf q k nkv hdim scale q_base kh start n"
  have len: "length ?p = n" by (simp add: head_probs_def)
  have s: "softmax expf (take n (score_head q k nkv hdim scale q_base kh start n scores)) @
      drop n (score_head q k nkv hdim scale q_base kh start n scores) = ?p @ drop n scores"
    unfolding score_head_map [OF assms(2)] by (simp add: head_probs_def)
  show ?thesis
    unfolding attend_head_def Let_def prod.case s
    using weigh_head_map [OF assms(1), of n "?p @ drop n scores" v nkv kh start] len by simp
qed

text \<open>The rows of a head are its part of the buffers.\<close>

lemma weigh_head_rows_eq:
  assumes v: "\<And>j. j < n \<Longrightarrow> ((start + j) * nkv + kh) * hdim + hdim \<le> length v"
    and out: "out_base + hdim \<le> length out" and n: "n \<le> length scores"
  shows "weigh_head_rows v nkv hdim kh start n scores out_base out =
    weigh_head v nkv hdim kh start n scores out_base out"
proof -
  let ?zero = "map (\<lambda>_. 0) (take hdim (drop out_base out)) :: f32 list"
  have z: "length ?zero = hdim" using out by simp
  have "foldl (\<lambda>out_row j. foldl (\<lambda>out_row d. out_row[d := f32_add (out_row ! d)
        (f32_mul (scores ! j) (take hdim (drop (((start + j) * nkv + kh) * hdim) v) ! d))]) out_row [0..<hdim])
        ?zero [0..<n] =
      foldl (\<lambda>out_row j. foldl (\<lambda>out_row d. out_row[0 + d := f32_add (out_row ! (0 + d))
        (f32_mul (scores ! j) (v ! (((start + j) * nkv + kh) * hdim + d)))]) out_row [0..<hdim]) ?zero [0..<n]"
    by (intro foldl_cong refl) (simp add: nth_row_slice [OF v] del: nth_take)
  also have "\<dots> = map (head_value v nkv hdim kh start (take n scores)) [0..<hdim]"
    using foldl_row_steps [of 0 hdim ?zero, where h = "\<lambda>j d v'. f32_add v' (f32_mul (scores ! j) (v ! (((start + j) * nkv + kh) * hdim + d)))"
        and ps = "[0..<n]"] z n
    by (simp add: head_value_take cong: map_cong)
  finally show ?thesis
    using n by (simp add: weigh_head_rows_def Let_def weigh_head_map [OF out n] min_def)
qed

lemma attend_head_rows_eq:
  assumes q: "q_base + hdim \<le> length q"
    and k: "\<And>j. j < n \<Longrightarrow> ((start + j) * nkv + kh) * hdim + hdim \<le> length k"
    and v: "\<And>j. j < n \<Longrightarrow> ((start + j) * nkv + kh) * hdim + hdim \<le> length v"
    and out: "out_base + hdim \<le> length out" and n: "n \<le> length scores"
  shows "attend_head_rows expf q k v nkv hdim scale q_base kh start n out_base (scores, out) =
    attend_head expf q k v nkv hdim scale q_base kh start n out_base (scores, out)"
proof -
  have scores: "score_head_rows q k nkv hdim scale q_base kh start n scores =
      score_head q k nkv hdim scale q_base kh start n scores"
    unfolding score_head_rows_def score_head_def Let_def
    by (intro foldl_cong refl arg_cong [where f = "list_update _ _"] arg_cong2 [where f = f32_mul])
      (simp add: nth_row_slice [OF q] nth_row_slice [OF k] del: nth_take)
  let ?s = "softmax expf (take n (score_head q k nkv hdim scale q_base kh start n scores)) @
    drop n (score_head q k nkv hdim scale q_base kh start n scores)"
  have "n \<le> length ?s" using n by (simp add: score_head_map)
  from weigh_head_rows_eq [OF v out this] show ?thesis
    by (simp add: attend_head_rows_def attend_head_def scores Let_def)
qed

section \<open>Whole rows\<close>

text \<open>
  The value at position \<open>x\<close> of the output row of query position \<open>i\<close>, which sees \<open>n\<close> keys from
  \<open>start\<close> on.
\<close>

definition attention_cell ::
    "(f32 \<Rightarrow> f32) \<Rightarrow> f32 list \<Rightarrow> f32 list \<Rightarrow> f32 list \<Rightarrow> usize \<Rightarrow> usize \<Rightarrow> usize \<Rightarrow> f32 \<Rightarrow> nat \<Rightarrow> nat \<Rightarrow> nat \<Rightarrow>
      nat \<Rightarrow> f32" where
  "attention_cell expf q k v nq nkv hdim scale i start n x =
     (let h = x div hdim; kh = h div (nq div nkv) in
      head_value v nkv hdim kh start
        (head_probs expf q k nkv hdim scale ((i * nq + h) * hdim) kh start n) (x mod hdim))"

lemma attend_heads:
  assumes "base + m * hdim \<le> length out" and "n \<le> length scores" and "0 < hdim"
  shows "\<exists>scores'. length scores' = length scores \<and>
    foldl (\<lambda>s h. attend_head expf q k v nkv hdim scale ((i * nq + h) * hdim) (h div (nq div nkv)) start n
      (base + h * hdim) s) (scores, out) [0..<m] =
    (scores', take base out @ map (attention_cell expf q k v nq nkv hdim scale i start n) [0..<m * hdim] @
      drop (base + m * hdim) out)"
  using assms(1)
proof (induction m)
  case 0
  then show ?case by auto
next
  case (Suc m)
  let ?cells = "map (attention_cell expf q k v nq nkv hdim scale i start n)"
  let ?o = "take base out @ ?cells [0..<m * hdim] @ drop (base + m * hdim) out"
  from Suc obtain scores' where s: "length scores' = length scores"
    and IH: "foldl (\<lambda>s h. attend_head expf q k v nkv hdim scale ((i * nq + h) * hdim) (h div (nq div nkv))
        start n (base + h * hdim) s) (scores, out) [0..<m] = (scores', ?o)" by auto
  have o: "length ?o = length out" "base + m * hdim + hdim \<le> length ?o" using Suc.prems by simp_all
  have n: "n \<le> length scores'" using s assms(2) by simp
  have split: "[0..<Suc m * hdim] = [0..<m * hdim] @ map ((+) (m * hdim)) [0..<hdim]"
    using upt_add_eq_append [of 0 "m * hdim" hdim] upt_shift [of "m * hdim" hdim] by (simp add: add.commute)
  have cells: "?cells [0..<Suc m * hdim] = ?cells [0..<m * hdim] @
      map (head_value v nkv hdim (m div (nq div nkv)) start
        (head_probs expf q k nkv hdim scale ((i * nq + m) * hdim) (m div (nq div nkv)) start n)) [0..<hdim]"
    unfolding split using assms(3) by (simp add: attention_cell_def Let_def)
  have "take (base + m * hdim) ?o = take base out @ ?cells [0..<m * hdim]"
    "drop (base + m * hdim + hdim) ?o = drop (base + Suc m * hdim) out"
    using Suc.prems by (simp_all add: add.commute add.left_commute)
  then show ?case
    unfolding upt_Suc_append [OF le0] foldl_append IH foldl.simps attend_head_eq [OF o(2) n] cells
    using s n by (intro exI [of _ "_ @ _"]) (auto simp: head_probs_def)
qed

lemma attention_positions:
  assumes out: "length out = rows * (nq * hdim)" and "0 < hdim"
    and n: "\<And>r. r < rows \<Longrightarrow> len (i_start + r) \<le> length scores"
  shows "snd (foldl (\<lambda>s i. foldl (\<lambda>s h.
      attend_head expf q k v nkv hdim scale ((i * nq + h) * hdim) (h div (nq div nkv)) (st i) (len i)
        ((i - i_start) * nq * hdim + h * hdim) s) s [0..<nq]) (scores, out) [i_start..<i_start + rows]) =
    concat (map (\<lambda>i. map (attention_cell expf q k v nq nkv hdim scale i (st i) (len i)) [0..<nq * hdim])
      [i_start..<i_start + rows])"
proof -
  let ?row = "\<lambda>i. map (attention_cell expf q k v nq nkv hdim scale i (st i) (len i)) [0..<nq * hdim]"
  let ?step = "\<lambda>s i. foldl (\<lambda>s h.
    attend_head expf q k v nkv hdim scale ((i * nq + h) * hdim) (h div (nq div nkv)) (st i) (len i)
      ((i - i_start) * nq * hdim + h * hdim) s) s [0..<nq]"
  have "\<exists>scores'. length scores' = length scores \<and>
      foldl ?step (scores, out) [i_start..<i_start + r] =
        (scores', concat (map ?row [i_start..<i_start + r]) @ drop (r * (nq * hdim)) out)"
    if "r \<le> rows" for r
    using that
  proof (induction r)
    case (Suc r)
    let ?o = "concat (map ?row [i_start..<i_start + r]) @ drop (r * (nq * hdim)) out"
    from Suc obtain scores' where s: "length scores' = length scores"
      and IH: "foldl ?step (scores, out) [i_start..<i_start + r] = (scores', ?o)" by auto
    have full: "length (concat (map ?row [i_start..<i_start + r])) = r * (nq * hdim)"
      by (simp add: length_concat sum_list_triv o_def)
    have room: "r * (nq * hdim) + nq * hdim \<le> length out"
      unfolding out using Suc.prems row_in_range [of r rows "nq * hdim"] by simp
    then have base: "r * (nq * hdim) + nq * hdim \<le> length ?o" using full by simp
    have len: "len (i_start + r) \<le> length scores'" using n [of r] Suc.prems s by simp
    from attend_heads [OF base len \<open>0 < hdim\<close>, of expf q k v nkv scale "i_start + r" nq "st (i_start + r)"]
    show ?case using s IH full room by (auto simp: mult.assoc add.commute)
  qed auto
  from this [of rows] show ?thesis using out by auto
qed

text \<open>In range, borrowing the rows changes nothing.\<close>

lemma attention_positions_rows:
  assumes out: "length out = rows * (nq * hdim)"
    and n: "\<And>r. r < rows \<Longrightarrow> len (i_start + r) \<le> length scores"
    and q: "(i_start + rows) * (nq * hdim) \<le> length q"
    and k: "\<And>r. r < rows \<Longrightarrow> (st (i_start + r) + len (i_start + r)) * (nkv * hdim) \<le> length k"
    and v: "\<And>r. r < rows \<Longrightarrow> (st (i_start + r) + len (i_start + r)) * (nkv * hdim) \<le> length v"
    and heads: "\<And>h. h < nq \<Longrightarrow> h div (nq div nkv) < nkv"
  shows "foldl (\<lambda>s i. foldl (\<lambda>s h.
      attend_head_rows expf q k v nkv hdim scale ((i * nq + h) * hdim) (h div (nq div nkv)) (st i) (len i)
        ((i - i_start) * nq * hdim + h * hdim) s) s [0..<nq]) (scores, out) [i_start..<i_start + rows] =
    foldl (\<lambda>s i. foldl (\<lambda>s h.
      attend_head expf q k v nkv hdim scale ((i * nq + h) * hdim) (h div (nq div nkv)) (st i) (len i)
        ((i - i_start) * nq * hdim + h * hdim) s) s [0..<nq]) (scores, out) [i_start..<i_start + rows]"
proof -
  let ?P = "\<lambda>s :: f32 list \<times> f32 list. length (fst s) = length scores \<and> length (snd s) = length out"
  have rows: "(a * m + b) * hdim + hdim \<le> c * (m * hdim)" if "a < c" "b < m" for a b c m
  proof -
    have "(a * m + b) * hdim + hdim \<le> (a * m + m) * hdim" using row_in_range [of b m hdim] that by (simp add: algebra_simps)
    also have "\<dots> \<le> c * m * hdim" using row_in_range [of a c m] that by (intro mult_le_mono1) simp
    finally show ?thesis by (simp add: mult.assoc)
  qed
  define F where "F i h s = attend_head_rows expf q k v nkv hdim scale ((i * nq + h) * hdim)
    (h div (nq div nkv)) (st i) (len i) ((i - i_start) * nq * hdim + h * hdim) s" for i h s
  define G where "G i h s = attend_head expf q k v nkv hdim scale ((i * nq + h) * hdim)
    (h div (nq div nkv)) (st i) (len i) ((i - i_start) * nq * hdim + h * hdim) s" for i h s
  have step: "F i h s = G i h s \<and> ?P (G i h s)"
    if P: "?P s" and i: "i \<in> set [i_start..<i_start + rows]" and h: "h \<in> set [0..<nq]" for s i h
  proof -
    obtain sc o' where s: "s = (sc, o')" by fastforce
    obtain r where r: "i = i_start + r" "r < rows" using i by (metis atLeastLessThan_iff le_Suc_ex nat_add_left_cancel_less set_upt)
    have len: "len i \<le> length sc" using n [OF r(2)] P s r by simp
    have base: "(i - i_start) * nq * hdim + h * hdim + hdim \<le> length o'"
      using rows [OF r(2), of h nq] h P s r out by (simp add: algebra_simps)
    have qb: "(i * nq + h) * hdim + hdim \<le> length q"
      using rows [of i "i_start + rows" h nq] h r q by simp
    have kb: "((st i + j) * nkv + h div (nq div nkv)) * hdim + hdim \<le> length k" if "j < len i" for j
      using rows [of "st i + j" "st i + len i" "h div (nq div nkv)" nkv] heads [of h] h k [OF r(2)] r that by simp
    have vb: "((st i + j) * nkv + h div (nq div nkv)) * hdim + hdim \<le> length v" if "j < len i" for j
      using rows [of "st i + j" "st i + len i" "h div (nq div nkv)" nkv] heads [of h] h v [OF r(2)] r that by simp
    show ?thesis
      using attend_head_rows_eq [OF qb kb vb base len] attend_head_eq [OF base len] P base len
      unfolding s F_def G_def by (simp add: head_probs_def)
  qed
  have inner: "foldl (\<lambda>s h. F i h s) s [0..<nq] = foldl (\<lambda>s h. G i h s) s [0..<nq] \<and>
      ?P (foldl (\<lambda>s h. G i h s) s [0..<nq])"
    if "?P s" "i \<in> set [i_start..<i_start + rows]" for s i
    by (rule foldl_cong_inv [where P = ?P], rule that(1), rule step [OF _ that(2)])
  have "foldl (\<lambda>s i. foldl (\<lambda>s h. F i h s) s [0..<nq]) (scores, out) [i_start..<i_start + rows] =
      foldl (\<lambda>s i. foldl (\<lambda>s h. G i h s) s [0..<nq]) (scores, out) [i_start..<i_start + rows]"
    by (rule foldl_cong_inv [where P = ?P, THEN conjunct1], simp, rule inner)
  then show ?thesis unfolding F_def G_def .
qed

section \<open>The kernels on matching shapes\<close>

definition attention_shapes ::
    "f32 list \<Rightarrow> f32 list \<Rightarrow> f32 list \<Rightarrow> usize \<Rightarrow> usize \<Rightarrow> usize \<Rightarrow> usize \<Rightarrow> f32 list \<Rightarrow> bool" where
  "attention_shapes q k v seq nq nkv hdim out \<longleftrightarrow>
     0 < hdim \<and> 0 < seq \<and> 0 < nq \<and> 0 < nkv \<and> nkv dvd nq \<and>
     length q = seq * (nq * hdim) \<and> length k = seq * (nkv * hdim) \<and> length v = seq * (nkv * hdim) \<and>
     length out = seq * (nq * hdim) \<and> seq * (nq * hdim) \<le> max64"

lemma checked_len_product_triple:
  assumes "0 < b" "0 < c"
  shows "checked_len_product kname label [a, b, c] = Ok p \<longleftrightarrow> a * (b * c) \<le> max64 \<and> p = a * (b * c)"
    "checked_len_product kname label [a, b, c] \<noteq> Panic"
proof -
  have "a * b \<le> max64" "a \<le> max64" if "a * (b * c) \<le> max64"
    using le_product [of c "a * b" max64] le_product [of b a max64] assms that by (simp_all add: mult.assoc)
  then show "checked_len_product kname label [a, b, c] = Ok p \<longleftrightarrow> a * (b * c) \<le> max64 \<and> p = a * (b * c)"
    by (auto simp: checked_len_product_def checked_mul_def mult.assoc split: if_splits)
  show "checked_len_product kname label [a, b, c] \<noteq> Panic" by (simp add: checked_len_product_def)
qed

lemma kv_product_le:
  "0 < nq \<Longrightarrow> nkv dvd nq \<Longrightarrow> seq * (nq * hdim) \<le> m \<Longrightarrow> seq * (nkv * hdim) \<le> (m :: nat)"
  by (meson dvd_imp_le le_trans mult_le_mono1 mult_le_mono2)

lemma validate_attention_Ok:
  "validate_scaled_dot_product_attention q k v seq nq nkv hdim out = Ok g \<longleftrightarrow>
    attention_shapes q k v seq nq nkv hdim out \<and> g = nq div nkv"
proof (cases "0 < hdim \<and> 0 < seq \<and> 0 < nq \<and> 0 < nkv \<and> nkv dvd nq")
  case True
  then show ?thesis
    using checked_len_product_triple [of nq hdim _ _ seq] checked_len_product_triple [of nkv hdim _ _ seq]
      kv_product_le [of nq nkv seq hdim max64]
    unfolding validate_scaled_dot_product_attention_def if_kernel_err attention_shapes_def
    by (auto simp: res_simps dvd_eq_mod_eq_0)
qed (auto simp: validate_scaled_dot_product_attention_def attention_shapes_def dvd_eq_mod_eq_0)

lemma head_groups:
  assumes "0 < nq" "nkv dvd nq" "h < (nq :: nat)"
  shows "h div (nq div nkv) < nkv"
proof -
  have "nq = nkv * (nq div nkv)" using dvd_mult_div_cancel [OF assms(2)] by simp
  then show ?thesis using assms(3) by (metis less_mult_imp_div_less)
qed

text \<open>The row that a causal kernel computes for position \<open>i\<close>, and a windowed one.\<close>

definition causal_row ::
    "(f32 \<Rightarrow> f32) \<Rightarrow> f32 list \<Rightarrow> f32 list \<Rightarrow> f32 list \<Rightarrow> usize \<Rightarrow> usize \<Rightarrow> usize \<Rightarrow> f32 \<Rightarrow> nat \<Rightarrow> f32 list" where
  "causal_row expf q k v nq nkv hdim scale i =
     map (attention_cell expf q k v nq nkv hdim scale i 0 (i + 1)) [0..<nq * hdim]"

definition windowed_row ::
    "(f32 \<Rightarrow> f32) \<Rightarrow> f32 list \<Rightarrow> f32 list \<Rightarrow> f32 list \<Rightarrow> usize \<Rightarrow> usize \<Rightarrow> usize \<Rightarrow> usize \<Rightarrow> f32 \<Rightarrow> nat \<Rightarrow> f32 list" where
  "windowed_row expf q k v nq nkv hdim window scale i =
     map (attention_cell expf q k v nq nkv hdim scale i (i + 1 - window) (min window (i + 1))) [0..<nq * hdim]"

lemma causal_compute:
  assumes "attention_shapes q k v seq nq nkv hdim out" and "i_start + rows \<le> seq"
    and "length chunk = rows * (nq * hdim)" and "seq \<le> length scores"
  shows "scaled_dot_product_attention_compute expf q k v i_start (i_start + rows) nq nkv hdim (nq div nkv)
      scale scores chunk = concat (map (causal_row expf q k v nq nkv hdim scale) [i_start..<i_start + rows])"
    and "scaled_dot_product_attention_optimized_compute expf q k v i_start (i_start + rows) nq nkv hdim
      (nq div nkv) scale scores chunk =
      concat (map (causal_row expf q k v nq nkv hdim scale) [i_start..<i_start + rows])"
proof -
  have n: "i_start + r + 1 \<le> length scores" if "r < rows" for r using that assms(2,4) by simp
  have kv: "(0 + (i_start + r + 1)) * (nkv * hdim) \<le> seq * (nkv * hdim)" if "r < rows" for r
    using that assms(2) by (intro mult_le_mono1) simp
  have q: "(i_start + rows) * (nq * hdim) \<le> length q"
    using assms(1,2) by (simp add: attention_shapes_def mult_le_mono1)
  have "0 < hdim" "length k = seq * (nkv * hdim)" "length v = seq * (nkv * hdim)" "0 < nq" "nkv dvd nq"
    using assms(1) by (simp_all add: attention_shapes_def)
  note shapes = this
  show scalar: "scaled_dot_product_attention_compute expf q k v i_start (i_start + rows) nq nkv hdim
      (nq div nkv) scale scores chunk =
      concat (map (causal_row expf q k v nq nkv hdim scale) [i_start..<i_start + rows])"
    unfolding scaled_dot_product_attention_compute_def Let_def causal_row_def
    by (rule attention_positions [OF assms(3) shapes(1), where len = "\<lambda>i. i + 1" and st = "\<lambda>_. 0", OF n])
  show "scaled_dot_product_attention_optimized_compute expf q k v i_start (i_start + rows) nq nkv hdim
      (nq div nkv) scale scores chunk =
      concat (map (causal_row expf q k v nq nkv hdim scale) [i_start..<i_start + rows])"
    unfolding scalar [symmetric] scaled_dot_product_attention_optimized_compute_def
      scaled_dot_product_attention_compute_def Let_def
    by (subst attention_positions_rows [OF assms(3) _ q, where len = "\<lambda>i. i + 1" and st = "\<lambda>_. 0"])
      (use n kv shapes head_groups [OF shapes(4,5)] in simp_all)
qed

lemma windowed_compute:
  assumes "attention_shapes q k v seq nq nkv hdim out"
    and "length chunk = seq * (nq * hdim)" and "min window seq \<le> length scores"
  shows "scaled_dot_product_attention_windowed_compute expf q k v 0 seq nq nkv hdim (nq div nkv)
      window scale scores chunk = concat (map (windowed_row expf q k v nq nkv hdim window scale) [0..<seq])"
    and "scaled_dot_product_attention_windowed_optimized_compute expf q k v 0 seq nq nkv hdim (nq div nkv)
      window scale scores chunk = concat (map (windowed_row expf q k v nq nkv hdim window scale) [0..<seq])"
proof -
  have len: "i + 1 - (i + 1 - window) = min window (i + 1)" for i by simp
  have n: "min window (0 + r + 1) \<le> length scores" if "r < seq" for r using that assms(3) by linarith
  have kv: "(0 + r + 1 - window + min window (0 + r + 1)) * (nkv * hdim) \<le> seq * (nkv * hdim)"
    if "r < seq" for r
    using that by (intro mult_le_mono1) linarith
  have q: "(0 + seq) * (nq * hdim) \<le> length q" using assms(1) by (simp add: attention_shapes_def)
  have "0 < hdim" "length k = seq * (nkv * hdim)" "length v = seq * (nkv * hdim)" "0 < nq" "nkv dvd nq"
    using assms(1) by (simp_all add: attention_shapes_def)
  note shapes = this
  show scalar: "scaled_dot_product_attention_windowed_compute expf q k v 0 seq nq nkv hdim (nq div nkv)
      window scale scores chunk = concat (map (windowed_row expf q k v nq nkv hdim window scale) [0..<seq])"
    using attention_positions [OF assms(2) shapes(1), where len = "\<lambda>i. min window (i + 1)"
        and st = "\<lambda>i. i + 1 - window" and i_start = 0, OF n, of expf q k v nkv scale]
    unfolding scaled_dot_product_attention_windowed_compute_def Let_def windowed_row_def len
    by simp
  show "scaled_dot_product_attention_windowed_optimized_compute expf q k v 0 seq nq nkv hdim (nq div nkv)
      window scale scores chunk = concat (map (windowed_row expf q k v nq nkv hdim window scale) [0..<seq])"
    using attention_positions_rows [where i_start = 0 and len = "\<lambda>i. min window (i + 1)"
        and st = "\<lambda>i. i + 1 - window" and k = k and v = v and nkv = nkv, OF assms(2) n q, of expf scale]
      kv shapes head_groups [OF shapes(4,5)]
    unfolding scalar [symmetric] scaled_dot_product_attention_windowed_optimized_compute_def
      scaled_dot_product_attention_windowed_compute_def Let_def len
    by simp
qed

end
