(* ===== verification/Cpu_Attention.thy ===== *)
theory Cpu_Attention imports Cpu_Backend Attention_Kernels Row_Major
begin

text \<open>
  Attention on the CPU backend (src/crates/kernels/src/cpu_backend.rs): the choice of the body
  by mode and the threaded dispatcher, and what the kernels compute row by row. The theorems
  show that neither mode nor pool changes a bit of attention and that row \<open>i\<close> of the causal
  kernel is what the incremental kernel computes from the first \<open>i + 1\<close> rows of keys and values.
\<close>

section \<open>The choice of the kernel\<close>

definition parallel_sdpa_min_seq :: usize where
  "parallel_sdpa_min_seq = 32"

definition cpu_attention ::
    "(f32 \<Rightarrow> f32) \<Rightarrow> cpu_kernel_backend \<Rightarrow> f32 list \<Rightarrow> f32 list \<Rightarrow> f32 list \<Rightarrow> usize \<Rightarrow> usize \<Rightarrow> usize \<Rightarrow> usize \<Rightarrow>
      f32 list \<Rightarrow> f32 list res" where
  "cpu_attention expf self q k v seq_len num_q_heads num_kv_heads head_dim out =
     (let serial =
        (case backend_mode self of
           Mode_Scalar \<Rightarrow> scaled_dot_product_attention expf q k v seq_len num_q_heads num_kv_heads head_dim out
         | Mode_Optimized \<Rightarrow>
             scaled_dot_product_attention_optimized expf q k v seq_len num_q_heads num_kv_heads head_dim out
         | Mode_Avx2 \<Rightarrow>
             scaled_dot_product_attention_optimized expf q k v seq_len num_q_heads num_kv_heads head_dim out) in
      case backend_pool self of
        Some pool \<Rightarrow>
          if parallel_sdpa_min_seq \<le> seq_len
          then scaled_dot_product_attention_parallel expf pool (backend_mode self) q k v seq_len
            num_q_heads num_kv_heads head_dim out
          else serial
      | None \<Rightarrow> serial)"

definition cpu_attention_with_scale ::
    "(f32 \<Rightarrow> f32) \<Rightarrow> cpu_kernel_backend \<Rightarrow> f32 list \<Rightarrow> f32 list \<Rightarrow> f32 list \<Rightarrow> usize \<Rightarrow> usize \<Rightarrow> usize \<Rightarrow> usize \<Rightarrow>
      f32 \<Rightarrow> f32 list \<Rightarrow> f32 list res" where
  "cpu_attention_with_scale expf self q k v seq_len num_q_heads num_kv_heads head_dim scale out =
     (case backend_mode self of
        Mode_Scalar \<Rightarrow>
          scaled_dot_product_attention_with_scale expf q k v seq_len num_q_heads num_kv_heads head_dim scale out
      | Mode_Optimized \<Rightarrow>
          scaled_dot_product_attention_optimized_with_scale expf q k v seq_len num_q_heads num_kv_heads
            head_dim scale out
      | Mode_Avx2 \<Rightarrow>
          scaled_dot_product_attention_optimized_with_scale expf q k v seq_len num_q_heads num_kv_heads
            head_dim scale out)"

definition cpu_attention_windowed ::
    "(f32 \<Rightarrow> f32) \<Rightarrow> cpu_kernel_backend \<Rightarrow> f32 list \<Rightarrow> f32 list \<Rightarrow> f32 list \<Rightarrow> usize \<Rightarrow> usize \<Rightarrow> usize \<Rightarrow> usize \<Rightarrow>
      usize \<Rightarrow> f32 list \<Rightarrow> f32 list res" where
  "cpu_attention_windowed expf self q k v seq_len num_q_heads num_kv_heads head_dim sliding_window out =
     (case backend_mode self of
        Mode_Scalar \<Rightarrow>
          scaled_dot_product_attention_windowed expf q k v seq_len num_q_heads num_kv_heads head_dim
            sliding_window out
      | Mode_Optimized \<Rightarrow>
          scaled_dot_product_attention_windowed_optimized expf q k v seq_len num_q_heads num_kv_heads
            head_dim sliding_window out
      | Mode_Avx2 \<Rightarrow>
          scaled_dot_product_attention_windowed_optimized expf q k v seq_len num_q_heads num_kv_heads
            head_dim sliding_window out)"

definition cpu_attention_windowed_with_scale ::
    "(f32 \<Rightarrow> f32) \<Rightarrow> cpu_kernel_backend \<Rightarrow> f32 list \<Rightarrow> f32 list \<Rightarrow> f32 list \<Rightarrow> usize \<Rightarrow> usize \<Rightarrow> usize \<Rightarrow> usize \<Rightarrow>
      usize \<Rightarrow> f32 \<Rightarrow> f32 list \<Rightarrow> f32 list res" where
  "cpu_attention_windowed_with_scale expf self q k v seq_len num_q_heads num_kv_heads head_dim
       sliding_window scale out =
     (case backend_mode self of
        Mode_Scalar \<Rightarrow>
          scaled_dot_product_attention_windowed_with_scale expf q k v seq_len num_q_heads num_kv_heads
            head_dim sliding_window scale out
      | Mode_Optimized \<Rightarrow>
          scaled_dot_product_attention_windowed_optimized_with_scale expf q k v seq_len num_q_heads
            num_kv_heads head_dim sliding_window scale out
      | Mode_Avx2 \<Rightarrow>
          scaled_dot_product_attention_windowed_optimized_with_scale expf q k v seq_len num_q_heads
            num_kv_heads head_dim sliding_window scale out)"

section \<open>Every body computes the same rows\<close>

lemma validate_attention_cases:
  obtains (valid) "attention_shapes q k v seq nq nkv hdim out"
    "validate_scaled_dot_product_attention q k v seq nq nkv hdim out = Ok (nq div nkv)"
  | (refused) e where "\<not> attention_shapes q k v seq nq nkv hdim out"
    "validate_scaled_dot_product_attention q k v seq nq nkv hdim out = Err e"
proof (cases "attention_shapes q k v seq nq nkv hdim out")
  case True
  then show thesis using valid by (simp add: validate_attention_Ok)
next
  case False
  have "validate_scaled_dot_product_attention q k v seq nq nkv hdim out \<noteq> Panic"
    unfolding validate_scaled_dot_product_attention_def if_kernel_err
    by (simp add: res_simps checked_len_product_def)
  moreover have "validate_scaled_dot_product_attention q k v seq nq nkv hdim out \<noteq> Ok g" for g
    using False by (simp add: validate_attention_Ok)
  ultimately show thesis using refused False
    by (cases "validate_scaled_dot_product_attention q k v seq nq nkv hdim out") auto
qed

lemma zeroed_vec_cases: "zeroed_vec n = (Ok (replicate n 0) :: f32 list res) \<or> zeroed_vec n = (Panic :: f32 list res)"
  by (simp add: zeroed_vec_def)

lemma attention_rows_Ok:
  assumes "attention_shapes q k v seq nq nkv hdim out"
  shows "scaled_dot_product_attention expf q k v seq nq nkv hdim out =
    and_then (zeroed_vec seq) (\<lambda>scores.
      Ok (concat (map (causal_row expf q k v nq nkv hdim (default_attention_scale hdim)) [0..<seq])))"
proof -
  have out: "length out = seq * (nq * hdim)" using assms by (simp add: attention_shapes_def)
  have "validate_scaled_dot_product_attention q k v seq nq nkv hdim out = Ok (nq div nkv)"
    using assms by (simp add: validate_attention_Ok)
  then show ?thesis
    using zeroed_vec_cases [of seq] causal_compute(1) [OF assms, of 0 seq out, OF _ out, of "replicate seq 0"]
    by (auto simp: scaled_dot_product_attention_def Let_def)
qed

lemma attention_optimized_scalar:
  "scaled_dot_product_attention_optimized expf q k v seq nq nkv hdim out =
    scaled_dot_product_attention expf q k v seq nq nkv hdim out"
proof (cases rule: validate_attention_cases [of q k v seq nq nkv hdim out])
  case valid
  have out: "length out = seq * (nq * hdim)" using valid by (simp add: attention_shapes_def)
  show ?thesis
    using valid(2) zeroed_vec_cases [of seq]
      causal_compute [OF valid(1), of 0 seq out, OF _ out, of "replicate seq 0"]
    by (auto simp: scaled_dot_product_attention_def scaled_dot_product_attention_optimized_def Let_def)
qed (simp add: scaled_dot_product_attention_def scaled_dot_product_attention_optimized_def)

lemma attention_parallel_scalar:
  "scaled_dot_product_attention_parallel expf pool mode q k v seq nq nkv hdim out =
    scaled_dot_product_attention expf q k v seq nq nkv hdim out"
proof (cases rule: validate_attention_cases [of q k v seq nq nkv hdim out])
  case valid
  let ?scale = "default_attention_scale hdim" and ?w = "nq * hdim"
  let ?rpc = "max (div_ceil seq (max pool 1)) 1" and ?scores = "replicate seq 0 :: f32 list"
  let ?g = "\<lambda>x. attention_cell expf q k v nq nkv hdim ?scale (x div ?w) 0 (x div ?w + 1) (x mod ?w)"
  have out: "length out = seq * ?w" and w: "0 < ?w" using valid by (simp_all add: attention_shapes_def)
  have rows: "concat (map (causal_row expf q k v nq nkv hdim ?scale) [a..<a + r]) = map ?g [a * ?w..<a * ?w + r * ?w]" for a r
    unfolding causal_row_def using concat_rows_map [OF w, of "\<lambda>i. attention_cell expf q k v nq nkv hdim ?scale i 0 (i + 1)" a r]
    by simp
  have "par_chunks_mut (?rpc * nq * hdim)
      (attention_chunk expf mode q k v nq nkv hdim (nq div nkv) ?scale ?scores ?rpc) out =
      Ok (map ?g [0..<length out])"
  proof (rule par_chunks_mut_map)
    show "0 < ?rpc * nq * hdim" using w by simp
    fix idx and chunk :: "f32 list"
    assume fits: "idx * (?rpc * nq * hdim) + length chunk \<le> length out"
      and last: "length chunk = ?rpc * nq * hdim \<or> idx * (?rpc * nq * hdim) + length chunk = length out"
    obtain r where r: "length chunk = r * ?w" "idx * ?rpc + r \<le> seq"
      by (rule chunk_rows [OF fits [unfolded out mult.assoc [of ?rpc]] w last [unfolded out mult.assoc [of ?rpc]]])
    have "length chunk div (nq * hdim) = r" using r(1) w by simp
    then have "attention_chunk expf mode q k v nq nkv hdim (nq div nkv) ?scale ?scores ?rpc idx chunk =
        concat (map (causal_row expf q k v nq nkv hdim ?scale) [idx * ?rpc..<idx * ?rpc + r])"
      using causal_compute [OF valid(1) r(2,1), of ?scores]
      by (cases mode) (simp_all add: attention_chunk_def Let_def)
    then show "attention_chunk expf mode q k v nq nkv hdim (nq div nkv) ?scale ?scores ?rpc idx chunk =
        map ?g [idx * (?rpc * nq * hdim)..<idx * (?rpc * nq * hdim) + length chunk]"
      using rows [of "idx * ?rpc" r] r(1) by (simp add: mult.assoc)
  qed
  then show ?thesis
    using valid(2) zeroed_vec_cases [of seq] attention_rows_Ok [OF valid(1)] rows [of 0 seq] out
    by (auto simp: scaled_dot_product_attention_parallel_def Let_def)
qed (simp add: scaled_dot_product_attention_parallel_def scaled_dot_product_attention_def)

lemma cpu_attention_scalar:
  "cpu_attention expf self q k v seq nq nkv hdim out =
    scaled_dot_product_attention expf q k v seq nq nkv hdim out"
  by (simp add: cpu_attention_def attention_optimized_scalar attention_parallel_scalar Let_def
      split: cpu_kernel_mode.split option.split)

lemma windowed_rows_Ok:
  assumes "attention_shapes q k v seq nq nkv hdim out" and "0 < window"
  shows "scaled_dot_product_attention_windowed expf q k v seq nq nkv hdim window out =
    and_then (zeroed_vec (min window seq)) (\<lambda>scores. Ok (concat
      (map (windowed_row expf q k v nq nkv hdim window (default_attention_scale hdim)) [0..<seq])))"
    and "scaled_dot_product_attention_windowed_optimized expf q k v seq nq nkv hdim window out =
      scaled_dot_product_attention_windowed expf q k v seq nq nkv hdim window out"
proof -
  let ?scores = "replicate (min window seq) 0 :: f32 list"
  have out: "length out = seq * (nq * hdim)" using assms(1) by (simp add: attention_shapes_def)
  have valid: "validate_scaled_dot_product_attention_windowed q k v seq nq nkv hdim window out =
      Ok (nq div nkv)"
    using assms by (simp add: validate_scaled_dot_product_attention_windowed_def validate_attention_Ok)
  note body = windowed_compute [OF assms(1) out, of window ?scores]
  show windowed: "scaled_dot_product_attention_windowed expf q k v seq nq nkv hdim window out =
    and_then (zeroed_vec (min window seq)) (\<lambda>scores. Ok (concat
      (map (windowed_row expf q k v nq nkv hdim window (default_attention_scale hdim)) [0..<seq])))"
    using valid zeroed_vec_cases [of "min window seq"] body(1)
    by (auto simp: scaled_dot_product_attention_windowed_def Let_def)
  show "scaled_dot_product_attention_windowed_optimized expf q k v seq nq nkv hdim window out =
      scaled_dot_product_attention_windowed expf q k v seq nq nkv hdim window out"
    unfolding windowed using valid zeroed_vec_cases [of "min window seq"] body(2)
    by (auto simp: scaled_dot_product_attention_windowed_optimized_def Let_def)
qed

lemma windowed_optimized_scalar:
  "scaled_dot_product_attention_windowed_optimized expf q k v seq nq nkv hdim window out =
    scaled_dot_product_attention_windowed expf q k v seq nq nkv hdim window out"
proof (cases "0 < window")
  case True
  show ?thesis
  proof (cases rule: validate_attention_cases [of q k v seq nq nkv hdim out])
    case valid
    then show ?thesis using windowed_rows_Ok(2) True by blast
  next
    case (refused e)
    then show ?thesis
      by (simp add: scaled_dot_product_attention_windowed_optimized_def kernel_err_def
          scaled_dot_product_attention_windowed_def validate_scaled_dot_product_attention_windowed_def)
  qed
qed (simp add: scaled_dot_product_attention_windowed_optimized_def kernel_err_def
    scaled_dot_product_attention_windowed_def validate_scaled_dot_product_attention_windowed_def)

section \<open>An explicit scale\<close>

text \<open>
  What the kernels with an explicit scale do once the shapes are checked: refuse a scale that is
  not finite under the name of the kernel, allocate the scratch buffer, and compute every row.
\<close>

definition scaled_rows :: "string \<Rightarrow> usize \<Rightarrow> f32 \<Rightarrow> (usize \<Rightarrow> f32 list) \<Rightarrow> usize \<Rightarrow> f32 list res" where
  "scaled_rows kname scratch scale row seq =
     (if f32_is_finite scale
      then and_then (zeroed_vec scratch) (\<lambda>_ :: f32 list. Ok (concat (map row [0..<seq])))
      else kernel_err (kname @ '' scale must be finite, got {scale}''))"

lemma attention_with_scale_rows:
  "scaled_dot_product_attention_with_scale expf q k v seq nq nkv hdim scale out =
     and_then (validate_scaled_dot_product_attention q k v seq nq nkv hdim out) (\<lambda>_.
       scaled_rows ''scaled_dot_product_attention_with_scale'' seq scale
         (causal_row expf q k v nq nkv hdim scale) seq)" (is ?A)
  "scaled_dot_product_attention_optimized_with_scale expf q k v seq nq nkv hdim scale out =
     and_then (validate_scaled_dot_product_attention q k v seq nq nkv hdim out) (\<lambda>_.
       scaled_rows ''scaled_dot_product_attention_optimized_with_scale'' seq scale
         (causal_row expf q k v nq nkv hdim scale) seq)" (is ?B)
proof -
  consider (valid) "attention_shapes q k v seq nq nkv hdim out"
      "validate_scaled_dot_product_attention q k v seq nq nkv hdim out = Ok (nq div nkv)"
    | (refused) e where "validate_scaled_dot_product_attention q k v seq nq nkv hdim out = Err e"
    by (rule validate_attention_cases)
  then have "?A \<and> ?B"
  proof cases
    case valid
    have out: "length out = seq * (nq * hdim)" using valid by (simp add: attention_shapes_def)
    show ?thesis
      using valid(2) zeroed_vec_cases [of seq]
        causal_compute [OF valid(1), of 0 seq out, OF _ out, of "replicate seq 0"]
      by (auto simp: scaled_dot_product_attention_with_scale_def scaled_rows_def
          scaled_dot_product_attention_optimized_with_scale_def validate_attention_scale_def
          kernel_err_def)
  next
    case refused
    then show ?thesis
      by (simp add: scaled_dot_product_attention_with_scale_def
          scaled_dot_product_attention_optimized_with_scale_def)
  qed
  then show ?A ?B by blast+
qed

lemma windowed_with_scale_rows:
  "scaled_dot_product_attention_windowed_with_scale expf q k v seq nq nkv hdim window scale out =
     and_then (validate_scaled_dot_product_attention_windowed q k v seq nq nkv hdim window out) (\<lambda>_.
       scaled_rows ''scaled_dot_product_attention_windowed_with_scale'' (min window seq) scale
         (windowed_row expf q k v nq nkv hdim window scale) seq)" (is ?A)
  "scaled_dot_product_attention_windowed_optimized_with_scale expf q k v seq nq nkv hdim window scale out =
     and_then (validate_scaled_dot_product_attention_windowed q k v seq nq nkv hdim window out) (\<lambda>_.
       scaled_rows ''scaled_dot_product_attention_windowed_optimized_with_scale'' (min window seq) scale
         (windowed_row expf q k v nq nkv hdim window scale) seq)" (is ?B)
proof -
  let ?validated = "validate_scaled_dot_product_attention_windowed q k v seq nq nkv hdim window out"
  consider (valid) "attention_shapes q k v seq nq nkv hdim out" "?validated = Ok (nq div nkv)"
    | (refused) e where "?validated = Err e"
    by (cases rule: validate_attention_cases [of q k v seq nq nkv hdim out]; cases "window = 0")
      (auto simp: validate_scaled_dot_product_attention_windowed_def kernel_err_def)
  then have "?A \<and> ?B"
  proof cases
    case valid
    have out: "length out = seq * (nq * hdim)" using valid by (simp add: attention_shapes_def)
    show ?thesis
      using valid(2) zeroed_vec_cases [of "min window seq"]
        windowed_compute [OF valid(1) out, of window "replicate (min window seq) 0"]
      by (auto simp: scaled_dot_product_attention_windowed_with_scale_def scaled_rows_def
          scaled_dot_product_attention_windowed_optimized_with_scale_def validate_attention_scale_def
          kernel_err_def)
  next
    case refused
    then show ?thesis
      by (simp add: scaled_dot_product_attention_windowed_with_scale_def
          scaled_dot_product_attention_windowed_optimized_with_scale_def)
  qed
  then show ?A ?B by blast+
qed

text \<open>
  C10. Neither the mode nor a thread pool changes a bit of attention: for every backend and every
  input the result is that of the scalar loops, or their error, with or without a sliding
  window; and a window at least as long as the sequence is no window. With an explicit scale
  every backend refuses the same shapes, then a scale that is not finite (only the kernel's name
  in the message depends on the mode), and otherwise computes the rows of that scale.
\<close>

theorem attention_same_bits:
  "cpu_attention expf self q k v seq nq nkv hdim out =
     scaled_dot_product_attention expf q k v seq nq nkv hdim out \<and>
   cpu_attention_windowed expf self q k v seq nq nkv hdim window out =
     scaled_dot_product_attention_windowed expf q k v seq nq nkv hdim window out \<and>
   scaled_dot_product_attention_windowed expf q k v seq nq nkv hdim (Suc (seq + extra)) out =
     scaled_dot_product_attention expf q k v seq nq nkv hdim out \<and>
   cpu_attention_with_scale expf self q k v seq nq nkv hdim scale out =
     and_then (validate_scaled_dot_product_attention q k v seq nq nkv hdim out) (\<lambda>_.
       scaled_rows
         (if backend_mode self = Mode_Scalar then ''scaled_dot_product_attention_with_scale''
          else ''scaled_dot_product_attention_optimized_with_scale'')
         seq scale (causal_row expf q k v nq nkv hdim scale) seq) \<and>
   cpu_attention_windowed_with_scale expf self q k v seq nq nkv hdim window scale out =
     and_then (validate_scaled_dot_product_attention_windowed q k v seq nq nkv hdim window out) (\<lambda>_.
       scaled_rows
         (if backend_mode self = Mode_Scalar then ''scaled_dot_product_attention_windowed_with_scale''
          else ''scaled_dot_product_attention_windowed_optimized_with_scale'')
         (min window seq) scale (windowed_row expf q k v nq nkv hdim window scale) seq)"
proof (intro conjI)
  show "cpu_attention_windowed expf self q k v seq nq nkv hdim window out =
     scaled_dot_product_attention_windowed expf q k v seq nq nkv hdim window out"
    by (simp add: cpu_attention_windowed_def windowed_optimized_scalar split: cpu_kernel_mode.split)
  let ?window = "Suc (seq + extra)"
  show "scaled_dot_product_attention_windowed expf q k v seq nq nkv hdim ?window out =
     scaled_dot_product_attention expf q k v seq nq nkv hdim out"
  proof (cases rule: validate_attention_cases [of q k v seq nq nkv hdim out])
    case valid
    have "windowed_row expf q k v nq nkv hdim ?window scale i = causal_row expf q k v nq nkv hdim scale i"
      if "i < seq" for i scale
      using that by (simp add: windowed_row_def causal_row_def min_def)
    then have maps: "map (windowed_row expf q k v nq nkv hdim ?window (default_attention_scale hdim)) [0..<seq] =
        map (causal_row expf q k v nq nkv hdim (default_attention_scale hdim)) [0..<seq]" by simp
    have m: "min ?window seq = seq" by simp
    show ?thesis
      unfolding windowed_rows_Ok(1) [OF valid(1) zero_less_Suc] attention_rows_Ok [OF valid(1)] m maps ..
  qed (simp add: scaled_dot_product_attention_windowed_def scaled_dot_product_attention_def
      validate_scaled_dot_product_attention_windowed_def)
qed (simp_all add: cpu_attention_scalar cpu_attention_with_scale_def cpu_attention_windowed_with_scale_def
    attention_with_scale_rows windowed_with_scale_rows split: cpu_kernel_mode.split)

section \<open>Rows of queries, keys and values\<close>

text \<open>One query row over the rows of keys and values it sees.\<close>

definition attention_row ::
    "(f32 \<Rightarrow> f32) \<Rightarrow> usize \<Rightarrow> usize \<Rightarrow> usize \<Rightarrow> f32 list \<Rightarrow> f32 list list \<Rightarrow> f32 list list \<Rightarrow> f32 list" where
  "attention_row expf nq nkv hdim q K V =
     map (attention_cell expf q (concat K) (concat V) nq nkv hdim (default_attention_scale hdim) 0 0 (length K))
       [0..<nq * hdim]"

lemma length_attention_row [simp]: "length (attention_row expf nq nkv hdim q K V) = nq * hdim"
  by (simp add: attention_row_def)

lemma attention_cell_rows:
  assumes Q: "row_list (nq * hdim) Q" and K: "row_list (nkv * hdim) K" and V: "row_list (nkv * hdim) V"
    and len: "length K = length Q" "length V = length Q" and i: "i < length Q"
    and pos: "0 < nq" "0 < hdim" "nkv dvd nq" and x: "x < nq * hdim"
  shows "attention_cell expf (concat Q) (concat K) (concat V) nq nkv hdim scale i 0 (i + 1) x =
    attention_cell expf (Q ! i) (concat (take (Suc i) K)) (concat (take (Suc i) V)) nq nkv hdim scale 0 0
      (Suc i) x"
proof -
  let ?h = "x div hdim"
  let ?kh = "?h div (nq div nkv)"
  have h: "?h < nq" using x pos by (simp add: less_mult_imp_div_less)
  have kh: "?kh < nkv" using head_groups pos h by blast
  have in_row: "a * hdim + d < m * hdim" if "a < m" "d < hdim" for a d m
    using row_in_range [OF that(1), of hdim] that(2) by linarith
  have q: "concat Q ! ((i * nq + ?h) * hdim + d) = Q ! i ! ((0 * nq + ?h) * hdim + d)" if "d < hdim" for d
    using nth_concat_rows [OF Q i in_row [OF h that]] by (simp add: algebra_simps)
  have row: "concat R ! ((j * nkv + ?kh) * hdim + d) =
      concat (take (Suc i) R) ! ((j * nkv + ?kh) * hdim + d)"
    if R: "row_list (nkv * hdim) R" "length R = length Q" and "j < Suc i" "d < hdim"
    for R :: "f32 list list" and j d
  proof -
    have pos: "(j * nkv + ?kh) * hdim + d = j * (nkv * hdim) + (?kh * hdim + d)"
      by (simp add: algebra_simps)
    have in_list: "j < length R" "j < length (take (Suc i) R)" using that i by simp_all
    show ?thesis
      unfolding pos nth_concat_rows [OF R(1) in_list(1) in_row [OF kh \<open>d < hdim\<close>]]
        nth_concat_rows [OF row_list_take [OF R(1)] in_list(2) in_row [OF kh \<open>d < hdim\<close>]]
      using \<open>j < Suc i\<close> by simp
  qed
  have probs: "head_probs expf (concat Q) (concat K) nkv hdim scale ((i * nq + ?h) * hdim) ?kh 0 (i + 1) =
      head_probs expf (Q ! i) (concat (take (Suc i) K)) nkv hdim scale ((0 * nq + ?h) * hdim) ?kh 0 (Suc i)"
    unfolding head_probs_def Suc_eq_plus1 [symmetric]
    by (intro arg_cong [where f = "softmax expf"] map_cong refl arg_cong2 [where f = f32_mul] foldl_cong)
      (auto simp: q row [OF K len(1)] less_Suc_eq)
  have "length (head_probs expf (Q ! i) (concat (take (Suc i) K)) nkv hdim scale ((0 * nq + ?h) * hdim) ?kh 0 (Suc i)) = Suc i"
    by (simp add: head_probs_def)
  then show ?thesis
    unfolding attention_cell_def Let_def probs head_value_def
    using row [OF V len(2), where d = "x mod hdim"] pos(2)
    by (intro foldl_cong) (auto simp: less_Suc_eq)
qed

lemma causal_rows:
  assumes "row_list (nq * hdim) Q" "row_list (nkv * hdim) K" "row_list (nkv * hdim) V"
    "length K = length Q" "length V = length Q" "0 < nq" "0 < hdim" "nkv dvd nq"
  shows "map (causal_row expf (concat Q) (concat K) (concat V) nq nkv hdim (default_attention_scale hdim))
      [0..<length Q] =
    map (\<lambda>i. attention_row expf nq nkv hdim (Q ! i) (take (Suc i) K) (take (Suc i) V)) [0..<length Q]"
proof (intro map_cong refl)
  fix i
  assume i: "i \<in> set [0..<length Q]"
  then have "length (take (Suc i) K) = Suc i" using assms(4) by simp
  then show "causal_row expf (concat Q) (concat K) (concat V) nq nkv hdim (default_attention_scale hdim) i =
      attention_row expf nq nkv hdim (Q ! i) (take (Suc i) K) (take (Suc i) V)"
    unfolding causal_row_def attention_row_def
    using attention_cell_rows [OF assms(1-5) _ assms(6-8)] i by (intro map_cong) simp_all
qed

lemma attention_on_rows:
  assumes rows: "row_list (nq * hdim) Q" "row_list (nkv * hdim) K" "row_list (nkv * hdim) V"
      "length K = length Q" "length V = length Q"
    and shape: "0 < nq" "0 < nkv" "0 < hdim" "nkv dvd nq" "Q \<noteq> []" "length out = length Q * (nq * hdim)"
    and fits: "length Q * (nq * hdim) \<le> max64" "4 * length Q \<le> 2 ^ 63 - 1"
  shows "scaled_dot_product_attention expf (concat Q) (concat K) (concat V) (length Q) nq nkv hdim out =
    Ok (concat (map (\<lambda>i. attention_row expf nq nkv hdim (Q ! i) (take (Suc i) K) (take (Suc i) V))
      [0..<length Q]))"
proof -
  have "attention_shapes (concat Q) (concat K) (concat V) (length Q) nq nkv hdim out"
    using assms by (simp add: attention_shapes_def)
  from attention_rows_Ok [OF this] show ?thesis
    using causal_rows [OF rows shape(1,3,4)] fits(2) by (simp add: zeroed_vec_def)
qed

lemma incremental_on_rows:
  assumes "length q = nq * hdim" "row_list (nkv * hdim) K" "row_list (nkv * hdim) V" "length V = length K"
    and "0 < nq" "0 < nkv" "0 < hdim" "nkv dvd nq" "K \<noteq> []" "length out = nq * hdim"
    and "nq * hdim \<le> max64" "length K * (nkv * hdim) \<le> max64" "4 * length K \<le> 2 ^ 63 - 1"
  shows "scaled_dot_product_attention_incremental expf q (concat K) (concat V) (length K) nq nkv hdim out =
    Ok (attention_row expf nq nkv hdim q K V)"
proof -
  let ?scores = "replicate (length K) 0 :: f32 list" and ?scale = "default_attention_scale hdim"
  let ?step = "\<lambda>s h. attend_head expf q (concat K) (concat V) nkv hdim ?scale (h * hdim) (h div (nq div nkv)) 0
    (length (fst s)) (h * hdim) s"
  let ?step' = "\<lambda>s h. attend_head expf q (concat K) (concat V) nkv hdim ?scale ((0 * nq + h) * hdim)
    (h div (nq div nkv)) 0 (length K) (0 + h * hdim) s"
  let ?P = "\<lambda>s :: f32 list \<times> f32 list. length (fst s) = length K \<and> length (snd s) = nq * hdim"
  have "?step s h = ?step' s h \<and> ?P (?step' s h)" if "?P s" "h \<in> set [0..<nq]" for s h
  proof -
    obtain sc o' where s: "s = (sc, o')" by fastforce
    have "0 + h * hdim + hdim \<le> length o'" "length K \<le> length sc"
      using that s row_in_range [of h nq hdim] by simp_all
    from attend_head_eq [OF this] that s show ?thesis
      using row_in_range [of h nq hdim] by (simp add: head_probs_def)
  qed
  then have "foldl ?step (?scores, out) [0..<nq] = foldl ?step' (?scores, out) [0..<nq]"
    using assms(10) by (intro foldl_cong_inv [where P = ?P, THEN conjunct1]) simp_all
  moreover have room: "0 + nq * hdim \<le> length out" "length K \<le> length ?scores" "0 < hdim"
    using assms(7,10) by simp_all
  obtain sc where "foldl ?step' (?scores, out) [0..<nq] =
      (sc, take 0 out @ map (attention_cell expf q (concat K) (concat V) nq nkv hdim ?scale 0 0 (length K))
        [0..<nq * hdim] @ drop (0 + nq * hdim) out)"
    using attend_heads [OF room, of expf q "concat K" "concat V" nkv ?scale 0 nq 0] by blast
  ultimately have fold: "snd (foldl ?step (?scores, out) [0..<nq]) = attention_row expf nq nkv hdim q K V"
    using assms(10) by (simp add: attention_row_def)
  have kv: "try_product 1 [length K, nkv, hdim] = Some (length K * (nkv * hdim))"
    using checked_len_product_triple(1) [OF assms(6,7), of "[]" "[]" "length K" "length K * (nkv * hdim)"] assms(12)
    by (simp add: checked_len_product_def)
  have q: "try_product 1 [nq, hdim] = Some (nq * hdim)"
    using assms(7,11) le_product [of hdim nq max64] by (simp add: checked_mul_def)
  have z: "zeroed_vec (length K) = (Ok ?scores :: f32 list res)" using assms(13) by (simp add: zeroed_vec_def)
  have guards: "hdim \<noteq> 0" "length K \<noteq> 0" "\<not> (nq = 0 \<or> nkv = 0)" "nq mod nkv = 0"
    "length (concat K) = length K * (nkv * hdim)" "length (concat V) = length K * (nkv * hdim)"
    using assms(2-9) by (simp_all add: dvd_eq_mod_eq_0)
  show ?thesis
    unfolding scaled_dot_product_attention_incremental_def checked_len_product_def kv q ok_or_simps
      and_then.simps guards Let_def z assms(1,10)
    by (simp only: guards not_True_eq_False simp_thms if_False fold)
qed

text \<open>
  C11. Prefill and decode agree on attention, bit for bit, on every CPU backend: row \<open>i\<close> of the
  attention over a sequence is exactly the row that the incremental kernel computes for query \<open>i\<close>
  from the first \<open>i + 1\<close> rows of the keys and values. In particular no row depends on a later
  position.
\<close>

theorem attention_incremental_rows:
  assumes "row_list (nq * hdim) Q" "row_list (nkv * hdim) K" "row_list (nkv * hdim) V"
    and "length K = length Q" "length V = length Q" "Q \<noteq> []"
    and "0 < nq" "0 < nkv" "0 < hdim" "nkv dvd nq"
    and "length out = length Q * (nq * hdim)" "length Q * (nq * hdim) \<le> max64" "4 * length Q \<le> 2 ^ 63 - 1"
  shows "\<exists>R. cpu_attention expf self (concat Q) (concat K) (concat V) (length Q) nq nkv hdim out = Ok (concat R) \<and>
    map Ok R = map (\<lambda>i. scaled_dot_product_attention_incremental expf (Q ! i) (concat (take (Suc i) K))
      (concat (take (Suc i) V)) (Suc i) nq nkv hdim (replicate (nq * hdim) 0)) [0..<length Q]"
proof (intro exI conjI)
  let ?R = "map (\<lambda>i. attention_row expf nq nkv hdim (Q ! i) (take (Suc i) K) (take (Suc i) V)) [0..<length Q]"
  show "cpu_attention expf self (concat Q) (concat K) (concat V) (length Q) nq nkv hdim out = Ok (concat ?R)"
    unfolding cpu_attention_scalar
    by (rule attention_on_rows [OF assms(1-5,7-10,6,11-13)])
  have "scaled_dot_product_attention_incremental expf (Q ! i) (concat (take (Suc i) K))
      (concat (take (Suc i) V)) (Suc i) nq nkv hdim (replicate (nq * hdim) 0) =
      Ok (attention_row expf nq nkv hdim (Q ! i) (take (Suc i) K) (take (Suc i) V))" if i: "i < length Q" for i
  proof -
    have len: "length (take (Suc i) K) = Suc i" "length (take (Suc i) V) = Suc i" using i assms(4,5) by simp_all
    have "Suc i * (nq * hdim) \<le> length Q * (nq * hdim)" "1 * (nq * hdim) \<le> length Q * (nq * hdim)"
      using i by (intro mult_le_mono1; simp)+
    then have fits: "nq * hdim \<le> max64" "Suc i * (nq * hdim) \<le> max64" using assms(12) by linarith+
    have kv: "Suc i * (nkv * hdim) \<le> max64" using kv_product_le [OF assms(7,10) fits(2)] .
    have small: "4 * Suc i \<le> 2 ^ 63 - 1" using i assms(13) by simp
    have ne: "take (Suc i) K \<noteq> []" using len(1) by fastforce
    show ?thesis
      by (rule incremental_on_rows [OF row_list_nth [OF assms(1) i] row_list_take [OF assms(2)]
            row_list_take [OF assms(3)] _ assms(7,8,9,10) ne length_replicate fits(1), unfolded len(1), OF len(2) kv small])
  qed
  then show "map Ok ?R = map (\<lambda>i. scaled_dot_product_attention_incremental expf (Q ! i) (concat (take (Suc i) K))
      (concat (take (Suc i) V)) (Suc i) nq nkv hdim (replicate (nq * hdim) 0)) [0..<length Q]"
    by simp
qed

theorem attention_incremental_rows_witness:
  "\<exists>R. cpu_attention (\<lambda>x. x) cpu_optimized (concat [[1, 2], [3, 4]]) (concat [[5], [6]]) (concat [[7], [8]]) (Suc 1) 2 1 1
      (replicate 4 0) = Ok (concat R) \<and>
    map Ok R = [scaled_dot_product_attention_incremental (\<lambda>x. x) [1, 2] [5] [7] 1 2 1 1 [0, 0],
      scaled_dot_product_attention_incremental (\<lambda>x. x) [3, 4] [5, 6] [7, 8] (Suc 1) 2 1 1 [0, 0]]"
proof -
  have "[0..<length [[1, 2 :: f32], [3, 4]]] = [0, 1]" "replicate (2 * 1) 0 = [0, 0 :: f32]"
    by (simp_all add: upt_rec numeral_2_eq_2)
  then show ?thesis
    using attention_incremental_rows [of 2 1 "[[1, 2], [3, 4]]" 1 "[[5], [6]]" "[[7], [8]]" "replicate 4 0"
        "\<lambda>x. x" cpu_optimized] by (simp add: max64_def)
qed

end
