(* ===== verification/Text_Kernels.thy ===== *)
theory Text_Kernels imports Matmul_Kernels F64_Arith Row_Major
begin

text \<open>
  The row-wise kernels of the text models on the CPU: root-mean-square normalisation
  (src/crates/kernels/src/rmsnorm.rs), rotary position embedding (rope.rs) and the gated
  feed-forward block (mlp.rs). The functions of the platform's mathematics library are the
  fields of a record; rounding through half precision, which the half crate does, is the
  parameter \<open>round_f16\<close>. The lemmas show what each kernel computes row by row.
\<close>

section \<open>The mathematics library\<close>

record libm =
  lm_exp :: "f32 \<Rightarrow> f32"
  lm_tanh :: "f32 \<Rightarrow> f32"
  lm_powf :: "f32 \<Rightarrow> f32 \<Rightarrow> f32"
  lm_cos :: "f32 \<Rightarrow> f32"
  lm_sin :: "f32 \<Rightarrow> f32"

section \<open>Normalisation\<close>

definition rmsnorm_row :: "f32 list \<Rightarrow> usize \<Rightarrow> f32 list \<Rightarrow> f32 \<Rightarrow> nat \<Rightarrow> f32 list \<Rightarrow> f32 list" where
  "rmsnorm_row x hidden weight epsilon r out =
     (let row_start = r * hidden;
          row = take hidden (drop row_start x);
          sum_sq = foldl (\<lambda>sum v. f64_add sum (f64_of_f32 (f32_mul v v))) 0 row;
          mean_sq = f32_of_f64 (f64_div sum_sq (f64_of_usize hidden));
          rms = f32_sqrt (f32_add mean_sq epsilon);
          inv_rms = f32_div f32_one rms in
      foldl (\<lambda>out i. out[row_start + i := f32_mul (f32_mul (row ! i) inv_rms) (weight ! i)]) out [0..<hidden])"

definition rmsnorm ::
    "f32 list \<Rightarrow> usize \<Rightarrow> usize \<Rightarrow> f32 list \<Rightarrow> f32 \<Rightarrow> f32 list \<Rightarrow> f32 list res" where
  "rmsnorm x rows hidden weight epsilon out =
     (if hidden = 0 then kernel_err ''rmsnorm hidden dimension must be non-zero''
      else if length weight \<noteq> hidden then kernel_err ''rmsnorm weight length {} does not match hidden {hidden}''
      else
        and_then (checked_len_product ''rmsnorm'' ''x'' [rows, hidden]) (\<lambda>x_expected.
        if length x \<noteq> x_expected then kernel_err ''rmsnorm x slice length {} does not match shape {rows}x{hidden}''
        else if length out \<noteq> length x then kernel_err ''rmsnorm out slice length {} does not match x length {}''
        else if \<not> f32_is_finite epsilon \<or> f32_lt epsilon 0
        then kernel_err ''rmsnorm epsilon must be finite and non-negative, got {epsilon}''
        else Ok (foldl (\<lambda>out r. rmsnorm_row x hidden weight epsilon r out) out [0..<rows])))"

section \<open>Rotary position embedding\<close>

definition rope_err :: "string \<Rightarrow> string \<Rightarrow> 'a res" where
  "rope_err backend message = Err (KernelError backend message)"

definition validate_rope_shape :: "string \<Rightarrow> usize \<Rightarrow> usize \<Rightarrow> usize res" where
  "validate_rope_shape backend x_len head_dim =
     (if head_dim = 0 then rope_err backend ''rope_apply_inplace head_dim must be non-zero''
      else if head_dim mod 2 \<noteq> 0 then rope_err backend ''rope_apply_inplace head_dim must be even, got {head_dim}''
      else if x_len = 0 \<or> x_len mod head_dim \<noteq> 0
      then rope_err backend ''rope_apply_inplace x.len()={x_len} must be a positive multiple of head_dim={head_dim}''
      else Ok (head_dim div 2))"

definition rope_trig_tables :: "libm \<Rightarrow> usize \<Rightarrow> usize \<Rightarrow> f32 \<Rightarrow> f32 list \<times> f32 list" where
  "rope_trig_tables m head_dim position theta =
     (let half = head_dim div 2;
          pos_f = f32_of_usize position;
          head_dim_f = f32_of_usize head_dim;
          angle = (\<lambda>i.
            let exponent = f32_div (f32_mul 0xC0000000 (f32_of_usize i)) head_dim_f;
                inv_freq = lm_powf m theta exponent in
            f32_mul pos_f inv_freq) in
      (map (\<lambda>i. lm_cos m (angle i)) [0..<half], map (\<lambda>i. lm_sin m (angle i)) [0..<half]))"

definition rope_trig_tables_with_factors ::
    "libm \<Rightarrow> usize \<Rightarrow> usize \<Rightarrow> f32 \<Rightarrow> f32 list \<Rightarrow> f32 list \<times> f32 list" where
  "rope_trig_tables_with_factors m head_dim position theta freq_factors =
     (let half = head_dim div 2;
          pos_f = f32_of_usize position;
          head_dim_f = f32_of_usize head_dim;
          angle = (\<lambda>(i, factor).
            let exponent = f32_div (f32_mul 0xC0000000 (f32_of_usize i)) head_dim_f;
                inv_freq = f32_div (lm_powf m theta exponent) factor in
            f32_mul pos_f inv_freq);
          pairs = enumerate 0 (take half freq_factors) in
      (map (\<lambda>p. lm_cos m (angle p)) pairs, map (\<lambda>p. lm_sin m (angle p)) pairs))"

text \<open>The offsets of the heads are the multiples of \<open>head_dim\<close> below the length, which one divides.\<close>

definition apply_rope_tables :: "f32 list \<Rightarrow> usize \<Rightarrow> usize \<Rightarrow> f32 list \<Rightarrow> f32 list \<Rightarrow> f32 list" where
  "apply_rope_tables x head_dim half cosines sines =
     foldl (\<lambda>x head.
       let head_offset = head * head_dim in
       foldl (\<lambda>x i.
         let lo = head_offset + i;
             hi = head_offset + i + half;
             x_lo = x ! lo;
             x_hi = x ! hi;
             x = x[lo := f32_sub (f32_mul x_lo (cosines ! i)) (f32_mul x_hi (sines ! i))] in
         x[hi := f32_add (f32_mul x_lo (sines ! i)) (f32_mul x_hi (cosines ! i))]) x [0..<half])
       x [0..<length x div head_dim]"

definition rope_apply_inplace :: "libm \<Rightarrow> f32 list \<Rightarrow> usize \<Rightarrow> usize \<Rightarrow> f32 \<Rightarrow> f32 list res" where
  "rope_apply_inplace m x head_dim position theta =
     and_then (validate_rope_shape ''cpu'' (length x) head_dim) (\<lambda>half.
       let (cosines, sines) = rope_trig_tables m head_dim position theta in
       Ok (apply_rope_tables x head_dim half cosines sines))"

definition validate_rope_freq_factors :: "string \<Rightarrow> f32 list \<Rightarrow> usize \<Rightarrow> unit res" where
  "validate_rope_freq_factors backend freq_factors expected =
     (if length freq_factors < expected
      then rope_err backend ''rope_apply_inplace freq_factors.len()={} must be at least head_dim/2={expected}''
      else if list_ex (\<lambda>factor. \<not> f32_is_finite factor \<or> f32_ge 0 factor) (take expected freq_factors)
      then rope_err backend ''rope_apply_inplace freq_factors[{idx}] must be finite and > 0, got {factor}''
      else Ok ())"

definition rope_apply_inplace_with_factors ::
    "libm \<Rightarrow> f32 list \<Rightarrow> usize \<Rightarrow> usize \<Rightarrow> f32 \<Rightarrow> f32 list \<Rightarrow> f32 list res" where
  "rope_apply_inplace_with_factors m x head_dim position theta freq_factors =
     and_then (validate_rope_shape ''cpu'' (length x) head_dim) (\<lambda>half.
     and_then (validate_rope_freq_factors ''cpu'' freq_factors half) (\<lambda>_.
       let (cosines, sines) = rope_trig_tables_with_factors m head_dim position theta freq_factors in
       Ok (apply_rope_tables x head_dim half cosines sines)))"

section \<open>The gated feed-forward block\<close>

definition silu_inplace :: "libm \<Rightarrow> f32 list \<Rightarrow> f32 list" where
  "silu_inplace m x =
     map (\<lambda>v. f32_mul v (f32_div f32_one (f32_add f32_one (lm_exp m (f32_neg v))))) x"

definition gelu_coef_a :: f32 where
  "gelu_coef_a = 0x3D372713"

definition sqrt_2_over_pi :: f32 where
  "sqrt_2_over_pi = 0x3F4C422A"

definition gelu_tanh_inplace :: "libm \<Rightarrow> (f32 \<Rightarrow> f32) \<Rightarrow> f32 list \<Rightarrow> f32 list" where
  "gelu_tanh_inplace m round_f16 x =
     map (\<lambda>v.
       if f32_ge 0xC1200000 v then 0
       else if f32_ge v 0x41200000 then v
       else
         let z = round_f16 v;
             inner = f32_mul (f32_mul sqrt_2_over_pi z)
               (f32_add f32_one (f32_mul (f32_mul gelu_coef_a z) z));
             gelu = f32_mul (f32_mul 0x3F000000 z) (f32_add f32_one (lm_tanh m inner)) in
         round_f16 gelu) x"

text \<open>The shapes both blocks check.\<close>

definition validate_mlp ::
    "string \<Rightarrow> f32 list \<Rightarrow> usize \<Rightarrow> usize \<Rightarrow> usize \<Rightarrow> f32 list \<Rightarrow> f32 list \<Rightarrow> f32 list \<Rightarrow> f32 list \<Rightarrow> f32 list \<Rightarrow>
      f32 list \<Rightarrow> unit res" where
  "validate_mlp kname x seq_len hidden intermediate gate_w up_w down_w gate_buf up_buf out =
     (if seq_len = 0 then kernel_err (kname @ '' seq_len must be non-zero'')
      else if hidden = 0 then kernel_err (kname @ '' hidden must be non-zero'')
      else if intermediate = 0 then kernel_err (kname @ '' intermediate must be non-zero'')
      else
        and_then (checked_len_product kname ''x'' [seq_len, hidden]) (\<lambda>x_expected.
        and_then (checked_len_product kname ''projection'' [hidden, intermediate]) (\<lambda>proj_expected.
        and_then (checked_len_product kname ''down projection'' [intermediate, hidden]) (\<lambda>down_expected.
        and_then (checked_len_product kname ''scratch'' [seq_len, intermediate]) (\<lambda>scratch_expected.
        if length x \<noteq> x_expected
        then kernel_err (kname @ '' x slice length {} does not match shape {seq_len}x{hidden}'')
        else if length gate_w \<noteq> proj_expected
        then kernel_err (kname @ '' gate_w length {} does not match shape {hidden}x{intermediate}'')
        else if length up_w \<noteq> proj_expected
        then kernel_err (kname @ '' up_w length {} does not match shape {hidden}x{intermediate}'')
        else if length down_w \<noteq> down_expected
        then kernel_err (kname @ '' down_w length {} does not match shape {intermediate}x{hidden}'')
        else if length gate_buf \<noteq> scratch_expected
        then kernel_err (kname @ '' gate_buf length {} does not match shape {seq_len}x{intermediate}'')
        else if length up_buf \<noteq> scratch_expected
        then kernel_err (kname @ '' up_buf length {} does not match shape {seq_len}x{intermediate}'')
        else if length out \<noteq> x_expected
        then kernel_err (kname @ '' out length {} does not match shape {seq_len}x{hidden}'')
        else Ok ())))))"

definition mlp_gated_silu ::
    "libm \<Rightarrow> f32 list \<Rightarrow> usize \<Rightarrow> usize \<Rightarrow> usize \<Rightarrow> f32 list \<Rightarrow> f32 list \<Rightarrow> f32 list \<Rightarrow> f32 list \<Rightarrow> f32 list \<Rightarrow>
      f32 list \<Rightarrow> (f32 list \<times> f32 list \<times> f32 list) res" where
  "mlp_gated_silu m x seq_len hidden intermediate gate_w up_w down_w gate_buf up_buf out =
     and_then (validate_mlp ''mlp_gated_silu'' x seq_len hidden intermediate gate_w up_w down_w gate_buf up_buf out) (\<lambda>_.
     and_then (matmul_scalar x (seq_len, hidden) gate_w (hidden, intermediate) gate_buf) (\<lambda>gate_buf.
     and_then (matmul_scalar x (seq_len, hidden) up_w (hidden, intermediate) up_buf) (\<lambda>up_buf.
     let gate_buf = silu_inplace m gate_buf;
         gate_buf = foldl (\<lambda>g i. g[i := f32_mul (g ! i) (up_buf ! i)]) gate_buf [0..<length gate_buf] in
     and_then (matmul_scalar gate_buf (seq_len, intermediate) down_w (intermediate, hidden) out) (\<lambda>out.
     Ok (gate_buf, up_buf, out)))))"

definition mlp_gated_gelu ::
    "libm \<Rightarrow> (f32 \<Rightarrow> f32) \<Rightarrow> f32 list \<Rightarrow> usize \<Rightarrow> usize \<Rightarrow> usize \<Rightarrow> f32 list \<Rightarrow> f32 list \<Rightarrow> f32 list \<Rightarrow> f32 list \<Rightarrow>
      f32 list \<Rightarrow> f32 list \<Rightarrow> (f32 list \<times> f32 list \<times> f32 list) res" where
  "mlp_gated_gelu m round_f16 x seq_len hidden intermediate gate_w up_w down_w gate_buf up_buf out =
     and_then (validate_mlp ''mlp_gated_gelu'' x seq_len hidden intermediate gate_w up_w down_w gate_buf up_buf out) (\<lambda>_.
     and_then (matmul_scalar x (seq_len, hidden) gate_w (hidden, intermediate) gate_buf) (\<lambda>gate_buf.
     and_then (matmul_scalar x (seq_len, hidden) up_w (hidden, intermediate) up_buf) (\<lambda>up_buf.
     let gate_buf = gelu_tanh_inplace m round_f16 gate_buf;
         gate_buf = foldl (\<lambda>g i. g[i := f32_mul (g ! i) (up_buf ! i)]) gate_buf [0..<length gate_buf] in
     and_then (matmul_scalar gate_buf (seq_len, intermediate) down_w (intermediate, hidden) out) (\<lambda>out.
     Ok (gate_buf, up_buf, out)))))"

section \<open>What the kernels compute on rows\<close>

definition matmul_row :: "usize \<Rightarrow> f32 list \<Rightarrow> usize \<Rightarrow> f32 list \<Rightarrow> f32 list" where
  "matmul_row k b n r = map (matmul_cell r k b n 0) [0..<n]"

lemma length_matmul_row [simp]: "length (matmul_row k b n r) = n"
  by (simp add: matmul_row_def)

lemma matmul_on_rows:
  assumes A: "row_list k A" and "length b = k * n" "length out = length A * n"
    and pos: "0 < k" "0 < n" and fits: "length A * k \<le> max64" "k * n \<le> max64" "length A * n \<le> max64"
  shows "matmul_scalar (concat A) (length A, k) b (k, n) out = Ok (concat (map (matmul_row k b n) A))"
proof -
  have valid: "validate_matmul (concat A) (length A, k) b (k, n) out = Ok (length A, k, n)"
    using assms le_product [of k "length A" max64] le_product [of n k max64]
    by (simp add: validate_matmul_Ok)
  have cell: "matmul_cell (concat A) k b n i j = matmul_cell (A ! i) k b n 0 j" if "i < length A" for i j
    unfolding matmul_cell_def using nth_concat_rows [OF A that] by (intro foldl_cong) auto
  have "matmul_compute (concat A) (length A) k b n out =
      concat (map (\<lambda>i. map (matmul_cell (concat A) k b n i) [0..<n]) [0..<length A])"
    using matmul_compute_map [OF assms(3)] concat_rows_map [OF pos(2), of "matmul_cell (concat A) k b n" 0 "length A"]
    by simp
  also have "\<dots> = concat (map (\<lambda>i. matmul_row k b n (A ! i)) [0..<length A])"
    by (intro arg_cong [where f = concat] map_cong) (simp_all add: matmul_row_def cell cong: map_cong)
  finally show ?thesis
    by (simp add: matmul_scalar_def valid concat_map_upt)
qed

definition norm_row :: "f32 list \<Rightarrow> f32 \<Rightarrow> f32 list \<Rightarrow> f32 list" where
  "norm_row weight epsilon row =
     (let sum_sq = foldl (\<lambda>sum v. f64_add sum (f64_of_f32 (f32_mul v v))) 0 row;
          mean_sq = f32_of_f64 (f64_div sum_sq (f64_of_usize (length weight)));
          inv_rms = f32_div f32_one (f32_sqrt (f32_add mean_sq epsilon)) in
      map (\<lambda>i. f32_mul (f32_mul (row ! i) inv_rms) (weight ! i)) [0..<length weight])"

lemma length_norm_row [simp]: "length (norm_row weight epsilon row) = length weight"
  by (simp add: norm_row_def Let_def)

definition epsilon_ok :: "f32 \<Rightarrow> bool" where
  "epsilon_ok epsilon \<longleftrightarrow> f32_is_finite epsilon \<and> \<not> f32_lt epsilon 0"

lemma rmsnorm_on_rows:
  assumes X: "row_list (length weight) X" and "weight \<noteq> []" "length out = length X * length weight"
    and "length X * length weight \<le> max64" "epsilon_ok epsilon"
  shows "rmsnorm (concat X) (length X) (length weight) weight epsilon out =
    Ok (concat (map (norm_row weight epsilon) X))"
proof -
  let ?h = "length weight"
  have row: "take ?h (drop (i * ?h) (concat X)) = X ! i" if "i < length X" for i
    using slice_concat_row [OF X that] by (simp add: slice_def split: if_splits)
  have "foldl (\<lambda>out r. rmsnorm_row (concat X) ?h weight epsilon r out) out [0..<length X] =
      concat (map (\<lambda>i. norm_row weight epsilon (X ! i)) [0..<length X])"
  proof (rule foldl_rows [OF assms(3)])
    fix i and out :: "f32 list"
    assume i: "i < length X" and out: "length out = length X * ?h"
    let ?inv = "f32_div f32_one (f32_sqrt (f32_add (f32_of_f64 (f64_div
      (foldl (\<lambda>sum v. f64_add sum (f64_of_f32 (f32_mul v v))) 0 (X ! i)) (f64_of_usize ?h))) epsilon))"
    have base: "i * ?h + ?h \<le> length out" using row_in_range [OF i, of ?h] out by simp
    show "rmsnorm_row (concat X) ?h weight epsilon i out =
        take (i * ?h) out @ norm_row weight epsilon (X ! i) @ drop (i * ?h + ?h) out"
      using foldl_row [OF base, of "\<lambda>j _. f32_mul (f32_mul (X ! i ! j) ?inv) (weight ! j)"]
      by (simp add: rmsnorm_row_def norm_row_def Let_def row [OF i])
  qed simp
  moreover have "length X \<le> max64" using le_product [of ?h "length X" max64] assms(2,4) by simp
  then have "checked_len_product ''rmsnorm'' ''x'' [length X, ?h] = Ok (length X * ?h)"
    using assms(4) by (simp add: checked_len_product_pair)
  ultimately show ?thesis
    using assms by (simp add: rmsnorm_def epsilon_ok_def concat_map_upt)
qed

definition rope_row :: "libm \<Rightarrow> usize \<Rightarrow> usize \<Rightarrow> f32 \<Rightarrow> f32 list \<Rightarrow> f32 list" where
  "rope_row m head_dim position theta x =
     (let (cosines, sines) = rope_trig_tables m head_dim position theta in
      apply_rope_tables x head_dim (head_dim div 2) cosines sines)"

lemma length_apply_rope_tables [simp]: "length (apply_rope_tables x hdim half c s) = length x"
proof -
  have inner: "length (foldl (\<lambda>x i. (x[b + i := f i x])[b + i + half := g i x]) x js) = length x"
    for x :: "f32 list" and b f g and js :: "nat list"
    by (induction js arbitrary: x) simp_all
  have "length (foldl (\<lambda>x hh. foldl (\<lambda>x i. (x[hh * hdim + i := f i hh x])[hh * hdim + i + half := g i hh x])
      x [0..<half]) x hs) = length x" for x :: "f32 list" and f g and hs :: "nat list"
    by (induction hs arbitrary: x) (simp_all add: inner)
  then show ?thesis by (simp add: apply_rope_tables_def Let_def)
qed

lemma length_rope_row [simp]: "length (rope_row m hdim position theta x) = length x"
  by (simp add: rope_row_def split: prod.split)

lemma rope_on_row:
  assumes "length x = heads * hdim" "0 < heads" "0 < hdim" "even hdim"
  shows "rope_apply_inplace m x hdim position theta = Ok (rope_row m hdim position theta x)"
  using assms by (simp add: rope_apply_inplace_def validate_rope_shape_def rope_row_def even_iff_mod_2_eq_zero
      split: prod.split)

definition silu_row :: "libm \<Rightarrow> usize \<Rightarrow> usize \<Rightarrow> f32 list \<Rightarrow> f32 list \<Rightarrow> f32 list \<Rightarrow> f32 list \<Rightarrow> f32 list" where
  "silu_row m hidden intermediate gate_w up_w down_w r =
     matmul_row intermediate down_w hidden
       (map2 f32_mul (silu_inplace m (matmul_row hidden gate_w intermediate r))
         (matmul_row hidden up_w intermediate r))"

lemma length_silu_row [simp]: "length (silu_row m hidden intermediate gate_w up_w down_w r) = hidden"
  by (simp add: silu_row_def)

lemma foldl_times:
  "length u = length g \<Longrightarrow> foldl (\<lambda>g i. g[i := f32_mul (g ! i) (u ! i)]) g [0..<length g] = map2 f32_mul g u"
proof (rule nth_equalityI)
  assume u: "length u = length g"
  have fold: "foldl (\<lambda>g i. g[i := f32_mul (g ! i) (u ! i)]) g [0..<length g] =
      map (\<lambda>i. f32_mul (g ! i) (u ! i)) [0..<length g]"
    using foldl_row [of 0 "length g" g "\<lambda>i v. f32_mul v (u ! i)"] by simp
  show "length (foldl (\<lambda>g i. g[i := f32_mul (g ! i) (u ! i)]) g [0..<length g]) = length (map2 f32_mul g u)"
    unfolding fold using u by simp
  fix i
  assume "i < length (foldl (\<lambda>g i. g[i := f32_mul (g ! i) (u ! i)]) g [0..<length g])"
  then show "foldl (\<lambda>g i. g[i := f32_mul (g ! i) (u ! i)]) g [0..<length g] ! i = map2 f32_mul g u ! i"
    unfolding fold using u by simp
qed

lemma map2_concat_rows:
  "row_list w A \<Longrightarrow> row_list w B \<Longrightarrow> length A = length B \<Longrightarrow>
    map2 f (concat A) (concat B) = concat (map2 (map2 f) A B)"
proof (induction A arbitrary: B)
  case (Cons a A)
  then show ?case by (cases B) (simp_all add: zip_append)
qed simp

lemma map2_same: "map2 f (map g xs) (map h xs) = map (\<lambda>x. f (g x) (h x)) xs"
  by (induction xs) simp_all

lemma silu_concat: "silu_inplace m (concat X) = concat (map (silu_inplace m) X)"
  by (simp add: silu_inplace_def [abs_def] map_concat)

lemma length_silu_inplace [simp]: "length (silu_inplace m x) = length x"
  by (simp add: silu_inplace_def)

lemma mlp_on_rows:
  assumes X: "row_list hidden X" and shape: "X \<noteq> []" "0 < hidden" "0 < intermediate"
    and w: "length gate_w = hidden * intermediate" "length up_w = hidden * intermediate"
      "length down_w = intermediate * hidden"
    and buf: "length gate_buf = length X * intermediate" "length up_buf = length X * intermediate"
      "length out = length X * hidden"
    and fits: "length X * hidden \<le> max64" "hidden * intermediate \<le> max64" "length X * intermediate \<le> max64"
  shows "\<exists>g u. length g = length X * intermediate \<and> length u = length X * intermediate \<and>
    mlp_gated_silu m (concat X) (length X) hidden intermediate gate_w up_w down_w gate_buf up_buf out =
      Ok (g, u, concat (map (silu_row m hidden intermediate gate_w up_w down_w) X))"
proof -
  let ?g = "map (matmul_row hidden gate_w intermediate) X"
  let ?u = "map (matmul_row hidden up_w intermediate) X"
  let ?gu = "map (\<lambda>r. map2 f32_mul (silu_inplace m (matmul_row hidden gate_w intermediate r))
    (matmul_row hidden up_w intermediate r)) X"
  have le: "length X \<le> max64" "hidden \<le> max64" "intermediate \<le> max64"
    using le_product [OF shape(2) fits(1)] le_product [OF shape(3) fits(2)]
      le_product [of hidden intermediate max64] shape fits(2) by (simp_all add: mult.commute)
  have valid: "validate_mlp ''mlp_gated_silu'' (concat X) (length X) hidden intermediate gate_w up_w down_w
      gate_buf up_buf out = Ok ()"
    using assms le checked_len_product_pair(1)
    unfolding validate_mlp_def if_kernel_err
    by (simp add: res_simps checked_len_product_pair mult.commute)
  have gate: "matmul_scalar (concat X) (length X, hidden) gate_w (hidden, intermediate) gate_buf = Ok (concat ?g)"
    and up: "matmul_scalar (concat X) (length X, hidden) up_w (hidden, intermediate) up_buf = Ok (concat ?u)"
    using assms by (simp_all add: matmul_on_rows)
  have act: "foldl (\<lambda>g i. g[i := f32_mul (g ! i) (concat ?u ! i)]) (silu_inplace m (concat ?g))
      [0..<length (silu_inplace m (concat ?g))] = concat ?gu"
  proof -
    have "length (concat ?u) = length (silu_inplace m (concat ?g))"
      using length_concat_rows [of intermediate ?u] length_concat_rows [of intermediate ?g] by simp
    from foldl_times [OF this] show ?thesis
      unfolding silu_concat
      by (subst (asm) map2_concat_rows [where w = intermediate]) (simp_all add: map2_same)
  qed
  have down: "matmul_scalar (concat ?gu) (length X, intermediate) down_w (intermediate, hidden) out =
      Ok (concat (map (silu_row m hidden intermediate gate_w up_w down_w) X))"
    using matmul_on_rows [of intermediate ?gu down_w hidden out] assms
    by (simp add: silu_row_def [abs_def] o_def mult.commute)
  have "length (concat ?gu) = length X * intermediate" "length (concat ?u) = length X * intermediate"
    using length_concat_rows [of intermediate ?gu] length_concat_rows [of intermediate ?u] by simp_all
  then show ?thesis
    unfolding mlp_gated_silu_def valid and_then.simps gate up Let_def act down by blast
qed

lemma vec_add_on_rows:
  assumes "row_list w A" "row_list w B" "length A = length B" "length out = length A * w"
  shows "vec_add (concat A) (concat B) out = Ok (concat (map2 (map2 f32_add) A B))"
proof -
  have len: "length (concat A) = length (concat B)" "length (concat A) = length out"
    using assms by simp_all
  have "map (\<lambda>i. f32_add (concat A ! i) (concat B ! i)) [0..<length (concat A)] =
      map2 f32_add (concat A) (concat B)"
    using len by (intro nth_equalityI) simp_all
  then show ?thesis using vec_add_Ok [OF len] map2_concat_rows [OF assms(1-3)] by simp
qed

end
