(* ===== verification/Text_Backend.thy ===== *)
theory Text_Backend imports Cpu_Attention Text_Kernels
begin

text \<open>
  The kernel backend as the text models use it: the methods of the trait \<open>KernelBackend\<close>
  (src/crates/kernels/src/lib.rs) as a record of functions, and the contract \<open>text_backend\<close> that
  every method works row by row. The CPU backend (cpu_backend.rs) is the interpretation, in
  every mode and with or without a thread pool.
\<close>

record text_kernels =
  tk_matmul :: "f32 list \<Rightarrow> usize \<times> usize \<Rightarrow> f32 list \<Rightarrow> usize \<times> usize \<Rightarrow> f32 list \<Rightarrow> f32 list res"
  tk_attention :: "f32 list \<Rightarrow> f32 list \<Rightarrow> f32 list \<Rightarrow> usize \<Rightarrow> usize \<Rightarrow> usize \<Rightarrow> usize \<Rightarrow> f32 list \<Rightarrow> f32 list res"
  tk_attention_incremental ::
    "f32 list \<Rightarrow> f32 list \<Rightarrow> f32 list \<Rightarrow> usize \<Rightarrow> usize \<Rightarrow> usize \<Rightarrow> usize \<Rightarrow> f32 list \<Rightarrow> f32 list res"
  tk_rope :: "f32 list \<Rightarrow> usize \<Rightarrow> usize \<Rightarrow> f32 \<Rightarrow> f32 list res"
  tk_rmsnorm :: "f32 list \<Rightarrow> usize \<Rightarrow> usize \<Rightarrow> f32 list \<Rightarrow> f32 \<Rightarrow> f32 list \<Rightarrow> f32 list res"
  tk_mlp_gated_silu ::
    "f32 list \<Rightarrow> usize \<Rightarrow> usize \<Rightarrow> usize \<Rightarrow> f32 list \<Rightarrow> f32 list \<Rightarrow> f32 list \<Rightarrow> f32 list \<Rightarrow> f32 list \<Rightarrow> f32 list \<Rightarrow>
      (f32 list \<times> f32 list \<times> f32 list) res"
  tk_vec_add :: "f32 list \<Rightarrow> f32 list \<Rightarrow> f32 list \<Rightarrow> f32 list res"

text \<open>The CPU backend runs the reference of every method but the two it dispatches on.\<close>

definition cpu_text_kernels :: "libm \<Rightarrow> cpu_kernel_backend \<Rightarrow> text_kernels" where
  "cpu_text_kernels m self =
     \<lparr>tk_matmul = cpu_matmul self,
      tk_attention = cpu_attention (lm_exp m) self,
      tk_attention_incremental = scaled_dot_product_attention_incremental (lm_exp m),
      tk_rope = rope_apply_inplace m,
      tk_rmsnorm = rmsnorm,
      tk_mlp_gated_silu = mlp_gated_silu m,
      tk_vec_add = vec_add\<rparr>"

text \<open>
  The contract: on buffers of the right lengths, each given by its rows, a method returns the
  buffer of the rows of its result. What a row is is the backend's business.
\<close>

record text_rows =
  row_mm :: "usize \<Rightarrow> f32 list \<Rightarrow> usize \<Rightarrow> f32 list \<Rightarrow> f32 list"
  row_norm :: "f32 list \<Rightarrow> f32 \<Rightarrow> f32 list \<Rightarrow> f32 list"
  row_rope :: "usize \<Rightarrow> usize \<Rightarrow> f32 \<Rightarrow> f32 list \<Rightarrow> f32 list"
  row_attend :: "usize \<Rightarrow> usize \<Rightarrow> usize \<Rightarrow> f32 list \<Rightarrow> f32 list list \<Rightarrow> f32 list list \<Rightarrow> f32 list"
  row_mlp :: "usize \<Rightarrow> usize \<Rightarrow> f32 list \<Rightarrow> f32 list \<Rightarrow> f32 list \<Rightarrow> f32 list \<Rightarrow> f32 list"

locale text_backend =
  fixes ops :: text_kernels and rows :: text_rows
  assumes matmul_rows: "row_list k A \<Longrightarrow> length b = k * n \<Longrightarrow> length out = length A * n \<Longrightarrow> 0 < k \<Longrightarrow> 0 < n \<Longrightarrow>
      length A * k \<le> max64 \<Longrightarrow> k * n \<le> max64 \<Longrightarrow> length A * n \<le> max64 \<Longrightarrow>
      tk_matmul ops (concat A) (length A, k) b (k, n) out = Ok (concat (map (row_mm rows k b n) A))"
    and length_mm [simp]: "length (row_mm rows k b n r) = n"
    and norm_rows: "row_list (length weight) X \<Longrightarrow> weight \<noteq> [] \<Longrightarrow> length out = length X * length weight \<Longrightarrow>
      length X * length weight \<le> max64 \<Longrightarrow> epsilon_ok eps \<Longrightarrow>
      tk_rmsnorm ops (concat X) (length X) (length weight) weight eps out =
        Ok (concat (map (row_norm rows weight eps) X))"
    and length_norm [simp]: "length (row_norm rows weight eps r) = length weight"
    and rope_heads: "length x = heads * hdim \<Longrightarrow> 0 < heads \<Longrightarrow> 0 < hdim \<Longrightarrow> even hdim \<Longrightarrow>
      tk_rope ops x hdim position theta = Ok (row_rope rows hdim position theta x)"
    and length_rope [simp]: "length (row_rope rows hdim position theta x) = length x"
    and attention_rows: "row_list (nq * hdim) Q \<Longrightarrow> row_list (nkv * hdim) K \<Longrightarrow> row_list (nkv * hdim) V \<Longrightarrow>
      length K = length Q \<Longrightarrow> length V = length Q \<Longrightarrow> 0 < nq \<Longrightarrow> 0 < nkv \<Longrightarrow> 0 < hdim \<Longrightarrow> nkv dvd nq \<Longrightarrow> Q \<noteq> [] \<Longrightarrow>
      length out = length Q * (nq * hdim) \<Longrightarrow> length Q * (nq * hdim) \<le> max64 \<Longrightarrow> 4 * length Q \<le> 2 ^ 63 - 1 \<Longrightarrow>
      tk_attention ops (concat Q) (concat K) (concat V) (length Q) nq nkv hdim out =
        Ok (concat (map (\<lambda>i. row_attend rows nq nkv hdim (Q ! i) (take (Suc i) K) (take (Suc i) V))
          [0..<length Q]))"
    and attention_next: "length q = nq * hdim \<Longrightarrow> row_list (nkv * hdim) K \<Longrightarrow> row_list (nkv * hdim) V \<Longrightarrow>
      length V = length K \<Longrightarrow> 0 < nq \<Longrightarrow> 0 < nkv \<Longrightarrow> 0 < hdim \<Longrightarrow> nkv dvd nq \<Longrightarrow> K \<noteq> [] \<Longrightarrow> length out = nq * hdim \<Longrightarrow>
      nq * hdim \<le> max64 \<Longrightarrow> length K * (nkv * hdim) \<le> max64 \<Longrightarrow> 4 * length K \<le> 2 ^ 63 - 1 \<Longrightarrow>
      tk_attention_incremental ops q (concat K) (concat V) (length K) nq nkv hdim out =
        Ok (row_attend rows nq nkv hdim q K V)"
    and length_attend [simp]: "length (row_attend rows nq nkv hdim q K V) = nq * hdim"
    and mlp_rows: "row_list hidden X \<Longrightarrow> X \<noteq> [] \<Longrightarrow> 0 < hidden \<Longrightarrow> 0 < isz \<Longrightarrow>
      length gate_w = hidden * isz \<Longrightarrow> length up_w = hidden * isz \<Longrightarrow> length down_w = isz * hidden \<Longrightarrow>
      length gate_buf = length X * isz \<Longrightarrow> length up_buf = length X * isz \<Longrightarrow> length out = length X * hidden \<Longrightarrow>
      length X * hidden \<le> max64 \<Longrightarrow> hidden * isz \<le> max64 \<Longrightarrow> length X * isz \<le> max64 \<Longrightarrow>
      \<exists>g u. length g = length X * isz \<and> length u = length X * isz \<and>
        tk_mlp_gated_silu ops (concat X) (length X) hidden isz gate_w up_w down_w gate_buf up_buf out =
          Ok (g, u, concat (map (row_mlp rows hidden isz gate_w up_w down_w) X))"
    and length_mlp [simp]: "length (row_mlp rows hidden isz gate_w up_w down_w r) = hidden"
    and add_rows: "row_list w A \<Longrightarrow> row_list w B \<Longrightarrow> length A = length B \<Longrightarrow> length out = length A * w \<Longrightarrow>
      tk_vec_add ops (concat A) (concat B) out = Ok (concat (map2 (map2 f32_add) A B))"

text \<open>The rows of the CPU backend.\<close>

definition cpu_text_rows :: "libm \<Rightarrow> text_rows" where
  "cpu_text_rows m =
     \<lparr>row_mm = matmul_row, row_norm = norm_row, row_rope = rope_row m,
      row_attend = attention_row (lm_exp m), row_mlp = silu_row m\<rparr>"

lemma cpu_matmul_columns:
  "0 < n \<Longrightarrow> cpu_matmul self a a_shape b (k, n) out = matmul_scalar a a_shape b (k, n) out"
  by (simp add: cpu_matmul_def matmul_parallel_scalar matmul_optimized_scalar Let_def
      split: cpu_kernel_mode.split option.split)

interpretation cpu_text: text_backend "cpu_text_kernels m self" "cpu_text_rows m" for m self
  by unfold_locales
    (simp_all add: cpu_text_kernels_def cpu_text_rows_def cpu_matmul_columns matmul_on_rows rmsnorm_on_rows
      rope_on_row cpu_attention_scalar attention_on_rows incremental_on_rows mlp_on_rows vec_add_on_rows
      del: ex_simps)

end
