(* ===== verification/Qwen_Model.thy ===== *)
theory Qwen_Model imports Qwen_Config Text_Backend Kv_Paged
begin

text \<open>
  The Qwen2.5 model (src/crates/models/src/qwen/qwen2_5: mod.rs, model.rs and the weight bundles
  of weights.rs): the validation of a configuration and of the lengths of all weights, after
  which the forward passes need no further checks. The theorem shows that construction accepts
  exactly the well-shaped bundles.
\<close>

section \<open>Data\<close>

record qwen_layer_weights =
  lw_q_proj_w :: "f32 list"
  lw_q_proj_b :: "f32 list"
  lw_k_proj_w :: "f32 list"
  lw_k_proj_b :: "f32 list"
  lw_v_proj_w :: "f32 list"
  lw_v_proj_b :: "f32 list"
  lw_o_proj_w :: "f32 list"
  lw_input_layernorm_w :: "f32 list"
  lw_post_attention_layernorm_w :: "f32 list"
  lw_gate_proj_w :: "f32 list"
  lw_up_proj_w :: "f32 list"
  lw_down_proj_w :: "f32 list"

record qwen_weights =
  qw_embed_tokens :: "f32 list"
  qw_layers :: "qwen_layer_weights list"
  qw_final_norm_w :: "f32 list"
  qw_lm_head_w :: "f32 list"
  qw_tie_word_embeddings :: bool

record qwen_model =
  qm_config :: qwen_config
  qm_weights :: qwen_weights
  qm_kernels :: text_kernels

section \<open>Validation\<close>

definition model_len_product :: "string \<Rightarrow> usize list \<Rightarrow> usize res" where
  "model_len_product label dims = ok_or (try_product 1 dims) (InvalidModel (Some label))"

definition validate_config_for_model :: "qwen_config \<Rightarrow> unit res" where
  "validate_config_for_model config =
     (if qc_vocab_size config < 2 then invalid_model ''vocab_size''
      else if qc_num_hidden_layers config = 0 then invalid_model ''num_hidden_layers''
      else if qc_hidden_size config = 0 then invalid_model ''hidden_size''
      else if qc_intermediate_size config = 0 then invalid_model ''intermediate_size''
      else if qc_num_attention_heads config = 0 then invalid_model ''num_attention_heads''
      else if qc_num_key_value_heads config = 0 then invalid_model ''num_key_value_heads''
      else if qc_head_dim config = 0 then invalid_model ''head_dim''
      else if qc_num_attention_heads config mod qc_num_key_value_heads config \<noteq> 0
      then invalid_model ''num_attention_heads''
      else
        and_then (model_len_product ''head_dim*num_attention_heads''
            [qc_head_dim config, qc_num_attention_heads config]) (\<lambda>hidden_from_heads.
        if hidden_from_heads \<noteq> qc_hidden_size config then invalid_model ''head_dim''
        else if qc_head_dim config mod 2 \<noteq> 0 then invalid_model ''head_dim''
        else if qc_context_length config = 0 then invalid_model ''context_length''
        else if \<not> f64_is_finite (qc_rope_theta config) \<or> f64_le_zero (qc_rope_theta config)
        then invalid_model ''rope_theta''
        else if \<not> f64_is_finite (qc_rms_norm_eps config) \<or> f64_le_zero (qc_rms_norm_eps config)
        then invalid_model ''rms_norm_eps''
        else if \<not> (qc_dtype config = F32 \<or> qc_dtype config = BF16) then invalid_model ''dtype''
        else Ok ()))"

definition check_len :: "string \<Rightarrow> nat \<Rightarrow> nat \<Rightarrow> unit res" where
  "check_len name got expected = (if got = expected then Ok () else invalid_model name)"

text \<open>The decimal digits of a number, as \<open>format!\<close> writes them.\<close>

fun decimal :: "nat \<Rightarrow> string" where
  "decimal n = (if n < 10 then [char_of (48 + n)] else decimal (n div 10) @ [char_of (48 + n mod 10)])"

declare decimal.simps [simp del]

definition layer_label :: "nat \<Rightarrow> string \<Rightarrow> string" where
  "layer_label i name = ''layers['' @ decimal i @ '']'' @ ''.'' @ name"

definition check_layer ::
    "usize \<Rightarrow> usize \<Rightarrow> usize \<Rightarrow> usize \<Rightarrow> usize \<Rightarrow> usize \<Rightarrow> usize \<Rightarrow> usize \<Rightarrow> nat \<times> qwen_layer_weights \<Rightarrow> unit res" where
  "check_layer h q_out kv_out q_proj_len kv_proj_len o_proj_len mlp_in_len mlp_down_len = (\<lambda>(i, layer).
     and_then (check_len (layer_label i ''q_proj_w'') (length (lw_q_proj_w layer)) q_proj_len) (\<lambda>_.
     and_then (check_len (layer_label i ''q_proj_b'') (length (lw_q_proj_b layer)) q_out) (\<lambda>_.
     and_then (check_len (layer_label i ''k_proj_w'') (length (lw_k_proj_w layer)) kv_proj_len) (\<lambda>_.
     and_then (check_len (layer_label i ''k_proj_b'') (length (lw_k_proj_b layer)) kv_out) (\<lambda>_.
     and_then (check_len (layer_label i ''v_proj_w'') (length (lw_v_proj_w layer)) kv_proj_len) (\<lambda>_.
     and_then (check_len (layer_label i ''v_proj_b'') (length (lw_v_proj_b layer)) kv_out) (\<lambda>_.
     and_then (check_len (layer_label i ''o_proj_w'') (length (lw_o_proj_w layer)) o_proj_len) (\<lambda>_.
     and_then (check_len (layer_label i ''input_layernorm_w'') (length (lw_input_layernorm_w layer)) h) (\<lambda>_.
     and_then (check_len (layer_label i ''post_attention_layernorm_w'')
       (length (lw_post_attention_layernorm_w layer)) h) (\<lambda>_.
     and_then (check_len (layer_label i ''gate_proj_w'') (length (lw_gate_proj_w layer)) mlp_in_len) (\<lambda>_.
     and_then (check_len (layer_label i ''up_proj_w'') (length (lw_up_proj_w layer)) mlp_in_len) (\<lambda>_.
     check_len (layer_label i ''down_proj_w'') (length (lw_down_proj_w layer)) mlp_down_len))))))))))))"

definition with_kernel_backend :: "qwen_config \<Rightarrow> qwen_weights \<Rightarrow> text_kernels \<Rightarrow> qwen_model res" where
  "with_kernel_backend config weights kernels =
     and_then (validate_config_for_model config) (\<lambda>_.
     let h = qc_hidden_size config; v = qc_vocab_size config in
     and_then (model_len_product ''num_attention_heads*head_dim''
       [qc_num_attention_heads config, qc_head_dim config]) (\<lambda>q_out.
     and_then (model_len_product ''num_key_value_heads*head_dim''
       [qc_num_key_value_heads config, qc_head_dim config]) (\<lambda>kv_out.
     let i_size = qc_intermediate_size config in
     and_then (model_len_product ''vocab_size*hidden_size'' [v, h]) (\<lambda>embed_len.
     and_then (model_len_product ''hidden_size*vocab_size'' [h, v]) (\<lambda>lm_head_len.
     and_then (model_len_product ''hidden_size*q_out'' [h, q_out]) (\<lambda>q_proj_len.
     and_then (model_len_product ''hidden_size*kv_out'' [h, kv_out]) (\<lambda>kv_proj_len.
     and_then (model_len_product ''q_out*hidden_size'' [q_out, h]) (\<lambda>o_proj_len.
     and_then (model_len_product ''hidden_size*intermediate_size'' [h, i_size]) (\<lambda>mlp_in_len.
     and_then (model_len_product ''intermediate_size*hidden_size'' [i_size, h]) (\<lambda>mlp_down_len.
     and_then (check_len ''embed_tokens'' (length (qw_embed_tokens weights)) embed_len) (\<lambda>_.
     and_then (check_len ''final_norm_w'' (length (qw_final_norm_w weights)) h) (\<lambda>_.
     and_then (check_len ''lm_head_w'' (length (qw_lm_head_w weights)) lm_head_len) (\<lambda>_.
     if length (qw_layers weights) \<noteq> qc_num_hidden_layers config then invalid_model ''layers''
     else
       and_then (try_map (check_layer h q_out kv_out q_proj_len kv_proj_len o_proj_len mlp_in_len mlp_down_len)
         (enumerate 0 (qw_layers weights))) (\<lambda>_.
       Ok \<lparr>qm_config = config, qm_weights = weights, qm_kernels = kernels\<rparr>))))))))))))))"

definition validate_cache_layout_for_model :: "qwen_config \<Rightarrow> kv_cache_layout \<Rightarrow> usize \<Rightarrow> unit res" where
  "validate_cache_layout_for_model config layout required_tokens =
     (if kl_dtype layout \<noteq> F32 then invalid_request ''kv_cache.dtype''
      else if kl_num_layers layout \<noteq> qc_num_hidden_layers config then invalid_request ''kv_cache.num_layers''
      else if kl_num_key_value_heads layout \<noteq> qc_num_key_value_heads config
      then invalid_request ''kv_cache.num_key_value_heads''
      else if kl_head_dim layout \<noteq> qc_head_dim config then invalid_request ''kv_cache.head_dim''
      else if kl_capacity_tokens layout < required_tokens then invalid_request ''kv_cache.capacity''
      else Ok ())"

text \<open>Every row gets the bias; the assertions are those of a debug build.\<close>

definition add_bias_per_row :: "f32 list \<Rightarrow> f32 list \<Rightarrow> usize \<Rightarrow> usize \<Rightarrow> f32 list res" where
  "add_bias_per_row x bias rows cols =
     (if length x \<noteq> rows * cols \<or> length bias \<noteq> cols then Panic
      else Ok (foldl (\<lambda>x r.
        let row_start = r * cols in
        foldl (\<lambda>x c. x[row_start + c := f32_add (x ! (row_start + c)) (bias ! c)]) x [0..<cols])
        x [0..<rows]))"

lemma add_bias_rows:
  assumes X: "row_list (length bias) X"
  shows "add_bias_per_row (concat X) bias (length X) (length bias) = Ok (concat (map (\<lambda>r. map2 f32_add r bias) X))"
proof -
  let ?w = "length bias"
  let ?P = "\<lambda>n. concat (map (\<lambda>r. map2 f32_add r bias) (take n X)) @ drop (n * ?w) (concat X)"
  have bias: "foldl (\<lambda>x c. x[n * ?w + c := f32_add (x ! (n * ?w + c)) (bias ! c)]) (?P n) [0..<?w] = ?P (Suc n)"
    if n: "n < length X" for n
  proof -
    let ?done = "concat (map (\<lambda>r. map2 f32_add r bias) (take n X))"
    have done_len: "length ?done = n * ?w"
      using length_concat_rows [of ?w "map (\<lambda>r. map2 f32_add r bias) (take n X)"] X n
      by (simp add: row_list_def) (metis in_set_takeD min.idem)
    have split: "drop (n * ?w) (concat X) = X ! n @ drop (Suc n * ?w) (concat X)"
      using n by (simp only: drop_concat_rows [OF X]) (simp flip: Cons_nth_drop_Suc)
    have row: "length (X ! n) = ?w" using X n by simp
    have same: "map (\<lambda>j. f32_add (X ! n ! j) (bias ! j)) [0..<?w] = map2 f32_add (X ! n) bias"
      by (rule nth_equalityI) (simp_all add: row)
    have fit: "n * ?w + ?w \<le> length (?P n)" unfolding split using done_len row by simp
    have get: "?P n ! (n * ?w + j) = X ! n ! j" if "j < ?w" for j
      unfolding split using that done_len row by (simp add: nth_append)
    have ends: "take (n * ?w) (?P n) = ?done" "drop (n * ?w + ?w) (?P n) = drop (Suc n * ?w) (concat X)"
      unfolding split using done_len row by (simp_all add: add.commute)
    have next_row: "?P (Suc n) = ?done @ map2 f32_add (X ! n) bias @ drop (Suc n * ?w) (concat X)"
      using n by (simp add: take_Suc_conv_app_nth)
    have "map (\<lambda>j. f32_add (?P n ! (n * ?w + j)) (bias ! j)) [0..<?w] =
        map (\<lambda>j. f32_add (X ! n ! j) (bias ! j)) [0..<?w]"
      by (rule map_cong) (simp_all only: set_upt atLeastLessThan_iff get)
    with foldl_row [OF fit, of "\<lambda>j v. f32_add v (bias ! j)"] show ?thesis
      unfolding ends next_row same by (simp only:)
  qed
  have "foldl (\<lambda>x r. foldl (\<lambda>x c. x[r * ?w + c := f32_add (x ! (r * ?w + c)) (bias ! c)]) x [0..<?w])
      (concat X) [0..<n] = ?P n" if "n \<le> length X" for n
    using that by (induction n) (simp_all add: bias)
  from this [of "length X"] show ?thesis using X by (simp add: add_bias_per_row_def Let_def)
qed

section \<open>Well-shaped models\<close>

definition config_ok :: "qwen_config \<Rightarrow> bool" where
  "config_ok c \<longleftrightarrow>
     2 \<le> qc_vocab_size c \<and> 0 < qc_num_hidden_layers c \<and> 0 < qc_hidden_size c \<and> 0 < qc_intermediate_size c \<and>
     0 < qc_num_attention_heads c \<and> 0 < qc_num_key_value_heads c \<and> 0 < qc_head_dim c \<and>
     qc_num_key_value_heads c dvd qc_num_attention_heads c \<and>
     qc_num_attention_heads c * qc_head_dim c = qc_hidden_size c \<and> even (qc_head_dim c) \<and>
     0 < qc_context_length c \<and>
     f64_is_finite (qc_rope_theta c) \<and> \<not> f64_le_zero (qc_rope_theta c) \<and>
     f64_is_finite (qc_rms_norm_eps c) \<and> \<not> f64_le_zero (qc_rms_norm_eps c) \<and>
     (qc_dtype c = F32 \<or> qc_dtype c = BF16)"

definition layer_ok :: "qwen_config \<Rightarrow> qwen_layer_weights \<Rightarrow> bool" where
  "layer_ok c w \<longleftrightarrow>
     (let h = qc_hidden_size c; kv = qc_num_key_value_heads c * qc_head_dim c; i = qc_intermediate_size c in
      length (lw_q_proj_w w) = h * h \<and> length (lw_q_proj_b w) = h \<and>
      length (lw_k_proj_w w) = h * kv \<and> length (lw_k_proj_b w) = kv \<and>
      length (lw_v_proj_w w) = h * kv \<and> length (lw_v_proj_b w) = kv \<and>
      length (lw_o_proj_w w) = h * h \<and>
      length (lw_input_layernorm_w w) = h \<and> length (lw_post_attention_layernorm_w w) = h \<and>
      length (lw_gate_proj_w w) = h * i \<and> length (lw_up_proj_w w) = h * i \<and>
      length (lw_down_proj_w w) = i * h)"

definition model_ok :: "qwen_config \<Rightarrow> qwen_weights \<Rightarrow> bool" where
  "model_ok c w \<longleftrightarrow>
     config_ok c \<and>
     qc_hidden_size c * qc_vocab_size c \<le> max64 \<and> qc_hidden_size c * qc_hidden_size c \<le> max64 \<and>
     qc_hidden_size c * qc_intermediate_size c \<le> max64 \<and>
     length (qw_embed_tokens w) = qc_vocab_size c * qc_hidden_size c \<and>
     length (qw_final_norm_w w) = qc_hidden_size c \<and>
     length (qw_lm_head_w w) = qc_hidden_size c * qc_vocab_size c \<and>
     length (qw_layers w) = qc_num_hidden_layers c \<and> list_all (layer_ok c) (qw_layers w)"

lemma model_len_product_pair:
  assumes "0 < b"
  shows "model_len_product label [a, b] = Ok p \<longleftrightarrow> a * b \<le> max64 \<and> p = a * b"
    "model_len_product label [a, b] \<noteq> Panic"
  using le_product [OF assms, of a max64]
  by (auto simp: model_len_product_def checked_mul_def split: if_splits)

lemma check_len_iff [simp]:
  "check_len name got expected = Ok u \<longleftrightarrow> got = expected" "check_len name got expected \<noteq> Panic"
  by (simp_all add: check_len_def)

lemma validate_config_Ok:
  "validate_config_for_model c = Ok u \<longleftrightarrow> config_ok c \<and> qc_hidden_size c \<le> max64"
  "validate_config_for_model c \<noteq> Panic"
proof -
  have product: "model_len_product label [qc_head_dim c, qc_num_attention_heads c] = Ok p \<longleftrightarrow>
      qc_head_dim c * qc_num_attention_heads c \<le> max64 \<and> p = qc_head_dim c * qc_num_attention_heads c"
    if "0 < qc_num_attention_heads c" for label p
    using model_len_product_pair(1) [OF that] .
  show "validate_config_for_model c = Ok u \<longleftrightarrow> config_ok c \<and> qc_hidden_size c \<le> max64"
    unfolding validate_config_for_model_def if_err_iff and_then_Ok_iff config_ok_def
    using product
    by (cases "qc_num_attention_heads c = 0")
      (auto simp: dvd_eq_mod_eq_0 even_iff_mod_2_eq_zero mult.commute)
  show "validate_config_for_model c \<noteq> Panic"
    unfolding validate_config_for_model_def if_err_iff and_then_Panic_iff
    using model_len_product_pair(2) by auto
qed

lemma check_layer_Ok:
  assumes "config_ok c"
  shows "check_layer (qc_hidden_size c) (qc_hidden_size c) (qc_num_key_value_heads c * qc_head_dim c)
      (qc_hidden_size c * qc_hidden_size c) (qc_hidden_size c * (qc_num_key_value_heads c * qc_head_dim c))
      (qc_hidden_size c * qc_hidden_size c) (qc_hidden_size c * qc_intermediate_size c)
      (qc_intermediate_size c * qc_hidden_size c) (i, w) = Ok u \<longleftrightarrow> layer_ok c w"
    and "check_layer h q_out kv_out a b d e f p \<noteq> Panic"
proof -
  show "check_layer (qc_hidden_size c) (qc_hidden_size c) (qc_num_key_value_heads c * qc_head_dim c)
      (qc_hidden_size c * qc_hidden_size c) (qc_hidden_size c * (qc_num_key_value_heads c * qc_head_dim c))
      (qc_hidden_size c * qc_hidden_size c) (qc_hidden_size c * qc_intermediate_size c)
      (qc_intermediate_size c * qc_hidden_size c) (i, w) = Ok u \<longleftrightarrow> layer_ok c w"
    unfolding check_layer_def prod.case and_then_Ok_iff check_len_iff layer_ok_def Let_def by simp
  show "check_layer h q_out kv_out a b d e f p \<noteq> Panic"
    by (cases p) (simp add: check_layer_def and_then_Panic_iff)
qed

lemma kv_width_le:
  assumes "config_ok c"
  shows "0 < qc_num_key_value_heads c * qc_head_dim c"
    and "qc_num_key_value_heads c * qc_head_dim c \<le> qc_hidden_size c"
proof -
  have "qc_num_key_value_heads c \<le> qc_num_attention_heads c" using assms by (simp add: config_ok_def dvd_imp_le)
  then have "qc_num_key_value_heads c * qc_head_dim c \<le> qc_num_attention_heads c * qc_head_dim c"
    by (rule mult_le_mono1)
  also have "\<dots> = qc_hidden_size c" using assms by (simp add: config_ok_def)
  finally show "qc_num_key_value_heads c * qc_head_dim c \<le> qc_hidden_size c" .
  show "0 < qc_num_key_value_heads c * qc_head_dim c" using assms by (simp add: config_ok_def)
qed

lemma try_map_layers_Ok:
  "(\<exists>ys. try_map f (enumerate n ws) = Ok ys) \<longleftrightarrow> (\<forall>(i, w) \<in> set (enumerate n ws). \<exists>y. f (i, w) = Ok y)"
proof (induction ws arbitrary: n)
  case (Cons w ws)
  then show ?case by (auto simp: res_simps)
qed simp

text \<open>
  C40. Constructing a model accepts exactly the well-shaped ones: a coherent configuration whose
  projections have sizes within 64 bits, and weight tensors of exactly the lengths that it
  implies, for every layer. The model is the pair, and no input panics.
\<close>

theorem qwen_model_exact:
  "(with_kernel_backend c w kernels = Ok m \<longleftrightarrow>
      model_ok c w \<and> m = \<lparr>qm_config = c, qm_weights = w, qm_kernels = kernels\<rparr>)
   \<and> with_kernel_backend c w kernels \<noteq> Panic"
proof (cases "validate_config_for_model c")
  case (Ok u)
  then have c: "config_ok c" and h64: "qc_hidden_size c \<le> max64" by (simp_all add: validate_config_Ok)
  let ?h = "qc_hidden_size c" and ?v = "qc_vocab_size c" and ?i = "qc_intermediate_size c"
    and ?kv = "qc_num_key_value_heads c * qc_head_dim c"
  have pos: "0 < ?h" "0 < ?v" "0 < ?i" "0 < qc_head_dim c"
    "qc_num_attention_heads c * qc_head_dim c = ?h"
    using c by (simp_all add: config_ok_def)
  note kv = kv_width_le [OF c]
  have kv64: "?kv \<le> max64" "?h * ?h \<le> max64 \<Longrightarrow> ?h * ?kv \<le> max64"
    using kv(2) h64 mult_le_mono2 [OF kv(2), of ?h] by linarith+
  note products = model_len_product_pair [OF pos(1)] model_len_product_pair [OF pos(2)]
    model_len_product_pair [OF pos(3)] model_len_product_pair [OF pos(4)] model_len_product_pair [OF kv(1)]
  have layers: "(\<exists>ys. try_map (check_layer ?h ?h ?kv (?h * ?h) (?h * ?kv) (?h * ?h) (?h * ?i) (?i * ?h))
      (enumerate 0 (qw_layers w)) = Ok ys) \<longleftrightarrow> list_all (layer_ok c) (qw_layers w)"
  proof -
    have "snd ` set (enumerate 0 (qw_layers w)) = set (qw_layers w)"
      by (simp flip: set_map)
    then have "(\<forall>(i, x) \<in> set (enumerate 0 (qw_layers w)). layer_ok c x) \<longleftrightarrow> (\<forall>x \<in> set (qw_layers w). layer_ok c x)"
      by (metis (mono_tags, lifting) ball_imageD case_prod_beta image_iff)
    then show ?thesis
      unfolding try_map_layers_Ok check_layer_Ok(1) [OF c] by (simp add: list_all_iff)
  qed
  have no_panic: "try_map (check_layer ?h ?h ?kv (?h * ?h) (?h * ?kv) (?h * ?h) (?h * ?i) (?i * ?h))
      (enumerate 0 (qw_layers w)) \<noteq> Panic"
    by (rule try_map_no_Panic) (rule check_layer_Ok(2) [OF c])
  show ?thesis
  proof
    show "with_kernel_backend c w kernels = Ok m \<longleftrightarrow>
      model_ok c w \<and> m = \<lparr>qm_config = c, qm_weights = w, qm_kernels = kernels\<rparr>"
      unfolding with_kernel_backend_def Let_def Ok and_then.simps(1) and_then_Ok_iff products pos(5)
        check_len_iff if_err_iff model_ok_def
      using c h64 kv64 layers pos(1-4) kv(1) by (auto simp: mult.commute model_len_product_pair)
    show "with_kernel_backend c w kernels \<noteq> Panic"
      unfolding with_kernel_backend_def Let_def Ok and_then.simps(1) and_then_Panic_iff products pos(5)
        check_len_iff if_err_iff
      using no_panic pos(1-4) kv(1) by (auto simp: model_len_product_pair)
  qed
next
  case (Err e)
  have "qc_hidden_size c \<le> max64" if "model_ok c w"
    using that le_product [of "qc_hidden_size c" "qc_hidden_size c" max64] by (simp add: model_ok_def config_ok_def)
  then have "\<not> model_ok c w" using Err validate_config_Ok(1) [of c "()"] by (auto simp: model_ok_def)
  moreover have "with_kernel_backend c w kernels = Err e" by (simp add: with_kernel_backend_def Err)
  ultimately show ?thesis by simp
next
  case Panic
  then show ?thesis by (simp add: validate_config_Ok(2))
qed

end
