(* ===== verification/Qwen_Forward.thy ===== *)
theory Qwen_Forward imports Qwen_Model
begin

text \<open>
  The forward passes of Qwen2.5 (src/crates/models/src/qwen/qwen2_5: prefill.rs, decode.rs): the
  whole prompt at once, with or without writing a KV cache, and one more token against a cache.
  The passes call a kernel backend and a cache through the records of their operations, so they
  are stated for any backend and any store. The buffers that the code reuses from layer to layer
  are the fields of a record.
\<close>

section \<open>Loops over a mutable object\<close>

text \<open>
  A loop over a cache that is changed on the way and stays changed when a step fails, beside an
  accumulator that the caller does not see after a failure.
\<close>

fun try_fold_st :: "('s \<Rightarrow> 'b \<Rightarrow> 'a \<Rightarrow> 's \<times> ('b, 'e) outcome) \<Rightarrow> 's \<Rightarrow> 'b \<Rightarrow> 'a list \<Rightarrow> 's \<times> ('b, 'e) outcome" where
  "try_fold_st f s b [] = (s, Ok b)"
| "try_fold_st f s b (x # xs) = and_then_st (f s b x) (\<lambda>s b. try_fold_st f s b xs)"

fun stored :: "'s \<Rightarrow> ('s, 'e) outcome \<Rightarrow> 's \<times> (unit, 'e) outcome" where
  "stored s (Ok s') = (s', Ok ())"
| "stored s (Err e) = (s, Err e)"
| "stored s Panic = (s, Panic)"

text \<open>A cache as the models see it: the methods of the trait \<open>KvCacheStore\<close>.\<close>

record 's kv_cache_store =
  ks_layout :: "'s \<Rightarrow> kv_cache_layout"
  ks_ops :: "('s, ocelotl_error) kv_ops"

text \<open>What is done when there is a cache, and skipped otherwise.\<close>

fun with_cache :: "'s option \<Rightarrow> ('s \<Rightarrow> 's \<times> ('b, 'e) outcome) \<Rightarrow> 'b \<Rightarrow> 's option \<times> ('b, 'e) outcome" where
  "with_cache None f b = (None, Ok b)"
| "with_cache (Some s) f b = (let (s, r) = f s in (Some s, r))"

section \<open>Buffers\<close>

record forward_buffers =
  fb_hidden :: "f32 list"
  fb_norm :: "f32 list"
  fb_q :: "f32 list"
  fb_k :: "f32 list"
  fb_v :: "f32 list"
  fb_attn :: "f32 list"
  fb_o :: "f32 list"
  fb_residual :: "f32 list"
  fb_gate :: "f32 list"
  fb_up :: "f32 list"
  fb_mlp :: "f32 list"

definition scratch_vec :: "usize \<Rightarrow> usize \<Rightarrow> f32 list res" where
  "scratch_vec seq width = and_then (times_u64 seq width) zeroed_vec"

text \<open>The scratch buffers of a pass over \<open>seq\<close> positions, around the hidden states.\<close>

definition new_buffers :: "usize \<Rightarrow> usize \<Rightarrow> usize \<Rightarrow> usize \<Rightarrow> usize \<Rightarrow> f32 list \<Rightarrow> forward_buffers res" where
  "new_buffers seq h q_out kv_out i_size hidden =
     and_then (scratch_vec seq h) (\<lambda>norm_buf.
     and_then (scratch_vec seq q_out) (\<lambda>q_buf.
     and_then (scratch_vec seq kv_out) (\<lambda>k_buf.
     and_then (scratch_vec seq kv_out) (\<lambda>v_buf.
     and_then (scratch_vec seq q_out) (\<lambda>attn_out.
     and_then (scratch_vec seq h) (\<lambda>o_buf.
     and_then (scratch_vec seq h) (\<lambda>residual_buf.
     and_then (scratch_vec seq i_size) (\<lambda>gate_buf.
     and_then (scratch_vec seq i_size) (\<lambda>up_buf.
     and_then (scratch_vec seq h) (\<lambda>mlp_out.
     Ok \<lparr>fb_hidden = hidden, fb_norm = norm_buf, fb_q = q_buf, fb_k = k_buf, fb_v = v_buf,
         fb_attn = attn_out, fb_o = o_buf, fb_residual = residual_buf, fb_gate = gate_buf,
         fb_up = up_buf, fb_mlp = mlp_out\<rparr>))))))))))"

definition save_residual :: "forward_buffers \<Rightarrow> forward_buffers res" where
  "save_residual b =
     and_then (copy_into (fb_residual b) 0 (length (fb_residual b)) (fb_hidden b)) (\<lambda>residual.
     Ok (b\<lparr>fb_residual := residual\<rparr>))"

section \<open>The two halves of a layer\<close>

text \<open>
  Both passes run the same calls before and after the attention, over \<open>seq\<close> positions in a
  prefill and over one in a decode step.
\<close>

definition project :: "text_kernels \<Rightarrow> usize \<Rightarrow> usize \<Rightarrow> f32 list \<Rightarrow> f32 list \<Rightarrow> f32 list \<Rightarrow> usize \<Rightarrow> f32 list \<Rightarrow> f32 list res" where
  "project kernels seq h norm_buf w bias width out =
     and_then (tk_matmul kernels norm_buf (seq, h) w (h, width) out) (\<lambda>out.
     add_bias_per_row out bias seq width)"

definition attention_inputs ::
    "text_kernels \<Rightarrow> qwen_config \<Rightarrow> f32 \<Rightarrow> usize \<Rightarrow> usize \<Rightarrow> usize \<Rightarrow> qwen_layer_weights \<Rightarrow> forward_buffers \<Rightarrow>
      forward_buffers res" where
  "attention_inputs kernels cfg eps seq q_out kv_out layer b =
     (let h = qc_hidden_size cfg in
     and_then (save_residual b) (\<lambda>b.
     and_then (tk_rmsnorm kernels (fb_hidden b) seq h (lw_input_layernorm_w layer) eps (fb_norm b)) (\<lambda>norm_buf.
     and_then (project kernels seq h norm_buf (lw_q_proj_w layer) (lw_q_proj_b layer) q_out (fb_q b)) (\<lambda>q_buf.
     and_then (project kernels seq h norm_buf (lw_k_proj_w layer) (lw_k_proj_b layer) kv_out (fb_k b)) (\<lambda>k_buf.
     and_then (project kernels seq h norm_buf (lw_v_proj_w layer) (lw_v_proj_b layer) kv_out (fb_v b)) (\<lambda>v_buf.
     Ok (b\<lparr>fb_norm := norm_buf, fb_q := q_buf, fb_k := k_buf, fb_v := v_buf\<rparr>)))))))"

definition finish_layer ::
    "text_kernels \<Rightarrow> qwen_config \<Rightarrow> f32 \<Rightarrow> usize \<Rightarrow> usize \<Rightarrow> qwen_layer_weights \<Rightarrow> forward_buffers \<Rightarrow>
      forward_buffers res" where
  "finish_layer kernels cfg eps seq q_out layer b =
     (let h = qc_hidden_size cfg in
     and_then (tk_matmul kernels (fb_attn b) (seq, q_out) (lw_o_proj_w layer) (q_out, h) (fb_o b)) (\<lambda>o_buf.
     and_then (tk_vec_add kernels (fb_residual b) o_buf (fb_hidden b)) (\<lambda>hidden.
     and_then (save_residual (b\<lparr>fb_o := o_buf, fb_hidden := hidden\<rparr>)) (\<lambda>b.
     and_then (tk_rmsnorm kernels (fb_hidden b) seq h (lw_post_attention_layernorm_w layer) eps (fb_norm b)) (\<lambda>norm_buf.
     and_then (tk_mlp_gated_silu kernels norm_buf seq h (qc_intermediate_size cfg) (lw_gate_proj_w layer)
       (lw_up_proj_w layer) (lw_down_proj_w layer) (fb_gate b) (fb_up b) (fb_mlp b)) (\<lambda>(gate_buf, up_buf, mlp_out).
     and_then (tk_vec_add kernels (fb_residual b) mlp_out (fb_hidden b)) (\<lambda>hidden.
     Ok (b\<lparr>fb_norm := norm_buf, fb_gate := gate_buf, fb_up := up_buf, fb_mlp := mlp_out,
           fb_hidden := hidden\<rparr>))))))))"

section \<open>Prefill\<close>

text \<open>Rows of the embedding table, copied one per token.\<close>

definition embed_tokens :: "qwen_weights \<Rightarrow> usize \<Rightarrow> token_id list \<Rightarrow> f32 list \<Rightarrow> f32 list res" where
  "embed_tokens weights h tokens hidden =
     try_fold (\<lambda>hidden (t_idx, tok).
       and_then (times_u64 (unat tok) h) (\<lambda>src.
       let dst = t_idx * h in
       and_then (slice (qw_embed_tokens weights) src (src + h)) (\<lambda>row.
       copy_into hidden dst (dst + h) row))) hidden (enumerate 0 tokens)"

text \<open>The rotary embedding of one row of a buffer, in place.\<close>

definition rope_row_at :: "text_kernels \<Rightarrow> usize \<Rightarrow> usize \<Rightarrow> usize \<Rightarrow> f32 \<Rightarrow> f32 list \<Rightarrow> f32 list res" where
  "rope_row_at kernels width hdim pos theta buf =
     (let start = pos * width in
     and_then (slice buf start (start + width)) (\<lambda>row.
     and_then (tk_rope kernels row hdim pos theta) (\<lambda>row.
     copy_into buf start (start + width) row)))"

definition rope_positions ::
    "text_kernels \<Rightarrow> qwen_config \<Rightarrow> usize \<Rightarrow> usize \<Rightarrow> usize \<Rightarrow> f32 \<Rightarrow> f32 list \<times> f32 list \<Rightarrow> (f32 list \<times> f32 list) res" where
  "rope_positions kernels cfg seq q_out kv_out theta qk =
     try_fold (\<lambda>(q_buf, k_buf) pos.
       and_then (rope_row_at kernels q_out (qc_head_dim cfg) pos theta q_buf) (\<lambda>q_buf.
       and_then (rope_row_at kernels kv_out (qc_head_dim cfg) pos theta k_buf) (\<lambda>k_buf.
       Ok (q_buf, k_buf)))) qk [0..<seq]"

definition write_positions ::
    "'s kv_cache_store \<Rightarrow> nat \<Rightarrow> usize \<Rightarrow> usize \<Rightarrow> f32 list \<Rightarrow> f32 list \<Rightarrow> 's \<Rightarrow> 's \<times> unit res" where
  "write_positions store layer_idx seq kv_out k_buf v_buf cache =
     try_fold_st (\<lambda>cache _ pos.
       let start = pos * kv_out in
       and_then_st (cache, slice k_buf start (start + kv_out)) (\<lambda>cache key.
       and_then_st (cache, slice v_buf start (start + kv_out)) (\<lambda>cache val.
       stored cache (op_write (ks_ops store) cache layer_idx pos key val)))) cache () [0..<seq]"

definition prefill_layer ::
    "text_kernels \<Rightarrow> 's kv_cache_store \<Rightarrow> qwen_config \<Rightarrow> f32 \<Rightarrow> f32 \<Rightarrow> usize \<Rightarrow> usize \<Rightarrow> usize \<Rightarrow>
      's option \<Rightarrow> forward_buffers \<Rightarrow> nat \<times> qwen_layer_weights \<Rightarrow> 's option \<times> forward_buffers res" where
  "prefill_layer kernels store cfg eps theta seq q_out kv_out = (\<lambda>cache b (layer_idx, layer).
     and_then_st (cache, attention_inputs kernels cfg eps seq q_out kv_out layer b) (\<lambda>cache b.
     and_then_st (cache, rope_positions kernels cfg seq q_out kv_out theta (fb_q b, fb_k b)) (\<lambda>cache (q_buf, k_buf).
     and_then_st (with_cache cache (write_positions store layer_idx seq kv_out k_buf (fb_v b)) ()) (\<lambda>cache _.
     and_then_st (cache, tk_attention kernels q_buf k_buf (fb_v b) seq (qc_num_attention_heads cfg)
       (qc_num_key_value_heads cfg) (qc_head_dim cfg) (fb_attn b)) (\<lambda>cache attn_out.
     (cache, finish_layer kernels cfg eps seq q_out layer
       (b\<lparr>fb_q := q_buf, fb_k := k_buf, fb_attn := attn_out\<rparr>)))))))"

definition prefill_impl ::
    "'s kv_cache_store \<Rightarrow> qwen_model \<Rightarrow> token_id list \<Rightarrow> 's option \<Rightarrow> 's option \<times> f32 list res" where
  "prefill_impl store self tokens cache =
     (let cfg = qm_config self; kernels = qm_kernels self; weights = qm_weights self in
     if tokens = [] then (cache, invalid_request ''tokens'')
     else if qc_context_length cfg < length tokens then (cache, invalid_request ''tokens'')
     else if list_ex (\<lambda>t. qc_vocab_size cfg \<le> unat t) tokens then (cache, invalid_request ''tokens'')
     else
       let seq = length tokens; h = qc_hidden_size cfg; i_size = qc_intermediate_size cfg;
           v = qc_vocab_size cfg; eps = f32_of_f64 (qc_rms_norm_eps cfg); theta = f32_of_f64 (qc_rope_theta cfg) in
       and_then_st (cache, times_u64 (qc_num_attention_heads cfg) (qc_head_dim cfg)) (\<lambda>cache q_out.
       and_then_st (cache, times_u64 (qc_num_key_value_heads cfg) (qc_head_dim cfg)) (\<lambda>cache kv_out.
       and_then_st (cache, scratch_vec seq h) (\<lambda>cache hidden.
       and_then_st (cache, embed_tokens weights h tokens hidden) (\<lambda>cache hidden.
       and_then_st (cache, new_buffers seq h q_out kv_out i_size hidden) (\<lambda>cache b.
       and_then_st (try_fold_st (prefill_layer kernels store cfg eps theta seq q_out kv_out) cache b
         (enumerate 0 (qw_layers weights))) (\<lambda>cache b.
       and_then_st (cache, tk_rmsnorm kernels (fb_hidden b) seq h (qw_final_norm_w weights) eps (fb_norm b)) (\<lambda>cache norm_buf.
       let last_start = (seq - 1) * h in
       and_then_st (cache, slice norm_buf last_start (last_start + h)) (\<lambda>cache last_row.
       and_then_st (cache, zeroed_vec v) (\<lambda>cache logits.
       and_then_st (cache, tk_matmul kernels last_row (1, h) (qw_lm_head_w weights) (h, v) logits) (\<lambda>cache logits.
       and_then_st (with_cache cache (\<lambda>cache. stored cache (op_set_len (ks_ops store) cache seq)) ()) (\<lambda>cache _.
       (cache, Ok logits)))))))))))))"

text \<open>Without a cache, no method of a store is called.\<close>

definition no_store :: "unit kv_cache_store" where
  "no_store =
     \<lparr>ks_layout = (\<lambda>_. \<lparr>kl_num_layers = 0, kl_num_key_value_heads = 0, kl_capacity_tokens = 0, kl_head_dim = 0,
        kl_dtype = F32, kl_device = Cpu\<rparr>),
      ks_ops = \<lparr>op_len = (\<lambda>_. 0), op_set_len = (\<lambda>s _. Ok s), op_write = (\<lambda>s _ _ _ _. Ok s),
        op_read_keys = (\<lambda>_ _ _ out. Ok out), op_read_values = (\<lambda>_ _ _ out. Ok out), op_release = (\<lambda>s. s)\<rparr>\<rparr>"

definition qwen_prefill :: "qwen_model \<Rightarrow> token_id list \<Rightarrow> f32 list res" where
  "qwen_prefill self tokens = snd (prefill_impl no_store self tokens None)"

definition prefill_with_cache ::
    "'s kv_cache_store \<Rightarrow> qwen_model \<Rightarrow> token_id list \<Rightarrow> 's \<Rightarrow> 's \<times> f32 list res" where
  "prefill_with_cache store self tokens cache =
     and_then_st (cache, validate_cache_layout_for_model (qm_config self) (ks_layout store cache) (length tokens)) (\<lambda>cache _.
     and_then_st (stored cache (op_set_len (ks_ops store) cache 0)) (\<lambda>cache _.
     case prefill_impl store self tokens (Some cache) of
       (Some cache, r) \<Rightarrow> (cache, r)
     | (None, r) \<Rightarrow> (cache, r)))"

section \<open>Decode\<close>

text \<open>One layer of a decode step, with the two buffers that the cache is read into.\<close>

definition decode_layer ::
    "text_kernels \<Rightarrow> 's kv_cache_store \<Rightarrow> qwen_config \<Rightarrow> f32 \<Rightarrow> f32 \<Rightarrow> usize \<Rightarrow> usize \<Rightarrow> usize \<Rightarrow> usize \<Rightarrow>
      's \<Rightarrow> f32 list \<times> f32 list \<times> forward_buffers \<Rightarrow> nat \<times> qwen_layer_weights \<Rightarrow>
      's \<times> (f32 list \<times> f32 list \<times> forward_buffers) res" where
  "decode_layer kernels store cfg eps theta position next_len q_out kv_out = (\<lambda>cache (k_cache, v_cache, b) (layer_idx, layer).
     and_then_st (cache, attention_inputs kernels cfg eps 1 q_out kv_out layer b) (\<lambda>cache b.
     and_then_st (cache, tk_rope kernels (fb_q b) (qc_head_dim cfg) position theta) (\<lambda>cache q_buf.
     and_then_st (cache, tk_rope kernels (fb_k b) (qc_head_dim cfg) position theta) (\<lambda>cache k_buf.
     and_then_st (stored cache (op_write (ks_ops store) cache layer_idx position k_buf (fb_v b))) (\<lambda>cache _.
     and_then_st (cache, op_read_keys (ks_ops store) cache layer_idx next_len k_cache) (\<lambda>cache k_cache.
     and_then_st (cache, op_read_values (ks_ops store) cache layer_idx next_len v_cache) (\<lambda>cache v_cache.
     and_then_st (cache, tk_attention_incremental kernels q_buf k_cache v_cache next_len (qc_num_attention_heads cfg)
       (qc_num_key_value_heads cfg) (qc_head_dim cfg) (fb_attn b)) (\<lambda>cache attn_row.
     and_then_st (cache, finish_layer kernels cfg eps 1 q_out layer
       (b\<lparr>fb_q := q_buf, fb_k := k_buf, fb_attn := attn_row\<rparr>)) (\<lambda>cache b.
     (cache, Ok (k_cache, v_cache, b)))))))))))"

definition decode_token_with_cache ::
    "'s kv_cache_store \<Rightarrow> qwen_model \<Rightarrow> token_id \<Rightarrow> 's \<Rightarrow> 's \<times> f32 list res" where
  "decode_token_with_cache store self token cache =
     (let cfg = qm_config self; kernels = qm_kernels self; weights = qm_weights self;
          position = op_len (ks_ops store) cache in
     and_then_st (cache, ok_or (checked_add position 1) (InvalidRequest ''kv_cache.capacity'')) (\<lambda>cache next_len.
     and_then_st (cache, validate_cache_layout_for_model cfg (ks_layout store cache) next_len) (\<lambda>cache _.
     if qc_vocab_size cfg \<le> unat token then (cache, invalid_request ''token'')
     else
       let h = qc_hidden_size cfg; i_size = qc_intermediate_size cfg; v = qc_vocab_size cfg;
           eps = f32_of_f64 (qc_rms_norm_eps cfg); theta = f32_of_f64 (qc_rope_theta cfg) in
       and_then_st (cache, times_u64 (qc_num_attention_heads cfg) (qc_head_dim cfg)) (\<lambda>cache q_out.
       and_then_st (cache, times_u64 (qc_num_key_value_heads cfg) (qc_head_dim cfg)) (\<lambda>cache kv_out.
       and_then_st (cache, times_u64 (unat token) h) (\<lambda>cache src.
       and_then_st (cache, slice (qw_embed_tokens weights) src (src + h)) (\<lambda>cache hidden.
       and_then_st (cache, new_buffers 1 h q_out kv_out i_size hidden) (\<lambda>cache b.
       and_then_st (cache, scratch_vec next_len kv_out) (\<lambda>cache k_cache.
       and_then_st (cache, scratch_vec next_len kv_out) (\<lambda>cache v_cache.
       and_then_st (try_fold_st (decode_layer kernels store cfg eps theta position next_len q_out kv_out)
         cache (k_cache, v_cache, b) (enumerate 0 (qw_layers weights))) (\<lambda>cache (_, _, b).
       and_then_st (cache, tk_rmsnorm kernels (fb_hidden b) 1 h (qw_final_norm_w weights) eps (fb_norm b)) (\<lambda>cache norm_buf.
       and_then_st (cache, zeroed_vec v) (\<lambda>cache logits.
       and_then_st (cache, tk_matmul kernels norm_buf (1, h) (qw_lm_head_w weights) (h, v) logits) (\<lambda>cache logits.
       and_then_st (stored cache (op_set_len (ks_ops store) cache next_len)) (\<lambda>cache _.
       (cache, Ok logits))))))))))))))))"

end
