(* ===== verification/Qwen_Rows.thy ===== *)
theory Qwen_Rows imports Qwen_Forward
begin

text \<open>
  What Qwen2.5 computes: the network as functions of the rows of the token positions, and the
  proof that a prefill over any backend of the contract \<open>text_backend\<close> returns them. A position
  depends on the ones before it only, so a network over a longer prompt extends the rows of the
  shorter one; that is what a cached decode step relies on.
\<close>

section \<open>The network on rows\<close>

abbreviation kv_width :: "qwen_config \<Rightarrow> nat" where
  "kv_width c \<equiv> qc_num_key_value_heads c * qc_head_dim c"

abbreviation eps_of :: "qwen_config \<Rightarrow> f32" where
  "eps_of c \<equiv> f32_of_f64 (qc_rms_norm_eps c)"

abbreviation theta_of :: "qwen_config \<Rightarrow> f32" where
  "theta_of c \<equiv> f32_of_f64 (qc_rope_theta c)"

definition projected :: "text_rows \<Rightarrow> qwen_config \<Rightarrow> qwen_layer_weights \<Rightarrow> f32 list \<Rightarrow> f32 list \<Rightarrow> f32 list \<Rightarrow> f32 list" where
  "projected R c lw w bias x =
     map2 f32_add (row_mm R (qc_hidden_size c) w (length bias) (row_norm R (lw_input_layernorm_w lw) (eps_of c) x)) bias"

definition query_row :: "text_rows \<Rightarrow> qwen_config \<Rightarrow> qwen_layer_weights \<Rightarrow> nat \<Rightarrow> f32 list \<Rightarrow> f32 list" where
  "query_row R c lw pos x =
     row_rope R (qc_head_dim c) pos (theta_of c) (projected R c lw (lw_q_proj_w lw) (lw_q_proj_b lw) x)"

definition key_row :: "text_rows \<Rightarrow> qwen_config \<Rightarrow> qwen_layer_weights \<Rightarrow> nat \<Rightarrow> f32 list \<Rightarrow> f32 list" where
  "key_row R c lw pos x =
     row_rope R (qc_head_dim c) pos (theta_of c) (projected R c lw (lw_k_proj_w lw) (lw_k_proj_b lw) x)"

definition value_row :: "text_rows \<Rightarrow> qwen_config \<Rightarrow> qwen_layer_weights \<Rightarrow> f32 list \<Rightarrow> f32 list" where
  "value_row R c lw x = projected R c lw (lw_v_proj_w lw) (lw_v_proj_b lw) x"

definition key_rows :: "text_rows \<Rightarrow> qwen_config \<Rightarrow> qwen_layer_weights \<Rightarrow> f32 list list \<Rightarrow> f32 list list" where
  "key_rows R c lw X = map (\<lambda>i. key_row R c lw i (X ! i)) [0..<length X]"

definition value_rows :: "text_rows \<Rightarrow> qwen_config \<Rightarrow> qwen_layer_weights \<Rightarrow> f32 list list \<Rightarrow> f32 list list" where
  "value_rows R c lw X = map (value_row R c lw) X"

definition finish_row :: "text_rows \<Rightarrow> qwen_config \<Rightarrow> qwen_layer_weights \<Rightarrow> f32 list \<Rightarrow> f32 list \<Rightarrow> f32 list" where
  "finish_row R c lw x a =
     (let h = qc_hidden_size c;
          y = map2 f32_add x (row_mm R h (lw_o_proj_w lw) h a) in
      map2 f32_add y (row_mlp R h (qc_intermediate_size c) (lw_gate_proj_w lw) (lw_up_proj_w lw)
        (lw_down_proj_w lw) (row_norm R (lw_post_attention_layernorm_w lw) (eps_of c) y)))"

definition attend_row :: "text_rows \<Rightarrow> qwen_config \<Rightarrow> f32 list \<Rightarrow> f32 list list \<Rightarrow> f32 list list \<Rightarrow> f32 list" where
  "attend_row R c q K V =
     row_attend R (qc_num_attention_heads c) (qc_num_key_value_heads c) (qc_head_dim c) q K V"

text \<open>The row of a position after the rows \<open>X\<close> of the ones before it.\<close>

definition next_row :: "text_rows \<Rightarrow> qwen_config \<Rightarrow> qwen_layer_weights \<Rightarrow> f32 list list \<Rightarrow> f32 list \<Rightarrow> f32 list" where
  "next_row R c lw X x =
     finish_row R c lw x
       (attend_row R c (query_row R c lw (length X) x) (key_rows R c lw (X @ [x])) (value_rows R c lw (X @ [x])))"

definition layer_rows :: "text_rows \<Rightarrow> qwen_config \<Rightarrow> qwen_layer_weights \<Rightarrow> f32 list list \<Rightarrow> f32 list list" where
  "layer_rows R c lw X = map (\<lambda>i. next_row R c lw (take i X) (X ! i)) [0..<length X]"

definition network_rows ::
    "text_rows \<Rightarrow> qwen_config \<Rightarrow> qwen_layer_weights list \<Rightarrow> f32 list list \<Rightarrow> f32 list list" where
  "network_rows R c ls X = foldl (\<lambda>X lw. layer_rows R c lw X) X ls"

definition embedded :: "qwen_config \<Rightarrow> qwen_weights \<Rightarrow> token_id list \<Rightarrow> f32 list list" where
  "embedded c w tokens =
     map (\<lambda>t. take (qc_hidden_size c) (drop (unat t * qc_hidden_size c) (qw_embed_tokens w))) tokens"

definition final_logits :: "text_rows \<Rightarrow> qwen_config \<Rightarrow> qwen_weights \<Rightarrow> f32 list \<Rightarrow> f32 list" where
  "final_logits R c w x =
     row_mm R (qc_hidden_size c) (qw_lm_head_w w) (qc_vocab_size c) (row_norm R (qw_final_norm_w w) (eps_of c) x)"

definition qwen_logits :: "text_rows \<Rightarrow> qwen_config \<Rightarrow> qwen_weights \<Rightarrow> token_id list \<Rightarrow> f32 list" where
  "qwen_logits R c w tokens =
     final_logits R c w (last (network_rows R c (qw_layers w) (embedded c w tokens)))"

lemma length_key_rows [simp]: "length (key_rows R c lw X) = length X"
  by (simp add: key_rows_def)

lemma length_value_rows [simp]: "length (value_rows R c lw X) = length X"
  by (simp add: value_rows_def)

lemma length_layer_rows [simp]: "length (layer_rows R c lw X) = length X"
  by (simp add: layer_rows_def)

lemma length_network_rows [simp]: "length (network_rows R c ls X) = length X"
  by (induction ls arbitrary: X) (simp_all add: network_rows_def)

lemma length_embedded [simp]: "length (embedded c w tokens) = length tokens"
  by (simp add: embedded_def)

lemma network_rows_simps [simp]:
  "network_rows R c [] X = X" "network_rows R c (ls @ [lw]) X = layer_rows R c lw (network_rows R c ls X)"
  by (simp_all add: network_rows_def)

lemma key_rows_snoc: "key_rows R c lw (X @ [x]) = key_rows R c lw X @ [key_row R c lw (length X) x]"
  by (simp add: key_rows_def nth_append)

lemma value_rows_snoc: "value_rows R c lw (X @ [x]) = value_rows R c lw X @ [value_row R c lw x]"
  by (simp add: value_rows_def)

lemma layer_rows_snoc: "layer_rows R c lw (X @ [x]) = layer_rows R c lw X @ [next_row R c lw X x]"
  by (simp add: layer_rows_def nth_append)

lemma take_key_rows: "m \<le> length X \<Longrightarrow> take m (key_rows R c lw X) = key_rows R c lw (take m X)"
  by (simp add: key_rows_def take_map)

lemma take_value_rows: "take m (value_rows R c lw X) = value_rows R c lw (take m X)"
  by (simp add: value_rows_def take_map)

text \<open>The network is causal.\<close>

lemma network_rows_snoc: "\<exists>y. network_rows R c ls (X @ [x]) = network_rows R c ls X @ [y]"
  by (induction ls rule: rev_induct) (auto simp: layer_rows_snoc)

lemma embedded_snoc:
  "embedded c w (tokens @ [t]) =
    embedded c w tokens @ [take (qc_hidden_size c) (drop (unat t * qc_hidden_size c) (qw_embed_tokens w))]"
  by (simp add: embedded_def)

section \<open>Buffers of the right sizes\<close>

definition sized :: "qwen_config \<Rightarrow> nat \<Rightarrow> forward_buffers \<Rightarrow> bool" where
  "sized c n b \<longleftrightarrow>
     (let h = n * qc_hidden_size c; kv = n * kv_width c; i = n * qc_intermediate_size c in
      length (fb_hidden b) = h \<and> length (fb_norm b) = h \<and> length (fb_q b) = h \<and> length (fb_k b) = kv \<and>
      length (fb_v b) = kv \<and> length (fb_attn b) = h \<and> length (fb_o b) = h \<and> length (fb_residual b) = h \<and>
      length (fb_gate b) = i \<and> length (fb_up b) = i \<and> length (fb_mlp b) = h)"

text \<open>The buffers of \<open>n\<close> positions and the logits fit into the address space.\<close>

definition within_memory :: "qwen_config \<Rightarrow> nat \<Rightarrow> bool" where
  "within_memory c n \<longleftrightarrow>
     4 * (n * qc_hidden_size c) \<le> 2 ^ 63 - 1 \<and> 4 * (n * qc_intermediate_size c) \<le> 2 ^ 63 - 1 \<and>
     4 * qc_vocab_size c \<le> 2 ^ 63 - 1"

definition network_ok :: "qwen_config \<Rightarrow> qwen_weights \<Rightarrow> nat \<Rightarrow> bool" where
  "network_ok c w n \<longleftrightarrow> model_ok c w \<and> epsilon_ok (eps_of c) \<and> 0 < n \<and> within_memory c n"

text \<open>The arithmetic of the shapes of one layer, in the form the kernels ask for.\<close>

definition pass_ok :: "qwen_config \<Rightarrow> nat \<Rightarrow> bool" where
  "pass_ok c n \<longleftrightarrow>
     0 < n \<and> config_ok c \<and> epsilon_ok (eps_of c) \<and> qc_hidden_size c * qc_hidden_size c \<le> max64 \<and>
     qc_hidden_size c * kv_width c \<le> max64 \<and> qc_hidden_size c * qc_intermediate_size c \<le> max64 \<and>
     n * qc_hidden_size c \<le> max64 \<and> n * kv_width c \<le> max64 \<and> n * qc_intermediate_size c \<le> max64 \<and>
     4 * n \<le> 2 ^ 63 - 1"

lemma memory_64: "4 * n \<le> 2 ^ 63 - 1 \<Longrightarrow> n \<le> max64"
  by (simp add: max64_def)

lemma network_ok_pass: "network_ok c w n \<Longrightarrow> pass_ok c n"
proof -
  assume ok: "network_ok c w n"
  then have c: "config_ok c" and h: "0 < qc_hidden_size c" by (simp_all add: network_ok_def model_ok_def config_ok_def)
  note kv = kv_width_le [OF c]
  have "4 * (n * kv_width c) \<le> 4 * (n * qc_hidden_size c)" "4 * n \<le> 4 * (n * qc_hidden_size c)"
    using kv(2) h by (simp_all add: Suc_leI)
  moreover have "qc_hidden_size c * kv_width c \<le> qc_hidden_size c * qc_hidden_size c" using kv(2) by simp
  ultimately show ?thesis
    using ok memory_64 [of "n * qc_hidden_size c"] memory_64 [of "n * kv_width c"]
      memory_64 [of "n * qc_intermediate_size c"]
    unfolding network_ok_def pass_ok_def within_memory_def model_ok_def by linarith
qed

lemma pass_ok_simps:
  assumes "pass_ok c n"
  shows "0 < n" "config_ok c" "epsilon_ok (eps_of c)" "0 < qc_hidden_size c" "0 < qc_intermediate_size c"
    "0 < qc_num_attention_heads c" "0 < qc_num_key_value_heads c" "0 < qc_head_dim c" "even (qc_head_dim c)"
    "qc_num_key_value_heads c dvd qc_num_attention_heads c"
    "qc_num_attention_heads c * qc_head_dim c = qc_hidden_size c"
    "qc_hidden_size c * qc_hidden_size c \<le> max64" "qc_hidden_size c * kv_width c \<le> max64"
    "qc_hidden_size c * qc_intermediate_size c \<le> max64" "n * qc_hidden_size c \<le> max64"
    "n * kv_width c \<le> max64" "n * qc_intermediate_size c \<le> max64" "4 * n \<le> 2 ^ 63 - 1"
    "0 < kv_width c"
  using assms kv_width_le(1) [of c] unfolding pass_ok_def config_ok_def by simp_all

lemma save_residual_Ok:
  "length (fb_residual b) = length (fb_hidden b) \<Longrightarrow> save_residual b = Ok (b\<lparr>fb_residual := fb_hidden b\<rparr>)"
  by (simp add: save_residual_def copy_into_def)

lemma row_list_map2:
  "row_list v A \<Longrightarrow> (\<And>x y. length x = v \<Longrightarrow> length (f x y) = w) \<Longrightarrow> row_list w (map2 f A B)"
  by (auto simp: row_list_def dest: set_zip_leftD)

lemma nonempty_length: "length xs = n \<Longrightarrow> 0 < n \<Longrightarrow> xs \<noteq> []"
  by auto

context text_backend
begin

lemma project_rows:
  assumes X: "row_list h X" "length X = n" and shape: "length w = h * length bias" "length out = n * length bias"
    "0 < h" "0 < length bias"
    and fits: "n * h \<le> max64" "h * length bias \<le> max64" "n * length bias \<le> max64"
  shows "project ops n h (concat X) w bias (length bias) out =
    Ok (concat (map (\<lambda>x. map2 f32_add (row_mm rows h w (length bias) x) bias) X))"
proof -
  have "tk_matmul ops (concat X) (n, h) w (h, length bias) out = Ok (concat (map (row_mm rows h w (length bias)) X))"
    using matmul_rows [OF X(1) shape(1), of out] assms by simp
  with add_bias_rows [of bias "map (row_mm rows h w (length bias)) X"] X(2) show ?thesis
    by (simp add: project_def o_def)
qed

lemma length_projected [simp]: "length (projected rows c lw w bias x) = length bias"
  by (simp add: projected_def)

lemma length_value_row [simp]: "length (value_row rows c lw x) = length (lw_v_proj_b lw)"
  by (simp add: value_row_def)

lemma length_key_row [simp]: "length (key_row rows c lw pos x) = length (lw_k_proj_b lw)"
  by (simp add: key_row_def)

lemma length_query_row [simp]: "length (query_row rows c lw pos x) = length (lw_q_proj_b lw)"
  by (simp add: query_row_def)

lemma length_finish_row [simp]: "length x = qc_hidden_size c \<Longrightarrow> length (finish_row rows c lw x a) = qc_hidden_size c"
  by (simp add: finish_row_def Let_def)

lemma row_list_keys: "layer_ok c lw \<Longrightarrow> row_list (kv_width c) (key_rows rows c lw X)"
  "layer_ok c lw \<Longrightarrow> row_list (kv_width c) (value_rows rows c lw X)"
  by (simp_all add: key_rows_def value_rows_def layer_ok_def Let_def)

lemma row_list_layer: "row_list (qc_hidden_size c) X \<Longrightarrow> row_list (qc_hidden_size c) (layer_rows rows c lw X)"
  by (simp add: layer_rows_def next_row_def row_list_def)

lemma row_list_network:
  "row_list (qc_hidden_size c) X \<Longrightarrow> row_list (qc_hidden_size c) (network_rows rows c ls X)"
  by (induction ls rule: rev_induct) (simp_all add: row_list_layer)

lemma attention_inputs_rows:
  assumes ok: "pass_ok c n" "layer_ok c lw" and X: "row_list (qc_hidden_size c) X" "length X = n"
    and b: "sized c n b" "fb_hidden b = concat X"
  shows "attention_inputs ops c (eps_of c) n (qc_hidden_size c) (kv_width c) lw b =
    Ok (b\<lparr>fb_residual := concat X, fb_norm := concat (map (row_norm rows (lw_input_layernorm_w lw) (eps_of c)) X),
      fb_q := concat (map (projected rows c lw (lw_q_proj_w lw) (lw_q_proj_b lw)) X),
      fb_k := concat (map (projected rows c lw (lw_k_proj_w lw) (lw_k_proj_b lw)) X),
      fb_v := concat (value_rows rows c lw X)\<rparr>)"
proof -
  let ?h = "qc_hidden_size c"
  note p = pass_ok_simps [OF ok(1)]
  note lw = ok(2) [unfolded layer_ok_def Let_def]
  note sz = b(1) [unfolded sized_def Let_def]
  let ?N = "map (row_norm rows (lw_input_layernorm_w lw) (eps_of c)) X"
  have ne: "lw_input_layernorm_w lw \<noteq> []" by (rule nonempty_length [OF _ p(4)]) (simp add: lw)
  have norm: "tk_rmsnorm ops (concat X) n ?h (lw_input_layernorm_w lw) (eps_of c) (fb_norm b) = Ok (concat ?N)"
    using norm_rows [of "lw_input_layernorm_w lw" X "fb_norm b" "eps_of c"] ne X lw sz p
    by simp
  have N: "row_list ?h ?N" "length ?N = n" using lw X(2) by simp_all
  have "project ops n ?h (concat ?N) w bias (length bias) out =
      Ok (concat (map (projected rows c lw w bias) X))"
    if "length w = ?h * length bias" "length out = n * length bias" "0 < length bias"
      "?h * length bias \<le> max64" "n * length bias \<le> max64" for w bias out
    using project_rows [OF N that(1,2) p(4) that(3) p(15) that(4,5)] by (simp add: projected_def [abs_def] o_def)
  note project = this
  have residual: "save_residual b = Ok (b\<lparr>fb_residual := concat X\<rparr>)"
    using save_residual_Ok [of b] sz b(2) by simp
  show ?thesis
    using project [of "lw_q_proj_w lw" "lw_q_proj_b lw" "fb_q b"] project [of "lw_k_proj_w lw" "lw_k_proj_b lw" "fb_k b"]
      project [of "lw_v_proj_w lw" "lw_v_proj_b lw" "fb_v b"] lw sz p
    by (simp add: attention_inputs_def residual b(2) norm value_rows_def value_row_def [abs_def] Let_def)
qed

lemma rope_row_at_rows:
  assumes "row_list (heads * hdim) X" "pos < length X" "0 < heads" "0 < hdim" "even hdim"
  shows "rope_row_at ops (heads * hdim) hdim pos theta (concat X) =
    Ok (concat (X[pos := row_rope rows hdim pos theta (X ! pos)]))"
proof -
  let ?w = "heads * hdim"
  have row: "length (X ! pos) = ?w" using assms by simp
  have "pos * ?w + ?w \<le> length (concat X)" using row_in_range [OF assms(2), of ?w] assms(1) by simp
  then show ?thesis
    using rope_heads [OF row assms(3-5), of pos theta]
      concat_update_row [OF assms(1,2), of "row_rope rows hdim pos theta (X ! pos)"] row
    by (simp add: rope_row_at_def Let_def copy_into_def slice_concat_row [OF assms(1,2)])
qed

lemma update_prefix:
  assumes "m < length X"
  shows "(map (\<lambda>i. f i (X ! i)) [0..<m] @ drop m X)[m := f m (X ! m)] =
    map (\<lambda>i. f i (X ! i)) [0..<Suc m] @ drop (Suc m) X"
    "(map (\<lambda>i. f i (X ! i)) [0..<m] @ drop m X) ! m = X ! m"
  using assms by (simp_all add: list_update_append nth_append Cons_nth_drop_Suc [symmetric])

lemma rope_positions_rows:
  assumes ok: "pass_ok c n" and Q: "row_list (qc_hidden_size c) Q" "length Q = n"
    and K: "row_list (kv_width c) K" "length K = n"
  shows "rope_positions ops c n (qc_hidden_size c) (kv_width c) theta (concat Q, concat K) =
    Ok (concat (map (\<lambda>i. row_rope rows (qc_head_dim c) i theta (Q ! i)) [0..<n]),
      concat (map (\<lambda>i. row_rope rows (qc_head_dim c) i theta (K ! i)) [0..<n]))"
proof -
  note p = pass_ok_simps [OF ok]
  let ?f = "\<lambda>i. row_rope rows (qc_head_dim c) i theta"
  let ?P = "\<lambda>m X. map (\<lambda>i. ?f i (X ! i)) [0..<m] @ drop m X"
  let ?step = "\<lambda>(q_buf, k_buf) pos.
       and_then (rope_row_at ops (qc_hidden_size c) (qc_head_dim c) pos theta q_buf) (\<lambda>q_buf.
       and_then (rope_row_at ops (kv_width c) (qc_head_dim c) pos theta k_buf) (\<lambda>k_buf.
       Ok (q_buf, k_buf)))"
  have rows: "row_list w (?P m X)" if "row_list w X" "m \<le> length X" for w m and X :: "f32 list list"
    using that by (auto simp: row_list_def dest: in_set_dropD)
  have row: "rope_row_at ops (heads * qc_head_dim c) (qc_head_dim c) m theta (concat (?P m X)) = Ok (concat (?P (Suc m) X))"
    if "row_list (heads * qc_head_dim c) X" "length X = n" "m < n" "0 < heads" for heads m X
    using rope_row_at_rows [OF rows [OF that(1), of m], of m theta] that p update_prefix [of m X ?f] by simp
  have q: "rope_row_at ops (qc_hidden_size c) (qc_head_dim c) m theta (concat (?P m Q)) = Ok (concat (?P (Suc m) Q))"
    if "m < n" for m
    using row [of "qc_num_attention_heads c" Q m] Q that p by simp
  have k: "rope_row_at ops (kv_width c) (qc_head_dim c) m theta (concat (?P m K)) = Ok (concat (?P (Suc m) K))"
    if "m < n" for m
    using row [of "qc_num_key_value_heads c" K m] K that p by simp
  have "try_fold ?step (concat Q, concat K) [0..<m] = Ok (concat (?P m Q), concat (?P m K))" if "m \<le> n" for m
    using that
  proof (induction m)
    case (Suc m)
    then have "m < n" by simp
    from q [OF this] k [OF this] Suc show ?case by (simp only: upt_Suc_append le0 try_fold_append) simp
  qed simp
  from this [of n] Q(2) K(2) show ?thesis by (simp add: rope_positions_def)
qed

lemma map2_rows: "map2 f A B = map (\<lambda>i. f (A ! i) (B ! i)) [0..<length A]" if "length A = length B"
  using that by (intro nth_equalityI) simp_all

lemma finish_layer_rows:
  assumes ok: "pass_ok c n" "layer_ok c lw" and X: "row_list (qc_hidden_size c) X" "length X = n"
    and A: "row_list (qc_hidden_size c) A" "length A = n"
    and b: "sized c n b" "fb_residual b = concat X" "fb_attn b = concat A"
  shows "\<exists>b'. finish_layer ops c (eps_of c) n (qc_hidden_size c) lw b = Ok b' \<and> sized c n b' \<and>
    fb_hidden b' = concat (map2 (finish_row rows c lw) X A)"
proof -
  let ?h = "qc_hidden_size c" and ?i = "qc_intermediate_size c"
  note p = pass_ok_simps [OF ok(1)]
  note lw = ok(2) [unfolded layer_ok_def Let_def]
  note sz = b(1) [unfolded sized_def Let_def]
  let ?O = "map (row_mm rows ?h (lw_o_proj_w lw) ?h) A"
  let ?Y = "map2 (map2 f32_add) X ?O"
  let ?N = "map (row_norm rows (lw_post_attention_layernorm_w lw) (eps_of c)) ?Y"
  let ?M = "map (row_mlp rows ?h ?i (lw_gate_proj_w lw) (lw_up_proj_w lw) (lw_down_proj_w lw)) ?N"
  have Y: "row_list ?h ?Y" "length ?Y = n"
    using X A by (auto simp: row_list_def set_zip)
  have N: "row_list ?h ?N" "length ?N = n"
    using Y(2) lw by (simp_all add: row_list_def)
  note ne = nonempty_length [OF N(2) p(1)]
  have M: "row_list ?h ?M" "length ?M = n" using N(2) by (simp_all add: row_list_def)
  have o: "tk_matmul ops (concat A) (n, ?h) (lw_o_proj_w lw) (?h, ?h) (fb_o b) = Ok (concat ?O)"
    using matmul_rows [OF A(1), of "lw_o_proj_w lw" ?h "fb_o b"] A(2) lw sz p by simp
  have y: "tk_vec_add ops (concat X) (concat ?O) (fb_hidden b) = Ok (concat ?Y)"
    using add_rows [OF X(1), of ?O "fb_hidden b"] X A sz by (simp add: row_list_def)
  have weight: "lw_post_attention_layernorm_w lw \<noteq> []" by (rule nonempty_length [OF _ p(4)]) (simp add: lw)
  have norm: "tk_rmsnorm ops (concat ?Y) n ?h (lw_post_attention_layernorm_w lw) (eps_of c) (fb_norm b) = Ok (concat ?N)"
    using norm_rows [of "lw_post_attention_layernorm_w lw" ?Y "fb_norm b" "eps_of c"] weight Y lw sz p
    by simp
  obtain g u where gu: "length g = n * ?i" "length u = n * ?i"
    and mlp: "tk_mlp_gated_silu ops (concat ?N) n ?h ?i (lw_gate_proj_w lw) (lw_up_proj_w lw) (lw_down_proj_w lw)
      (fb_gate b) (fb_up b) (fb_mlp b) = Ok (g, u, concat ?M)"
    using mlp_rows [OF N(1) ne, of ?i "lw_gate_proj_w lw" "lw_up_proj_w lw" "lw_down_proj_w lw" "fb_gate b" "fb_up b" "fb_mlp b"]
      N(2) lw sz p by auto
  have lens: "length (concat ?Y) = n * ?h" "length (concat ?N) = n * ?h" "length (concat ?M) = n * ?h"
    "length (concat ?O) = n * ?h"
    using length_concat_rows [OF Y(1)] length_concat_rows [OF N(1)] length_concat_rows [OF M(1)]
      length_concat_rows [of ?h ?O] Y(2) N(2) M(2) A(2) by simp_all
  have out: "tk_vec_add ops (concat ?Y) (concat ?M) (concat ?Y) = Ok (concat (map2 (map2 f32_add) ?Y ?M))"
    by (rule add_rows [OF Y(1) M(1)]) (simp_all only: lens Y(2) M(2))
  have final: "map2 (map2 f32_add) ?Y ?M = map2 (finish_row rows c lw) X A"
    using X A by (intro nth_equalityI) (simp_all add: finish_row_def Let_def)
  have "length (concat (map2 (map2 f32_add) ?Y ?M)) = n * ?h"
    unfolding final
    using length_concat_rows [OF row_list_map2 [OF X(1), of "finish_row rows c lw" ?h A]] X(2) A(2) by simp
  moreover have residual: "save_residual (b\<lparr>fb_o := concat ?O, fb_hidden := concat ?Y\<rparr>) =
      Ok (b\<lparr>fb_o := concat ?O, fb_hidden := concat ?Y, fb_residual := concat ?Y\<rparr>)"
    using sz lens by (subst save_residual_Ok) simp_all
  ultimately show ?thesis
    unfolding finish_layer_def Let_def b(2,3) o y and_then.simps residual
    using sz lens gu norm mlp out by (simp add: sized_def Let_def final [symmetric] del: length_concat)
qed

end

end
