(* ===== verification/Qwen_Prefill.thy ===== *)
theory Qwen_Prefill imports Qwen_Rows
begin

text \<open>
  What a prefill returns (src/crates/models/src/qwen/qwen2_5/prefill.rs): the logits of the
  network on rows, for any backend of the contract \<open>text_backend\<close>, whatever it writes into a
  cache on the way.
\<close>

lemma try_fold_st_append:
  "try_fold_st f s b (xs @ ys) = and_then_st (try_fold_st f s b xs) (\<lambda>s b. try_fold_st f s b ys)"
proof (induction xs arbitrary: s b)
  case (Cons x xs)
  obtain t r where "f s b x = (t, r)" by (cases "f s b x")
  with Cons show ?case by (cases r) simp_all
qed simp

section \<open>Buffers and embeddings\<close>

lemma and_then_id: "and_then r (\<lambda>x. Ok x) = r"
  by (cases r) simp_all

lemma scratch_vec_Ok: "4 * (n * k) \<le> 2 ^ 63 - 1 \<Longrightarrow> scratch_vec n k = Ok (replicate (n * k) 0)"
  using memory_64 [of "n * k"] by (simp add: scratch_vec_def times_u64_def zeroed_vec_def)

lemma within_memory_kv: "config_ok c \<Longrightarrow> within_memory c n \<Longrightarrow> 4 * (n * kv_width c) \<le> 2 ^ 63 - 1"
  using mult_le_mono2 [OF kv_width_le(2), of c n] unfolding within_memory_def by linarith

lemma new_buffers_sized:
  assumes "config_ok c" "within_memory c n" "length hidden = n * qc_hidden_size c"
  shows "\<exists>b. new_buffers n (qc_hidden_size c) (qc_hidden_size c) (kv_width c) (qc_intermediate_size c) hidden = Ok b \<and>
    sized c n b \<and> fb_hidden b = hidden"
proof -
  have fits: "4 * (n * qc_hidden_size c) \<le> 2 ^ 63 - 1" "4 * (n * qc_intermediate_size c) \<le> 2 ^ 63 - 1"
    using assms(2) by (simp_all add: within_memory_def)
  show ?thesis
    unfolding new_buffers_def scratch_vec_Ok [OF fits(1)] scratch_vec_Ok [OF fits(2)]
      scratch_vec_Ok [OF within_memory_kv [OF assms(1,2)]] and_then.simps
    using assms(3) by (simp add: sized_def Let_def)
qed

lemma token_row:
  assumes "model_ok c w" "unat (t :: token_id) < qc_vocab_size c"
  shows "unat t * qc_hidden_size c + qc_hidden_size c \<le> length (qw_embed_tokens w)"
    and "unat t * qc_hidden_size c \<le> max64"
proof -
  have "unat t * qc_hidden_size c + qc_hidden_size c \<le> qc_vocab_size c * qc_hidden_size c"
    using row_in_range [OF assms(2)] .
  moreover have "qc_vocab_size c * qc_hidden_size c \<le> max64" "length (qw_embed_tokens w) = qc_vocab_size c * qc_hidden_size c"
    using assms(1) by (simp_all add: model_ok_def mult.commute)
  ultimately show "unat t * qc_hidden_size c + qc_hidden_size c \<le> length (qw_embed_tokens w)"
    "unat t * qc_hidden_size c \<le> max64" by simp_all
qed

lemma row_list_embedded:
  assumes "model_ok c w" "\<And>t. t \<in> set tokens \<Longrightarrow> unat t < qc_vocab_size c"
  shows "row_list (qc_hidden_size c) (embedded c w tokens)"
  unfolding embedded_def row_list_map
proof
  fix t
  assume "t \<in> set tokens"
  from token_row(1) [OF assms(1) assms(2) [OF this]]
  show "length (take (qc_hidden_size c) (drop (unat t * qc_hidden_size c) (qw_embed_tokens w))) = qc_hidden_size c"
    by simp
qed

lemma embed_tokens_rows:
  assumes w: "model_ok c w" and tokens: "\<And>t. t \<in> set tokens \<Longrightarrow> unat t < qc_vocab_size c"
    and hidden: "length hidden = length tokens * qc_hidden_size c"
  shows "embed_tokens w (qc_hidden_size c) tokens hidden = Ok (concat (embedded c w tokens))"
proof -
  let ?h = "qc_hidden_size c"
  let ?step = "(\<lambda>hidden (t_idx, tok). and_then (times_u64 (unat tok) ?h) (\<lambda>src.
       let dst = t_idx * ?h in
       and_then (slice (qw_embed_tokens w) src (src + ?h)) (\<lambda>row. copy_into hidden dst (dst + ?h) row)))
     :: f32 list \<Rightarrow> nat \<times> token_id \<Rightarrow> f32 list res"
  have "try_fold ?step hidden (enumerate 0 (take m tokens)) =
      Ok (concat (embedded c w (take m tokens)) @ drop (m * ?h) hidden)" if "m \<le> length tokens" for m
    using that
  proof (induction m)
    case (Suc m)
    then have m: "m < length tokens" by simp
    let ?t = "tokens ! m"
    have t: "unat ?t < qc_vocab_size c" using tokens m by simp
    have enum: "enumerate 0 (take (Suc m) tokens) = enumerate 0 (take m tokens) @ [(m, ?t)]"
      using m by (simp add: take_Suc_conv_app_nth enumerate_append_eq)
    have "row_list ?h (embedded c w (take m tokens))"
      using row_list_embedded [OF w, of "take m tokens"] tokens by (auto dest: in_set_takeD)
    then have len: "length (concat (embedded c w (take m tokens))) = m * ?h"
      using length_concat_rows [of ?h "embedded c w (take m tokens)"] m by simp
    have fit: "m * ?h + ?h \<le> length hidden" using row_in_range [OF m, of ?h] hidden by simp
    have row: "length (take ?h (drop (unat ?t * ?h) (qw_embed_tokens w))) = ?h" using token_row(1) [OF w t] by simp
    have "try_fold ?step hidden (enumerate 0 (take m tokens)) =
        Ok (concat (embedded c w (take m tokens)) @ drop (m * ?h) hidden)" using Suc by simp
    then have "try_fold ?step hidden (enumerate 0 (take (Suc m) tokens)) =
        copy_into (concat (embedded c w (take m tokens)) @ drop (m * ?h) hidden) (m * ?h) (m * ?h + ?h)
          (take ?h (drop (unat ?t * ?h) (qw_embed_tokens w)))"
      unfolding enum try_fold_append using token_row [OF w t]
      by (simp add: times_u64_def slice_def Let_def and_then_id del: length_concat)
    also have "\<dots> = Ok (concat (embedded c w (take (Suc m) tokens)) @ drop (Suc m * ?h) hidden)"
      using m len fit row
      by (simp add: copy_into_def take_Suc_conv_app_nth embedded_snoc add.commute del: length_concat)
    finally show ?case .
  qed (simp add: embedded_def)
  from this [of "length tokens"] hidden show ?thesis by (simp add: embed_tokens_def)
qed

definition tokens_ok :: "qwen_config \<Rightarrow> token_id list \<Rightarrow> bool" where
  "tokens_ok c tokens \<longleftrightarrow> tokens \<noteq> [] \<and> length tokens \<le> qc_context_length c \<and> (\<forall>t \<in> set tokens. unat t < qc_vocab_size c)"

context text_backend
begin

lemma prefill_layer_rows:
  assumes ok: "pass_ok c n" "layer_ok c lw" and X: "row_list (qc_hidden_size c) X" "length X = n"
    and b: "sized c n b" "fb_hidden b = concat X"
    and cache: "with_cache cache (write_positions store l n (kv_width c) (concat (key_rows rows c lw X))
      (concat (value_rows rows c lw X))) () = (cache', Ok ())"
  shows "\<exists>b'. prefill_layer ops store c (eps_of c) (theta_of c) n (qc_hidden_size c) (kv_width c) cache b (l, lw) =
      (cache', Ok b') \<and> sized c n b' \<and> fb_hidden b' = concat (layer_rows rows c lw X)"
proof -
  let ?h = "qc_hidden_size c"
  note p = pass_ok_simps [OF ok(1)]
  note lw = ok(2) [unfolded layer_ok_def Let_def]
  note sz = b(1) [unfolded sized_def Let_def]
  let ?Q = "map (projected rows c lw (lw_q_proj_w lw) (lw_q_proj_b lw)) X"
  let ?K = "map (projected rows c lw (lw_k_proj_w lw) (lw_k_proj_b lw)) X"
  let ?q = "map (\<lambda>i. query_row rows c lw i (X ! i)) [0..<n]"
  let ?k = "key_rows rows c lw X" and ?v = "value_rows rows c lw X"
  let ?A = "map (\<lambda>i. attend_row rows c (?q ! i) (take (Suc i) ?k) (take (Suc i) ?v)) [0..<n]"
  let ?b1 = "b\<lparr>fb_residual := concat X, fb_norm := concat (map (row_norm rows (lw_input_layernorm_w lw) (eps_of c)) X),
      fb_q := concat ?Q, fb_k := concat ?K, fb_v := concat ?v\<rparr>"
  let ?b2 = "?b1\<lparr>fb_q := concat ?q, fb_k := concat ?k, fb_attn := concat ?A\<rparr>"
  have Q: "row_list ?h ?Q" "length ?Q = n" and K: "row_list (kv_width c) ?K" "length ?K = n"
    using X(2) lw by simp_all
  have q: "row_list ?h ?q" "length ?q = n" and A: "row_list ?h ?A" "length ?A = n"
    using lw p by (simp_all add: attend_row_def)
  note k = row_list_keys [OF ok(2)]
  have rope: "rope_positions ops c n ?h (kv_width c) (theta_of c) (concat ?Q, concat ?K) = Ok (concat ?q, concat ?k)"
  proof -
    have "map (\<lambda>i. row_rope rows (qc_head_dim c) i (theta_of c) (?Q ! i)) [0..<n] = ?q"
      "map (\<lambda>i. row_rope rows (qc_head_dim c) i (theta_of c) (?K ! i)) [0..<n] = ?k"
      by (rule nth_equalityI; simp add: X(2) query_row_def key_rows_def key_row_def)+
    with rope_positions_rows [OF ok(1) Q K, of "theta_of c"] show ?thesis by simp
  qed
  have "?q \<noteq> []" using p(1) by simp
  then have attention: "tk_attention ops (concat ?q) (concat ?k) (concat ?v) n (qc_num_attention_heads c)
      (qc_num_key_value_heads c) (qc_head_dim c) (fb_attn b) = Ok (concat ?A)"
    using attention_rows [of "qc_num_attention_heads c" "qc_head_dim c" ?q "qc_num_key_value_heads c" ?k ?v "fb_attn b"]
      q k X(2) p sz by (simp add: attend_row_def)
  have lens: "length (concat ?q) = n * ?h" "length (concat ?k) = n * kv_width c" "length (concat ?v) = n * kv_width c"
    "length (concat ?A) = n * ?h" "length (concat X) = n * ?h"
    "length (concat (map (row_norm rows (lw_input_layernorm_w lw) (eps_of c)) X)) = n * ?h"
    using length_concat_rows [OF q(1)] length_concat_rows [OF k(1)] length_concat_rows [OF k(2)]
      length_concat_rows [OF A(1)] length_concat_rows [OF X(1)]
      length_concat_rows [of ?h "map (row_norm rows (lw_input_layernorm_w lw) (eps_of c)) X"] q(2) A(2) X(2) lw
    by simp_all
  have "sized c n ?b2" unfolding sized_def Let_def using sz lens by (simp del: length_concat)
  from finish_layer_rows [OF ok X A this] obtain b'
    where b': "finish_layer ops c (eps_of c) n ?h lw ?b2 = Ok b'" "sized c n b'"
      "fb_hidden b' = concat (map2 (finish_row rows c lw) X ?A)" by auto
  have layer: "map2 (finish_row rows c lw) X ?A = layer_rows rows c lw X"
  proof (rule nth_equalityI)
    fix i
    assume "i < length (map2 (finish_row rows c lw) X ?A)"
    then have i: "i < length X" using X(2) by simp
    then have "take (Suc i) X = take i X @ [X ! i]" by (rule take_Suc_conv_app_nth)
    then show "map2 (finish_row rows c lw) X ?A ! i = layer_rows rows c lw X ! i"
      using i X(2) by (simp add: layer_rows_def next_row_def take_key_rows take_value_rows del: take_Suc_conv_app_nth)
  qed (use X(2) in simp)
  have "prefill_layer ops store c (eps_of c) (theta_of c) n ?h (kv_width c) cache b (l, lw) = (cache', Ok b')"
    unfolding prefill_layer_def prod.case attention_inputs_rows [OF ok X b] and_then_st.simps
    using rope cache attention b'(1) by simp
  then show ?thesis using b'(2,3) layer by auto
qed

lemma prefill_layers_rows:
  assumes ok: "pass_ok c n" "list_all (layer_ok c) ls" and X: "row_list (qc_hidden_size c) X" "length X = n"
    and b: "sized c n b" "fb_hidden b = concat X" and start: "P 0 cache"
    and cache: "\<And>l cache. P l cache \<Longrightarrow> l < length ls \<Longrightarrow> \<exists>cache'. P (Suc l) cache' \<and>
      with_cache cache (write_positions store l n (kv_width c)
        (concat (key_rows rows c (ls ! l) (network_rows rows c (take l ls) X)))
        (concat (value_rows rows c (ls ! l) (network_rows rows c (take l ls) X)))) () = (cache', Ok ())"
  shows "m \<le> length ls \<Longrightarrow> \<exists>cache' b'. P m cache' \<and> sized c n b' \<and>
    try_fold_st (prefill_layer ops store c (eps_of c) (theta_of c) n (qc_hidden_size c) (kv_width c)) cache b
      (enumerate 0 (take m ls)) = (cache', Ok b') \<and> fb_hidden b' = concat (network_rows rows c (take m ls) X)"
proof (induction m)
  case 0
  then show ?case using start b by simp
next
  case (Suc m)
  then obtain cache1 b1 where one: "P m cache1" "sized c n b1"
    "try_fold_st (prefill_layer ops store c (eps_of c) (theta_of c) n (qc_hidden_size c) (kv_width c)) cache b
      (enumerate 0 (take m ls)) = (cache1, Ok b1)" "fb_hidden b1 = concat (network_rows rows c (take m ls) X)"
    by auto
  have m: "m < length ls" using Suc.prems by simp
  then have lw: "layer_ok c (ls ! m)" using ok(2) by (simp add: list_all_length)
  from cache [OF one(1) m] obtain cache' where cache': "P (Suc m) cache'"
    "with_cache cache1 (write_positions store m n (kv_width c)
        (concat (key_rows rows c (ls ! m) (network_rows rows c (take m ls) X)))
        (concat (value_rows rows c (ls ! m) (network_rows rows c (take m ls) X)))) () = (cache', Ok ())" by auto
  have X': "length (network_rows rows c (take m ls) X) = n" using X(2) by simp
  from prefill_layer_rows [OF ok(1) lw row_list_network [OF X(1)] X' one(2,4) cache'(2)]
  obtain b' where b': "prefill_layer ops store c (eps_of c) (theta_of c) n (qc_hidden_size c) (kv_width c) cache1 b1
      (m, ls ! m) = (cache', Ok b')" "sized c n b'"
    "fb_hidden b' = concat (layer_rows rows c (ls ! m) (network_rows rows c (take m ls) X))" by auto
  have enum: "enumerate 0 (take (Suc m) ls) = enumerate 0 (take m ls) @ [(m, ls ! m)]"
    using m by (simp add: take_Suc_conv_app_nth enumerate_append_eq)
  show ?case
    unfolding enum try_fold_st_append one(3) and_then_st.simps
    using b' cache'(1) m by (simp add: take_Suc_conv_app_nth)
qed

lemma final_norm_rows:
  assumes ok: "network_ok c w n" and X: "row_list (qc_hidden_size c) X" "length X = n"
    and norm_buf: "length norm_buf = n * qc_hidden_size c"
  shows "tk_rmsnorm ops (concat X) n (qc_hidden_size c) (qw_final_norm_w w) (eps_of c) norm_buf =
      Ok (concat (map (row_norm rows (qw_final_norm_w w) (eps_of c)) X))"
proof -
  note p = pass_ok_simps [OF network_ok_pass [OF ok]]
  have w: "length (qw_final_norm_w w) = qc_hidden_size c" using ok by (simp add: network_ok_def model_ok_def)
  have "qw_final_norm_w w \<noteq> []" by (rule nonempty_length [OF w p(4)])
  then show ?thesis using norm_rows [of "qw_final_norm_w w" X norm_buf "eps_of c"] X norm_buf w p by simp
qed

lemma lm_head_rows:
  assumes ok: "network_ok c w n" and logits: "length logits = qc_vocab_size c"
  shows "tk_matmul ops (row_norm rows (qw_final_norm_w w) (eps_of c) x) (1, qc_hidden_size c) (qw_lm_head_w w)
      (qc_hidden_size c, qc_vocab_size c) logits = Ok (final_logits rows c w x)"
proof -
  note p = pass_ok_simps [OF network_ok_pass [OF ok]]
  have w: "length (qw_final_norm_w w) = qc_hidden_size c"
    "length (qw_lm_head_w w) = qc_hidden_size c * qc_vocab_size c" "0 < qc_vocab_size c"
    "qc_hidden_size c * qc_vocab_size c \<le> max64"
    using ok by (simp_all add: network_ok_def model_ok_def config_ok_def)
  have "qc_hidden_size c \<le> max64" "qc_vocab_size c \<le> max64"
    using le_product [OF p(4) p(12)] le_product [OF p(4), of "qc_vocab_size c" max64] w(4) by (simp_all add: mult.commute)
  then show ?thesis
    using matmul_rows [of "qc_hidden_size c" "[row_norm rows (qw_final_norm_w w) (eps_of c) x]" "qw_lm_head_w w"
        "qc_vocab_size c" logits] w p logits by (simp add: final_logits_def)
qed

lemma prefill_impl_rows:
  assumes self: "qm_config self = c" "qm_weights self = w" "qm_kernels self = ops"
    and ok: "network_ok c w (length tokens)" and tokens: "tokens_ok c tokens"
    and start: "P 0 cache"
    and layer: "\<And>l cache. P l cache \<Longrightarrow> l < length (qw_layers w) \<Longrightarrow> \<exists>cache'. P (Suc l) cache' \<and>
      with_cache cache (write_positions store l (length tokens) (kv_width c)
        (concat (key_rows rows c (qw_layers w ! l) (network_rows rows c (take l (qw_layers w)) (embedded c w tokens))))
        (concat (value_rows rows c (qw_layers w ! l) (network_rows rows c (take l (qw_layers w)) (embedded c w tokens)))))
        () = (cache', Ok ())"
    and finish: "\<And>cache. P (length (qw_layers w)) cache \<Longrightarrow> \<exists>cache'. Q cache' \<and>
      with_cache cache (\<lambda>cache. stored cache (op_set_len (ks_ops store) cache (length tokens))) () = (cache', Ok ())"
  shows "\<exists>cache'. Q cache' \<and> prefill_impl store self tokens cache = (cache', Ok (qwen_logits rows c w tokens))"
proof -
  let ?n = "length tokens" and ?h = "qc_hidden_size c" and ?ls = "qw_layers w"
  have w: "model_ok c w" "within_memory c ?n" and layers: "list_all (layer_ok c) ?ls"
    using ok by (simp_all add: network_ok_def model_ok_def)
  note pass = network_ok_pass [OF ok]
  note p = pass_ok_simps [OF pass]
  have t: "\<And>t. t \<in> set tokens \<Longrightarrow> unat t < qc_vocab_size c" and some: "tokens \<noteq> []" "?n \<le> qc_context_length c"
    and range_ok: "\<not> list_ex (\<lambda>t. qc_vocab_size c \<le> unat t) tokens"
    using tokens by (auto simp: tokens_ok_def list_ex_iff)
  have fits: "4 * (?n * ?h) \<le> 2 ^ 63 - 1" "4 * qc_vocab_size c \<le> 2 ^ 63 - 1"
    using w(2) by (simp_all add: within_memory_def)
  let ?X = "embedded c w tokens"
  let ?Z = "network_rows rows c ?ls ?X"
  let ?N = "map (row_norm rows (qw_final_norm_w w) (eps_of c)) ?Z"
  have X: "row_list ?h ?X" "length ?X = ?n" using row_list_embedded [OF w(1) t] by simp_all
  have Z: "row_list ?h ?Z" "length ?Z = ?n" using row_list_network [OF X(1)] by simp_all
  have embed: "embed_tokens w ?h tokens (replicate (?n * ?h) 0) = Ok (concat ?X)"
    using embed_tokens_rows [OF w(1), of tokens "replicate (?n * ?h) 0"] t by simp
  obtain b where b: "new_buffers ?n ?h ?h (kv_width c) (qc_intermediate_size c) (concat ?X) = Ok b" "sized c ?n b"
      "fb_hidden b = concat ?X"
    using new_buffers_sized [OF p(2) w(2), of "concat ?X"] length_concat_rows [OF X(1)] by auto
  obtain cache1 b1 where fold: "P (length ?ls) cache1" "sized c ?n b1"
    "try_fold_st (prefill_layer ops store c (eps_of c) (theta_of c) ?n ?h (kv_width c)) cache b (enumerate 0 ?ls) =
      (cache1, Ok b1)" "fb_hidden b1 = concat ?Z"
    using prefill_layers_rows [OF pass layers X b(2,3) start layer, of "length ?ls"] by auto
  from finish [OF fold(1)] obtain cache' where ended: "Q cache'"
    "with_cache cache1 (\<lambda>cache. stored cache (op_set_len (ks_ops store) cache ?n)) () = (cache', Ok ())" by auto
  have "length (fb_norm b1) = ?n * ?h" using fold(2) by (simp add: sized_def Let_def)
  note norm = final_norm_rows [OF ok Z this]
  have "qw_final_norm_w w \<noteq> []" "length (qw_final_norm_w w) = ?h" using w(1) p(4) by (auto simp: model_ok_def)
  then have N: "row_list ?h ?N" "?n - 1 < length ?N" using Z(2) p(1) by simp_all
  have last: "?N ! (?n - 1) = row_norm rows (qw_final_norm_w w) (eps_of c) (last ?Z)"
    using last_conv_nth [OF nonempty_length [OF Z(2) p(1)]] Z(2) p(1) by simp
  have head: "tk_matmul ops (row_norm rows (qw_final_norm_w w) (eps_of c) (last ?Z)) (1, ?h) (qw_lm_head_w w)
      (?h, qc_vocab_size c) (replicate (qc_vocab_size c) 0) = Ok (qwen_logits rows c w tokens)"
    unfolding qwen_logits_def by (rule lm_head_rows [OF ok]) simp
  have products: "times_u64 (qc_num_attention_heads c) (qc_head_dim c) = Ok ?h"
    "times_u64 (qc_num_key_value_heads c) (qc_head_dim c) = Ok (kv_width c)"
    using p(11) le_product [OF p(4) p(12)] le_product [OF p(1), of "kv_width c" max64] p(16)
    by (simp_all add: times_u64_def mult.commute)
  have "prefill_impl store self tokens cache = (cache', Ok (qwen_logits rows c w tokens))"
    unfolding prefill_impl_def Let_def self
    using some range_ok
    by (simp add: products scratch_vec_Ok [OF fits(1)] embed b(1) fold(3,4) norm slice_concat_row [OF N] last
        zeroed_vec_def fits(2) [simplified] head ended(2) del: One_nat_def)
  with ended(1) show ?thesis by auto
qed

end

end
