(* ===== verification/Qwen_Cached.thy ===== *)
theory Qwen_Cached imports Qwen_Prefill
begin

text \<open>
  Prefill and decode against a KV cache (src/crates/models/src/qwen/qwen2_5: prefill.rs,
  decode.rs), for any backend and any store of the contracts. A prefill leaves the keys and
  values of every layer in the cache, a decode step appends those of one position and returns
  the logits that a prefill of the longer prompt would return.
\<close>

section \<open>Stores\<close>

text \<open>A store whose layout describes the table it implements and never changes.\<close>

locale cached_store = kv_store "ks_ops store" wf view
  for store :: "'s kv_cache_store" and wf :: "'s \<Rightarrow> bool" and view :: "'s \<Rightarrow> kv_table" +
  assumes layout_view: "wf s \<Longrightarrow> kt_layers (view s) = kl_num_layers (ks_layout store s) \<and>
      kt_capacity (view s) = kl_capacity_tokens (ks_layout store s) \<and>
      kt_width (view s) = kl_num_key_value_heads (ks_layout store s) * kl_head_dim (ks_layout store s)"
    and set_len_layout: "op_set_len (ks_ops store) s n = Ok s' \<Longrightarrow> ks_layout store s' = ks_layout store s"
    and write_layout: "op_write (ks_ops store) s l p k v = Ok s' \<Longrightarrow> ks_layout store s' = ks_layout store s"

text \<open>A whole layer's rows written into the table from position 0 on.\<close>

definition table_fill :: "kv_table \<Rightarrow> nat \<Rightarrow> f32 list list \<Rightarrow> f32 list list \<Rightarrow> kv_table" where
  "table_fill t l K V =
     t\<lparr>kt_key := (kt_key t)(l := (\<lambda>p. if p < length K then K ! p else kt_key t l p)),
       kt_value := (kt_value t)(l := (\<lambda>p. if p < length V then V ! p else kt_value t l p))\<rparr>"

lemma table_fill_simps [simp]:
  "kt_layers (table_fill t l K V) = kt_layers t" "kt_capacity (table_fill t l K V) = kt_capacity t"
  "kt_width (table_fill t l K V) = kt_width t" "kt_len (table_fill t l K V) = kt_len t"
  "kt_released (table_fill t l K V) = kt_released t"
  by (simp_all add: table_fill_def)

lemma table_fill_nothing [simp]: "table_fill t l [] [] = t"
  by (simp add: table_fill_def)

lemma table_write_fill:
  assumes "\<not> kt_released t" "length k = kt_width t" "length v = kt_width t" "l < kt_layers t" "length K < kt_capacity t"
    "length V = length K"
  shows "table_write (table_fill t l K V) l (length K) k v = Ok (table_fill t l (K @ [k]) (V @ [v]))"
  using assms by (auto simp: table_write_def table_fill_def nth_append fun_eq_iff less_Suc_eq)

text \<open>A table for \<open>n\<close> positions of the model.\<close>

definition table_ready :: "qwen_config \<Rightarrow> nat \<Rightarrow> kv_table \<Rightarrow> bool" where
  "table_ready c n t \<longleftrightarrow> \<not> kt_released t \<and> kt_layers t = qc_num_hidden_layers c \<and> kt_width t = kv_width c \<and>
     n \<le> kt_capacity t"

text \<open>
  The first \<open>m\<close> layers of a table hold the keys and values of the positions whose embedded rows
  are \<open>X\<close>.
\<close>

definition holds_rows :: "text_rows \<Rightarrow> qwen_config \<Rightarrow> qwen_layer_weights list \<Rightarrow> f32 list list \<Rightarrow> nat \<Rightarrow> kv_table \<Rightarrow> bool" where
  "holds_rows R c ls X m t \<longleftrightarrow>
     (\<forall>l < m. \<forall>p < length X. kt_key t l p = key_rows R c (ls ! l) (network_rows R c (take l ls) X) ! p \<and>
       kt_value t l p = value_rows R c (ls ! l) (network_rows R c (take l ls) X) ! p)"

lemma holds_rows_fill:
  assumes "holds_rows R c ls X l t"
  shows "holds_rows R c ls X (Suc l) (table_fill t l (key_rows R c (ls ! l) (network_rows R c (take l ls) X))
    (value_rows R c (ls ! l) (network_rows R c (take l ls) X)))"
  using assms by (auto simp: holds_rows_def table_fill_def less_Suc_eq)

text \<open>A cache that a model has filled with the prompt \<open>tokens\<close>.\<close>

definition holds_prompt :: "text_rows \<Rightarrow> qwen_config \<Rightarrow> qwen_weights \<Rightarrow> token_id list \<Rightarrow> kv_table \<Rightarrow> bool" where
  "holds_prompt R c w tokens t \<longleftrightarrow>
     \<not> kt_released t \<and> kt_len t = length tokens \<and>
     holds_rows R c (qw_layers w) (embedded c w tokens) (length (qw_layers w)) t"

context cached_store
begin

lemma valid_layout_ready:
  assumes "wf s" "\<not> kt_released (view s)" "validate_cache_layout_for_model c (ks_layout store s) n = Ok ()"
  shows "table_ready c n (view s)"
  using assms layout_view [OF assms(1)]
  by (auto simp: table_ready_def validate_cache_layout_for_model_def split: if_splits)

lemma set_len_ready:
  assumes "wf s" "\<not> kt_released (view s)" "n \<le> kt_capacity (view s)"
  shows "\<exists>s'. stored s (op_set_len (ks_ops store) s n) = (s', Ok ()) \<and> wf s' \<and> view s' = (view s)\<lparr>kt_len := n\<rparr> \<and>
    ks_layout store s' = ks_layout store s"
  using set_len_view [OF assms(1), of n] set_len_wf [OF assms(1), of n] set_len_layout [of s n] assms
  by (cases "op_set_len (ks_ops store) s n") (auto simp: table_set_len_def)

lemma write_ready:
  assumes s: "wf s" and t: "table_write (view s) l p k v = Ok t"
  shows "\<exists>s'. stored s (op_write (ks_ops store) s l p k v) = (s', Ok ()) \<and> wf s' \<and> view s' = t \<and>
    ks_layout store s' = ks_layout store s"
  using write_view [OF s, of l p k v] write_wf [OF s, of l p k v] write_layout [of s l p k v] t
  by (cases "op_write (ks_ops store) s l p k v") auto

lemma read_ready:
  assumes "wf s" "\<not> kt_released (view s)" "n \<le> kt_capacity (view s)" "length out = n * kt_width (view s)"
    "l < kt_layers (view s)"
  shows "op_read_keys (ks_ops store) s l n out = Ok (concat (map (kt_key (view s) l) [0..<n]))"
    "op_read_values (ks_ops store) s l n out = Ok (concat (map (kt_value (view s) l) [0..<n]))"
  using read_keys_view [OF assms(1), of l n out] read_values_view [OF assms(1), of l n out] assms
  by (cases "op_read_keys (ks_ops store) s l n out"; cases "op_read_values (ks_ops store) s l n out";
      simp add: table_read_keys_def table_read_values_def table_read_def)+

lemma write_positions_rows:
  assumes s: "wf s" "\<not> kt_released (view s)" "l < kt_layers (view s)" "length K \<le> kt_capacity (view s)"
    and K: "row_list (kt_width (view s)) K" "row_list (kt_width (view s)) V" "length V = length K"
  shows "\<exists>s'. write_positions store l (length K) (kt_width (view s)) (concat K) (concat V) s = (s', Ok ()) \<and> wf s' \<and>
    view s' = table_fill (view s) l K V \<and> ks_layout store s' = ks_layout store s"
proof -
  let ?w = "kt_width (view s)"
  let ?step = "\<lambda>cache (_ :: unit) pos. let start = pos * ?w in
       and_then_st (cache, slice (concat K) start (start + ?w)) (\<lambda>cache key.
       and_then_st (cache, slice (concat V) start (start + ?w)) (\<lambda>cache val.
       stored cache (op_write (ks_ops store) cache l pos key val)))"
  have "\<exists>s'. try_fold_st ?step s () [0..<m] = (s', Ok ()) \<and> wf s' \<and>
      view s' = table_fill (view s) l (take m K) (take m V) \<and> ks_layout store s' = ks_layout store s"
    if "m \<le> length K" for m
    using that
  proof (induction m)
    case (Suc m)
    then obtain s1 where one: "try_fold_st ?step s () [0..<m] = (s1, Ok ())" "wf s1"
      "view s1 = table_fill (view s) l (take m K) (take m V)" "ks_layout store s1 = ks_layout store s" by auto
    have m: "m < length K" "m < length V" using Suc.prems K(3) by simp_all
    have "table_write (view s1) l m (K ! m) (V ! m) = Ok (table_fill (view s) l (take (Suc m) K) (take (Suc m) V))"
      unfolding one(3) using table_write_fill [of "view s" "K ! m" "V ! m" l "take m K" "take m V"] s(2-4) K m
      by (simp add: take_Suc_conv_app_nth)
    from write_ready [OF one(2) this] obtain s2
      where "stored s1 (op_write (ks_ops store) s1 l m (K ! m) (V ! m)) = (s2, Ok ())" "wf s2"
        "view s2 = table_fill (view s) l (take (Suc m) K) (take (Suc m) V)" "ks_layout store s2 = ks_layout store s"
      using one(4) by auto
    moreover have "?step s1 () m = stored s1 (op_write (ks_ops store) s1 l m (K ! m) (V ! m))"
      by (simp add: Let_def slice_concat_row [OF K(1) m(1)] slice_concat_row [OF K(2) m(2)])
    ultimately show ?case
      by (simp only: upt_Suc_append le0 try_fold_st_append one(1) and_then_st.simps try_fold_st.simps) simp
  qed (use s in simp)
  from this [of "length K"] show ?thesis using K(3) by (simp add: write_positions_def)
qed

end

text \<open>One position of one layer written into the table.\<close>

definition table_put :: "kv_table \<Rightarrow> nat \<Rightarrow> nat \<Rightarrow> f32 list \<Rightarrow> f32 list \<Rightarrow> kv_table" where
  "table_put t l p k v =
     t\<lparr>kt_key := (kt_key t)(l := (kt_key t l)(p := k)), kt_value := (kt_value t)(l := (kt_value t l)(p := v))\<rparr>"

lemma table_put_simps [simp]:
  "kt_layers (table_put t l p k v) = kt_layers t" "kt_capacity (table_put t l p k v) = kt_capacity t"
  "kt_width (table_put t l p k v) = kt_width t" "kt_len (table_put t l p k v) = kt_len t"
  "kt_released (table_put t l p k v) = kt_released t"
  by (simp_all add: table_put_def)

lemma table_put_ready [simp]: "table_ready c n (table_put t l p k v) = table_ready c n t"
  by (simp add: table_ready_def)

lemma table_write_put:
  "table_ready c n t \<Longrightarrow> length k = kv_width c \<Longrightarrow> length v = kv_width c \<Longrightarrow> l < qc_num_hidden_layers c \<Longrightarrow> p < n \<Longrightarrow>
    table_write t l p k v = Ok (table_put t l p k v)"
  by (simp add: table_write_def table_put_def table_ready_def)

text \<open>The rows of the first positions do not change when the prompt grows.\<close>

lemma rows_prefix:
  assumes "p < length X"
  shows "key_rows R c lw (network_rows R c ls (X @ [x])) ! p = key_rows R c lw (network_rows R c ls X) ! p"
    "value_rows R c lw (network_rows R c ls (X @ [x])) ! p = value_rows R c lw (network_rows R c ls X) ! p"
proof -
  obtain y where y: "network_rows R c ls (X @ [x]) = network_rows R c ls X @ [y]" using network_rows_snoc by blast
  show "key_rows R c lw (network_rows R c ls (X @ [x])) ! p = key_rows R c lw (network_rows R c ls X) ! p"
    "value_rows R c lw (network_rows R c ls (X @ [x])) ! p = value_rows R c lw (network_rows R c ls X) ! p"
    using assms by (simp_all add: y key_rows_snoc value_rows_snoc nth_append)
qed

lemma holds_rows_put:
  assumes "holds_rows R c ls (X @ [x]) l t"
    and "\<And>p. p < length X \<Longrightarrow> kt_key t l p = key_rows R c (ls ! l) (network_rows R c (take l ls) X) ! p"
    and "\<And>p. p < length X \<Longrightarrow> kt_value t l p = value_rows R c (ls ! l) (network_rows R c (take l ls) X) ! p"
  shows "holds_rows R c ls (X @ [x]) (Suc l)
    (table_put t l (length X) (key_rows R c (ls ! l) (network_rows R c (take l ls) (X @ [x])) ! length X)
      (value_rows R c (ls ! l) (network_rows R c (take l ls) (X @ [x])) ! length X))"
  using assms by (auto simp: holds_rows_def table_put_def less_Suc_eq rows_prefix)

lemma pass_ok_one: "pass_ok c n \<Longrightarrow> pass_ok c 1"
proof -
  assume ok: "pass_ok c n"
  note p = pass_ok_simps [OF ok]
  have "k \<le> max64" if "n * k \<le> max64" for k using le_product [OF p(1), of k max64] that by (simp add: mult.commute)
  note this [OF p(15)] this [OF p(16)] this [OF p(17)]
  then show ?thesis using p unfolding pass_ok_def by simp
qed

section \<open>Prefill\<close>

section \<open>Prefill\<close>

locale qwen_cached = text_backend ops rows + cached_store store wf view
  for ops :: text_kernels and rows :: text_rows and store :: "'s kv_cache_store" and wf :: "'s \<Rightarrow> bool"
    and view :: "'s \<Rightarrow> kv_table"
begin

lemma prefill_cached:
  assumes self: "qm_config self = c" "qm_weights self = w" "qm_kernels self = ops"
    and ok: "network_ok c w (length tokens)" and tokens: "tokens_ok c tokens"
    and s: "wf s" "\<not> kt_released (view s)"
    and layout: "validate_cache_layout_for_model c (ks_layout store s) (length tokens) = Ok ()"
  shows "\<exists>s'. prefill_with_cache store self tokens s = (s', Ok (qwen_logits rows c w tokens)) \<and> wf s' \<and>
    holds_prompt rows c w tokens (view s') \<and> ks_layout store s' = ks_layout store s"
proof -
  let ?n = "length tokens" and ?ls = "qw_layers w" and ?X = "embedded c w tokens"
  obtain s0 where s0: "stored s (op_set_len (ks_ops store) s 0) = (s0, Ok ())" "wf s0" "view s0 = (view s)\<lparr>kt_len := 0\<rparr>"
    "ks_layout store s0 = ks_layout store s" using set_len_ready [OF s, of 0] by auto
  have ready: "table_ready c ?n (view s)" using valid_layout_ready [OF s layout] .
  have layers: "length ?ls = qc_num_hidden_layers c" "list_all (layer_ok c) ?ls"
    using ok by (simp_all add: network_ok_def model_ok_def)
  let ?P = "\<lambda>l cache. \<exists>s'. cache = Some s' \<and> wf s' \<and> table_ready c ?n (view s') \<and> holds_rows rows c ?ls ?X l (view s') \<and>
    ks_layout store s' = ks_layout store s"
  let ?Q = "\<lambda>cache. \<exists>s'. cache = Some s' \<and> wf s' \<and> holds_prompt rows c w tokens (view s') \<and>
    ks_layout store s' = ks_layout store s"
  have "\<exists>cache'. ?Q cache' \<and> prefill_impl store self tokens (Some s0) = (cache', Ok (qwen_logits rows c w tokens))"
  proof (rule prefill_impl_rows [OF self ok tokens, where P = ?P])
    show "?P 0 (Some s0)" using s0 ready by (simp add: table_ready_def holds_rows_def)
  next
    fix l cache
    assume "?P l cache" and l: "l < length ?ls"
    then obtain s1 where s1: "cache = Some s1" "wf s1" "table_ready c ?n (view s1)" "holds_rows rows c ?ls ?X l (view s1)"
      "ks_layout store s1 = ks_layout store s" by auto
    let ?K = "key_rows rows c (?ls ! l) (network_rows rows c (take l ?ls) ?X)"
    let ?V = "value_rows rows c (?ls ! l) (network_rows rows c (take l ?ls) ?X)"
    have lw: "layer_ok c (?ls ! l)" using layers(2) l by (simp add: list_all_length)
    obtain s2 where s2: "write_positions store l ?n (kv_width c) (concat ?K) (concat ?V) s1 = (s2, Ok ())" "wf s2"
      "view s2 = table_fill (view s1) l ?K ?V" "ks_layout store s2 = ks_layout store s1"
      using write_positions_rows [OF s1(2), of l ?K ?V] s1(3) row_list_keys [OF lw] l layers(1)
      by (auto simp: table_ready_def)
    have "holds_rows rows c ?ls ?X (Suc l) (view s2)"
      unfolding s2(3) by (rule holds_rows_fill) (rule s1(4))
    then show "\<exists>cache'. ?P (Suc l) cache' \<and>
        with_cache cache (write_positions store l ?n (kv_width c) (concat ?K) (concat ?V)) () = (cache', Ok ())"
      using s1 s2 by (auto simp: table_ready_def)
  next
    fix cache
    assume "?P (length ?ls) cache"
    then obtain s1 where s1: "cache = Some s1" "wf s1" "table_ready c ?n (view s1)"
      "holds_rows rows c ?ls ?X (length ?ls) (view s1)" "ks_layout store s1 = ks_layout store s" by auto
    from set_len_ready [OF s1(2), of ?n] s1(3) obtain s2
      where "stored s1 (op_set_len (ks_ops store) s1 ?n) = (s2, Ok ())" "wf s2" "view s2 = (view s1)\<lparr>kt_len := ?n\<rparr>"
        "ks_layout store s2 = ks_layout store s1" by (auto simp: table_ready_def)
    then show "\<exists>cache'. ?Q cache' \<and>
        with_cache cache (\<lambda>cache. stored cache (op_set_len (ks_ops store) cache ?n)) () = (cache', Ok ())"
      using s1 by (auto simp: holds_prompt_def holds_rows_def table_ready_def)
  qed
  then show ?thesis using layout s0(1) by (auto simp: prefill_with_cache_def self)
qed

section \<open>Decode\<close>

text \<open>One layer over one position.\<close>

lemma decode_layer_rows:
  assumes ok: "pass_ok c (Suc n)" "layer_ok c lw" "within_memory c (Suc n)"
    and x: "length x = qc_hidden_size c" "length Xl = n" and b: "sized c 1 b" "fb_hidden b = x"
    and bufs: "length k_cache = Suc n * kv_width c" "length v_cache = Suc n * kv_width c"
    and s: "wf s" "table_ready c (Suc n) (view s)" "l < qc_num_hidden_layers c"
    and held: "\<And>p. p < n \<Longrightarrow> kt_key (view s) l p = key_rows rows c lw Xl ! p"
      "\<And>p. p < n \<Longrightarrow> kt_value (view s) l p = value_rows rows c lw Xl ! p"
  shows "\<exists>s' k_cache' v_cache' b'.
    decode_layer ops store c (eps_of c) (theta_of c) n (Suc n) (qc_hidden_size c) (kv_width c) s (k_cache, v_cache, b) (l, lw) =
      (s', Ok (k_cache', v_cache', b')) \<and>
    length k_cache' = Suc n * kv_width c \<and> length v_cache' = Suc n * kv_width c \<and> sized c 1 b' \<and>
    fb_hidden b' = next_row rows c lw Xl x \<and> wf s' \<and> ks_layout store s' = ks_layout store s \<and>
    view s' = table_put (view s) l n (key_row rows c lw n x) (value_row rows c lw x)"
proof -
  let ?h = "qc_hidden_size c"
  note one = pass_ok_one [OF ok(1)]
  note p = pass_ok_simps [OF ok(1)]
  note lw = ok(2) [unfolded layer_ok_def Let_def]
  let ?q = "query_row rows c lw n x" and ?k = "key_row rows c lw n x" and ?v = "value_row rows c lw x"
  let ?K = "key_rows rows c lw (Xl @ [x])" and ?V = "value_rows rows c lw (Xl @ [x])"
  let ?a = "attend_row rows c ?q ?K ?V"
  let ?b1 = "b\<lparr>fb_residual := x, fb_norm := row_norm rows (lw_input_layernorm_w lw) (eps_of c) x,
      fb_q := projected rows c lw (lw_q_proj_w lw) (lw_q_proj_b lw) x,
      fb_k := projected rows c lw (lw_k_proj_w lw) (lw_k_proj_b lw) x, fb_v := ?v\<rparr>"
  let ?b2 = "?b1\<lparr>fb_q := ?q, fb_k := ?k, fb_attn := ?a\<rparr>"
  have inputs: "attention_inputs ops c (eps_of c) 1 ?h (kv_width c) lw b = Ok ?b1"
    using attention_inputs_rows [OF one ok(2), of "[x]" b] x b by (simp add: value_rows_def)
  have rope: "tk_rope ops (projected rows c lw (lw_q_proj_w lw) (lw_q_proj_b lw) x) (qc_head_dim c) n (theta_of c) = Ok ?q"
    "tk_rope ops (projected rows c lw (lw_k_proj_w lw) (lw_k_proj_b lw) x) (qc_head_dim c) n (theta_of c) = Ok ?k"
    using lw p rope_heads [of _ "qc_num_attention_heads c" "qc_head_dim c" n "theta_of c"]
      rope_heads [of _ "qc_num_key_value_heads c" "qc_head_dim c" n "theta_of c"]
    by (simp_all add: query_row_def key_row_def)
  have "table_write (view s) l n ?k ?v = Ok (table_put (view s) l n ?k ?v)"
    using table_write_put [OF s(2), of ?k ?v l n] s(3) lw by simp
  from write_ready [OF s(1) this] obtain s' where s': "stored s (op_write (ks_ops store) s l n ?k ?v) = (s', Ok ())"
    "wf s'" "view s' = table_put (view s) l n ?k ?v" "ks_layout store s' = ks_layout store s" by auto
  have table: "map (kt_key (view s') l) [0..<Suc n] = ?K" "map (kt_value (view s') l) [0..<Suc n] = ?V"
    using held x(2) by (auto simp: s'(3) table_put_def key_rows_snoc value_rows_snoc intro!: nth_equalityI)
  have read: "op_read_keys (ks_ops store) s' l (Suc n) k_cache = Ok (concat ?K)"
    "op_read_values (ks_ops store) s' l (Suc n) v_cache = Ok (concat ?V)"
    using read_ready [OF s'(2), of "Suc n" k_cache l] read_ready [OF s'(2), of "Suc n" v_cache l] s(2,3) bufs
    by (simp_all only: table) (simp_all add: s'(3) table_ready_def)
  note K = row_list_keys [OF ok(2), of "Xl @ [x]"]
  have KV: "length ?K = Suc n" "length ?V = length ?K" "?K \<noteq> []" using x(2) by (simp_all add: key_rows_def)
  have "length (fb_attn b) = qc_num_attention_heads c * qc_head_dim c"
    using b(1) p(11) by (simp add: sized_def Let_def)
  then have attention: "tk_attention_incremental ops ?q (concat ?K) (concat ?V) (Suc n) (qc_num_attention_heads c)
      (qc_num_key_value_heads c) (qc_head_dim c) (fb_attn b) = Ok ?a"
    using attention_next [of ?q "qc_num_attention_heads c" "qc_head_dim c" "qc_num_key_value_heads c" ?K ?V "fb_attn b"]
      K KV lw p le_product [OF p(4) p(12)] unfolding attend_row_def by simp
  have "sized c 1 ?b2" using b(1) x lw p(11) by (simp add: sized_def Let_def attend_row_def)
  moreover have "length ?a = ?h" using p(11) by (simp add: attend_row_def)
  ultimately obtain b' where b': "finish_layer ops c (eps_of c) 1 ?h lw ?b2 = Ok b'" "sized c 1 b'"
    "fb_hidden b' = finish_row rows c lw x ?a"
    using finish_layer_rows [OF one ok(2), of "[x]" "[?a]" ?b2] x(1) by auto
  have step: "decode_layer ops store c (eps_of c) (theta_of c) n (Suc n) ?h (kv_width c) s (k_cache, v_cache, b) (l, lw) =
      (s', Ok (concat ?K, concat ?V, b'))"
    unfolding decode_layer_def prod.case inputs and_then_st.simps
    using rope s'(1) read attention b'(1) by simp
  have lens: "length (concat ?K) = Suc n * kv_width c" "length (concat ?V) = Suc n * kv_width c"
    using length_concat_rows [OF K(1)] length_concat_rows [OF K(2)] KV(1,2) by simp_all
  have "fb_hidden b' = next_row rows c lw Xl x" using x(2) b'(3) by (simp add: next_row_def)
  with step lens b'(2) s'(2-4) show ?thesis
    by (intro exI [of _ s'] exI [of _ "concat ?K"] exI [of _ "concat ?V"] exI [of _ b'] conjI)
qed

lemma decode_layers_rows:
  assumes ok: "pass_ok c (Suc n)" "within_memory c (Suc n)" "list_all (layer_ok c) ls" "length ls = qc_num_hidden_layers c"
    and X: "row_list (qc_hidden_size c) X" "length X = n" "length x = qc_hidden_size c"
    and b: "sized c 1 b" "fb_hidden b = x"
    and bufs: "length k_cache = Suc n * kv_width c" "length v_cache = Suc n * kv_width c"
    and s: "wf s" "table_ready c (Suc n) (view s)" "holds_rows rows c ls X (length ls) (view s)"
  shows "m \<le> length ls \<Longrightarrow> \<exists>s' k_cache' v_cache' b'.
    try_fold_st (decode_layer ops store c (eps_of c) (theta_of c) n (Suc n) (qc_hidden_size c) (kv_width c)) s
      (k_cache, v_cache, b) (enumerate 0 (take m ls)) = (s', Ok (k_cache', v_cache', b')) \<and>
    length k_cache' = Suc n * kv_width c \<and> length v_cache' = Suc n * kv_width c \<and> sized c 1 b' \<and>
    fb_hidden b' = last (network_rows rows c (take m ls) (X @ [x])) \<and> wf s' \<and> ks_layout store s' = ks_layout store s \<and>
    table_ready c (Suc n) (view s') \<and> holds_rows rows c ls (X @ [x]) m (view s') \<and>
    (\<forall>l \<ge> m. kt_key (view s') l = kt_key (view s) l \<and> kt_value (view s') l = kt_value (view s) l)"
proof (induction m)
  case 0
  then show ?case using b bufs s by (simp add: holds_rows_def)
next
  case (Suc m)
  let ?fold = "try_fold_st (decode_layer ops store c (eps_of c) (theta_of c) n (Suc n) (qc_hidden_size c) (kv_width c)) s
      (k_cache, v_cache, b)"
  obtain s1 k1 v1 b1 where one: "?fold (enumerate 0 (take m ls)) = (s1, Ok (k1, v1, b1))"
    "length k1 = Suc n * kv_width c" "length v1 = Suc n * kv_width c" "sized c 1 b1"
    "fb_hidden b1 = last (network_rows rows c (take m ls) (X @ [x]))" "wf s1" "ks_layout store s1 = ks_layout store s"
    "table_ready c (Suc n) (view s1)" "holds_rows rows c ls (X @ [x]) m (view s1)"
    "\<forall>l \<ge> m. kt_key (view s1) l = kt_key (view s) l \<and> kt_value (view s1) l = kt_value (view s) l"
    using Suc by auto
  have m: "m < length ls" using Suc.prems by simp
  then have lw: "layer_ok c (ls ! m)" using ok(3) by (simp add: list_all_length)
  let ?Xl = "network_rows rows c (take m ls) X"
  obtain y where y: "network_rows rows c (take m ls) (X @ [x]) = ?Xl @ [y]" using network_rows_snoc by blast
  have "row_list (qc_hidden_size c) (X @ [x])" using X by simp
  then have "row_list (qc_hidden_size c) (?Xl @ [y])" using row_list_network [of c "X @ [x]" "take m ls"] y by simp
  then have ylen: "length y = qc_hidden_size c" and Xlen: "length ?Xl = n" using X(2) by simp_all
  have old: "kt_key (view s1) m p = key_rows rows c (ls ! m) ?Xl ! p"
    "kt_value (view s1) m p = value_rows rows c (ls ! m) ?Xl ! p" if "p < n" for p
    using one(10) s(3) m that X(2) by (simp_all add: holds_rows_def)
  have hidden: "fb_hidden b1 = y" using one(5) y by simp
  from decode_layer_rows [OF ok(1) lw ok(2) ylen Xlen one(4) hidden one(2,3,6,8) m [unfolded ok(4)] old]
  obtain s2 k2 v2 b2 where two: "decode_layer ops store c (eps_of c) (theta_of c) n (Suc n) (qc_hidden_size c) (kv_width c) s1
      (k1, v1, b1) (m, ls ! m) = (s2, Ok (k2, v2, b2))" "length k2 = Suc n * kv_width c" "length v2 = Suc n * kv_width c"
    "sized c 1 b2" "fb_hidden b2 = next_row rows c (ls ! m) ?Xl y" "wf s2" "ks_layout store s2 = ks_layout store s1"
    "view s2 = table_put (view s1) m n (key_row rows c (ls ! m) n y) (value_row rows c (ls ! m) y)" by auto
  have network: "network_rows rows c (take (Suc m) ls) (X @ [x]) = layer_rows rows c (ls ! m) ?Xl @ [next_row rows c (ls ! m) ?Xl y]"
    using m by (simp add: take_Suc_conv_app_nth y layer_rows_snoc)
  have put: "view s2 = table_put (view s1) m (length X)
      (key_rows rows c (ls ! m) (network_rows rows c (take m ls) (X @ [x])) ! length X)
      (value_rows rows c (ls ! m) (network_rows rows c (take m ls) (X @ [x])) ! length X)"
    using two(8) Xlen X(2) by (simp add: y key_rows_snoc value_rows_snoc nth_append)
  have holds: "holds_rows rows c ls (X @ [x]) (Suc m) (view s2)"
    unfolding put using holds_rows_put [OF one(9)] old X(2) by simp
  have enum: "enumerate 0 (take (Suc m) ls) = enumerate 0 (take m ls) @ [(m, ls ! m)]"
    using m by (simp add: take_Suc_conv_app_nth enumerate_append_eq)
  have "?fold (enumerate 0 (take (Suc m) ls)) = (s2, Ok (k2, v2, b2))"
    unfolding enum try_fold_st_append one(1) and_then_st.simps by (simp add: two(1))
  moreover have "fb_hidden b2 = last (network_rows rows c (take (Suc m) ls) (X @ [x]))" using two(5) network by simp
  moreover have "table_ready c (Suc n) (view s2)" using one(8) two(8) by simp
  moreover have "\<forall>l \<ge> Suc m. kt_key (view s2) l = kt_key (view s) l \<and> kt_value (view s2) l = kt_value (view s) l"
    using one(10) two(8) by (simp add: table_put_def)
  ultimately show ?case using two(2-4,6,7) one(7) holds
    by (intro exI [of _ s2] exI [of _ k2] exI [of _ v2] exI [of _ b2] conjI) simp_all
qed

lemma decode_cached:
  assumes self: "qm_config self = c" "qm_weights self = w" "qm_kernels self = ops"
    and ok: "network_ok c w (Suc (length tokens))" and t: "\<forall>t \<in> set (tokens @ [t]). unat t < qc_vocab_size c"
    and s: "wf s" "holds_prompt rows c w tokens (view s)"
    and layout: "validate_cache_layout_for_model c (ks_layout store s) (Suc (length tokens)) = Ok ()"
  shows "\<exists>s'. decode_token_with_cache store self t s = (s', Ok (qwen_logits rows c w (tokens @ [t]))) \<and> wf s' \<and>
    holds_prompt rows c w (tokens @ [t]) (view s') \<and> ks_layout store s' = ks_layout store s"
proof -
  let ?n = "length tokens" and ?h = "qc_hidden_size c" and ?ls = "qw_layers w" and ?X = "embedded c w tokens"
  let ?x = "take ?h (drop (unat t * ?h) (qw_embed_tokens w))"
  have w: "model_ok c w" "within_memory c (Suc ?n)" and layers: "list_all (layer_ok c) ?ls" "length ?ls = qc_num_hidden_layers c"
    using ok by (simp_all add: network_ok_def model_ok_def)
  note pass = network_ok_pass [OF ok]
  note p = pass_ok_simps [OF pass]
  have active: "\<not> kt_released (view s)" and len: "op_len (ks_ops store) s = ?n"
    and held: "holds_rows rows c ?ls ?X (length ?ls) (view s)"
    using s len_view [OF s(1)] by (simp_all add: holds_prompt_def)
  have ready: "table_ready c (Suc ?n) (view s)" using valid_layout_ready [OF s(1) active layout] .
  have X: "row_list ?h ?X" "length ?X = ?n" using row_list_embedded [OF w(1), of tokens] t by auto
  have tok: "unat t < qc_vocab_size c" using t by simp
  note row = token_row [OF w(1) tok]
  have x: "length ?x = ?h" using row(1) by simp
  have one: "within_memory c 1"
    using w(2) p(1) unfolding within_memory_def by simp
  obtain b where b: "new_buffers 1 ?h ?h (kv_width c) (qc_intermediate_size c) ?x = Ok b" "sized c 1 b" "fb_hidden b = ?x"
    using new_buffers_sized [OF p(2) one, of ?x] x by auto
  note kv = scratch_vec_Ok [OF within_memory_kv [OF p(2) w(2)]]
  let ?Z = "network_rows rows c ?ls (?X @ [?x])"
  obtain s1 k1 v1 b1 where fold: "try_fold_st (decode_layer ops store c (eps_of c) (theta_of c) ?n (Suc ?n) ?h (kv_width c)) s
      (replicate (Suc ?n * kv_width c) 0, replicate (Suc ?n * kv_width c) 0, b) (enumerate 0 ?ls) = (s1, Ok (k1, v1, b1))"
    "sized c 1 b1" "fb_hidden b1 = last ?Z" "wf s1" "ks_layout store s1 = ks_layout store s"
    "table_ready c (Suc ?n) (view s1)" "holds_rows rows c ?ls (?X @ [?x]) (length ?ls) (view s1)"
    using decode_layers_rows [OF pass w(2) layers X x b(2,3) length_replicate length_replicate s(1) ready held order.refl,
        of 0 0, unfolded take_all [OF order.refl]] by blast
  from set_len_ready [OF fold(4), of "Suc ?n"] fold(6) obtain s2
    where s2: "stored s1 (op_set_len (ks_ops store) s1 (Suc ?n)) = (s2, Ok ())" "wf s2"
      "view s2 = (view s1)\<lparr>kt_len := Suc ?n\<rparr>" "ks_layout store s2 = ks_layout store s1"
    by (auto simp: table_ready_def)
  have "length ?Z = Suc ?n" using X(2) by simp
  from last_in_set [OF nonempty_length [OF this zero_less_Suc]] have "last ?Z \<in> set ?Z" .
  moreover have "row_list ?h ?Z" by (rule row_list_network) (use X(1) x in simp)
  ultimately have last: "length (last ?Z) = ?h" unfolding row_list_def by blast
  have net1: "network_ok c w 1" using ok one by (simp add: network_ok_def)
  have "length (fb_norm b1) = 1 * ?h" using fold(2) by (simp add: sized_def Let_def)
  then have norm: "tk_rmsnorm ops (last ?Z) 1 ?h (qw_final_norm_w w) (eps_of c) (fb_norm b1) =
      Ok (row_norm rows (qw_final_norm_w w) (eps_of c) (last ?Z))"
    using final_norm_rows [OF net1, of "[last ?Z]" "fb_norm b1"] last by simp
  have head: "tk_matmul ops (row_norm rows (qw_final_norm_w w) (eps_of c) (last ?Z)) (1, ?h) (qw_lm_head_w w)
      (?h, qc_vocab_size c) (replicate (qc_vocab_size c) 0) = Ok (qwen_logits rows c w (tokens @ [t]))"
    unfolding qwen_logits_def embedded_snoc by (rule lm_head_rows [OF net1]) simp
  have products: "times_u64 (qc_num_attention_heads c) (qc_head_dim c) = Ok ?h"
    "times_u64 (qc_num_key_value_heads c) (qc_head_dim c) = Ok (kv_width c)"
    using p(11) le_product [OF p(4) p(12)] le_product [OF p(1), of "kv_width c" max64] p(16)
    by (simp_all add: times_u64_def mult.commute)
  have src: "times_u64 (unat t) ?h = Ok (unat t * ?h)"
    "slice (qw_embed_tokens w) (unat t * ?h) (unat t * ?h + ?h) = Ok ?x"
    using row by (simp_all add: times_u64_def slice_def)
  have fits: "checked_add ?n 1 = Some (Suc ?n)" "4 * qc_vocab_size c \<le> 2 ^ 63 - 1"
    using p(18) memory_64 [of "Suc ?n"] w(2) by (simp_all add: checked_add_def within_memory_def)
  have "decode_token_with_cache store self t s = (s2, Ok (qwen_logits rows c w (tokens @ [t])))"
    unfolding decode_token_with_cache_def Let_def self len
    using tok
    by (simp add: fits(1) layout products src b(1) kv fold(1,3) norm zeroed_vec_def
        fits(2) [simplified] head s2(1) del: One_nat_def mult_Suc)
  then show ?thesis using s2 fold(5-7) by (auto simp: holds_prompt_def holds_rows_def embedded_snoc table_ready_def)
qed

end

end
