(* ===== verification/Qwen_Runtime.thy ===== *)
theory Qwen_Runtime imports Qwen_Cached Kv_Allocator Sampling Scheduler
begin

text \<open>
  The Qwen2.5 runtime (src/crates/runtime/src/qwen/mod.rs and the constructors of kv_cache.rs for
  the model): greedy decoding without a cache, with a contiguous and with a paged one, and batched
  generation. Both caches and the CPU backend interpret the contract of the cached passes, so
  generating with either cache gives the tokens of generating without one.
\<close>

section \<open>Caches of the model\<close>

definition qwen2_5_kv_layout :: "qwen_config \<Rightarrow> usize \<Rightarrow> kv_cache_layout res" where
  "qwen2_5_kv_layout config capacity_tokens =
     kv_cache_layout_new (qc_num_hidden_layers config) (qc_num_key_value_heads config) capacity_tokens
       (qc_head_dim config) F32 Cpu"

definition contiguous_for_qwen2_5 :: "qwen_config \<Rightarrow> contiguous_kv_cache res" where
  "contiguous_for_qwen2_5 config =
     and_then (qwen2_5_kv_layout config (qc_context_length config)) contiguous_new"

definition allocator_for_qwen2_5 :: "qwen_config \<Rightarrow> usize \<Rightarrow> usize \<Rightarrow> usize \<Rightarrow> paged_allocator res" where
  "allocator_for_qwen2_5 config capacity_tokens page_size_tokens physical_pages =
     and_then (qwen2_5_kv_layout config capacity_tokens) (\<lambda>base.
     and_then (paged_layout_new base page_size_tokens physical_pages) allocator_new)"

text \<open>The two caches as implementations of the trait.\<close>

definition contiguous_store :: "contiguous_kv_cache kv_cache_store" where
  "contiguous_store = \<lparr>ks_layout = cc_layout, ks_ops = contiguous_ops\<rparr>"

definition paged_store :: "paged_kv_cache kv_cache_store" where
  "paged_store = \<lparr>ks_layout = (\<lambda>c. pl_base (pc_layout c)), ks_ops = paged_ops\<rparr>"

section \<open>Greedy decoding\<close>

definition decode_one_token :: "qwen_model \<Rightarrow> token_id list \<Rightarrow> token_id res" where
  "decode_one_token model tokens = and_then (qwen_prefill model tokens) greedy_sample"

record 'c qwen_cache_state =
  qs_cache :: 'c
  qs_last_logits :: "f32 list"

definition release_contiguous_state :: "contiguous_kv_cache qwen_cache_state \<Rightarrow> contiguous_kv_cache qwen_cache_state" where
  "release_contiguous_state self = \<lparr>qs_cache = contiguous_release (qs_cache self), qs_last_logits = []\<rparr>"

definition prepare_contiguous_cache :: "qwen_model \<Rightarrow> token_id list \<Rightarrow> contiguous_kv_cache qwen_cache_state res" where
  "prepare_contiguous_cache model tokens =
     and_then (contiguous_for_qwen2_5 (qm_config model)) (\<lambda>cache.
     let (cache, last_logits) = prefill_with_cache contiguous_store model tokens cache in
     and_then last_logits (\<lambda>last_logits.
     Ok \<lparr>qs_cache = cache, qs_last_logits = last_logits\<rparr>))"

definition decode_with_contiguous_cache ::
    "qwen_model \<Rightarrow> contiguous_kv_cache qwen_cache_state \<Rightarrow> contiguous_kv_cache qwen_cache_state \<times> token_id res" where
  "decode_with_contiguous_cache model state =
     and_then_st (state, greedy_sample (qs_last_logits state)) (\<lambda>state token.
     let (cache, logits) = decode_token_with_cache contiguous_store model token (qs_cache state) in
     and_then_st (state\<lparr>qs_cache := cache\<rparr>, logits) (\<lambda>state logits.
     (state\<lparr>qs_last_logits := logits\<rparr>, Ok token)))"

text \<open>A paged state has no cache once it is released.\<close>

definition release_into ::
    "paged_kv_cache option qwen_cache_state \<Rightarrow> paged_allocator \<Rightarrow> paged_kv_cache option qwen_cache_state \<times> paged_allocator" where
  "release_into self allocator =
     (\<lparr>qs_cache = None, qs_last_logits = []\<rparr>,
      case qs_cache self of None \<Rightarrow> allocator | Some cache \<Rightarrow> allocator_release allocator cache)"

definition prepare_paged_cache ::
    "qwen_model \<Rightarrow> token_id list \<Rightarrow> paged_allocator \<Rightarrow> usize \<Rightarrow>
      paged_allocator \<times> paged_kv_cache option qwen_cache_state res" where
  "prepare_paged_cache model tokens allocator capacity_tokens =
     (if capacity_tokens < length tokens then (allocator, invalid_request ''kv_cache.capacity'')
      else
        and_then_st (allocate allocator capacity_tokens) (\<lambda>allocator cache.
        case prefill_with_cache paged_store model tokens cache of
          (cache, Ok last_logits) \<Rightarrow>
            (allocator, Ok \<lparr>qs_cache = Some cache, qs_last_logits = last_logits\<rparr>)
        | (cache, Err err) \<Rightarrow> (allocator_release allocator cache, Err err)
        | (cache, Panic) \<Rightarrow> (allocator, Panic)))"

definition decode_with_paged_cache ::
    "qwen_model \<Rightarrow> paged_kv_cache option qwen_cache_state \<Rightarrow> paged_kv_cache option qwen_cache_state \<times> token_id res" where
  "decode_with_paged_cache model state =
     and_then_st (state, greedy_sample (qs_last_logits state)) (\<lambda>state token.
     and_then_st (state, ok_or (qs_cache state) (RuntimeError ''paged Qwen2.5 cache state has been released'')) (\<lambda>state cache.
     let (cache, logits) = decode_token_with_cache paged_store model token cache in
     and_then_st (state\<lparr>qs_cache := Some cache\<rparr>, logits) (\<lambda>state logits.
     (state\<lparr>qs_last_logits := logits\<rparr>, Ok token))))"

text \<open>
  Batched generation: the requests are submitted in order and the scheduler drives the model
  without a cache.
\<close>

definition generate_qwen_batch ::
    "(nat \<Rightarrow> bool) \<Rightarrow> qwen_model \<Rightarrow> generation_request list \<Rightarrow> scheduler_config \<Rightarrow> generation_response list res option" where
  "generate_qwen_batch reserve model requests config =
     (case try_fold_st (\<lambda>scheduler _ request. submit reserve scheduler request) (scheduler_new config) () requests of
        (scheduler, Ok _) \<Rightarrow> map_option snd (run_to_completion (decode_one_token model) scheduler)
      | (scheduler, Err e) \<Rightarrow> Some (Err e)
      | (scheduler, Panic) \<Rightarrow> Some Panic)"

section \<open>The contracts\<close>

lemma contiguous_layout_kept:
  "contiguous_set_len c n = Ok c' \<Longrightarrow> cc_layout c' = cc_layout c"
  "contiguous_write c l p k v = Ok c' \<Longrightarrow> cc_layout c' = cc_layout c"
  by (auto simp: contiguous_set_len_def contiguous_write_def res_simps Let_def split: if_splits)

lemma paged_fields_kept:
  "paged_set_len c n = Ok c' \<Longrightarrow> pc_layout c' = pc_layout c \<and> pc_page_table c' = pc_page_table c \<and> pc_released c' = pc_released c"
  "paged_write c l p k v = Ok c' \<Longrightarrow> pc_layout c' = pc_layout c \<and> pc_page_table c' = pc_page_table c \<and> pc_released c' = pc_released c"
  by (auto simp: paged_set_len_def paged_write_def res_simps Let_def split: if_splits prod.splits)

lemma store_simps [simp]:
  "ks_ops contiguous_store = contiguous_ops" "ks_layout contiguous_store = cc_layout"
  "ks_ops paged_store = paged_ops" "ks_layout paged_store c = pl_base (pc_layout c)"
  by (simp_all add: contiguous_store_def paged_store_def)

lemma cached_ops_simps [simp]:
  "op_set_len contiguous_ops = contiguous_set_len" "op_write contiguous_ops = contiguous_write"
  "op_set_len paged_ops = paged_set_len" "op_write paged_ops = paged_write"
  by (simp_all add: contiguous_ops_def paged_ops_def)

interpretation contiguous_cached: cached_store contiguous_store contiguous_wf contiguous_view
proof (rule cached_store.intro)
  show "kv_store (ks_ops contiguous_store) contiguous_wf contiguous_view"
    unfolding store_simps by (rule contiguous.kv_store_axioms)
  show "cached_store_axioms contiguous_store contiguous_wf contiguous_view"
    by (rule cached_store_axioms.intro)
      (simp_all add: contiguous_view_def row_width_def Let_def contiguous_layout_kept)
qed

interpretation paged_cached: cached_store paged_store paged_wf paged_view
proof (rule cached_store.intro)
  show "kv_store (ks_ops paged_store) paged_wf paged_view"
    unfolding store_simps by (rule paged.kv_store_axioms)
  show "cached_store_axioms paged_store paged_wf paged_view"
    by (rule cached_store_axioms.intro)
      (simp_all add: paged_view_def row_width_def Let_def paged_fields_kept)
qed

interpretation cpu_contiguous: qwen_cached "cpu_text_kernels m self" "cpu_text_rows m" contiguous_store
    contiguous_wf contiguous_view for m self
  by (rule qwen_cached.intro [OF cpu_text.text_backend_axioms contiguous_cached.cached_store_axioms])

interpretation cpu_paged: qwen_cached "cpu_text_kernels m self" "cpu_text_rows m" paged_store
    paged_wf paged_view for m self
  by (rule qwen_cached.intro [OF cpu_text.text_backend_axioms paged_cached.cached_store_axioms])

section \<open>Generation\<close>

text \<open>A number of greedy steps in a row.\<close>

fun decode_tokens :: "('s \<Rightarrow> 's \<times> token_id res) \<Rightarrow> 's \<Rightarrow> nat \<Rightarrow> 's \<times> token_id list res" where
  "decode_tokens step s 0 = (s, Ok [])"
| "decode_tokens step s (Suc n) =
     and_then_st (step s) (\<lambda>s token.
     and_then_st (decode_tokens step s n) (\<lambda>s tokens. (s, Ok (token # tokens))))"

lemma greedy_scan_bound: "b < i \<Longrightarrow> greedy_scan b v i rest < i + length rest"
proof (induction b v i rest rule: greedy_scan.induct)
  case (2 b v i val rest)
  then show ?case by (cases "f32_gt val v") (simp_all add: less_Suc_eq)
qed simp

lemma greedy_sample_bound:
  assumes "logits \<noteq> []"
  shows "\<exists>t. greedy_sample logits = Ok t \<and> unat t < length logits"
proof (cases logits)
  case (Cons first rest)
  have "unat (word_of_nat k :: token_id) \<le> k" for k by (simp add: unat_of_nat)
  then show ?thesis
    using greedy_scan_bound [of 0 1 first rest] Cons by (auto simp: greedy_sample_def intro: le_less_trans)
qed (use assms in simp)

lemma validate_layout_mono:
  "validate_cache_layout_for_model c l n = Ok () \<Longrightarrow> k \<le> n \<Longrightarrow> validate_cache_layout_for_model c l k = Ok ()"
  by (auto simp: validate_cache_layout_for_model_def split: if_splits)

lemma network_ok_mono: "network_ok c w n \<Longrightarrow> 0 < k \<Longrightarrow> k \<le> n \<Longrightarrow> network_ok c w k"
proof -
  assume ok: "network_ok c w n" and k: "0 < k" "k \<le> n"
  have "k * x \<le> n * x" for x using k(2) by (rule mult_le_mono1)
  from this [of "qc_hidden_size c"] this [of "qc_intermediate_size c"] show ?thesis
    using ok k unfolding network_ok_def within_memory_def by linarith
qed

context text_backend
begin

lemma uncached_prefill:
  assumes "qm_config self = c" "qm_weights self = w" "qm_kernels self = ops"
    and "network_ok c w (length tokens)" "tokens_ok c tokens"
  shows "qwen_prefill self tokens = Ok (qwen_logits rows c w tokens)"
proof -
  have "\<exists>cache'. True \<and> prefill_impl no_store self tokens None = (cache', Ok (qwen_logits rows c w tokens))"
    by (rule prefill_impl_rows [OF assms, where P = "\<lambda>_ cache. cache = None"]) simp_all
  then show ?thesis by (auto simp: qwen_prefill_def)
qed

lemma length_qwen_logits [simp]: "length (qwen_logits rows c w tokens) = qc_vocab_size c"
  by (simp add: qwen_logits_def final_logits_def)

end

context qwen_cached
begin

text \<open>
  A loop that keeps a cache and the logits of its prompt and takes a greedy step at a time
  generates the tokens of decoding the growing prompt from scratch.
\<close>

lemma cached_generation:
  assumes self: "qm_config self = c" "qm_weights self = w" "qm_kernels self = ops"
    and step: "\<And>st s logits t s' logits'. G st s logits \<Longrightarrow> greedy_sample logits = Ok t \<Longrightarrow>
      decode_token_with_cache store self t s = (s', Ok logits') \<Longrightarrow> \<exists>st'. step st = (st', Ok t) \<and> G st' s' logits'"
  shows "G st s (qwen_logits rows c w tokens) \<Longrightarrow> wf s \<Longrightarrow> holds_prompt rows c w tokens (view s) \<Longrightarrow>
    network_ok c w (length tokens + n) \<Longrightarrow> tokens_ok c tokens \<Longrightarrow> length tokens + n \<le> qc_context_length c \<Longrightarrow>
    validate_cache_layout_for_model c (ks_layout store s) (length tokens + n) = Ok () \<Longrightarrow>
    \<exists>st' out. decode_tokens step st n = (st', Ok out) \<and> decode_alone (decode_one_token self) tokens n = Ok out"
proof (induction n arbitrary: st s tokens)
  case (Suc n)
  note ok = Suc.prems(4)
  have vocab: "0 < qc_vocab_size c" using ok by (simp add: network_ok_def model_ok_def config_ok_def)
  have "qwen_logits rows c w tokens \<noteq> []" by (rule nonempty_length [OF length_qwen_logits vocab])
  from greedy_sample_bound [OF this] obtain t where t: "greedy_sample (qwen_logits rows c w tokens) = Ok t"
    "unat t < qc_vocab_size c" by auto
  have all: "\<forall>u \<in> set (tokens @ [t]). unat u < qc_vocab_size c" using t(2) Suc.prems(5) by (auto simp: tokens_ok_def)
  have ok1: "network_ok c w (length tokens)" "network_ok c w (Suc (length tokens))"
    using network_ok_mono [OF ok] Suc.prems(5) by (simp_all add: tokens_ok_def)
  have layout1: "validate_cache_layout_for_model c (ks_layout store s) (Suc (length tokens)) = Ok ()"
    by (rule validate_layout_mono [OF Suc.prems(7)]) simp
  from decode_cached [OF self ok1(2) all Suc.prems(2,3) layout1] obtain s'
    where s': "decode_token_with_cache store self t s = (s', Ok (qwen_logits rows c w (tokens @ [t])))" "wf s'"
      "holds_prompt rows c w (tokens @ [t]) (view s')" "ks_layout store s' = ks_layout store s" by blast
  from step [OF Suc.prems(1) t(1) s'(1)] obtain st'
    where st': "step st = (st', Ok t)" "G st' s' (qwen_logits rows c w (tokens @ [t]))" by blast
  have next_ok: "network_ok c w (length (tokens @ [t]) + n)" "tokens_ok c (tokens @ [t])"
    "length (tokens @ [t]) + n \<le> qc_context_length c"
    "validate_cache_layout_for_model c (ks_layout store s') (length (tokens @ [t]) + n) = Ok ()"
    using Suc.prems(4,6,7) all s'(4) by (simp_all add: tokens_ok_def)
  from Suc.IH [OF st'(2) s'(2,3) next_ok] obtain st'' out
    where out: "decode_tokens step st' n = (st'', Ok out)"
      "decode_alone (decode_one_token self) (tokens @ [t]) n = Ok out" by blast
  have "decode_one_token self tokens = Ok t"
    using uncached_prefill [OF self ok1(1) Suc.prems(5)] t(1) by (simp add: decode_one_token_def)
  with out st'(1) show ?case by simp
qed simp

end

text \<open>Every prompt either decodes or is refused with an error.\<close>

lemma decode_one_token_no_Panic:
  assumes "qm_kernels model = cpu_text_kernels m self"
    and ok: "network_ok (qm_config model) (qm_weights model) (qc_context_length (qm_config model))"
  shows "decode_one_token model tokens \<noteq> Panic"
proof (cases "tokens_ok (qm_config model) tokens")
  case True
  let ?c = "qm_config model" and ?w = "qm_weights model"
  have "network_ok ?c ?w (length tokens)" using True by (intro network_ok_mono [OF ok]) (simp_all add: tokens_ok_def)
  from cpu_text.uncached_prefill [OF refl refl assms(1) this True]
  have "decode_one_token model tokens = greedy_sample (qwen_logits (cpu_text_rows m) ?c ?w tokens)"
    by (simp add: decode_one_token_def)
  then show ?thesis by (simp add: greedy_sample_def err_defs split: list.split)
next
  case False
  then have "qwen_prefill model tokens = invalid_request ''tokens''"
    by (auto simp: qwen_prefill_def prefill_impl_def tokens_ok_def list_ex_iff not_le Let_def)
  then show ?thesis by (simp add: decode_one_token_def invalid_request_def)
qed

section \<open>Generation with a contiguous cache\<close>

lemma decode_with_contiguous_step:
  assumes "qs_cache st = s \<and> qs_last_logits st = logits" "greedy_sample logits = Ok t"
    and "decode_token_with_cache contiguous_store model t s = (s', Ok logits')"
  shows "\<exists>st'. decode_with_contiguous_cache model st = (st', Ok t) \<and> qs_cache st' = s' \<and> qs_last_logits st' = logits'"
  using assms by (simp add: decode_with_contiguous_cache_def)

lemma config_positive_layout:
  assumes "config_ok c" "qwen2_5_kv_layout c cap = Ok l"
  shows "positive_layout l" "k \<le> cap \<Longrightarrow> validate_cache_layout_for_model c l k = Ok ()"
    "kl_capacity_tokens l = cap" "kl_dtype l = F32" "kl_device l = Cpu" "row_width l = kv_width c"
  using assms by (auto simp: qwen2_5_kv_layout_def kv_cache_layout_new_def positive_layout_def
      validate_cache_layout_for_model_def row_width_def config_ok_def split: if_splits)

lemma prepare_contiguous_prompt:
  assumes kernels: "qm_kernels model = cpu_text_kernels m self" and self: "qm_config model = c" "qm_weights model = w"
    and ok: "network_ok c w (length prompt)" "tokens_ok c prompt"
    and cache: "contiguous_for_qwen2_5 c = Ok cache"
  shows "\<exists>s'. prepare_contiguous_cache model prompt =
      Ok \<lparr>qs_cache = s', qs_last_logits = qwen_logits (cpu_text_rows m) c w prompt\<rparr> \<and>
    contiguous_wf s' \<and> holds_prompt (cpu_text_rows m) c w prompt (contiguous_view s') \<and>
    validate_cache_layout_for_model c (cc_layout s') (qc_context_length c) = Ok ()"
proof -
  have c: "config_ok c" using ok(1) by (simp add: network_ok_def model_ok_def)
  obtain l where l: "qwen2_5_kv_layout c (qc_context_length c) = Ok l" "contiguous_new l = Ok cache"
    using cache by (auto simp: contiguous_for_qwen2_5_def res_simps)
  note layout = config_positive_layout [OF c l(1)]
  have new: "contiguous_wf cache" "contiguous_view cache = zero_table l" "cc_layout cache = l"
    using contiguous_new_OkD [OF l(2) layout(1)] l(2) by (auto simp: contiguous_new_def res_simps)
  have len: "length prompt \<le> qc_context_length c" using ok(2) by (simp add: tokens_ok_def)
  have fresh: "\<not> kt_released (contiguous_view cache)" by (simp add: new(2) zero_table_def Let_def)
  have valid: "validate_cache_layout_for_model c (ks_layout contiguous_store cache) (length prompt) = Ok ()"
    using layout(2) [OF len] by (simp add: new(3))
  from cpu_contiguous.prefill_cached [OF self kernels ok new(1) fresh valid]
  obtain s' where "prefill_with_cache contiguous_store model prompt cache =
      (s', Ok (qwen_logits (cpu_text_rows m) c w prompt))" "contiguous_wf s'"
    "holds_prompt (cpu_text_rows m) c w prompt (contiguous_view s')" "cc_layout s' = l"
    using new(3) by auto
  then show ?thesis
    using layout(2) [of "qc_context_length c"] by (simp add: prepare_contiguous_cache_def self cache)
qed

text \<open>
  C1. Generating with a contiguous KV cache gives the tokens of generating without one, on every
  CPU backend: for a prompt and \<open>n\<close> new tokens within the context, preparing the cache and then
  taking \<open>n\<close> cached steps succeeds and returns exactly the tokens of \<open>n\<close> prefills of the growing
  prompt, each sampled greedily. No step fails or panics.
\<close>

theorem contiguous_generation_matches:
  assumes "qm_kernels model = cpu_text_kernels m self"
    and "network_ok (qm_config model) (qm_weights model) (length prompt + n)"
    and "tokens_ok (qm_config model) prompt" and "length prompt + n \<le> qc_context_length (qm_config model)"
    and "contiguous_for_qwen2_5 (qm_config model) = Ok cache"
  shows "\<exists>state state' tokens. prepare_contiguous_cache model prompt = Ok state \<and>
    decode_tokens (decode_with_contiguous_cache model) state n = (state', Ok tokens) \<and>
    decode_alone (decode_one_token model) prompt n = Ok tokens"
proof -
  let ?c = "qm_config model" and ?w = "qm_weights model" and ?G = "\<lambda>st s logits. qs_cache st = s \<and> qs_last_logits st = logits"
  have "network_ok ?c ?w (length prompt)"
    using assms(3) by (intro network_ok_mono [OF assms(2)]) (simp_all add: tokens_ok_def)
  from prepare_contiguous_prompt [OF assms(1) refl refl this assms(3,5)] obtain s'
    where prepared: "prepare_contiguous_cache model prompt =
      Ok \<lparr>qs_cache = s', qs_last_logits = qwen_logits (cpu_text_rows m) ?c ?w prompt\<rparr>"
      and s': "contiguous_wf s'" "holds_prompt (cpu_text_rows m) ?c ?w prompt (contiguous_view s')"
      "validate_cache_layout_for_model ?c (cc_layout s') (qc_context_length ?c) = Ok ()" by blast
  have valid: "validate_cache_layout_for_model ?c (ks_layout contiguous_store s') (length prompt + n) = Ok ()"
    using validate_layout_mono [OF s'(3) assms(4)] by simp
  have start: "?G \<lparr>qs_cache = s', qs_last_logits = qwen_logits (cpu_text_rows m) ?c ?w prompt\<rparr> s'
      (qwen_logits (cpu_text_rows m) ?c ?w prompt)" by simp
  have "\<exists>st' out. decode_tokens (decode_with_contiguous_cache model)
      \<lparr>qs_cache = s', qs_last_logits = qwen_logits (cpu_text_rows m) ?c ?w prompt\<rparr> n = (st', Ok out) \<and>
      decode_alone (decode_one_token model) prompt n = Ok out"
    by (rule cpu_contiguous.cached_generation [where G = ?G, OF refl refl assms(1) _ start s'(1,2) assms(2-4) valid])
      (rule decode_with_contiguous_step)
  with prepared show ?thesis by blast
qed

section \<open>Generation with a paged cache\<close>

lemma decode_with_paged_step:
  assumes "qs_cache st = Some s \<and> qs_last_logits st = logits" "greedy_sample logits = Ok t"
    and "decode_token_with_cache paged_store model t s = (s', Ok logits')"
  shows "\<exists>st'. decode_with_paged_cache model st = (st', Ok t) \<and> qs_cache st' = Some s' \<and> qs_last_logits st' = logits'"
  using assms by (simp add: decode_with_paged_cache_def)

lemma allocate_OkD:
  assumes "pool_layout (pa_layout a)" "allocate a cap = (a', Ok cache)"
  shows "paged_new_with_page_table (cache_layout_for (pa_layout a) cap) (take (pages_for (pa_layout a) cap) (pa_free_pages a)) =
      Ok cache"
    and "a' = a\<lparr>pa_free_pages := drop (pages_for (pa_layout a) cap) (pa_free_pages a)\<rparr>"
    and "0 < cap" "cap \<le> kl_capacity_tokens (pl_base (pa_layout a))"
proof -
  have "\<not> (cap = 0 \<or> kl_capacity_tokens (pl_base (pa_layout a)) < cap)"
  proof
    assume "cap = 0 \<or> kl_capacity_tokens (pl_base (pa_layout a)) < cap"
    from allocate_out_of_range [OF this] assms(2) show False by auto
  qed
  then show cap: "0 < cap" "cap \<le> kl_capacity_tokens (pl_base (pa_layout a))" by simp_all
  show "paged_new_with_page_table (cache_layout_for (pa_layout a) cap) (take (pages_for (pa_layout a) cap) (pa_free_pages a)) =
      Ok cache"
    "a' = a\<lparr>pa_free_pages := drop (pages_for (pa_layout a) cap) (pa_free_pages a)\<rparr>"
    using allocate_eq [OF assms(1) cap refl] assms(2) by (auto simp: err_defs split: if_splits outcome.splits)
qed

lemma allocated_cache:
  assumes "pool_layout (pa_layout a)" "allocate a cap = (a', Ok cache)"
  shows "paged_wf cache" "\<not> kt_released (paged_view cache)"
    "pl_base (pc_layout cache) = (pl_base (pa_layout a))\<lparr>kl_capacity_tokens := cap\<rparr>"
    "pc_page_table cache = take (pages_for (pa_layout a) cap) (pa_free_pages a)" "\<not> pc_released cache"
proof -
  note new = allocate_OkD [OF assms]
  have pos: "positive_layout (pl_base (cache_layout_for (pa_layout a) cap))"
    "0 < pl_page_size_tokens (cache_layout_for (pa_layout a) cap)"
    using assms(1) new(3) by (auto simp: pool_layout_def positive_layout_def)
  from paged_new_OkD [OF new(1) pos]
  show "paged_wf cache" "\<not> kt_released (paged_view cache)"
    "pl_base (pc_layout cache) = (pl_base (pa_layout a))\<lparr>kl_capacity_tokens := cap\<rparr>"
    "pc_page_table cache = take (pages_for (pa_layout a) cap) (pa_free_pages a)" "\<not> pc_released cache"
    by (auto simp: zero_table_def Let_def)
qed

lemma allocator_for_layout:
  assumes "config_ok c" "allocator_for_qwen2_5 c capacity page_size pages = Ok a"
  shows "pool_layout (pa_layout a)"
    and "k \<le> cap \<Longrightarrow> validate_cache_layout_for_model c ((pl_base (pa_layout a))\<lparr>kl_capacity_tokens := cap\<rparr>) k = Ok ()"
proof -
  obtain base layout where base: "qwen2_5_kv_layout c capacity = Ok base"
    and layout: "paged_layout_new base page_size pages = Ok layout" and a: "allocator_new layout = Ok a"
    using assms(2) by (auto simp: allocator_for_qwen2_5_def res_simps)
  note l = config_positive_layout [OF assms(1) base]
  have fields: "pa_layout a = layout" using a by (auto simp: allocator_new_def res_simps)
  show "pool_layout (pa_layout a)" unfolding fields using paged_layout_new_pool_layout [OF layout l(1,4,5)] .
  have b: "pl_base layout = base" using layout by (auto simp: paged_layout_new_Ok_iff)
  show "k \<le> cap \<Longrightarrow> validate_cache_layout_for_model c ((pl_base (pa_layout a))\<lparr>kl_capacity_tokens := cap\<rparr>) k = Ok ()"
    unfolding fields b
    using base by (auto simp: qwen2_5_kv_layout_def kv_cache_layout_new_def validate_cache_layout_for_model_def
        split: if_splits)
qed

text \<open>
  C2. Generating with a paged KV cache gives the tokens of generating without one: for every
  allocator of the model, whatever its page size and however its pages are scattered, and every
  capacity that it grants and that holds the prompt and \<open>n\<close> new tokens, preparing the cache and
  taking \<open>n\<close> cached steps returns exactly the tokens of \<open>n\<close> prefills of the growing prompt.
\<close>

theorem paged_generation_matches:
  assumes "qm_kernels model = cpu_text_kernels m self"
    and "network_ok (qm_config model) (qm_weights model) (length prompt + n)"
    and "tokens_ok (qm_config model) prompt" and "length prompt + n \<le> qc_context_length (qm_config model)"
    and "allocator_for_qwen2_5 (qm_config model) capacity page_size pages = Ok a0" and "pa_layout a = pa_layout a0"
    and "allocate a cap = (a', Ok cache)" and "length prompt + n \<le> cap"
  shows "\<exists>state state' tokens. prepare_paged_cache model prompt a cap = (a', Ok state) \<and>
    decode_tokens (decode_with_paged_cache model) state n = (state', Ok tokens) \<and>
    decode_alone (decode_one_token model) prompt n = Ok tokens"
proof -
  let ?c = "qm_config model" and ?w = "qm_weights model"
    and ?G = "\<lambda>st s logits. qs_cache st = Some s \<and> qs_last_logits st = logits"
  have c: "config_ok ?c" using assms(2) by (simp add: network_ok_def model_ok_def)
  note layout = allocator_for_layout [OF c assms(5)]
  note new = allocated_cache [OF layout(1) [folded assms(6)] assms(7)]
  have ok: "network_ok ?c ?w (length prompt)"
    using assms(3) by (intro network_ok_mono [OF assms(2)]) (simp_all add: tokens_ok_def)
  have valid: "validate_cache_layout_for_model ?c (ks_layout paged_store cache) k = Ok ()" if "k \<le> cap" for k
    using layout(2) [OF that] by (simp add: new(3) assms(6))
  have "length prompt \<le> cap" using assms(8) by simp
  from cpu_paged.prefill_cached [OF refl refl assms(1) ok assms(3) new(1,2) valid [OF this]] obtain s'
    where s': "prefill_with_cache paged_store model prompt cache = (s', Ok (qwen_logits (cpu_text_rows m) ?c ?w prompt))"
      "paged_wf s'" "holds_prompt (cpu_text_rows m) ?c ?w prompt (paged_view s')"
      "ks_layout paged_store s' = ks_layout paged_store cache" by blast
  let ?st = "\<lparr>qs_cache = Some s', qs_last_logits = qwen_logits (cpu_text_rows m) ?c ?w prompt\<rparr>"
  have start: "?G ?st s' (qwen_logits (cpu_text_rows m) ?c ?w prompt)" by simp
  have valid': "validate_cache_layout_for_model ?c (ks_layout paged_store s') (length prompt + n) = Ok ()"
    unfolding s'(4) by (rule valid [OF assms(8)])
  have "\<exists>st' out. decode_tokens (decode_with_paged_cache model) ?st n = (st', Ok out) \<and>
      decode_alone (decode_one_token model) prompt n = Ok out"
    by (rule cpu_paged.cached_generation [where G = ?G, OF refl refl assms(1) _ start s'(2,3) assms(2-4) valid'])
      (rule decode_with_paged_step)
  moreover have "prepare_paged_cache model prompt a cap = (a', Ok ?st)"
    using assms(7,8) s'(1) by (simp add: prepare_paged_cache_def)
  ultimately show ?thesis by blast
qed

section \<open>What a failed pass leaves behind\<close>

text \<open>
  A pass changes its cache only through the store's own methods, whatever the kernels do and
  wherever it stops: what these methods preserve is preserved.
\<close>

lemma and_then_st_keeps:
  "I (fst r) \<Longrightarrow> (\<And>s x. I s \<Longrightarrow> I (fst (f s x))) \<Longrightarrow> I (fst (and_then_st r f))"
  by (cases "(r, f)" rule: and_then_st.cases) simp_all

lemma try_fold_st_keeps:
  "I s \<Longrightarrow> (\<And>s b x. I s \<Longrightarrow> I (fst (f s b x))) \<Longrightarrow> I (fst (try_fold_st f s b xs))"
  by (induction xs arbitrary: s b) (simp_all add: and_then_st_keeps)

lemma stored_keeps: "I s \<Longrightarrow> (\<And>s'. r = Ok s' \<Longrightarrow> I s') \<Longrightarrow> I (fst (stored s r))"
  by (cases r) simp_all

locale store_invariant =
  fixes store :: "'s kv_cache_store" and I :: "'s \<Rightarrow> bool"
  assumes set_len_keeps: "I s \<Longrightarrow> op_set_len (ks_ops store) s n = Ok s' \<Longrightarrow> I s'"
    and write_keeps: "I s \<Longrightarrow> op_write (ks_ops store) s l p k v = Ok s' \<Longrightarrow> I s'"
begin

lemma write_positions_keeps:
  assumes "I s"
  shows "I (fst (write_positions store l seq w k v s))"
  unfolding write_positions_def Let_def
proof (rule try_fold_st_keeps [where I = I, OF assms])
  fix s b pos
  assume "I s"
  then show "I (fst (and_then_st (s, slice k (pos * w) (pos * w + w)) (\<lambda>s key.
      and_then_st (s, slice v (pos * w) (pos * w + w)) (\<lambda>s val. stored s (op_write (ks_ops store) s l pos key val)))))"
    by (intro and_then_st_keeps [where I = I] stored_keeps [where I = I]) (simp_all, erule (1) write_keeps)
qed

definition held :: "'s option \<Rightarrow> bool" where
  "held cache \<longleftrightarrow> (\<exists>s. cache = Some s \<and> I s)"

lemma with_cache_keeps: "held cache \<Longrightarrow> (\<And>s. I s \<Longrightarrow> I (fst (f s))) \<Longrightarrow> held (fst (with_cache cache f b))"
  by (auto simp: held_def split: prod.split) (metis fst_conv)

lemma prefill_layer_keeps:
  assumes "held cache"
  shows "held (fst (prefill_layer kernels store cfg eps theta seq q_out kv_out cache b x))"
proof -
  obtain l layer where x: "x = (l, layer)" by (cases x)
  show ?thesis
    unfolding prefill_layer_def x prod.case
    by (intro and_then_st_keeps [where I = held] with_cache_keeps write_positions_keeps; (split prod.split)?)
      (use assms in \<open>auto intro!: and_then_st_keeps [where I = held] with_cache_keeps write_positions_keeps\<close>)
qed

lemma set_len_stored_keeps: "I s \<Longrightarrow> I (fst (stored s (op_set_len (ks_ops store) s n)))"
  by (rule stored_keeps [where I = I]) (auto dest: set_len_keeps)

lemma prefill_impl_keeps:
  assumes "held cache"
  shows "held (fst (prefill_impl store self tokens cache))"
  unfolding prefill_impl_def Let_def
  using assms
  by (auto intro!: and_then_st_keeps [where I = held] try_fold_st_keeps [where I = held] prefill_layer_keeps
      with_cache_keeps set_len_stored_keeps)

lemma prefill_with_cache_keeps:
  assumes "I cache"
  shows "I (fst (prefill_with_cache store self tokens cache))"
  unfolding prefill_with_cache_def
proof (intro and_then_st_keeps [where I = I], goal_cases)
  case 1
  show ?case using assms by simp
next
  case (2 s x)
  then show ?case by (rule set_len_stored_keeps)
next
  case (3 s x s' y)
  have "held (Some s')" using 3 by (simp add: held_def)
  from prefill_impl_keeps [OF this, of self tokens] show ?case
    by (auto simp: held_def split: prod.split option.split)
qed

lemma decode_layer_keeps:
  assumes "I cache"
  shows "I (fst (decode_layer kernels store cfg eps theta position next_len q_out kv_out cache b x))"
proof -
  obtain k_cache v_cache buffers where b: "b = (k_cache, v_cache, buffers)" by (cases b)
  obtain l layer where x: "x = (l, layer)" by (cases x)
  show ?thesis
    unfolding decode_layer_def x b prod.case
    using assms
    by (auto intro!: and_then_st_keeps [where I = I] stored_keeps [where I = I] dest: write_keeps)
qed

lemma decode_token_keeps:
  assumes "I cache"
  shows "I (fst (decode_token_with_cache store self token cache))"
  unfolding decode_token_with_cache_def Let_def
  using assms
  by (auto intro!: and_then_st_keeps [where I = I] try_fold_st_keeps [where I = I] decode_layer_keeps
      set_len_stored_keeps split: prod.split)

end

interpretation paged_pages: store_invariant paged_store "\<lambda>c. pc_page_table c = table \<and> \<not> pc_released c" for table
  by unfold_locales (auto dest: paged_fields_kept)

definition owns :: "paged_kv_cache option qwen_cache_state \<Rightarrow> usize list \<Rightarrow> bool" where
  "owns state table \<longleftrightarrow> (\<exists>cache. qs_cache state = Some cache \<and> pc_page_table cache = table \<and> \<not> pc_released cache)"

lemma decode_keeps_pages: "owns state table \<Longrightarrow> owns (fst (decode_with_paged_cache model state)) table"
proof -
  assume "owns state table"
  then obtain cache where cache: "qs_cache state = Some cache" "pc_page_table cache = table \<and> \<not> pc_released cache"
    by (auto simp: owns_def)
  have "owns (fst (let (cache, logits) = decode_token_with_cache paged_store model token cache in
      and_then_st (state\<lparr>qs_cache := Some cache\<rparr>, logits) (\<lambda>state logits. (state\<lparr>qs_last_logits := logits\<rparr>, Ok token)))) table"
    for token
    using paged_pages.decode_token_keeps [OF cache(2), of model token]
    by (cases "decode_token_with_cache paged_store model token cache"; cases "snd (decode_token_with_cache paged_store model token cache)")
      (simp_all add: owns_def)
  then show ?thesis
    using \<open>owns state table\<close> unfolding decode_with_paged_cache_def
    by (cases "greedy_sample (qs_last_logits state)") (simp_all add: cache(1))
qed

lemma decode_tokens_keep_pages:
  "owns state table \<Longrightarrow> owns (fst (decode_tokens (decode_with_paged_cache model) state n)) table"
proof (induction n arbitrary: state)
  case (Suc n)
  let ?I = "\<lambda>state. owns state table"
  have "?I (fst (and_then_st (decode_with_paged_cache model state) (\<lambda>state token.
      and_then_st (decode_tokens (decode_with_paged_cache model) state n) (\<lambda>state tokens. (state, Ok (token # tokens))))))"
  proof (rule and_then_st_keeps [where I = ?I])
    show "?I (fst (decode_with_paged_cache model state))" by (rule decode_keeps_pages [OF Suc.prems])
    show "?I (fst (and_then_st (decode_tokens (decode_with_paged_cache model) s n) (\<lambda>state tokens. (state, Ok (x # tokens)))))"
      if "?I s" for s x by (rule and_then_st_keeps [where I = ?I]) (simp_all add: Suc.IH [OF that])
  qed
  then show ?case by simp
qed simp

lemma release_owned: "owns state table \<Longrightarrow> snd (release_into state a) = a\<lparr>pa_free_pages := sort (pa_free_pages a @ table)\<rparr>"
  by (auto simp: owns_def release_into_def allocator_release_def paged_release_def)

text \<open>
  C6. A request returns its pages exactly: when a paged prefill fails, at whatever call and for
  whatever kernels, the allocator is the one before the request; when it succeeds, releasing the
  state after any number of decode steps, failed ones included, gives that allocator back, and
  releasing it again changes nothing.
\<close>

theorem paged_pages_returned:
  assumes "pool_layout (pa_layout a)" and "sorted (pa_free_pages a)"
    and "prepare_paged_cache model prompt a cap = (a1, r)"
  shows "(\<forall>e. r = Err e \<longrightarrow> a1 = a) \<and>
    (\<forall>state n. r = Ok state \<longrightarrow>
      (let state' = fst (decode_tokens (decode_with_paged_cache model) state n); (released, a2) = release_into state' a1 in
       a2 = a \<and> snd (release_into released a2) = a2))"
proof (cases "cap < length prompt \<or> (\<exists>a' e. allocate a cap = (a', Err e)) \<or> (\<exists>a'. allocate a cap = (a', Panic))")
  case True
  have refused: "a' = a" if "allocate a cap = (a', Err e)" for a' e
  proof (cases "cap = 0 \<or> kl_capacity_tokens (pl_base (pa_layout a)) < cap")
    case True
    from allocate_out_of_range [OF this] that show ?thesis by auto
  next
    case False
    then have cap: "0 < cap" "cap \<le> kl_capacity_tokens (pl_base (pa_layout a))" by simp_all
    show ?thesis
      using allocate_eq [OF assms(1) cap refl] that put_back_sorted [OF assms(2)]
      by (auto split: if_splits outcome.splits)
  qed
  show ?thesis
  proof (cases "cap < length prompt")
    case True
    then show ?thesis using assms(3) by (auto simp: prepare_paged_cache_def invalid_request_def)
  next
    case False
    with True refused show ?thesis using assms(3) by (auto simp: prepare_paged_cache_def)
  qed
next
  case False
  obtain a' q where "allocate a cap = (a', q)" by (cases "allocate a cap")
  with False obtain cache where alloc: "allocate a cap = (a', Ok cache)" by (cases q) auto
  let ?n = "pages_for (pa_layout a) cap"
  note a' = allocate_OkD(2) [OF assms(1) alloc] and new = allocated_cache(4,5) [OF assms(1) alloc]
  have returned: "a'\<lparr>pa_free_pages := sort (pa_free_pages a' @ take ?n (pa_free_pages a))\<rparr> = a"
    using put_back_sorted [OF assms(2), of ?n] by (simp add: a')
  obtain cache' res where prefill: "prefill_with_cache paged_store model prompt cache = (cache', res)"
    by (cases "prefill_with_cache paged_store model prompt cache")
  have kept: "pc_page_table cache' = take ?n (pa_free_pages a)" "\<not> pc_released cache'"
    using paged_pages.prefill_with_cache_keeps [where table = "take ?n (pa_free_pages a)" and cache = cache
        and self = model and tokens = prompt] new prefill by simp_all
  show ?thesis
  proof (cases res)
    case (Ok logits)
    then have prepared: "a1 = a'" "r = Ok \<lparr>qs_cache = Some cache', qs_last_logits = logits\<rparr>"
      using assms(3) alloc prefill False by (simp_all add: prepare_paged_cache_def)
    have "owns \<lparr>qs_cache = Some cache', qs_last_logits = logits\<rparr> (take ?n (pa_free_pages a))"
      using kept by (simp add: owns_def)
    from release_owned [OF decode_tokens_keep_pages [OF this], of model _ a'] returned
    have "snd (release_into (fst (decode_tokens (decode_with_paged_cache model)
        \<lparr>qs_cache = Some cache', qs_last_logits = logits\<rparr> n)) a') = a" for n by simp
    moreover have "snd (release_into (fst (release_into st al)) al') = al'" for st al al' by (simp add: release_into_def)
    ultimately show ?thesis unfolding prepared by (auto simp: Let_def split: prod.split) (metis fst_conv snd_conv)+
  next
    case (Err e)
    then show ?thesis
      using assms(3) alloc prefill False kept returned
      by (auto simp: prepare_paged_cache_def allocator_release_def paged_release_def)
  next
    case Panic
    then show ?thesis using assms(3) alloc prefill False by (simp add: prepare_paged_cache_def)
  qed
qed

section \<open>Batched generation\<close>

text \<open>When a batch is accepted: within the queue, without repeated ids, and each request within the limits.\<close>

definition submittable :: "(nat \<Rightarrow> bool) \<Rightarrow> request_limits \<Rightarrow> generation_request \<Rightarrow> bool" where
  "submittable reserve limits request \<longleftrightarrow>
     sr_prompt_tokens request \<noteq> [] \<and> 0 < sr_max_new_tokens request \<and>
     is_ok (validate_generation limits (length (sr_prompt_tokens request)) (sr_max_new_tokens request)) \<and>
     reserve (sr_max_new_tokens request)"

definition batch_accepted :: "(nat \<Rightarrow> bool) \<Rightarrow> scheduler_config \<Rightarrow> generation_request list \<Rightarrow> bool" where
  "batch_accepted reserve config requests \<longleftrightarrow>
     length requests \<le> sc_max_queue_len config \<and> distinct (map sr_request_id requests) \<and>
     list_all (submittable reserve default_request_limits) requests"

lemma submit_waiting:
  assumes "sch_active s = []" "sch_completed s = []"
  shows "if length (sch_pending s) < sc_max_queue_len (sch_config s) \<and> submittable reserve (sch_limits s) request \<and>
      sr_request_id request \<notin> rs_request_id ` set (sch_pending s)
    then \<exists>t. submit reserve s request = (t, Ok ()) \<and> sch_active t = [] \<and> sch_completed t = [] \<and>
      sch_pending t = sch_pending s @ [queued_slot request] \<and> sch_config t = sch_config s \<and> sch_limits t = sch_limits s
    else \<exists>e. submit reserve s request = (s, Err e)"
proof -
  have "accepts reserve s request \<longleftrightarrow> length (sch_pending s) < sc_max_queue_len (sch_config s) \<and>
      submittable reserve (sch_limits s) request \<and> sr_request_id request \<notin> rs_request_id ` set (sch_pending s)"
    by (auto simp: accepts_def submittable_def live_ids_def assms)
  then show ?thesis
    using submit_cases [of reserve s request]
    by (simp add: assms Let_def start_new_batch_history_if_idle_def split: if_splits)
qed

lemma submit_all:
  assumes "sch_active s = []" "sch_completed s = []"
  shows "if requests = [] \<or> length (sch_pending s) + length requests \<le> sc_max_queue_len (sch_config s) \<and>
      distinct (map sr_request_id requests) \<and> list_all (submittable reserve (sch_limits s)) requests \<and>
      sr_request_id ` set requests \<inter> rs_request_id ` set (sch_pending s) = {}
    then \<exists>t. try_fold_st (\<lambda>scheduler _ request. submit reserve scheduler request) s () requests = (t, Ok ()) \<and>
      sch_active t = [] \<and> sch_completed t = [] \<and> sch_pending t = sch_pending s @ map queued_slot requests
    else \<exists>t e. try_fold_st (\<lambda>scheduler _ request. submit reserve scheduler request) s () requests = (t, Err e)"
  using assms
proof (induction requests arbitrary: s)
  case (Cons request requests)
  let ?here = "length (sch_pending s) < sc_max_queue_len (sch_config s) \<and> submittable reserve (sch_limits s) request \<and>
      sr_request_id request \<notin> rs_request_id ` set (sch_pending s)"
  note step = submit_waiting [OF Cons.prems, of reserve request]
  show ?case
  proof (cases ?here)
    case True
    from step [unfolded if_P [OF True]] obtain t where t: "submit reserve s request = (t, Ok ())" "sch_active t = []" "sch_completed t = []"
      "sch_pending t = sch_pending s @ [queued_slot request]" "sch_config t = sch_config s" "sch_limits t = sch_limits s"
      by blast
    have id: "rs_request_id (queued_slot request) = sr_request_id request" by (simp add: queued_slot_def)
    from Cons.IH [OF t(2,3)] True show ?thesis
      by (simp add: t(1,4-6) id image_Un Int_Un_distrib conj_ac split: if_splits) auto
  next
    case False
    from step [unfolded if_not_P [OF False]] obtain e where "submit reserve s request = (s, Err e)" by blast
    with False show ?thesis by (auto simp: image_iff)
  qed
qed simp

lemma decode_alone_within_context:
  assumes kernels: "qm_kernels model = cpu_text_kernels m self"
  shows "network_ok (qm_config model) (qm_weights model) (length tokens + n) \<Longrightarrow> tokens_ok (qm_config model) tokens \<Longrightarrow>
    length tokens + n \<le> qc_context_length (qm_config model) \<Longrightarrow>
    is_ok (decode_alone (decode_one_token model) tokens n)"
proof (induction n arbitrary: tokens)
  case (Suc n)
  let ?c = "qm_config model" and ?w = "qm_weights model"
  let ?logits = "qwen_logits (cpu_text_rows m) ?c ?w tokens"
  have "network_ok ?c ?w (length tokens)"
    using Suc.prems(2) by (intro network_ok_mono [OF Suc.prems(1)]) (simp_all add: tokens_ok_def)
  note prefill = cpu_text.uncached_prefill [OF refl refl kernels this Suc.prems(2)]
  have "0 < qc_vocab_size ?c" using Suc.prems(1) by (simp add: network_ok_def model_ok_def config_ok_def)
  from nonempty_length [OF cpu_text.length_qwen_logits this] have "?logits \<noteq> []" by simp
  from greedy_sample_bound [OF this] obtain t where t: "greedy_sample ?logits = Ok t" "unat t < qc_vocab_size ?c" by auto
  have "is_ok (decode_alone (decode_one_token model) (tokens @ [t]) n)"
    by (rule Suc.IH) (use Suc.prems t(2) in \<open>simp_all add: tokens_ok_def\<close>)
  moreover have "decode_one_token model tokens = Ok t" using prefill t(1) by (simp add: decode_one_token_def)
  ultimately show ?case by (auto simp: is_ok_iff)
qed simp

lemma submit_all_inv:
  "try_fold_st (\<lambda>scheduler _ request. submit reserve scheduler request) s () requests = (t, r) \<Longrightarrow>
    scheduler_inv s \<Longrightarrow> scheduler_inv t"
  using try_fold_st_keeps [of scheduler_inv s "\<lambda>scheduler _ request. submit reserve scheduler request" "()" requests]
  by (metis fst_conv prod.collapse submit_inv)

text \<open>The answer to a request decoded alone.\<close>

definition answer :: "qwen_model \<Rightarrow> generation_request \<Rightarrow> generation_response \<Rightarrow> bool" where
  "answer model request response \<longleftrightarrow>
     sp_request_id response = sr_request_id request \<and>
     decode_alone (decode_one_token model) (sr_prompt_tokens request) (sr_max_new_tokens request) = Ok (sp_tokens response)"

text \<open>
  C7. Batched generation always ends, without a panic, on every CPU backend: it succeeds exactly
  when the batch is accepted and every request can be decoded alone, and then it answers every
  request exactly once, with the tokens that decoding it alone yields.
\<close>

theorem qwen_batch_answers:
  assumes "qm_kernels model = cpu_text_kernels m self"
    and "network_ok (qm_config model) (qm_weights model) (qc_context_length (qm_config model))"
  shows "\<exists>r. generate_qwen_batch reserve model requests config = Some r \<and> r \<noteq> Panic \<and>
    (is_ok r \<longleftrightarrow> batch_accepted reserve config requests \<and>
      list_all (\<lambda>request. is_ok (decode_alone (decode_one_token model) (sr_prompt_tokens request) (sr_max_new_tokens request))) requests) \<and>
    (\<forall>responses. r = Ok responses \<longrightarrow>
      (\<exists>answers. list_all2 (answer model) requests answers \<and> mset responses = mset answers))"
proof (cases "batch_accepted reserve config requests")
  case True
  let ?decode = "decode_one_token model"
  have no_panic: "\<forall>p. ?decode p \<noteq> Panic" using decode_one_token_no_Panic [OF assms] by blast
  obtain s where submitted: "try_fold_st (\<lambda>scheduler _ request. submit reserve scheduler request)
      (scheduler_new config) () requests = (s, Ok ())"
    and s: "sch_active s = []" "sch_completed s = []" "sch_pending s = map queued_slot requests"
    using submit_all [of "scheduler_new config" requests reserve] True
    by (auto simp: batch_accepted_def scheduler_new_def)
  have inv: "scheduler_inv s" by (rule submit_all_inv [OF submitted scheduler_new_inv])
  have served: "served s = map queued_slot requests" by (simp add: served_def s not_canceled_def)
  have rest: "slot_rest ?decode (queued_slot request) =
      decode_alone ?decode (sr_prompt_tokens request) (sr_max_new_tokens request)" for request
    by (simp add: slot_rest_def remaining_def queued_slot_def)
  obtain s' r where run: "run_to_completion ?decode s = Some (s', r)" "r \<noteq> Panic"
    and iff: "is_ok r \<longleftrightarrow> (\<forall>slot \<in> set (served s). is_ok (slot_rest ?decode slot))"
    and res: "is_ok r \<longrightarrow> r = Ok (owed ?decode s)"
    using run_to_completion_result [OF inv no_panic] by blast
  have answers: "list_all2 (answer model) requests (map (response_of ?decode) (served s))" if "is_ok r"
  proof -
    have "answer model request (response_of ?decode (queued_slot request))" if "request \<in> set requests" for request
    proof -
      have "is_ok (slot_rest ?decode (queued_slot request))" using iff \<open>is_ok r\<close> that by (simp add: served)
      then show ?thesis
        using rest [of request]
        by (auto simp: is_ok_iff answer_def response_of_def rest_tokens_def) (simp_all add: queued_slot_def)
    qed
    then show ?thesis by (simp add: served list_all2_conv_all_nth)
  qed
  have "mset (owed ?decode s) = mset (map (response_of ?decode) (served s))" by (simp add: owed_def s(2))
  moreover have "is_ok r \<longleftrightarrow> list_all (\<lambda>request. is_ok (decode_alone ?decode (sr_prompt_tokens request)
      (sr_max_new_tokens request))) requests"
    by (simp add: iff served rest list_all_iff)
  ultimately show ?thesis
    using answers res run True by (auto simp: generate_qwen_batch_def submitted is_ok_iff)
next
  case False
  then obtain t e where "try_fold_st (\<lambda>scheduler _ request. submit reserve scheduler request)
      (scheduler_new config) () requests = (t, Err e)"
    using submit_all [of "scheduler_new config" requests reserve]
    by (auto simp: batch_accepted_def scheduler_new_def split: if_splits)
  with False show ?thesis by (simp add: generate_qwen_batch_def)
qed

section \<open>A small model\<close>

definition example_config :: qwen_config where
  "example_config =
     \<lparr>qc_vocab_size = 2, qc_num_hidden_layers = 1, qc_hidden_size = 2, qc_intermediate_size = 1,
      qc_num_attention_heads = 1, qc_num_key_value_heads = 1, qc_head_dim = 2, qc_context_length = 4,
      qc_rope_theta = 0x40C3880000000000, qc_rms_norm_eps = 0x3FF0000000000000, qc_dtype = F32\<rparr>"

definition example_weights :: qwen_weights where
  "example_weights =
     \<lparr>qw_embed_tokens = [0x3F800000, 0, 0, 0x3F800000],
      qw_layers = [\<lparr>lw_q_proj_w = [0, 0, 0, 0], lw_q_proj_b = [0, 0], lw_k_proj_w = [0, 0, 0, 0], lw_k_proj_b = [0, 0],
        lw_v_proj_w = [0, 0, 0, 0], lw_v_proj_b = [0, 0], lw_o_proj_w = [0, 0, 0, 0],
        lw_input_layernorm_w = [0x3F800000, 0x3F800000], lw_post_attention_layernorm_w = [0x3F800000, 0x3F800000],
        lw_gate_proj_w = [0, 0], lw_up_proj_w = [0, 0], lw_down_proj_w = [0, 0]\<rparr>],
      qw_final_norm_w = [0x3F800000, 0x3F800000], qw_lm_head_w = [0x3F800000, 0, 0, 0x3F800000],
      qw_tie_word_embeddings = False\<rparr>"

definition example_libm :: libm where
  "example_libm = \<lparr>lm_exp = (\<lambda>x. 0x3F800000), lm_tanh = (\<lambda>x. x), lm_powf = (\<lambda>x y. x), lm_cos = (\<lambda>x. 0x3F800000), lm_sin = (\<lambda>x. 0)\<rparr>"

definition example_model :: qwen_model where
  "example_model =
     \<lparr>qm_config = example_config, qm_weights = example_weights,
      qm_kernels = cpu_text_kernels example_libm cpu_scalar\<rparr>"

lemma f32_of_f64_one: "f32_of_f64 0x3FF0000000000000 = f32_one"
proof -
  have one: "f64_rat 0x3FF0000000000000 = 1" "\<not> f64_negative 0x3FF0000000000000"
    by (simp_all add: f64_rat_def f64_magnitude_def f64_negative_def Let_def)
  have "f32_rat f32_one = 1" "f32_is_finite f32_one" "\<not> f32_negative f32_one"
    by (simp_all add: f32_rat_def f32_one_def f32_is_finite_def f32_magnitude_def f32_negative_def Let_def)
  with f32_round_rat [of f32_one] have "f32_round False 1 = f32_one" by simp
  then show ?thesis
    using one by (simp add: f32_of_f64_def f64_is_nan_def f64_is_infinite_def f64_magnitude_def)
qed

lemma example_config_ok: "config_ok example_config"
proof -
  have "f64_is_finite 0x40C3880000000000 \<and> \<not> f64_le_zero 0x40C3880000000000"
    "f64_is_finite 0x3FF0000000000000 \<and> \<not> f64_le_zero 0x3FF0000000000000"
    unfolding f64_positive_iff by simp_all
  then show ?thesis by (simp add: config_ok_def example_config_def)
qed

lemma example_model_ok: "model_ok example_config example_weights"
proof -
  have "(4::nat) \<le> max64" by (simp add: max64_def)
  then show ?thesis unfolding model_ok_def
    by (simp add: example_config_ok) (simp add: example_config_def example_weights_def layer_ok_def)
qed

lemma example_network_ok: "network_ok (qm_config example_model) (qm_weights example_model) 4"
proof -
  have "epsilon_ok f32_one"
    by (simp add: epsilon_ok_def f32_is_finite_def f32_lt_def f32_rank_def f32_magnitude_def f32_negative_def f32_one_def)
  moreover have "eps_of example_config = f32_one" by (simp add: example_config_def f32_of_f64_one)
  moreover have "within_memory example_config 4" by (simp add: within_memory_def example_config_def)
  ultimately show ?thesis
    unfolding network_ok_def by (simp add: example_model_def example_model_ok)
qed

lemma example_kernels: "qm_kernels example_model = cpu_text_kernels example_libm cpu_scalar"
  by (simp add: example_model_def)

lemma example_prompt:
  "tokens_ok (qm_config example_model) [0, 1]"
  "length [0, 1 :: token_id] + 2 \<le> qc_context_length (qm_config example_model)"
  "network_ok (qm_config example_model) (qm_weights example_model) (length [0, 1 :: token_id] + 2)"
proof -
  have "length [0, 1 :: token_id] + 2 = 4" by simp
  from example_network_ok [folded this]
  show "network_ok (qm_config example_model) (qm_weights example_model) (length [0, 1 :: token_id] + 2)" .
qed (simp_all add: tokens_ok_def example_model_def example_config_def)

lemma example_layout:
  "qwen2_5_kv_layout (qm_config example_model) 4 =
     Ok \<lparr>kl_num_layers = 1, kl_num_key_value_heads = 1, kl_capacity_tokens = 4, kl_head_dim = 2, kl_dtype = F32, kl_device = Cpu\<rparr>"
  by (simp add: qwen2_5_kv_layout_def kv_cache_layout_new_def example_model_def example_config_def)

lemma example_contiguous: "\<exists>cache. contiguous_for_qwen2_5 (qm_config example_model) = Ok cache"
proof -
  have "qc_context_length (qm_config example_model) = 4" by (simp add: example_model_def example_config_def)
  then show ?thesis
    by (simp add: contiguous_for_qwen2_5_def example_layout contiguous_new_def validate_cpu_f32_layout_def
        values_per_all_key_tensors_def checked_product_def checked_mul_def max64_def zeroed_vec_def)
qed

definition example_allocator :: paged_allocator where
  "example_allocator =
     \<lparr>pa_layout = \<lparr>pl_base = \<lparr>kl_num_layers = 1, kl_num_key_value_heads = 1, kl_capacity_tokens = 4, kl_head_dim = 2,
        kl_dtype = F32, kl_device = Cpu\<rparr>, pl_page_size_tokens = 2, pl_physical_pages = 3\<rparr>,
      pa_free_pages = [0, 1, 2]\<rparr>"

lemma example_allocator_for:
  "allocator_for_qwen2_5 (qm_config example_model) 4 2 3 = Ok example_allocator"
proof -
  have pages: "[0..<3] = [0, 1, 2::nat]" by code_simp
  show ?thesis
    by (simp add: allocator_for_qwen2_5_def example_layout paged_layout_new_def required_pages_for_tokens_def
        checked_div_def checked_add_def minus_u64_def max64_def allocator_new_def validate_cpu_f32_layout_def pages example_allocator_def)
qed

lemma example_pool: "pool_layout (pa_layout example_allocator)"
  by (rule allocator_for_layout(1) [OF _ example_allocator_for]) (simp add: example_model_def example_config_ok)

lemma example_allocate: "\<exists>a' cache. allocate example_allocator 4 = (a', Ok cache)"
proof -
  let ?l = "pa_layout example_allocator"
  have l: "pages_for ?l 4 = 2" "allocation_fits ?l 4" "4 \<le> kl_capacity_tokens (pl_base ?l)" "pl_physical_pages ?l = 3"
    and free: "pa_free_pages example_allocator = [0, 1, 2]"
    by (simp_all add: pages_for_def example_allocator_def allocation_fits_def row_width_def)
  obtain c where "paged_new_with_page_table (cache_layout_for ?l 4) [0, 1] = Ok c"
    using paged_new_fits [OF example_pool _ l(3,2), of "[0, 1]"] l(1,4) by auto
  with allocate_eq [OF example_pool _ l(3) refl] show ?thesis by (simp add: l(1) free)
qed

theorem contiguous_generation_matches_witness:
  "\<exists>state state' tokens. prepare_contiguous_cache example_model [0, 1] = Ok state \<and>
    decode_tokens (decode_with_contiguous_cache example_model) state 2 = (state', Ok tokens) \<and>
    decode_alone (decode_one_token example_model) [0, 1] 2 = Ok tokens"
proof -
  obtain cache where "contiguous_for_qwen2_5 (qm_config example_model) = Ok cache" using example_contiguous by blast
  from contiguous_generation_matches [OF example_kernels example_prompt(3,1,2) this] show ?thesis .
qed

theorem paged_generation_matches_witness:
  "\<exists>a' state state' tokens. prepare_paged_cache example_model [0, 1] example_allocator 4 = (a', Ok state) \<and>
    decode_tokens (decode_with_paged_cache example_model) state 2 = (state', Ok tokens) \<and>
    decode_alone (decode_one_token example_model) [0, 1] 2 = Ok tokens"
proof -
  obtain a' cache where alloc: "allocate example_allocator 4 = (a', Ok cache)" using example_allocate by blast
  have cap: "length [0, 1 :: token_id] + 2 \<le> 4" by simp
  from paged_generation_matches [OF example_kernels example_prompt(3,1,2) example_allocator_for refl alloc cap]
  show ?thesis by blast
qed

theorem paged_pages_returned_witness:
  "\<exists>a1 r. prepare_paged_cache example_model [0, 1] example_allocator 4 = (a1, r) \<and>
    (\<forall>e. r = Err e \<longrightarrow> a1 = example_allocator) \<and>
    (\<forall>state. r = Ok state \<longrightarrow> snd (release_into state a1) = example_allocator)"
proof -
  obtain a1 r where r: "prepare_paged_cache example_model [0, 1] example_allocator 4 = (a1, r)" by fastforce
  have free: "sorted (pa_free_pages example_allocator)" by (simp add: example_allocator_def)
  from paged_pages_returned [OF example_pool free r]
  have err: "\<forall>e. r = Err e \<longrightarrow> a1 = example_allocator"
    and ok: "r = Ok state \<longrightarrow> (let state' = fst (decode_tokens (decode_with_paged_cache example_model) state 0);
      (released, a2) = release_into state' a1 in a2 = example_allocator \<and> snd (release_into released a2) = a2)" for state
    by blast+
  have "snd (release_into state a1) = example_allocator" if "r = Ok state" for state
    using ok [of state] that by (cases "release_into state a1") (simp add: Let_def)
  with r err show ?thesis by blast
qed

theorem qwen_batch_answers_witness:
  "\<exists>responses. generate_qwen_batch (\<lambda>_. True) example_model
      [\<lparr>sr_request_id = 1, sr_prompt_tokens = [0, 1], sr_max_new_tokens = 2\<rparr>] default_scheduler_config =
        Some (Ok responses) \<and> size (mset responses) = 1"
proof -
  let ?request = "\<lparr>sr_request_id = 1, sr_prompt_tokens = [0, 1], sr_max_new_tokens = 2\<rparr> :: generation_request"
  have "network_ok (qm_config example_model) (qm_weights example_model) (qc_context_length (qm_config example_model))"
    using example_network_ok by (simp add: example_model_def example_config_def)
  from qwen_batch_answers [OF example_kernels this, of "\<lambda>_. True" "[?request]" default_scheduler_config]
  obtain r where r: "generate_qwen_batch (\<lambda>_. True) example_model [?request] default_scheduler_config = Some r"
    and ok: "is_ok r \<longleftrightarrow> batch_accepted (\<lambda>_. True) default_scheduler_config [?request] \<and>
      list_all (\<lambda>request. is_ok (decode_alone (decode_one_token example_model) (sr_prompt_tokens request) (sr_max_new_tokens request))) [?request]"
    and all: "\<forall>responses. r = Ok responses \<longrightarrow>
      (\<exists>answers. list_all2 (answer example_model) [?request] answers \<and> mset responses = mset answers)" by blast
  have "batch_accepted (\<lambda>_. True) default_scheduler_config [?request]"
    by (simp add: batch_accepted_def submittable_def default_scheduler_config_def default_request_limits_def
        validate_generation_def request_limits_validate_def checked_add_def max64_def)
  moreover have "is_ok (decode_alone (decode_one_token example_model) [0, 1] 2)"
    by (rule decode_alone_within_context [OF example_kernels example_prompt(3,1,2)])
  ultimately obtain responses where "r = Ok responses" using ok by (auto simp: is_ok_iff)
  with all have "\<exists>answers. list_all2 (answer example_model) [?request] answers \<and> mset responses = mset answers" by blast
  then have "size (mset responses) = 1" by (metis One_nat_def length_Cons list.size(3) list_all2_lengthD size_mset)
  with r \<open>r = Ok responses\<close> show ?thesis by blast
qed

end
