(* ===== verification/Spec2Isabelle.thy ===== *)
theory Spec2Isabelle imports Kv_Allocator Sampling Scheduler Qwen_Config Gguf_Tokenizer Gguf_Values Wer Cpu_Backend Parakeet_Decoder Parakeet_Chunk Qwen_Runtime
begin

text \<open>
  Ocelotl, a local inference runtime in Rust: a verification library of its core.

  The program. Ocelotl is a workspace of crates under src/crates. \<open>core\<close> holds the errors, the
  request and artifact limits and the geometry of KV caches. \<open>loader\<close> reads untrusted model
  artifacts (safetensors and GGUF): it inspects a header within stated bounds, then loads tensors
  by name as \<open>f32\<close>. \<open>kernels\<close> computes on slices of \<open>f32\<close>, in a scalar, an optimized and a vector
  mode, with or without a thread pool. \<open>models\<close> binds loaded tensors to networks (Qwen, Gemma,
  Whisper, Parakeet) and runs their forward passes through a kernel backend. \<open>runtime\<close> owns the
  caches, the page allocator, the samplers and the scheduler that drive a network token by
  token. The files named below are relative to src/crates.

  Theories, in the order of the program.
  \<^item> \<open>Ocelotl_Prelude\<close>: results of fallible functions (\<open>outcome\<close>: \<open>Ok\<close>, \<open>Err\<close>, \<open>Panic\<close>) and their
    sequencing (\<open>and_then\<close>, which is the question mark operator, \<open>try_map\<close>, \<open>ok_or\<close>), 64-bit
    sizes and generic lemmas. The collection \<open>res_simps\<close> carries the case analyses.
  \<^item> \<open>Core_Types\<close> (core/src/lib.rs, limits.rs): the error enumeration, tokens, devices, dtypes,
    request and artifact limits with their validation.
  \<^item> \<open>Kv_Layout\<close> (core/src/lib.rs): contiguous and paged cache layouts, their checked size
    arithmetic, page tables. \<open>Kv_Store\<close>: the contract of the trait \<open>KvCacheStore\<close> as the locale
    \<open>kv_store\<close>, a simulation by an abstract store of rows. \<open>Kv_Cache\<close>, \<open>Kv_Paged\<close>
    (runtime/src/kv_cache.rs): the two implementations, each an interpretation of the locale,
    from which their observational equivalence follows. \<open>Kv_Allocator\<close>: the page allocator and
    the step relation \<open>pool_step\<close> of its life with the caches, with page conservation by rule
    induction.
  \<^item> \<open>Sampling\<close> (runtime/src/sampling.rs, whisper/transcribe.rs, models/src/parakeet/decoder.rs):
    the three argmax scans. \<open>Scheduler\<close> (runtime/src/scheduler.rs): the request state machine,
    the round-robin loop, its refinement of independent generations, fairness and termination.
  \<^item> \<open>Qwen_Config\<close> (models/src/qwen/qwen2_5/config.rs): validation of a configuration.
  \<^item> \<open>Byte_Codec\<close>: little-endian numbers. \<open>Gguf_Types\<close>, \<open>Gguf_Reader\<close>, \<open>Gguf_Data\<close>,
    \<open>Gguf_Inspect\<close>, \<open>Gguf_Document\<close>, \<open>Gguf_Tokenizer\<close> (loader/src/gguf_inspect.rs): the data of a
    GGUF header, the bounded reader, the encoding it inverts, the inspection and the extraction
    of the tokenizer. \<open>F32_Arith\<close>, \<open>Gguf_Values\<close> (loader/src/gguf_values.rs): IEEE arithmetic on
    bits, dense tensors and the dequantisation of Q4_K, Q5_K and Q6_K blocks.
  \<^item> \<open>Safetensors\<close>, \<open>Safetensors_Values\<close> (loader/src/safetensors_inspect.rs,
    safetensors_values.rs): header inspection and loading by name.
  \<^item> \<open>Wer\<close> (models/src/whisper/wer.rs): word error rate, with the edit-path table proved least
    among all alignments.
  \<^item> \<open>Kernel_Base\<close>, \<open>Matmul_Kernels\<close>, \<open>Linear_Kernels\<close>, \<open>Cpu_Backend\<close> (kernels/src/lib.rs,
    cpu_avx2.rs, cpu_backend.rs): matrix products and linear layers in every mode, over every
    chunking of the thread pool; the locale \<open>linear_backend\<close> is what a network relies on, and
    the CPU backend is its interpretation.
  \<^item> \<open>Recurrent_Kernel\<close>, \<open>Conv_Kernels\<close> (kernels/src/activation.rs, recurrent.rs, conv.rs): LSTM
    cell and convolutions. \<open>Parakeet_Decoder\<close>, \<open>Parakeet_Chunk\<close> (models/src/parakeet): the
    token-and-duration transducer over any linear backend, and long-form encoding.
  \<^item> \<open>F64_Arith\<close>, \<open>Row_Major\<close>: double-precision reductions and conversions on bits, and row-major
    buffers as lists of rows. \<open>Attention_Kernels\<close>, \<open>Cpu_Attention\<close> (kernels/src/attention.rs,
    cpu_backend.rs): scaled dot-product attention in all variants and its dispatch.
    \<open>Text_Kernels\<close> (rmsnorm.rs, rope.rs, mlp.rs): the row-wise kernels. \<open>Text_Backend\<close>: the
    methods of the trait \<open>KernelBackend\<close> that the text models call; the locale \<open>text_backend\<close>
    promises that each works row by row, and the CPU backend is its interpretation.
  \<^item> \<open>Qwen_Model\<close>, \<open>Qwen_Forward\<close> (models/src/qwen/qwen2_5: mod.rs, weights.rs, model.rs,
    prefill.rs, decode.rs): construction of a model and the calls of a prefill and of a cached
    decode step. \<open>Qwen_Rows\<close> is the specification, the network as functions of the rows of the
    positions; \<open>Qwen_Prefill\<close> and \<open>Qwen_Cached\<close> show that the passes refine it, the latter for
    any store of the locale \<open>cached_store\<close> (an extension of \<open>kv_store\<close>), both contracts joined
    in \<open>qwen_cached\<close>. \<open>Qwen_Runtime\<close> (runtime/src/qwen/mod.rs, kv_cache.rs): greedy generation
    without a cache, with either cache and in batches. There both caches interpret
    \<open>cached_store\<close> and the CPU backend with each of them \<open>qwen_cached\<close>; the locale
    \<open>store_invariant\<close> carries what a failed pass cannot break in a store, and the paged cache
    interprets it with its page table.

  Conventions. \<open>usize\<close> and \<open>u64\<close> are natural numbers with the overflow of each operation written
  out (checked arithmetic gives the error of the code, plain arithmetic gives \<open>Panic\<close>, saturating
  arithmetic saturates); token ids are 32-bit words; \<open>f32\<close> and \<open>f64\<close> are their bits; bytes are
  8-bit words; strings are character lists. An error keeps its variant and the field or feature
  it names, not its message. A file is the list of its bytes, or \<open>None\<close> when it cannot be opened.
  An index out of range and an allocation beyond the address space are panics. An output buffer
  is an argument and the result. Loops that the code ends by a condition on data are functions
  with a measure; no fuel is used, so every definition is total and returning is a theorem only
  of the branch taken.

  Parameters. The JSON parser and the safetensors archive parser, the Unicode tables, the
  functions of the platform's mathematics library (the record \<open>libm\<close>: exponential, hyperbolic
  tangent, power, sine and cosine), rounding through half precision, the features of the host's processor, the
  number of threads of the rayon pool and the outcome of reserving memory are arguments of the
  definitions that use them. A decode model is an argument of the scheduler, a linear layer one
  of the transducer, the Conformer blocks one of the long-form encoder.

  Groups of lemmas. Exactness lemmas say when each validation succeeds and which error it gives
  otherwise. Round trips relate the readers to encoders written here from the format's
  documentation. Equivalences compare optimised and threaded code with its reference bit by bit.
  Invariants and refinements are those of the caches, the allocator, the scheduler and the
  chunk plan. The generation theorems compose them: a kernel backend, a network, a cache, an
  allocator and a sampler or the scheduler. Each numbered property (C1, C2, ...) stands after a text block that states it, and
  is followed by a witness at a concrete input where it has a hypothesis.

  Not modelled. The GPU backend rests on a third-party device runtime; the command line, the
  benchmarks and the server crate are input and output or placeholders. The forward passes of
  Gemma, Whisper, Qwen3.5 and pplx-embed and the Conformer encoder of Parakeet, the binding of
  loaded tensors to weights, the tokenizer crate, the reading of config.json and the generation
  loops of the other model families are left out. What a trained network answers is outside the
  scope: the theorems say that optimised, threaded, cached and batched computations agree with
  the plain one.
\<close>

end
